(* ===== verification/Dx_Prelude.thy ===== *)
theory Dx_Prelude
  imports Main "HOL-Library.Word" "HOL-Library.Multiset"
begin

text \<open>
  Shared vocabulary of the development: the machine-integer types of the C++ code, the
  \<^verbatim>\<open>static_cast<u32>\<close> truncation, the list facts that the component theories share (slices of
  a vector, the order of two elements in a list, tiling of a vector by index ranges) and the
  interface that turns "dependent steps keep their order" into "the run computes the same
  state" (locale \<open>commuting_steps\<close>).
\<close>

section \<open>Machine integers\<close>

unbundle bit_operations_syntax

type_synonym u8 = "8 word"
type_synonym u16 = "16 word"
type_synonym u32 = "32 word"
type_synonym u64 = "64 word"

text \<open>
  Indices and counts of the C++ code are \<^verbatim>\<open>std::size_t\<close> or \<^verbatim>\<open>u32\<close> values obtained from a vector
  size. They are natural numbers here, and every \<^verbatim>\<open>static_cast<u32>\<close> of the source is written
  out as \<open>as_u32\<close>.
\<close>

abbreviation u32_limit :: nat where
  "u32_limit \<equiv> 4294967296"

definition as_u32 :: "nat \<Rightarrow> nat" where
  "as_u32 n = n mod u32_limit"

abbreviation UINT32_MAX :: nat where
  "UINT32_MAX \<equiv> 4294967295"

lemma as_u32_id [simp]: "n < u32_limit \<Longrightarrow> as_u32 n = n"
  by (simp add: as_u32_def)

lemma as_u32_less: "as_u32 n < u32_limit"
  by (simp add: as_u32_def)

section \<open>Lists\<close>

text \<open>The models bind every local variable of the source with \<open>let\<close>; proofs unfold them.\<close>

declare Let_def [simp]

named_theorems seq_simps \<open>equations about slices, positions and tilings of lists\<close>

text \<open>The elements a \<^verbatim>\<open>{first, count}\<close> range selects from a vector.\<close>

definition slice :: "nat \<Rightarrow> nat \<Rightarrow> 'a list \<Rightarrow> 'a list" where
  "slice f c xs = take c (drop f xs)"

lemma slice_0 [simp, seq_simps]: "slice f 0 xs = []"
  by (simp add: slice_def)

lemma length_slice [seq_simps]: "f + c \<le> length xs \<Longrightarrow> length (slice f c xs) = c"
  by (simp add: slice_def)

lemma nth_slice [seq_simps]: "i < c \<Longrightarrow> f + c \<le> length xs \<Longrightarrow> slice f c xs ! i = xs ! (f + i)"
  by (simp add: slice_def)

lemma set_slice: "set (slice f c xs) \<subseteq> set xs"
  unfolding slice_def by (meson set_drop_subset set_take_subset subset_trans)

lemma slice_append1 [seq_simps]:
  "f + c \<le> length xs \<Longrightarrow> slice f c (xs @ ys) = slice f c xs"
  by (simp add: slice_def)

lemma slice_all: "c = length xs \<Longrightarrow> slice 0 c xs = xs"
  by (simp add: slice_def)

lemma slice_Suc [seq_simps]:
  "f + Suc c = Suc (length xs) \<Longrightarrow> slice f (Suc c) (xs @ [x]) = slice f c xs @ [x]"
  by (simp add: slice_def)

lemma map_update_same:
  "(i < length xs \<Longrightarrow> f x = f (xs ! i)) \<Longrightarrow> map f (xs[i := x]) = map f xs"
  by (induction xs arbitrary: i) (auto split: nat.split)

text \<open>A source loop \<^verbatim>\<open>for (u32 i = 0; i < count; ++i) out.push_back(v[first + i])\<close>.\<close>

definition gather :: "'a list \<Rightarrow> nat \<Rightarrow> nat \<Rightarrow> 'a list" where
  "gather v f c = map (\<lambda>i. v ! as_u32 (f + i)) [0..<c]"

lemma length_gather [simp]: "length (gather v f c) = c"
  by (simp add: gather_def)

lemma gather_slice:
  assumes "f + c \<le> length v" and "length v \<le> u32_limit"
  shows "gather v f c = slice f c v"
proof (rule nth_equalityI)
  show "length (gather v f c) = length (slice f c v)"
    using assms by (simp add: length_slice)
next
  fix i assume "i < length (gather v f c)"
  then show "gather v f c ! i = slice f c v ! i"
    using assms by (simp add: gather_def nth_slice)
qed

text \<open>\<open>precedes xs x y\<close>: some occurrence of \<open>x\<close> comes before some occurrence of \<open>y\<close>.\<close>

definition precedes :: "'a list \<Rightarrow> 'a \<Rightarrow> 'a \<Rightarrow> bool" where
  "precedes xs x y = (\<exists>i j. i < j \<and> j < length xs \<and> xs ! i = x \<and> xs ! j = y)"

lemma precedes_append_left: "precedes xs x y \<Longrightarrow> precedes (xs @ ys) x y"
  unfolding precedes_def
  by (metis length_append nth_append order_less_trans trans_less_add1)

lemma precedes_append_right:
  assumes "precedes ys x y"
  shows "precedes (xs @ ys) x y"
proof -
  from assms obtain i j where "i < j" "j < length ys" "ys ! i = x" "ys ! j = y"
    by (auto simp: precedes_def)
  then have "length xs + i < length xs + j \<and> length xs + j < length (xs @ ys)
    \<and> (xs @ ys) ! (length xs + i) = x \<and> (xs @ ys) ! (length xs + j) = y"
    by simp
  then show ?thesis unfolding precedes_def by blast
qed

lemma precedes_append_both:
  assumes "x \<in> set xs" and "y \<in> set ys"
  shows "precedes (xs @ ys) x y"
proof -
  from assms obtain i j where "i < length xs" "xs ! i = x" "j < length ys" "ys ! j = y"
    by (auto simp: in_set_conv_nth)
  then have "i < length xs + j \<and> length xs + j < length (xs @ ys)
    \<and> (xs @ ys) ! i = x \<and> (xs @ ys) ! (length xs + j) = y"
    by (simp add: nth_append)
  then show ?thesis unfolding precedes_def by blast
qed

lemma precedes_in_set: "precedes xs x y \<Longrightarrow> x \<in> set xs \<and> y \<in> set xs"
  by (auto simp: precedes_def)

lemma precedes_asym:
  assumes "distinct xs" and "precedes xs x y"
  shows "\<not> precedes xs y x"
proof
  assume "precedes xs y x"
  then obtain i j where ij: "i < j" "j < length xs" "xs ! i = y" "xs ! j = x"
    by (auto simp: precedes_def)
  from assms(2) obtain k l where kl: "k < l" "l < length xs" "xs ! k = x" "xs ! l = y"
    by (auto simp: precedes_def)
  from assms(1) ij kl have "j = k" and "i = l"
    by (metis nth_eq_iff_index_eq order_less_trans)+
  with ij kl show False by simp
qed

lemma precedes_total:
  assumes "x \<in> set xs" and "y \<in> set xs" and "x \<noteq> y"
  shows "precedes xs x y \<or> precedes xs y x"
proof -
  from assms obtain i j where "i < length xs" "xs ! i = x" "j < length xs" "xs ! j = y"
    by (auto simp: in_set_conv_nth)
  with assms(3) show ?thesis
    unfolding precedes_def by (metis linorder_neqE_nat)
qed

lemma precedes_Cons:
  "distinct (z # xs) \<Longrightarrow> precedes (z # xs) x y \<Longrightarrow> x \<noteq> z \<Longrightarrow> precedes xs x y"
  unfolding precedes_def
  by (metis length_Cons less_Suc_eq_0_disj not_less_zero nth_Cons_0 nth_Cons_Suc)

lemma precedes_ConsI: "precedes xs x y \<Longrightarrow> precedes (z # xs) x y"
  using precedes_append_right [of xs x y "[z]"] by simp

lemma precedes_map:
  assumes "precedes xs x y"
  shows "precedes (map f xs) (f x) (f y)"
  using assms unfolding precedes_def by (metis length_map nth_map order_less_trans)

lemma precedes_concat:
  assumes "i < j" and "j < length xss" and "x \<in> set (xss ! i)" and "y \<in> set (xss ! j)"
  shows "precedes (concat xss) x y"
proof -
  have split: "concat xss = concat (take j xss) @ concat (drop j xss)"
    by (metis append_take_drop_id concat_append)
  have "take j xss ! i = xss ! i" and "i < length (take j xss)"
    using assms by simp_all
  then have "xss ! i \<in> set (take j xss)"
    by (metis nth_mem)
  with assms(3) have "x \<in> set (concat (take j xss))"
    by auto
  moreover have "drop j xss = xss ! j # drop (Suc j) xss"
    using assms(2) by (simp add: Cons_nth_drop_Suc)
  with assms(4) have "y \<in> set (concat (drop j xss))"
    by simp
  ultimately show ?thesis
    unfolding split by (rule precedes_append_both)
qed

lemma precedes_concat_in:
  assumes "i < length xss" and "precedes (xss ! i) x y"
  shows "precedes (concat xss) x y"
proof -
  have "concat xss = concat (take i xss) @ xss ! i @ concat (drop (Suc i) xss)"
    using assms(1) by (metis append_Cons append_Nil concat.simps(2) concat_append id_take_nth_drop)
  moreover have "precedes (concat (take i xss) @ xss ! i @ concat (drop (Suc i) xss)) x y"
    by (intro precedes_append_right precedes_append_left assms(2))
  ultimately show ?thesis by metis
qed

lemma precedes_split:
  "precedes xs x y = (\<exists>us vs ws. xs = us @ x # vs @ y # ws)"
proof
  assume "precedes xs x y"
  then obtain i j where ij: "i < j" "j < length xs" "xs ! i = x" "xs ! j = y"
    by (auto simp: precedes_def)
  then have "\<exists>us zs. xs = us @ x # zs \<and> length us = i"
    by (metis id_take_nth_drop length_take min.absorb4 order_less_trans)
  then obtain us zs where xs: "xs = us @ x # zs" and us: "length us = i"
    by blast
  have "zs ! (j - Suc i) = y" and "j - Suc i < length zs"
    using ij unfolding xs us [symmetric] by (auto simp: nth_append)
  then have "y \<in> set zs" by auto
  then obtain vs ws where "zs = vs @ y # ws" by (auto simp: in_set_conv_decomp)
  with xs show "\<exists>us vs ws. xs = us @ x # vs @ y # ws" by blast
next
  assume "\<exists>us vs ws. xs = us @ x # vs @ y # ws"
  then obtain us vs ws where xs: "xs = us @ x # vs @ y # ws" by blast
  have "precedes ([x] @ (vs @ y # ws)) x y"
    by (rule precedes_append_both) auto
  then show "precedes xs x y"
    unfolding xs by (intro precedes_append_right) simp
qed

lemma precedes_remove:
  assumes "distinct (us @ z # vs)" and "precedes (us @ z # vs) x y" and "x \<noteq> z" and "y \<noteq> z"
  shows "precedes (us @ vs) x y"
proof -
  from assms(2) have in_set: "x \<in> set (us @ vs)" "y \<in> set (us @ vs)"
    using assms(3,4) precedes_in_set by fastforce+
  from assms(1,2) have "x \<noteq> y"
    by (metis precedes_asym)
  then consider "precedes (us @ vs) x y" | "precedes (us @ vs) y x"
    using in_set precedes_total by metis
  then show ?thesis
  proof cases
    case 1
    then show ?thesis .
  next
    case 2
    then obtain i j where ij: "i < j" "j < length (us @ vs)" "(us @ vs) ! i = y" "(us @ vs) ! j = x"
      by (auto simp: precedes_def)
    define k where "k n = (if n < length us then n else Suc n)" for n
    have "k i < k j" and "k j < length (us @ z # vs)"
      using ij by (auto simp: k_def)
    moreover have "(us @ z # vs) ! k n = (us @ vs) ! n" for n
      by (auto simp: k_def nth_append nth_Cons' not_less)
    ultimately have "precedes (us @ z # vs) y x"
      unfolding precedes_def using ij by metis
    with assms(1,2) have False using precedes_asym by metis
    then show ?thesis ..
  qed
qed

section \<open>Tilings\<close>

text \<open>
  A list of ranges tiles a vector when the ranges follow one another without gap and end at the
  vector's end: the shape that append-only builders keep.
\<close>

fun tiles_from :: "nat \<Rightarrow> (nat \<times> nat) list \<Rightarrow> nat \<Rightarrow> bool" where
  "tiles_from s [] n = (s = n)"
| "tiles_from s ((f, c) # rs) n = (f = s \<and> tiles_from (s + c) rs n)"

lemma tiles_from_append:
  "tiles_from s (rs @ qs) n = (\<exists>m. tiles_from s rs m \<and> tiles_from m qs n)"
  by (induction s rs n rule: tiles_from.induct) auto

lemma tiles_from_le: "tiles_from s rs n \<Longrightarrow> s \<le> n"
  by (induction s rs n rule: tiles_from.induct) auto

lemma tiles_from_range:
  "tiles_from s rs n \<Longrightarrow> (f, c) \<in> set rs \<Longrightarrow> s \<le> f \<and> f + c \<le> n"
proof (induction s rs n rule: tiles_from.induct)
  case (1 s n)
  then show ?case by simp
next
  case (2 s f' c' rs n)
  then show ?case using tiles_from_le [of "s + c'" rs n] by force
qed

lemma tiles_from_concat:
  "tiles_from s rs (length xs) \<Longrightarrow> concat (map (\<lambda>(f, c). slice f c xs) rs) = drop s xs"
proof (induction s rs "length xs" rule: tiles_from.induct)
  case (1 s)
  then show ?case by simp
next
  case (2 s f c rs)
  then have "s + c \<le> length xs" and "f = s" using tiles_from_le by auto
  with 2 show ?case
    by (simp add: slice_def) (metis add.commute append_take_drop_id drop_drop)
qed

text \<open>The groups that a list of ranges selects, and what appending to the last range does.\<close>

definition tile_groups :: "'a list \<Rightarrow> (nat \<times> nat) list \<Rightarrow> 'a list list" where
  "tile_groups v rs = map (\<lambda>(f, c). gather v f c) rs"

lemma tile_groups_slices:
  assumes "tiles_from 0 rs (length v)" and "length v \<le> u32_limit"
  shows "tile_groups v rs = map (\<lambda>(f, c). slice f c v) rs"
  using tiles_from_range [OF assms(1)] assms(2)
  by (auto simp: tile_groups_def gather_slice)

lemma tile_groups_concat:
  assumes "tiles_from 0 rs (length v)" and "length v \<le> u32_limit"
  shows "concat (tile_groups v rs) = v"
  using tiles_from_concat [OF assms(1)] by (simp add: tile_groups_slices [OF assms])

lemma tile_groups_snoc:
  assumes "tiles_from 0 rs (length v)" and "length v + length xs \<le> u32_limit"
  shows "tile_groups (v @ xs) rs = tile_groups v rs"
proof -
  have "gather (v @ xs) f c = gather v f c" if "(f, c) \<in> set rs" for f c
    using tiles_from_range [OF assms(1) that] assms(2)
    by (simp add: gather_slice slice_append1)
  then show ?thesis by (auto simp: tile_groups_def)
qed

lemma tile_open:
  assumes "tiles_from 0 rs (length v)"
  shows "tiles_from 0 (rs @ [(length v, 0)]) (length v)"
    and "tile_groups v (rs @ [(length v, 0)]) = tile_groups v rs @ [[]]"
  using assms by (auto simp: tiles_from_append tile_groups_def gather_def)

lemma tile_append:
  assumes "tiles_from 0 (rs @ [(f, c)]) (length v)" and "length v < u32_limit"
  shows "tiles_from 0 (rs @ [(f, Suc c)]) (length (v @ [x]))"
    and "tile_groups (v @ [x]) (rs @ [(f, Suc c)]) = tile_groups v rs @ [gather v f c @ [x]]"
proof -
  show t: "tiles_from 0 (rs @ [(f, Suc c)]) (length (v @ [x]))"
    using assms(1) by (auto simp: tiles_from_append)
  from assms(1) have len: "f + c = length v" "tiles_from 0 rs f"
    by (auto simp: tiles_from_append)
  have "gather (v @ [x]) g d = gather v g d" if "(g, d) \<in> set rs" for g d
    using tiles_from_range [OF len(2) that] len assms(2) by (simp add: gather_slice slice_append1)
  then have "tile_groups (v @ [x]) rs = tile_groups v rs"
    by (auto simp: tile_groups_def)
  moreover have "gather (v @ [x]) f (Suc c) = gather v f c @ [x]"
    using len assms(2) by (simp add: gather_slice slice_Suc)
  ultimately show "tile_groups (v @ [x]) (rs @ [(f, Suc c)]) = tile_groups v rs @ [gather v f c @ [x]]"
    by (simp add: tile_groups_def)
qed

lemma tile_extend:
  assumes "tiles_from 0 rs (length v)" and "length v + length xs < u32_limit"
  shows "tiles_from 0 (rs @ [(length v, length xs)]) (length (v @ xs))"
    and "tile_groups (v @ xs) (rs @ [(length v, length xs)]) = tile_groups v rs @ [xs]"
proof -
  show "tiles_from 0 (rs @ [(length v, length xs)]) (length (v @ xs))"
    using assms(1) by (auto simp: tiles_from_append)
  have "gather (v @ xs) (length v) (length xs) = xs"
    using assms(2) by (simp add: gather_slice slice_def)
  then show "tile_groups (v @ xs) (rs @ [(length v, length xs)]) = tile_groups v rs @ [xs]"
    using tile_groups_snoc [OF assms(1), of xs] assms(2) by (simp add: tile_groups_def)
qed

section \<open>Steps that commute unless they depend on each other\<close>

text \<open>
  The interface between the planners, which promise that dependent commands keep their
  order, and the meaning of a command sequence: if independent steps commute, two
  duplicate-free sequences over the same commands in which dependent commands have the
  same order compute the same state.
\<close>

locale commuting_steps =
  fixes step :: "'c \<Rightarrow> 's \<Rightarrow> 's"
    and dep :: "'c \<Rightarrow> 'c \<Rightarrow> bool"
  assumes commute: "\<not> dep x y \<Longrightarrow> \<not> dep y x \<Longrightarrow> step x (step y s) = step y (step x s)"
begin

lemma move_to_front:
  assumes "\<forall>u\<in>set us. \<not> dep u x \<and> \<not> dep x u"
  shows "fold step us (step x s) = step x (fold step us s)"
  using assms
proof (induction us arbitrary: s)
  case Nil
  then show ?case by simp
next
  case (Cons u us)
  then have "step u (step x s) = step x (step u s)"
    by (intro commute) auto
  with Cons show ?case by simp
qed

lemma same_result:
  assumes "distinct xs" and "distinct ys" and "set xs = set ys"
    and "\<And>x y. x \<noteq> y \<Longrightarrow> dep x y \<or> dep y x \<Longrightarrow> precedes xs x y \<Longrightarrow> precedes ys x y"
  shows "fold step xs s = fold step ys s"
  using assms
proof (induction xs arbitrary: ys s)
  case Nil
  then show ?case by simp
next
  case (Cons x xs)
  from Cons.prems(3) have "x \<in> set ys" by auto
  then obtain us vs where ys: "ys = us @ x # vs"
    by (auto simp: in_set_conv_decomp)
  have indep: "\<forall>u\<in>set us. \<not> dep u x \<and> \<not> dep x u"
  proof (rule ballI, rule ccontr)
    fix u assume u: "u \<in> set us" and d: "\<not> (\<not> dep u x \<and> \<not> dep x u)"
    from u ys Cons.prems(2) have "u \<noteq> x" by auto
    moreover from u ys have "precedes ys u x"
      by (simp add: precedes_append_both)
    moreover from u ys Cons.prems(3) \<open>u \<noteq> x\<close> have "u \<in> set xs" by auto
    then have "precedes (x # xs) x u"
      using precedes_append_both [of x "[x]" u xs] by simp
    ultimately have "precedes ys x u"
      using Cons.prems(4) [of x u] d by blast
    with \<open>precedes ys u x\<close> Cons.prems(2) show False
      using precedes_asym by metis
  qed
  have "fold step xs (step x s) = fold step (us @ vs) (step x s)"
  proof (rule Cons.IH)
    show "distinct xs" using Cons.prems(1) by simp
    show "distinct (us @ vs)" using Cons.prems(2) ys by simp
    show "set xs = set (us @ vs)" using Cons.prems(1,2,3) ys by auto
  next
    fix p q assume pq: "p \<noteq> q" "dep p q \<or> dep q p" "precedes xs p q"
    then have "precedes (us @ x # vs) p q"
      using Cons.prems(4) [of p q] precedes_ConsI ys by metis
    moreover from pq(3) Cons.prems(1) have "p \<noteq> x" "q \<noteq> x"
      using precedes_in_set by (metis distinct.simps(2))+
    ultimately show "precedes (us @ vs) p q"
      using Cons.prems(2) ys precedes_remove by metis
  qed
  also have "\<dots> = fold step vs (fold step us (step x s))" by simp
  also have "\<dots> = fold step vs (step x (fold step us s))"
    by (simp add: move_to_front [OF indep])
  also have "\<dots> = fold step ys s" using ys by simp
  finally show ?case by simp
qed

end

end
