(* ===== verification/Fg_Dag.thy ===== *)
theory Fg_Dag
  imports Dx_Prelude
begin

text \<open>
  The frame-graph data structures (\<^verbatim>\<open>src/src/dxmt9/framegraph/fg_dag.hpp\<close>) and the part of a
  published source payload that the frame graph reads (\<^verbatim>\<open>core::MetalCommandKind\<close>,
  \<^verbatim>\<open>core::SourceCommandView\<close> and the records it points to). Every C++ struct is a record with the
  struct's fields, every enum a datatype with the enum's constructors; a pointer member that
  may be null is an option. A \<^verbatim>\<open>std::array\<close> is the list of its elements.
\<close>

section \<open>Handles and commands\<close>

text \<open>\<^verbatim>\<open>core::Handle\<close> wraps an opaque \<^verbatim>\<open>u64\<close>; zero is the null handle.\<close>

type_synonym ResourceHandle = u64
type_synonym TextureHandle = u64

datatype MetalCommandKind =
    CmdDrawRun | CmdClear | CmdSurfaceCopy | CmdStretchRect | CmdReadback
  | CmdColorFill | CmdDepthResolve | CmdGenerateMipmaps | CmdPresent

record RenderTargetAttachment =
  att_handle :: ResourceHandle
  att_sampleCount :: u32

text \<open>The members of \<^verbatim>\<open>FlatDrawStateRecord\<close> that the frame graph reads.\<close>

record FlatDrawStateRecord =
  hot_colorAttachments :: "RenderTargetAttachment list"
  hot_depthStencil :: RenderTargetAttachment
  hot_textures :: "TextureHandle list"
  hot_textureMask :: u32

record DrawRunCommandRecord =
  run_firstParam :: nat
  run_paramCount :: nat
  run_runStableBindingHash :: u64

record ClearCommandView =
  clr_colorAttachments :: "RenderTargetAttachment list"
  clr_depthStencil :: RenderTargetAttachment
  clr_clearColor :: bool
  clr_clearDepth :: bool
  clr_clearStencil :: bool
  clr_rectCount :: nat

text \<open>A copy record: \<^verbatim>\<open>source\<close> and \<^verbatim>\<open>destination\<close> (\<^verbatim>\<open>msaaDepth\<close>/\<^verbatim>\<open>intzDest\<close> of a depth resolve).\<close>

record CopyDesc =
  cpy_source :: ResourceHandle
  cpy_destination :: ResourceHandle

record SourceCommandView =
  cmd_kind :: MetalCommandKind
  cmd_hot :: "FlatDrawStateRecord option"
  cmd_drawRunRecord :: "DrawRunCommandRecord option"
  cmd_drawParamCount :: nat
  cmd_clear :: "ClearCommandView option"
  cmd_surfaceCopy :: "CopyDesc option"
  cmd_stretchRect :: "CopyDesc option"
  cmd_readback_source :: "ResourceHandle option"
  cmd_colorFill_destination :: "ResourceHandle option"
  cmd_depthResolve :: "CopyDesc option"
  cmd_generateMipmaps_texture :: "TextureHandle option"
  cmd_presentSource :: "ResourceHandle option"

text \<open>
  The value-initialised view that \<^verbatim>\<open>commandAt\<close> returns for an index outside the payload.
\<close>

definition empty_command :: SourceCommandView where
  "empty_command = \<lparr>cmd_kind = CmdDrawRun, cmd_hot = None, cmd_drawRunRecord = None,
     cmd_drawParamCount = 0, cmd_clear = None, cmd_surfaceCopy = None, cmd_stretchRect = None,
     cmd_readback_source = None, cmd_colorFill_destination = None, cmd_depthResolve = None,
     cmd_generateMipmaps_texture = None, cmd_presentSource = None\<rparr>"

text \<open>
  A payload view: the commands of a valid view, or no storage at all
  (\<^verbatim>\<open>SourcePayloadView{}\<close>), for which \<^verbatim>\<open>commandCount()\<close> is zero.
\<close>

type_synonym SourcePayloadView = "SourceCommandView list option"

definition payload_commands :: "SourcePayloadView \<Rightarrow> SourceCommandView list" where
  "payload_commands p = (case p of None \<Rightarrow> [] | Some cs \<Rightarrow> cs)"

definition commandCount :: "SourcePayloadView \<Rightarrow> nat" where
  "commandCount p = length (payload_commands p)"

definition commandAt :: "SourcePayloadView \<Rightarrow> nat \<Rightarrow> SourceCommandView" where
  "commandAt p i =
     (if i < length (payload_commands p) then payload_commands p ! i else empty_command)"

lemma commandCount_Some [simp]: "commandCount (Some cs) = length cs"
  by (simp add: commandCount_def payload_commands_def)

lemma commandAt_Some [simp]: "i < length cs \<Longrightarrow> commandAt (Some cs) i = cs ! i"
  by (simp add: commandAt_def payload_commands_def)

section \<open>The graph\<close>

datatype PassKind = PassRender | PassCompute | PassBlit | PassPresent | PassSync

record AttachmentSet =
  t_color :: "TextureHandle list"
  t_depth :: TextureHandle
  t_color_count :: nat
  t_sample_count :: u32

definition empty_targets :: AttachmentSet where
  "empty_targets = \<lparr>t_color = replicate 8 0, t_depth = 0, t_color_count = 0,
     t_sample_count = 1\<rparr>"

text \<open>\<^verbatim>\<open>DrawRange\<close> and \<^verbatim>\<open>CommandRange\<close> have the same two members.\<close>

record IndexRange =
  rg_first :: nat
  rg_count :: nat

type_synonym DrawRange = IndexRange
type_synonym CommandRange = IndexRange

record DrawRef =
  dref_command_index :: nat
  dref_param_first :: nat
  dref_param_count :: nat

record CommandRef =
  cref_command_index :: nat
  cref_kind :: MetalCommandKind

datatype LoadAction = LoadDontCare | LoadLoad | LoadClear

datatype StoreAction = StoreDontCare | StoreStore

record LoadStorePolicy =
  ls_color_load :: "LoadAction list"
  ls_color_store :: "StoreAction list"
  ls_depth_load :: LoadAction
  ls_depth_store :: StoreAction

definition default_policy :: LoadStorePolicy where
  "default_policy = \<lparr>ls_color_load = replicate 8 LoadDontCare,
     ls_color_store = replicate 8 StoreDontCare, ls_depth_load = LoadDontCare,
     ls_depth_store = StoreDontCare\<rparr>"

record PassFlags =
  f_contains_lock :: bool
  f_contains_occlusion_query :: bool
  f_contains_event_query :: bool
  f_dead :: bool
  f_debug_marker :: bool
  f_active_render_seed :: bool

definition no_flags :: PassFlags where
  "no_flags = \<lparr>f_contains_lock = False, f_contains_occlusion_query = False,
     f_contains_event_query = False, f_dead = False, f_debug_marker = False,
     f_active_render_seed = False\<rparr>"

record PassNode =
  p_kind :: PassKind
  p_targets :: AttachmentSet
  p_draws :: DrawRange
  p_commands :: CommandRange
  p_state_profile :: u64
  p_load_store :: LoadStorePolicy
  p_flags :: PassFlags

definition default_pass :: PassNode where
  "default_pass = \<lparr>p_kind = PassRender, p_targets = empty_targets,
     p_draws = \<lparr>rg_first = 0, rg_count = 0\<rparr>, p_commands = \<lparr>rg_first = 0, rg_count = 0\<rparr>,
     p_state_profile = 0, p_load_store = default_policy, p_flags = no_flags\<rparr>"

datatype ResidencyClass = Persistent | MemorylessCandidate | Memoryless

datatype AccessKind = AccRead | AccWrite | AccReadWrite | AccPreserve | AccClear

datatype AccessStage = StageVertex | StageFragment | StageCompute | StageCopy

record AccessLog =
  a_pass_index :: nat
  a_access_kind :: AccessKind
  a_stage :: AccessStage

record ResourceClassifierFlags =
  cf_lock_seen :: bool
  cf_readback_seen :: bool
  cf_cross_frame_seen :: bool

definition no_classifier :: ResourceClassifierFlags where
  "no_classifier = \<lparr>cf_lock_seen = False, cf_readback_seen = False,
     cf_cross_frame_seen = False\<rparr>"

record ResourceNode =
  r_handle :: ResourceHandle
  r_accesses :: "AccessLog list"
  r_first_use_pass :: nat
  r_last_use_pass :: nat
  r_residency :: ResidencyClass
  r_classifier_flags :: ResourceClassifierFlags

definition default_resource :: "ResourceHandle \<Rightarrow> ResourceNode" where
  "default_resource h = \<lparr>r_handle = h, r_accesses = [], r_first_use_pass = 0,
     r_last_use_pass = 0, r_residency = Persistent, r_classifier_flags = no_classifier\<rparr>"

record Edge =
  e_src_pass :: nat
  e_dst_pass :: nat
  e_resource :: ResourceHandle

record FrameGraph =
  g_passes :: "PassNode list"
  g_resources :: "ResourceNode list"
  g_edges :: "Edge list"
  g_draws :: "DrawRef list"
  g_commands :: "CommandRef list"
  g_frame_id :: nat
  g_flush_boundary :: bool

text \<open>\<^verbatim>\<open>FrameGraph::reset\<close>, which is also the value-initialised graph.\<close>

definition reset_graph :: FrameGraph where
  "reset_graph = \<lparr>g_passes = [], g_resources = [], g_edges = [], g_draws = [],
     g_commands = [], g_frame_id = 0, g_flush_boundary = False\<rparr>"

fun find_index_from :: "nat \<Rightarrow> ResourceNode list \<Rightarrow> ResourceHandle \<Rightarrow> nat" where
  "find_index_from i [] h = i"
| "find_index_from i (r # rs) h = (if r_handle r = h then i else find_index_from (Suc i) rs h)"

definition findResourceIndex :: "FrameGraph \<Rightarrow> ResourceHandle \<Rightarrow> nat" where
  "findResourceIndex g h = find_index_from 0 (g_resources g) h"

definition recordAccess :: "ResourceNode \<Rightarrow> nat \<Rightarrow> AccessKind \<Rightarrow> AccessStage \<Rightarrow> ResourceNode" where
  "recordAccess node pass_index kind stage = node\<lparr>r_accesses := r_accesses node @
     [\<lparr>a_pass_index = pass_index, a_access_kind = kind, a_stage = stage\<rparr>]\<rparr>"

section \<open>Reading and writing accesses\<close>

text \<open>The two helpers of the same name in the builder and in the multi-source planner.\<close>

definition accessReads :: "AccessKind \<Rightarrow> bool" where
  "accessReads k = (k = AccRead \<or> k = AccReadWrite)"

definition accessWrites :: "AccessKind \<Rightarrow> bool" where
  "accessWrites k = (k = AccWrite \<or> k = AccClear \<or> k = AccReadWrite)"

text \<open>Two accesses of one resource conflict when both touch it and one of them writes.\<close>

definition conflicting :: "AccessKind \<Rightarrow> AccessKind \<Rightarrow> bool" where
  "conflicting k l = ((accessWrites k \<and> (accessReads l \<or> accessWrites l)) \<or>
     (accessWrites l \<and> (accessReads k \<or> accessWrites k)))"

lemma accessReads_simps [simp]:
  "accessReads AccRead" "accessReads AccReadWrite" "\<not> accessReads AccWrite"
  "\<not> accessReads AccClear" "\<not> accessReads AccPreserve"
  by (simp_all add: accessReads_def)

lemma accessWrites_simps [simp]:
  "accessWrites AccWrite" "accessWrites AccReadWrite" "accessWrites AccClear"
  "\<not> accessWrites AccRead" "\<not> accessWrites AccPreserve"
  by (simp_all add: accessWrites_def)

lemma conflicting_sym: "conflicting k l = conflicting l k"
  by (auto simp: conflicting_def)

section \<open>Looking a resource up\<close>

lemma find_index_from_bounds:
  "i \<le> find_index_from i rs h \<and> find_index_from i rs h \<le> i + length rs"
  by (induction i rs h rule: find_index_from.induct) auto

lemma find_index_from_found:
  "find_index_from i rs h < i + length rs \<Longrightarrow>
     r_handle (rs ! (find_index_from i rs h - i)) = h"
proof (induction i rs h rule: find_index_from.induct)
  case (1 i h)
  then show ?case by simp
next
  case (2 i r rs h)
  show ?case
  proof (cases "r_handle r = h")
    case True
    then show ?thesis by simp
  next
    case False
    with 2 find_index_from_bounds [of "Suc i" rs h] show ?thesis
      by (simp add: nth_Cons')
  qed
qed

lemma find_index_from_absent:
  "find_index_from i rs h = i + length rs \<longleftrightarrow> h \<notin> r_handle ` set rs"
proof (induction i rs h rule: find_index_from.induct)
  case (1 i h)
  then show ?case by simp
next
  case (2 i r rs h)
  then show ?case by auto
qed

lemma find_index_from_distinct:
  assumes "distinct (map r_handle rs)" and "j < length rs"
  shows "find_index_from i rs (r_handle (rs ! j)) = i + j"
  using assms
proof (induction rs arbitrary: i j)
  case Nil
  then show ?case by simp
next
  case (Cons r rs)
  show ?case
  proof (cases j)
    case 0
    then show ?thesis by simp
  next
    case (Suc k)
    with Cons.prems have "r_handle (rs ! k) \<in> r_handle ` set rs" by auto
    with Cons.prems have "r_handle r \<noteq> r_handle (rs ! k)" by auto
    with Cons Suc show ?thesis by simp
  qed
qed

text \<open>The access log the graph keeps for a handle; empty when it has no node for it.\<close>

definition log_in :: "ResourceNode list \<Rightarrow> ResourceHandle \<Rightarrow> AccessLog list" where
  "log_in rs h = (let i = find_index_from 0 rs h in
     if i < length rs then r_accesses (rs ! i) else [])"

definition log_of :: "FrameGraph \<Rightarrow> ResourceHandle \<Rightarrow> AccessLog list" where
  "log_of g h = log_in (g_resources g) h"

lemma find_index_cong:
  "map r_handle rs = map r_handle rs' \<Longrightarrow> find_index_from i rs h = find_index_from i rs' h"
proof (induction i rs h arbitrary: rs' rule: find_index_from.induct)
  case (1 i h)
  then show ?case by simp
next
  case (2 i r rs h)
  then obtain r' rs'' where rs': "rs' = r' # rs''" by (metis list.map_disc_iff list.exhaust list.distinct(1))
  with 2 show ?case by (auto simp: rs')
qed

lemma find_index_append:
  "find_index_from i (rs @ [r]) h =
     (if h \<in> r_handle ` set rs then find_index_from i rs h
      else if r_handle r = h then i + length rs else Suc (i + length rs))"
  by (induction i rs h rule: find_index_from.induct) auto

lemma log_in_append: "r_accesses r = [] \<Longrightarrow> log_in (rs @ [r]) h = log_in rs h"
  unfolding log_in_def Let_def find_index_append
  using find_index_from_bounds [of 0 rs h] find_index_from_absent [of 0 rs h]
  by (auto simp: nth_append)

lemma log_in_update:
  assumes "find_index_from 0 rs h = i" and "i < length rs" and "r_handle x = h"
  shows "log_in (rs[i := x]) h' = (if h' = h then r_accesses x else log_in rs h')"
proof -
  have "r_handle (rs ! i) = h"
    using assms find_index_from_found [of 0 rs h] by simp
  then have same: "find_index_from 0 (rs[i := x]) k = find_index_from 0 rs k" for k
    using assms by (intro find_index_cong) (simp add: map_update list_update_same_conv)
  show ?thesis
  proof (cases "h' = h")
    case True
    then show ?thesis using assms by (simp add: log_in_def same)
  next
    case False
    have "find_index_from 0 rs h' \<noteq> i" if "find_index_from 0 rs h' < length rs"
      using that False find_index_from_found [of 0 rs h'] \<open>r_handle (rs ! i) = h\<close> by auto
    then show ?thesis using False
      by (cases "find_index_from 0 rs h' = i") (auto simp: log_in_def same Let_def)
  qed
qed

lemma log_in_cong:
  assumes "map r_handle rs = map r_handle rs'" and "map r_accesses rs = map r_accesses rs'"
  shows "log_in rs h = log_in rs' h"
proof -
  have len: "length rs = length rs'"
    using assms(1) by (metis length_map)
  have "find_index_from 0 rs h = find_index_from 0 rs' h"
    using assms(1) by (rule find_index_cong)
  moreover have "r_accesses (rs ! i) = r_accesses (rs' ! i)" if "i < length rs" for i
    using assms(2) that len by (metis nth_map)
  ultimately show ?thesis by (simp add: log_in_def len Let_def)
qed

text \<open>The dependency edges as a relation on pass indices.\<close>

definition edge_rel :: "FrameGraph \<Rightarrow> (nat \<times> nat) set" where
  "edge_rel g = {(e_src_pass e, e_dst_pass e) | e. e \<in> set (g_edges g)}"

text \<open>The commands of a pass, and of the whole graph in pass order.\<close>

definition pass_commands :: "FrameGraph \<Rightarrow> PassNode \<Rightarrow> CommandRef list" where
  "pass_commands g p = gather (g_commands g) (rg_first (p_commands p)) (rg_count (p_commands p))"

definition pass_draws :: "FrameGraph \<Rightarrow> PassNode \<Rightarrow> DrawRef list" where
  "pass_draws g p = gather (g_draws g) (rg_first (p_draws p)) (rg_count (p_draws p))"

definition linear_commands :: "FrameGraph \<Rightarrow> CommandRef list" where
  "linear_commands g = concat (map (pass_commands g) (g_passes g))"

end
