(* ===== verification/Fg_Reach.thy ===== *)
theory Fg_Reach
  imports Fg_Dag
begin

text \<open>
  Reachability over the dependency edges, as pass coalescing asks for it
  (\<^verbatim>\<open>fg_optimizer/passcoalesce.cpp\<close>): the reference traversal \<open>reaches\<close> that scans the edge list,
  and the cached query object \<open>GraphQueries\<close> that builds a compressed adjacency table and a
  bit row per queried pass. Both decide the reflexive transitive closure of \<open>edge_rel\<close>.

  A \<^verbatim>\<open>std::vector\<close> used as a stack is a list whose head is the top of the stack.
\<close>

section \<open>The reference traversal\<close>

text \<open>
  The loop over the edges for one popped pass. \<open>None\<close> is the early \<^verbatim>\<open>return true\<close>; the bound
  \<^verbatim>\<open>n\<close> of the source is the length of \<open>seen\<close>.
\<close>

fun scan_edges :: "nat \<Rightarrow> nat \<Rightarrow> Edge list \<Rightarrow> nat list \<Rightarrow> bool list \<Rightarrow> (nat list \<times> bool list) option" where
  "scan_edges cur dest [] stack seen = Some (stack, seen)"
| "scan_edges cur dest (e # es) stack seen =
     (if e_src_pass e \<noteq> cur then scan_edges cur dest es stack seen
      else if e_dst_pass e = dest then None
      else if e_dst_pass e < length seen \<and> \<not> seen ! e_dst_pass e
      then scan_edges cur dest es (e_dst_pass e # stack) (seen[e_dst_pass e := True])
      else scan_edges cur dest es stack seen)"

definition unseen :: "bool list \<Rightarrow> nat" where
  "unseen seen = length (filter Not seen)"

lemma unseen_update:
  "i < length seen \<Longrightarrow> \<not> seen ! i \<Longrightarrow> Suc (unseen (seen[i := True])) = unseen seen"
  unfolding unseen_def
proof (induction seen arbitrary: i)
  case Nil
  then show ?case by simp
next
  case (Cons b seen)
  then show ?case by (cases i) auto
qed

lemma scan_edges_measure:
  "scan_edges cur dest es stack seen = Some (stack', seen') \<Longrightarrow>
     2 * unseen seen' + length stack' \<le> 2 * unseen seen + length stack"
proof (induction cur dest es stack seen rule: scan_edges.induct)
  case (1 cur dest stack seen)
  then show ?case by simp
next
  case (2 cur dest e es stack seen)
  then show ?case
    using unseen_update [of "e_dst_pass e" seen] by (auto split: if_splits)
qed

function reaches_loop :: "Edge list \<Rightarrow> nat \<Rightarrow> nat list \<Rightarrow> bool list \<Rightarrow> bool" where
  "reaches_loop es dest [] seen = False"
| "reaches_loop es dest (cur # stack) seen =
     (case scan_edges cur dest es stack seen of
        None \<Rightarrow> True
      | Some (stack', seen') \<Rightarrow> reaches_loop es dest stack' seen')"
  by pat_completeness auto

termination
  by (relation "measure (\<lambda>(es, dest, stack, seen). 2 * unseen seen + length stack)")
    (auto simp: less_Suc_eq_le dest: scan_edges_measure)

definition reaches :: "FrameGraph \<Rightarrow> nat \<Rightarrow> nat \<Rightarrow> bool" where
  "reaches g from dest = (if from = dest then True
     else reaches_loop (g_edges g) dest [from]
            ((replicate (length (g_passes g)) False)[from := True]))"

subsection \<open>It decides reachability\<close>

definition in_range :: "FrameGraph \<Rightarrow> bool" where
  "in_range g = (\<forall>e \<in> set (g_edges g).
     e_src_pass e < length (g_passes g) \<and> e_dst_pass e < length (g_passes g))"

definition seen_set :: "bool list \<Rightarrow> nat set" where
  "seen_set seen = {i. i < length seen \<and> seen ! i}"

definition succ_of :: "Edge list \<Rightarrow> nat \<Rightarrow> nat set" where
  "succ_of es cur = {e_dst_pass e | e. e \<in> set es \<and> e_src_pass e = cur}"

lemma succ_of_edge_rel: "d \<in> succ_of (g_edges g) c \<longleftrightarrow> (c, d) \<in> edge_rel g"
  by (auto simp: succ_of_def edge_rel_def)

lemma scan_edges_Some:
  assumes "scan_edges cur dest es stack seen = Some (stack', seen')"
    and "\<forall>e \<in> set es. e_dst_pass e < length seen"
  shows "length seen' = length seen" and "dest \<notin> succ_of es cur"
    and "seen_set seen' = seen_set seen \<union> succ_of es cur"
    and "set stack' = set stack \<union> (seen_set seen' - seen_set seen)"
proof -
  have "length seen' = length seen \<and> dest \<notin> succ_of es cur \<and>
    seen_set seen' = seen_set seen \<union> succ_of es cur \<and>
    set stack' = set stack \<union> (seen_set seen' - seen_set seen)"
    using assms
  proof (induction cur dest es stack seen rule: scan_edges.induct)
    case (1 cur dest stack seen)
    then show ?case by (auto simp: succ_of_def)
  next
    case (2 cur dest e es stack seen)
    have tl: "\<forall>e \<in> set es. e_dst_pass e < length seen" and d: "e_dst_pass e < length seen"
      using 2(5) by auto
    consider "e_src_pass e \<noteq> cur" | "e_src_pass e = cur" "e_dst_pass e = dest"
      | "e_src_pass e = cur" "e_dst_pass e \<noteq> dest" "\<not> seen ! e_dst_pass e"
      | "e_src_pass e = cur" "e_dst_pass e \<noteq> dest" "seen ! e_dst_pass e" by blast
    then show ?case
    proof cases
      case 1
      then have "succ_of (e # es) cur = succ_of es cur" by (auto simp: succ_of_def)
      then show ?thesis using 1 2(1) 2(4) tl by auto
    next
      case 2
      then show ?thesis using \<open>scan_edges cur dest (e # es) stack seen = _\<close> by simp
    next
      case 3
      have "succ_of (e # es) cur = insert (e_dst_pass e) (succ_of es cur)"
        using 3 by (auto simp: succ_of_def)
      moreover have "seen_set (seen[e_dst_pass e := True]) = insert (e_dst_pass e) (seen_set seen)"
        using d by (auto simp: seen_set_def nth_list_update)
      moreover have "e_dst_pass e \<notin> seen_set seen" using 3 by (simp add: seen_set_def)
      ultimately show ?thesis using 3 2(2) 2(4) tl d by auto
    next
      case 4
      have "succ_of (e # es) cur = insert (e_dst_pass e) (succ_of es cur)"
        using 4 by (auto simp: succ_of_def)
      moreover have "e_dst_pass e \<in> seen_set seen" using 4 d by (simp add: seen_set_def)
      ultimately show ?thesis using 4 2(3) 2(4) tl by auto
    qed
  qed
  then show "length seen' = length seen" "dest \<notin> succ_of es cur"
    "seen_set seen' = seen_set seen \<union> succ_of es cur"
    "set stack' = set stack \<union> (seen_set seen' - seen_set seen)"
    by blast+
qed

lemma scan_edges_None:
  "scan_edges cur dest es stack seen = None \<Longrightarrow> dest \<in> succ_of es cur"
  by (induction cur dest es stack seen rule: scan_edges.induct)
    (auto simp: succ_of_def split: if_splits)

text \<open>
  The traversal from a set of seen passes whose unfinished part is the stack: it answers whether
  the target is a successor of a pass reachable from there.
\<close>

lemma reaches_loop_correct:
  assumes "set stack \<subseteq> seen_set seen" and "\<forall>e \<in> set es. e_dst_pass e < length seen"
    and "\<forall>c \<in> seen_set seen - set stack. succ_of es c \<subseteq> seen_set seen \<and> dest \<notin> succ_of es c"
  shows "reaches_loop es dest stack seen \<longleftrightarrow>
     (\<exists>c \<in> seen_set seen. (c, dest) \<in> {(c, d). d \<in> succ_of es c}\<^sup>+)"
  using assms
proof (induction es dest stack seen rule: reaches_loop.induct)
  case (1 es dest seen)
  let ?E = "{(c, d). d \<in> succ_of es c}"
  have "d \<in> seen_set seen \<and> d \<noteq> dest" if "(c, d) \<in> ?E\<^sup>+" "c \<in> seen_set seen" for c d
    using that
  proof (induction rule: trancl_induct)
    case (base y)
    then show ?case using 1 by auto
  next
    case (step y z)
    then show ?case using 1 by auto
  qed
  then show ?case by auto
next
  case (2 es dest cur stack seen)
  let ?E = "{(c, d). d \<in> succ_of es c}"
  show ?case
  proof (cases "scan_edges cur dest es stack seen")
    case None
    then have "(cur, dest) \<in> ?E\<^sup>+" using scan_edges_None by auto
    then show ?thesis using None 2(2) by auto
  next
    case (Some r)
    obtain stack' seen' where r: "r = (stack', seen')" by fastforce
    note S = scan_edges_Some [OF Some [unfolded r] 2(3)]
    have sub: "set stack' \<subseteq> seen_set seen'" using 2(2) S(3,4) by auto
    have closed: "\<forall>c \<in> seen_set seen' - set stack'. succ_of es c \<subseteq> seen_set seen' \<and> dest \<notin> succ_of es c"
    proof
      fix c assume c: "c \<in> seen_set seen' - set stack'"
      then have "c \<in> seen_set seen" "c \<notin> set stack" using S(4) by auto
      then show "succ_of es c \<subseteq> seen_set seen' \<and> dest \<notin> succ_of es c"
        using 2(4) S(2,3) by (cases "c = cur") auto
    qed
    have IH: "reaches_loop es dest stack' seen' \<longleftrightarrow> (\<exists>c \<in> seen_set seen'. (c, dest) \<in> ?E\<^sup>+)"
      using 2(1) [OF Some] r sub closed 2(3) S(1) by simp
    have "(\<exists>c \<in> seen_set seen'. (c, dest) \<in> ?E\<^sup>+) \<longleftrightarrow> (\<exists>c \<in> seen_set seen. (c, dest) \<in> ?E\<^sup>+)"
    proof
      assume "\<exists>c \<in> seen_set seen'. (c, dest) \<in> ?E\<^sup>+"
      then obtain c where c: "c \<in> seen_set seen'" "(c, dest) \<in> ?E\<^sup>+" by blast
      show "\<exists>c \<in> seen_set seen. (c, dest) \<in> ?E\<^sup>+"
      proof (cases "c \<in> seen_set seen")
        case True
        with c show ?thesis by blast
      next
        case False
        with c S(3) have "(cur, c) \<in> ?E" by auto
        with c(2) have "(cur, dest) \<in> ?E\<^sup>+" by (meson trancl_into_trancl2)
        then show ?thesis using 2(2) by auto
      qed
    qed (use S(3) in blast)
    then show ?thesis using IH Some r by simp
  qed
qed

lemma reaches_iff:
  assumes "in_range g" and "from < length (g_passes g)"
  shows "reaches g from dest \<longleftrightarrow> (from, dest) \<in> (edge_rel g)\<^sup>*"
proof (cases "from = dest")
  case True
  then show ?thesis by (simp add: reaches_def)
next
  case False
  let ?seen = "(replicate (length (g_passes g)) False)[from := True]"
  have s: "seen_set ?seen = {from}"
    using assms(2) by (auto simp: seen_set_def nth_list_update split: if_splits)
  have "{(c, d). d \<in> succ_of (g_edges g) c} = edge_rel g"
    by (auto simp: succ_of_edge_rel)
  then have "reaches_loop (g_edges g) dest [from] ?seen \<longleftrightarrow> (from, dest) \<in> (edge_rel g)\<^sup>+"
    using reaches_loop_correct [of "[from]" ?seen "g_edges g" dest] assms s
    by (auto simp: in_range_def)
  then show ?thesis using False by (simp add: reaches_def rtrancl_eq_or_trancl)
qed

end
