(* ===== verification/Fg_Graph_Queries.thy ===== *)
theory Fg_Graph_Queries
  imports Fg_Reach
begin

text \<open>
  \<^verbatim>\<open>GraphQueries\<close> of \<^verbatim>\<open>fg_optimizer/passcoalesce.cpp\<close>: the adjacency of all passes in one
  offset table, and for every queried pass a row of 64-bit words holding its reachable set,
  computed on the first query and kept. The object answers as the reference \<open>reaches\<close> does.
\<close>

section \<open>The object\<close>

record GraphQueries =
  gq_graph :: FrameGraph
  gq_words :: nat
  gq_enabled :: bool
  gq_rows :: "u64 list"
  gq_ready :: "bool list"
  gq_offsets :: "nat list"
  gq_adjacent :: "nat list"

definition edge_in :: "nat \<Rightarrow> Edge \<Rightarrow> bool" where
  "edge_in n e = (e_src_pass e < n \<and> e_dst_pass e < n)"

text \<open>The three loops of the constructor: count, sum up, fill.\<close>

definition count_offsets :: "nat \<Rightarrow> Edge list \<Rightarrow> nat list" where
  "count_offsets n es = fold (\<lambda>e offs.
     if edge_in n e then offs[e_src_pass e + 1 := Suc (offs ! (e_src_pass e + 1))] else offs)
     es (replicate (n + 1) 0)"

definition sum_offsets :: "nat \<Rightarrow> nat list \<Rightarrow> nat list" where
  "sum_offsets n offs = fold (\<lambda>i offs. offs[i := offs ! i + offs ! (i - 1)]) [1..<Suc n] offs"

definition fill_adjacent :: "nat \<Rightarrow> Edge list \<Rightarrow> nat list \<Rightarrow> nat list \<times> nat list" where
  "fill_adjacent n es offs = fold (\<lambda>e (cursor, adj).
     if edge_in n e
     then (cursor[e_src_pass e := Suc (cursor ! e_src_pass e)],
           adj[cursor ! e_src_pass e := e_dst_pass e])
     else (cursor, adj)) es (offs, replicate (last offs) 0)"

text \<open>
  \<open>alloc_ok\<close> is whether the allocations succeed: the source catches \<^verbatim>\<open>std::bad_alloc\<close> and stays
  disabled.
\<close>

definition newGraphQueries :: "bool \<Rightarrow> FrameGraph \<Rightarrow> GraphQueries" where
  "newGraphQueries alloc_ok g =
     (let n = length (g_passes g);
          off = \<lparr>gq_graph = g, gq_words = 0, gq_enabled = False, gq_rows = [], gq_ready = [],
                 gq_offsets = [], gq_adjacent = []\<rparr>
      in if n > 4096 \<or> length (g_edges g) > 65536 then off
         else if \<not> alloc_ok then off
         else let words = (n + 63) div 64;
                  offs = sum_offsets n (count_offsets n (g_edges g));
                  (cursor, adj) = fill_adjacent n (g_edges g) offs
              in \<lparr>gq_graph = g, gq_words = words, gq_enabled = True,
                  gq_rows = replicate (n * words) 0, gq_ready = replicate n False,
                  gq_offsets = offs, gq_adjacent = adj\<rparr>)"

text \<open>Bits of a row. A write outside the row, undefined in C++, is skipped here.\<close>

definition row_test :: "u64 list \<Rightarrow> nat \<Rightarrow> bool" where
  "row_test row d = (row ! (d div 64) AND push_bit (d mod 64) 1 \<noteq> 0)"

definition row_set :: "u64 list \<Rightarrow> nat \<Rightarrow> u64 list" where
  "row_set row d = row[d div 64 := row ! (d div 64) OR push_bit (d mod 64) 1]"

fun visit_adjacent :: "nat list \<Rightarrow> u64 list \<Rightarrow> nat list \<Rightarrow> u64 list \<times> nat list" where
  "visit_adjacent [] row stack = (row, stack)"
| "visit_adjacent (d # ds) row stack =
     (if d div 64 < length row \<and> \<not> row_test row d
      then visit_adjacent ds (row_set row d) (d # stack)
      else visit_adjacent ds row stack)"

definition adjacent_of :: "nat list \<Rightarrow> nat list \<Rightarrow> nat \<Rightarrow> nat list" where
  "adjacent_of offs adj cur = map (\<lambda>i. adj ! i) [offs ! cur..<offs ! (cur + 1)]"

definition row_bits :: "u64 list \<Rightarrow> nat set" where
  "row_bits row = {d. d div 64 < length row \<and> bit (row ! (d div 64)) (d mod 64)}"

lemma row_bits_bound: "row_bits row \<subseteq> {..<64 * length row}"
  by (auto simp: row_bits_def)

lemma finite_row_bits [simp]: "finite (row_bits row)"
  using row_bits_bound finite_subset by blast

lemma and_push_bit_one:
  fixes w :: u64
  assumes "m < 64"
  shows "w AND push_bit m 1 \<noteq> 0 \<longleftrightarrow> bit w m"
proof -
  have "w AND push_bit m 1 = (if bit w m then push_bit m 1 else 0)"
    by (rule bit_word_eqI) (auto simp: bit_simps)
  moreover have "bit (push_bit m (1 :: u64)) m"
    using assms by (simp add: bit_simps)
  then have "push_bit m 1 \<noteq> (0 :: u64)" by (metis bit_0_eq bot_apply bot_bool_def)
  ultimately show ?thesis by simp
qed

lemma row_test_iff: "d div 64 < length row \<Longrightarrow> row_test row d \<longleftrightarrow> d \<in> row_bits row"
  using and_push_bit_one [of "d mod 64"] by (simp add: row_test_def row_bits_def)

lemma row_bits_set:
  assumes "d div 64 < length row"
  shows "row_bits (row_set row d) = insert d (row_bits row)" and "length (row_set row d) = length row"
proof -
  have "e \<in> row_bits (row_set row d) \<longleftrightarrow> e = d \<or> e \<in> row_bits row" for e
  proof (cases "e div 64 = d div 64")
    case True
    have "e = d \<longleftrightarrow> e mod 64 = d mod 64"
      using True by (metis div_mult_mod_eq)
    moreover have "bit (row ! (d div 64) OR push_bit (d mod 64) 1) (e mod 64) \<longleftrightarrow>
        bit (row ! (d div 64)) (e mod 64) \<or> e mod 64 = d mod 64"
      by (auto simp: bit_simps)
    ultimately show ?thesis
      using assms True by (auto simp: row_bits_def row_set_def)
  next
    case False
    then show ?thesis by (auto simp: row_bits_def row_set_def)
  qed
  then show "row_bits (row_set row d) = insert d (row_bits row)" by blast
  show "length (row_set row d) = length row" by (simp add: row_set_def)
qed

definition free_bits :: "u64 list \<Rightarrow> nat" where
  "free_bits row = 64 * length row - card (row_bits row)"

lemma free_bits_set:
  assumes "d div 64 < length row" and "\<not> row_test row d"
  shows "Suc (free_bits (row_set row d)) = free_bits row"
proof -
  have d: "d \<notin> row_bits row" "d < 64 * length row"
    using assms row_test_iff by auto
  then have "insert d (row_bits row) \<subseteq> {..<64 * length row}" using row_bits_bound by auto
  then have "card (insert d (row_bits row)) \<le> 64 * length row"
    using card_mono [of "{..<64 * length row}"] by simp
  then show ?thesis
    using d by (simp add: free_bits_def row_bits_set [OF assms(1)])
qed

lemma visit_adjacent_measure:
  "visit_adjacent ds row stack = (row', stack') \<Longrightarrow>
     2 * free_bits row' + length stack' \<le> 2 * free_bits row + length stack"
proof (induction ds row stack rule: visit_adjacent.induct)
  case (1 row stack)
  then show ?case by simp
next
  case (2 d ds row stack)
  then show ?case using free_bits_set [of d row] by (auto split: if_splits)
qed

function fill_row :: "nat list \<Rightarrow> nat list \<Rightarrow> u64 list \<Rightarrow> nat list \<Rightarrow> u64 list" where
  "fill_row offs adj row [] = row"
| "fill_row offs adj row (cur # stack) =
     (let (row', stack') = visit_adjacent (adjacent_of offs adj cur) row stack
      in fill_row offs adj row' stack')"
  by pat_completeness auto

termination
  by (relation "measure (\<lambda>(offs, adj, row, stack). 2 * free_bits row + length stack)")
    (auto simp: less_Suc_eq_le split: prod.split dest: visit_adjacent_measure)

definition gq_row :: "GraphQueries \<Rightarrow> nat \<Rightarrow> u64 list" where
  "gq_row q from = slice (from * gq_words q) (gq_words q) (gq_rows q)"

definition gq_reaches :: "GraphQueries \<Rightarrow> nat \<Rightarrow> nat \<Rightarrow> bool \<times> GraphQueries" where
  "gq_reaches q from dest =
     (if \<not> gq_enabled q then (reaches (gq_graph q) from dest, q)
      else let q = (if gq_ready q ! from then q
             else let row = fill_row (gq_offsets q) (gq_adjacent q)
                              (row_set (gq_row q from) from) [from];
                      f = from * gq_words q
                  in q\<lparr>gq_rows := take f (gq_rows q) @ row @ drop (f + gq_words q) (gq_rows q),
                       gq_ready := (gq_ready q)[from := True]\<rparr>)
           in (row_test (gq_row q from) dest, q))"

section \<open>The adjacency table\<close>

definition out_edges :: "nat \<Rightarrow> nat \<Rightarrow> Edge list \<Rightarrow> nat list" where
  "out_edges n s es = map e_dst_pass (filter (\<lambda>e. edge_in n e \<and> e_src_pass e = s) es)"

definition out_base :: "nat \<Rightarrow> Edge list \<Rightarrow> nat \<Rightarrow> nat" where
  "out_base n es s = (\<Sum>k < s. length (out_edges n k es))"

lemma count_offsets_spec:
  "length (count_offsets n es) = n + 1 \<and> count_offsets n es ! 0 = 0 \<and>
   (\<forall>s<n. count_offsets n es ! Suc s = length (out_edges n s es))"
proof -
  have "length offs = n + 1 \<and> offs ! 0 = 0 \<and> (\<forall>s<n. offs ! Suc s = length (out_edges n s es))"
    if "offs = fold (\<lambda>e offs. if edge_in n e
        then offs[e_src_pass e + 1 := Suc (offs ! (e_src_pass e + 1))] else offs) es
        (replicate (n + 1) 0)" for offs
    using that
  proof (induction es arbitrary: offs rule: rev_induct)
    case Nil
    then show ?case by (auto simp: out_edges_def nth_Cons')
  next
    case (snoc e es)
    then show ?case
      by (auto simp: out_edges_def nth_list_update edge_in_def)
  qed
  then show ?thesis by (simp add: count_offsets_def)
qed

lemma sum_offsets_spec:
  assumes "length offs = n + 1" and "offs ! 0 = 0" and "\<forall>s<n. offs ! Suc s = c s"
  shows "length (sum_offsets n offs) = n + 1 \<and> (\<forall>s\<le>n. sum_offsets n offs ! s = (\<Sum>k < s. c k))"
proof -
  have "m \<le> n \<Longrightarrow>
    length (fold (\<lambda>i offs. offs[i := offs ! i + offs ! (i - 1)]) [1..<Suc m] offs) = n + 1 \<and>
    (\<forall>s\<le>m. fold (\<lambda>i offs. offs[i := offs ! i + offs ! (i - 1)]) [1..<Suc m] offs ! s = (\<Sum>k < s. c k)) \<and>
    (\<forall>s. m < s \<and> s \<le> n \<longrightarrow>
       fold (\<lambda>i offs. offs[i := offs ! i + offs ! (i - 1)]) [1..<Suc m] offs ! s = offs ! s)" for m
  proof (induction m)
    case 0
    then show ?case using assms by simp
  next
    case (Suc m)
    have "[1..<Suc (Suc m)] = [1..<Suc m] @ [Suc m]" by simp
    with Suc assms show ?case by (auto simp: nth_list_update le_Suc_eq simp del: upt_Suc)
  qed
  from this [of n] show ?thesis by (simp add: sum_offsets_def)
qed

lemma out_base_Suc: "out_base n es (Suc s) = out_base n es s + length (out_edges n s es)"
  by (simp add: out_base_def)

lemma out_base_mono: "s \<le> t \<Longrightarrow> out_base n es s \<le> out_base n es t"
  by (induction t) (auto simp: out_base_Suc le_Suc_eq)

text \<open>While the table is filled: cursors and filled positions after a prefix of the edges.\<close>

lemma fill_adjacent_prefix:
  assumes offs: "length offs = n + 1" "\<forall>s\<le>n. offs ! s = out_base n all s"
    and pre: "all = es @ rest"
    and r: "fold (\<lambda>e (cursor, adj). if edge_in n e
        then (cursor[e_src_pass e := Suc (cursor ! e_src_pass e)],
              adj[cursor ! e_src_pass e := e_dst_pass e])
        else (cursor, adj)) es (offs, replicate (out_base n all n) 0) = (cursor, adj)"
  shows "length cursor = n + 1 \<and> length adj = out_base n all n \<and>
    (\<forall>s<n. cursor ! s = out_base n all s + length (out_edges n s es)) \<and>
    (\<forall>s<n. \<forall>j<length (out_edges n s es). adj ! (out_base n all s + j) = out_edges n s es ! j)"
  using pre r
proof (induction es arbitrary: cursor adj rest rule: rev_induct)
  case Nil
  then show ?case using offs by (auto simp: out_edges_def)
next
  case (snoc e es)
  let ?f = "\<lambda>e (cursor, adj). if edge_in n e
        then (cursor[e_src_pass e := Suc (cursor ! e_src_pass e)],
              adj[cursor ! e_src_pass e := e_dst_pass e])
        else (cursor, adj)"
  obtain cu ad where prev: "fold ?f es (offs, replicate (out_base n all n) 0) = (cu, ad)"
    by fastforce
  have IH: "length cu = n + 1" "length ad = out_base n all n"
    "\<forall>s<n. cu ! s = out_base n all s + length (out_edges n s es)"
    "\<forall>s<n. \<forall>j<length (out_edges n s es). ad ! (out_base n all s + j) = out_edges n s es ! j"
    using snoc.IH [OF _ prev, of "e # rest"] snoc.prems(1) by auto
  have step: "(cursor, adj) = ?f e (cu, ad)" using snoc.prems(2) prev by simp
  show ?case
  proof (cases "edge_in n e")
    case False
    then have "out_edges n s (es @ [e]) = out_edges n s es" for s by (simp add: out_edges_def)
    then show ?thesis using IH step False by simp
  next
    case True
    let ?s = "e_src_pass e"
    have s: "?s < n" using True by (simp add: edge_in_def)
    have oe: "out_edges n s (es @ [e]) = out_edges n s es @ (if s = ?s then [e_dst_pass e] else [])" for s
      using True by (simp add: out_edges_def)
    let ?p = "out_base n all ?s + length (out_edges n ?s es)"
    have new: "cursor = cu[?s := Suc ?p]" "adj = ad[?p := e_dst_pass e]"
      using step True IH(3) s by simp_all
    have less: "length (out_edges n ?s es) < length (out_edges n ?s all)"
      using snoc.prems(1) True by (simp add: out_edges_def)
    have p: "?p < out_base n all (Suc ?s)" using less by (simp add: out_base_Suc)
    then have plen: "?p < length ad"
      using IH(2) out_base_mono [of "Suc ?s" n n all] s by simp
    have le: "length (out_edges n s es) \<le> length (out_edges n s all)" for s
      using snoc.prems(1) by (simp add: out_edges_def)
    have other: "out_base n all s + j \<noteq> ?p" if "s \<noteq> ?s" "j < length (out_edges n s es)" for s j
    proof (cases "s < ?s")
      case True
      have "out_base n all s + j < out_base n all (Suc s)"
        using that(2) le [of s] by (simp add: out_base_Suc)
      also have "\<dots> \<le> out_base n all ?s" using True by (intro out_base_mono) simp
      finally show ?thesis by simp
    next
      case False
      with that(1) have "out_base n all (Suc ?s) \<le> out_base n all s" by (intro out_base_mono) simp
      with p show ?thesis by simp
    qed
    have "adj ! (out_base n all s + j) = out_edges n s (es @ [e]) ! j"
      if "s < n" "j < length (out_edges n s (es @ [e]))" for s j
    proof (cases "s = ?s")
      case True
      then show ?thesis
        using that IH(4) plen oe new(2) by (cases "j < length (out_edges n s es)") (auto simp: nth_append less_Suc_eq)
    next
      case False
      then show ?thesis using that IH(4) other [of s j] oe new(2) by simp
    qed
    then show ?thesis
      using IH s new oe by (auto simp: nth_list_update)
  qed
qed

lemma adjacency_correct:
  assumes "cur < length (g_passes g)" and "gq_enabled (newGraphQueries alloc_ok g)"
  shows "adjacent_of (gq_offsets (newGraphQueries alloc_ok g))
      (gq_adjacent (newGraphQueries alloc_ok g)) cur = out_edges (length (g_passes g)) cur (g_edges g)"
proof -
  let ?n = "length (g_passes g)" and ?es = "g_edges g"
  let ?offs = "sum_offsets ?n (count_offsets ?n ?es)"
  obtain cursor adj where f: "fill_adjacent ?n ?es ?offs = (cursor, adj)" by fastforce
  have q: "gq_offsets (newGraphQueries alloc_ok g) = ?offs"
    "gq_adjacent (newGraphQueries alloc_ok g) = adj"
    using assms(2) f by (auto simp: newGraphQueries_def split: if_splits)
  have o: "length ?offs = ?n + 1" "\<forall>s\<le>?n. ?offs ! s = out_base ?n ?es s"
    using sum_offsets_spec [of "count_offsets ?n ?es" ?n "\<lambda>s. length (out_edges ?n s ?es)"]
      count_offsets_spec [of ?n ?es] by (simp_all add: out_base_def)
  have "last ?offs = out_base ?n ?es ?n"
    using o by (metis add_diff_cancel_right' last_conv_nth le_refl length_0_conv nat_arith.rule0
        One_nat_def add_Suc_right nat.simps(3))
  then have A: "\<forall>s<?n. \<forall>j<length (out_edges ?n s ?es). adj ! (out_base ?n ?es s + j) = out_edges ?n s ?es ! j"
    using fill_adjacent_prefix [OF o, of ?es "[]" cursor adj] f by (simp add: fill_adjacent_def)
  have "?offs ! cur = out_base ?n ?es cur"
    "?offs ! (cur + 1) = out_base ?n ?es cur + length (out_edges ?n cur ?es)"
    using o(2) assms(1) by (simp_all add: out_base_Suc)
  then show ?thesis
    using A assms(1) unfolding q adjacent_of_def by (auto intro!: nth_equalityI)
qed

section \<open>The rows\<close>

lemma visit_adjacent_spec:
  assumes "visit_adjacent ds row stack = (row', stack')" and "\<forall>d \<in> set ds. d div 64 < length row"
  shows "length row' = length row" and "row_bits row' = row_bits row \<union> set ds"
    and "set stack' = set stack \<union> (row_bits row' - row_bits row)"
proof -
  have "length row' = length row \<and> row_bits row' = row_bits row \<union> set ds \<and>
    set stack' = set stack \<union> (row_bits row' - row_bits row)"
    using assms
  proof (induction ds row stack rule: visit_adjacent.induct)
    case (1 row stack)
    then show ?case by simp
  next
    case (2 d ds row stack)
    have d: "d div 64 < length row" using 2(4) by simp
    show ?case
    proof (cases "row_test row d")
      case True
      then show ?thesis using 2(2,3,4) d row_test_iff [OF d] by auto
    next
      case False
      then have "d \<notin> row_bits row" using row_test_iff [OF d] by simp
      moreover have "length row' = length (row_set row d) \<and>
          row_bits row' = row_bits (row_set row d) \<union> set ds \<and>
          set stack' = set (d # stack) \<union> (row_bits row' - row_bits (row_set row d))"
        using False d 2(1,3,4) row_bits_set(2) [OF d] by simp
      ultimately show ?thesis using row_bits_set [OF d] by auto
    qed
  qed
  then show "length row' = length row" "row_bits row' = row_bits row \<union> set ds"
    "set stack' = set stack \<union> (row_bits row' - row_bits row)"
    by blast+
qed

lemma fill_row_spec:
  assumes "set stack \<subseteq> row_bits row" and "row_bits row \<subseteq> {..<n}"
    and "\<forall>c<n. \<forall>d \<in> set (adjacent_of offs adj c). d < n" and "n \<le> 64 * length row"
    and "\<forall>c \<in> row_bits row - set stack. set (adjacent_of offs adj c) \<subseteq> row_bits row"
  shows "length (fill_row offs adj row stack) = length row \<and>
    row_bits (fill_row offs adj row stack) =
      {(c, d). c < n \<and> d \<in> set (adjacent_of offs adj c)}\<^sup>* `` row_bits row"
  using assms
proof (induction offs adj row stack rule: fill_row.induct)
  case (1 offs adj row)
  then have "{(c, d). c < n \<and> d \<in> set (adjacent_of offs adj c)}\<^sup>* `` row_bits row = row_bits row"
    by (intro Image_closed_trancl) auto
  then show ?case by simp
next
  case (2 offs adj row cur stack)
  let ?E = "{(c, d). c < n \<and> d \<in> set (adjacent_of offs adj c)}"
  obtain row' stack' where v: "visit_adjacent (adjacent_of offs adj cur) row stack = (row', stack')"
    by fastforce
  have cur: "cur \<in> row_bits row" "cur < n" using 2(2,3) by auto
  have dn: "\<forall>d \<in> set (adjacent_of offs adj cur). d < n" using 2(4) cur by blast
  then have "\<forall>d \<in> set (adjacent_of offs adj cur). d div 64 < length row" using 2(5) by force
  note S = visit_adjacent_spec [OF v this]
  have "length (fill_row offs adj row' stack') = length row' \<and>
    row_bits (fill_row offs adj row' stack') = ?E\<^sup>* `` row_bits row'"
  proof (rule 2(1) [OF v [symmetric] refl])
    show "set stack' \<subseteq> row_bits row'" using 2(2) S(2,3) by auto
    show "row_bits row' \<subseteq> {..<n}" using 2(3) S(2) dn by auto
    show "\<forall>c<n. \<forall>d \<in> set (adjacent_of offs adj c). d < n" by (rule 2(4))
    show "n \<le> 64 * length row'" using 2(5) S(1) by simp
    show "\<forall>c \<in> row_bits row' - set stack'. set (adjacent_of offs adj c) \<subseteq> row_bits row'"
      using 2(6) S(2,3) by auto
  qed
  moreover have "?E\<^sup>* `` row_bits row' = ?E\<^sup>* `` row_bits row"
  proof -
    have "d \<in> ?E\<^sup>* `` row_bits row" if "d \<in> row_bits row'" for d
      using that S(2) cur by (auto intro: r_into_rtrancl)
    then have "row_bits row' \<subseteq> ?E\<^sup>* `` row_bits row" by blast
    then have "?E\<^sup>* `` row_bits row' \<subseteq> ?E\<^sup>* `` (?E\<^sup>* `` row_bits row)"
      by (rule Image_mono [OF subset_refl])
    also have "\<dots> = ?E\<^sup>* `` row_bits row" by (simp flip: relcomp_Image)
    finally have "?E\<^sup>* `` row_bits row' \<subseteq> ?E\<^sup>* `` row_bits row" .
    moreover have "?E\<^sup>* `` row_bits row \<subseteq> ?E\<^sup>* `` row_bits row'" using S(2) by auto
    ultimately show ?thesis by (rule subset_antisym)
  qed
  ultimately show ?case using v S(1) by simp
qed

section \<open>The object answers as the reference traversal does\<close>

definition gq_ok :: "GraphQueries \<Rightarrow> FrameGraph \<Rightarrow> bool" where
  "gq_ok q g = (gq_graph q = g \<and> (gq_enabled q \<longrightarrow>
     (let n = length (g_passes g) in
      n \<le> 64 * gq_words q \<and> length (gq_rows q) = n * gq_words q \<and> length (gq_ready q) = n \<and>
      (\<forall>c<n. adjacent_of (gq_offsets q) (gq_adjacent q) c = out_edges n c (g_edges g)) \<and>
      (\<forall>c<n. row_bits (gq_row q c) =
         (if gq_ready q ! c then (edge_rel g)\<^sup>* `` {c} else {})))))"

lemma block_bound: "i < n \<Longrightarrow> i * w + w \<le> n * (w :: nat)"
  by (metis Suc_leI add.commute mult_Suc mult_le_mono1)

lemma splice_before:
  "c + w \<le> f \<Longrightarrow> f \<le> length xs \<Longrightarrow> slice c w (take f xs @ ys) = slice c w xs"
proof -
  assume a: "c + w \<le> f" "f \<le> length xs"
  then have "take (f - c) (drop c xs) @ ys = take (f - c) (drop c xs) @ ys"
    and "w \<le> length (take (f - c) (drop c xs))" by simp_all
  then have "take w (take (f - c) (drop c xs) @ ys) = take w (take (f - c) (drop c xs))"
    by (subst take_append) simp
  also have "\<dots> = take w (drop c xs)" using a by (simp add: min_def)
  finally show ?thesis using a by (simp add: slice_def drop_take)
qed

lemma splice_after:
  assumes "f + length ys \<le> c" and "f \<le> length xs"
  shows "slice c w (take f xs @ ys @ drop (f + length ys) xs) = slice c w xs"
proof -
  have "drop c (take f xs @ ys @ drop (f + length ys) xs) = drop (c - f - length ys + (f + length ys)) xs"
    using assms by (simp del: drop_drop add: drop_drop [symmetric]) (simp add: add.commute)
  also have "c - f - length ys + (f + length ys) = c" using assms by simp
  finally show ?thesis by (simp add: slice_def)
qed

lemma gq_ok_new: "gq_ok (newGraphQueries alloc_ok g) g"
proof (cases "gq_enabled (newGraphQueries alloc_ok g)")
  case False
  then show ?thesis
    by (auto simp: gq_ok_def newGraphQueries_def split: if_splits prod.splits)
next
  case True
  let ?n = "length (g_passes g)" and ?q = "newGraphQueries alloc_ok g"
  have q: "gq_graph ?q = g" "gq_words ?q = (?n + 63) div 64"
    "gq_rows ?q = replicate (?n * gq_words ?q) 0" "gq_ready ?q = replicate ?n False"
    using True by (auto simp: newGraphQueries_def split: if_splits prod.splits)
  have "row_bits (gq_row ?q c) = {}" if "c < ?n" for c
    using block_bound [OF that, of "gq_words ?q"]
    by (auto simp: row_bits_def gq_row_def q(3) slice_def)
  moreover have "?n \<le> 64 * ((?n + 63) div 64)" by linarith
  ultimately show ?thesis
    using q adjacency_correct [OF _ True] by (simp add: gq_ok_def)
qed

lemma out_edges_edge_rel:
  "in_range g \<Longrightarrow> {(c, d). c < length (g_passes g) \<and>
     d \<in> set (out_edges (length (g_passes g)) c (g_edges g))} = edge_rel g"
  by (auto simp: out_edges_def edge_rel_def edge_in_def in_range_def)

lemma gq_reaches_correct:
  assumes ok: "gq_ok q g" and r: "in_range g"
    and lt: "from < length (g_passes g)" and dest: "dest < length (g_passes g)"
    and eq: "gq_reaches q from dest = (res, q')"
  shows "res \<longleftrightarrow> (from, dest) \<in> (edge_rel g)\<^sup>*" and "gq_ok q' g"
proof -
  let ?n = "length (g_passes g)" and ?w = "gq_words q" and ?E = "edge_rel g"
  have "(res \<longleftrightarrow> (from, dest) \<in> ?E\<^sup>*) \<and> gq_ok q' g"
  proof (cases "gq_enabled q")
    case False
    then show ?thesis using ok eq reaches_iff [OF r lt] by (auto simp: gq_reaches_def gq_ok_def)
  next
    case True
    then have q: "gq_graph q = g" "?n \<le> 64 * ?w" "length (gq_rows q) = ?n * ?w"
      "length (gq_ready q) = ?n"
      "\<And>c. c < ?n \<Longrightarrow> adjacent_of (gq_offsets q) (gq_adjacent q) c = out_edges ?n c (g_edges g)"
      "\<And>c. c < ?n \<Longrightarrow> row_bits (gq_row q c) = (if gq_ready q ! c then ?E\<^sup>* `` {c} else {})"
      using ok by (auto simp: gq_ok_def)
    have len: "length (gq_row q c) = ?w" if "c < ?n" for c
      using block_bound [OF that, of ?w] q(3) by (simp add: gq_row_def slice_def)
    have word: "d div 64 < ?w" if "d < ?n" for d using that q(2) by linarith
    define q1 where "q1 = (if gq_ready q ! from then q
             else let row = fill_row (gq_offsets q) (gq_adjacent q)
                              (row_set (gq_row q from) from) [from];
                      f = from * ?w
                  in q\<lparr>gq_rows := take f (gq_rows q) @ row @ drop (f + ?w) (gq_rows q),
                       gq_ready := (gq_ready q)[from := True]\<rparr>)"
    have "gq_reaches q from dest = (row_test (gq_row q1 from) dest, q1)"
      using True unfolding gq_reaches_def q1_def by simp
    then have res: "res = row_test (gq_row q1 from) dest" and q': "q' = q1"
      using eq by simp_all
    have "gq_ok q1 g \<and> row_bits (gq_row q1 from) = ?E\<^sup>* `` {from} \<and> length (gq_row q1 from) = ?w"
    proof (cases "gq_ready q ! from")
      case True
      then show ?thesis using ok q(6) [OF lt] len [OF lt] by (simp add: q1_def)
    next
      case False
      let ?start = "row_set (gq_row q from) from"
      let ?row = "fill_row (gq_offsets q) (gq_adjacent q) ?start [from]"
      have from_w: "from div 64 < length (gq_row q from)" using word [OF lt] len [OF lt] by simp
      have row0: "row_bits ?start = {from}" "length ?start = ?w"
        using row_bits_set [OF from_w] q(6) [OF lt] False len [OF lt] by simp_all
      have adj: "set (adjacent_of (gq_offsets q) (gq_adjacent q) c) \<subseteq> {..<?n}" if "c < ?n" for c
        using q(5) [OF that] by (auto simp: out_edges_def edge_in_def)
      have E: "{(c, d). c < ?n \<and> d \<in> set (adjacent_of (gq_offsets q) (gq_adjacent q) c)} = ?E"
        using q(5) by (auto simp flip: out_edges_edge_rel [OF r])
      have row: "row_bits ?row = ?E\<^sup>* `` {from}" "length ?row = ?w"
        using fill_row_spec [of "[from]" ?start ?n "gq_offsets q" "gq_adjacent q"] row0 lt adj q(2) E
        by auto
      let ?f = "from * ?w"
      have q1: "q1 = q\<lparr>gq_rows := take ?f (gq_rows q) @ ?row @ drop (?f + ?w) (gq_rows q),
          gq_ready := (gq_ready q)[from := True]\<rparr>"
        using False by (simp add: q1_def)
      have fw: "?f + ?w \<le> length (gq_rows q)" using block_bound [OF lt] q(3) by simp
      have own: "gq_row q1 from = ?row" using fw row(2) by (simp add: q1 gq_row_def slice_def)
      have others: "gq_row q1 c = gq_row q c" if "c < ?n" "c \<noteq> from" for c
      proof (cases "c < from")
        case True
        then have "c * ?w + ?w \<le> ?f" by (rule block_bound)
        then show ?thesis using fw by (simp add: q1 gq_row_def splice_before)
      next
        case False
        with that have "?f + ?w \<le> c * ?w" using block_bound [of "from" c] by simp
        then show ?thesis
          using fw row(2) splice_after [of ?f ?row "c * ?w" "gq_rows q" ?w]
          by (simp add: q1 gq_row_def)
      qed
      have "gq_ok q1 g"
        using q own others row fw \<open>gq_enabled q\<close> lt
        by (auto simp: gq_ok_def q1 nth_list_update)
      then show ?thesis using own row by simp
    qed
    moreover have "dest div 64 < ?w" using word [OF dest] .
    ultimately show ?thesis using row_test_iff [of dest "gq_row q1 from"] res q' by auto
  qed
  then show "res \<longleftrightarrow> (from, dest) \<in> ?E\<^sup>*" and "gq_ok q' g" by blast+
qed

text \<open>A sequence of queries on one object.\<close>

fun run_queries :: "GraphQueries \<Rightarrow> (nat \<times> nat) list \<Rightarrow> bool list" where
  "run_queries q [] = []"
| "run_queries q ((s, d) # qs) = (let (r, q) = gq_reaches q s d in r # run_queries q qs)"

lemma run_queries_correct:
  "gq_ok q g \<Longrightarrow> in_range g \<Longrightarrow>
     \<forall>(s, d) \<in> set qs. s < length (g_passes g) \<and> d < length (g_passes g) \<Longrightarrow>
     run_queries q qs = map (\<lambda>(s, d). reaches g s d) qs"
proof (induction qs arbitrary: q)
  case Nil
  then show ?case by simp
next
  case (Cons sd qs)
  obtain s d where sd: "sd = (s, d)" by fastforce
  obtain r q' where e: "gq_reaches q s d = (r, q')" by fastforce
  note C = gq_reaches_correct [OF Cons.prems(1,2) _ _ e]
  show ?case using Cons C sd e reaches_iff [OF Cons.prems(2), of s d] by auto
qed

definition chain_graph :: FrameGraph where
  "chain_graph = reset_graph\<lparr>g_passes := replicate 3 default_pass,
     g_edges := [\<lparr>e_src_pass = 1, e_dst_pass = 2, e_resource = 7\<rparr>,
                 \<lparr>e_src_pass = 0, e_dst_pass = 1, e_resource = 7\<rparr>]\<rparr>"

text \<open>
  C22: the cached query object is equivalent to the reference traversal. Whatever sequence of
  in-range reachability queries pass coalescing asks on one \<open>GraphQueries\<close> object, with the
  table enabled or with the fallback after an oversize graph or a failed allocation, every answer
  is the one the edge-list traversal gives.
\<close>

theorem cached_queries_equal_reference:
  assumes "in_range g"
    and "\<forall>(s, d) \<in> set qs. s < length (g_passes g) \<and> d < length (g_passes g)"
  shows "run_queries (newGraphQueries alloc_ok g) qs = map (\<lambda>(s, d). reaches g s d) qs"
  using run_queries_correct [OF gq_ok_new assms] .

theorem cached_queries_equal_reference_witness:
  "run_queries (newGraphQueries True chain_graph) [(0, 2), (2, 0), (0, 1)] = [True, False, True]"
proof -
  have "in_range chain_graph"
    by (simp add: in_range_def chain_graph_def reset_graph_def)
  from cached_queries_equal_reference [OF this, of "[(0, 2), (2, 0), (0, 1)]" True]
  show ?thesis
    by (simp add: chain_graph_def reaches_def reset_graph_def numeral_3_eq_3 numeral_2_eq_2)
qed

end
