(* ===== verification/Fg_Optimizer_State.thy ===== *)
theory Fg_Optimizer_State
  imports Fg_Graph_Queries
begin

text \<open>
  The options, counters and helper objects of the optimizer (\<^verbatim>\<open>framegraph/fg_optimizer.hpp\<close>) and
  the resource-lifetime pass (\<^verbatim>\<open>fg_optimizer/lifetime.cpp\<close>) that the other passes rerun.
  Counters are words of the source's width; an optional pointer is an option.
\<close>

section \<open>Options and counters\<close>

record OptimizerOptions =
  oo_passcoalesce :: bool
  oo_memoryless :: bool
  oo_dce :: bool
  oo_reorder :: bool
  oo_collect_return_diagnostics :: bool
  oo_memoryless_observation_frames :: u32

definition default_options :: OptimizerOptions where
  "default_options = \<lparr>oo_passcoalesce = False, oo_memoryless = False, oo_dce = False,
     oo_reorder = False, oo_collect_return_diagnostics = False,
     oo_memoryless_observation_frames = 8\<rparr>"

record OptimizerStats =
  os_dce_dropped :: u32
  os_dce_preserved_unprovable :: u32
  os_pass_coalesced_count :: u32
  os_reorder_distance_max :: u32
  os_blocked_cycle :: u32
  os_second_non_draw :: u32
  os_return_candidates :: u64
  os_return_merged :: u64
  os_return_blocked_cycle :: u64
  os_return_second_non_draw :: u64
  os_return_non_render_intervener :: u64
  os_return_missing_invariant :: u64
  os_return_dependency_kept :: u64
  os_return_move_before :: u64
  os_return_move_after :: u64
  os_return_non_draw_intervener :: u64
  os_return_semantic_intervener :: u64
  os_return_commandless_intervener :: u64
  os_return_commandless :: u64
  os_active_seed_merge_count :: u32
  os_active_seed_merge_distance_total :: u64
  os_active_seed_merge_distance_max :: u32
  os_active_seed_command_before :: u64
  os_active_seed_command_after :: u64
  os_active_seed_empty_intervening :: u64
  os_memoryless_promoted :: u32
  os_memoryless_blocked_observation :: u32
  os_memoryless_dropped_via_lock :: u32
  os_memoryless_dropped_via_readback :: u32

definition no_stats :: OptimizerStats where
  "no_stats = \<lparr>os_dce_dropped = 0, os_dce_preserved_unprovable = 0,
     os_pass_coalesced_count = 0, os_reorder_distance_max = 0, os_blocked_cycle = 0,
     os_second_non_draw = 0, os_return_candidates = 0, os_return_merged = 0,
     os_return_blocked_cycle = 0, os_return_second_non_draw = 0,
     os_return_non_render_intervener = 0, os_return_missing_invariant = 0,
     os_return_dependency_kept = 0, os_return_move_before = 0, os_return_move_after = 0,
     os_return_non_draw_intervener = 0, os_return_semantic_intervener = 0,
     os_return_commandless_intervener = 0, os_return_commandless = 0,
     os_active_seed_merge_count = 0, os_active_seed_merge_distance_total = 0,
     os_active_seed_merge_distance_max = 0, os_active_seed_command_before = 0,
     os_active_seed_command_after = 0, os_active_seed_empty_intervening = 0,
     os_memoryless_promoted = 0, os_memoryless_blocked_observation = 0,
     os_memoryless_dropped_via_lock = 0, os_memoryless_dropped_via_readback = 0\<rparr>"

section \<open>The merge-witness sink\<close>

text \<open>
  A caller-sized buffer: \<^verbatim>\<open>storage.size()\<close> is the capacity, \<^verbatim>\<open>count\<close> the number of entries.
\<close>

record MergeWitness =
  mw_flattenedCommandIndex :: nat
  mw_mergeOrdinal :: nat
  mw_mergeDistance :: nat

record WitnessSink =
  sk_capacity :: nat
  sk_entries :: "MergeWitness list"
  sk_attempted :: nat
  sk_overflow :: bool

definition recordWitness :: "nat \<Rightarrow> nat \<Rightarrow> WitnessSink \<Rightarrow> WitnessSink" where
  "recordWitness commandIndex distance sk =
     (let mergeOrdinal = sk_attempted sk;
          sk = sk\<lparr>sk_attempted := Suc (sk_attempted sk)\<rparr>
      in if length (sk_entries sk) \<ge> sk_capacity sk \<or> mergeOrdinal > UINT32_MAX
         then sk\<lparr>sk_overflow := True\<rparr>
         else sk\<lparr>sk_entries := sk_entries sk @
                [\<lparr>mw_flattenedCommandIndex = commandIndex, mw_mergeOrdinal = as_u32 mergeOrdinal,
                  mw_mergeDistance = distance\<rparr>]\<rparr>)"

definition rejectUnrepresentable :: "WitnessSink \<Rightarrow> WitnessSink" where
  "rejectUnrepresentable sk =
     sk\<lparr>sk_attempted := Suc (sk_attempted sk), sk_overflow := True\<rparr>"

definition publishable :: "WitnessSink \<Rightarrow> MergeWitness list" where
  "publishable sk = (if sk_overflow sk then [] else sk_entries sk)"

section \<open>Return diagnostics\<close>

record PassIdentity =
  pi_incarnation :: u64
  pi_sourceOwned :: bool

record ReturnDiagnosticTracker =
  rt_passIdentities :: "PassIdentity list"
  rt_seenCandidates :: "u64 list list"
  rt_nextIdentity :: u64

definition newTracker :: "FrameGraph \<Rightarrow> ReturnDiagnosticTracker" where
  "newTracker g = fold (\<lambda>pass t. t\<lparr>rt_passIdentities := rt_passIdentities t @
        [\<lparr>pi_incarnation = rt_nextIdentity t,
          pi_sourceOwned = (\<not> f_active_render_seed (p_flags pass))\<rparr>],
      rt_nextIdentity := rt_nextIdentity t + 1\<rparr>) (g_passes g)
     \<lparr>rt_passIdentities = [], rt_seenCandidates = [], rt_nextIdentity = 1\<rparr>"

definition beginCandidate ::
  "nat \<Rightarrow> nat \<Rightarrow> ReturnDiagnosticTracker \<Rightarrow> bool \<times> ReturnDiagnosticTracker" where
  "beginCandidate a b t =
     (let ids = rt_passIdentities t in
      if a > b \<or> b \<ge> length ids \<or> \<not> pi_sourceOwned (ids ! a) then (False, t)
      else let identity = map pi_incarnation (slice a (b - a + 1) ids)
           in if identity \<in> set (rt_seenCandidates t) then (False, t)
              else (True, t\<lparr>rt_seenCandidates := rt_seenCandidates t @ [identity]\<rparr>))"

definition rebuildTracker ::
  "nat list \<Rightarrow> nat \<Rightarrow> nat \<Rightarrow> nat \<Rightarrow> ReturnDiagnosticTracker \<Rightarrow> ReturnDiagnosticTracker" where
  "rebuildTracker newPassSources mergedMarker mergedA mergedB t =
     (let ids = rt_passIdentities t;
          mergedSourceOwned = (mergedA < length ids \<and> mergedB < length ids \<and>
            (pi_sourceOwned (ids ! mergedA) \<or> pi_sourceOwned (ids ! mergedB)));
          (rebuilt, next_id) = fold (\<lambda>src (out, nxt).
            if src = mergedMarker
            then (out @ [\<lparr>pi_incarnation = nxt, pi_sourceOwned = mergedSourceOwned\<rparr>], nxt + 1)
            else if src < length ids then (out @ [ids ! src], nxt)
            else (out, nxt)) newPassSources ([], rt_nextIdentity t)
      in t\<lparr>rt_passIdentities := rebuilt, rt_nextIdentity := next_id\<rparr>)"

section \<open>Resource lifetime\<close>

text \<open>The scan for the smallest and largest pass of a non-empty log.\<close>

definition accessSpan :: "AccessLog list \<Rightarrow> nat \<times> nat" where
  "accessSpan accesses = fold (\<lambda>a (first, last).
     (if a_pass_index a < first then a_pass_index a else first,
      if a_pass_index a > last then a_pass_index a else last)) accesses
     (a_pass_index (hd accesses), a_pass_index (hd accesses))"

definition lifetimeNode :: "ResourceNode \<Rightarrow> ResourceNode" where
  "lifetimeNode node =
     (if r_accesses node = [] then node\<lparr>r_first_use_pass := 0, r_last_use_pass := 0\<rparr>
      else let (first, last) = accessSpan (r_accesses node)
           in node\<lparr>r_first_use_pass := first, r_last_use_pass := last\<rparr>)"

definition runLifetime :: "FrameGraph \<Rightarrow> FrameGraph" where
  "runLifetime g = g\<lparr>g_resources := map lifetimeNode (g_resources g)\<rparr>"

definition resourceIsTransient :: "ResourceNode \<Rightarrow> bool" where
  "resourceIsTransient node = (r_first_use_pass node = r_last_use_pass node)"

lemma accessSpan_fold:
  "fold (\<lambda>a (first, last).
     (if a_pass_index a < first then a_pass_index a else first,
      if a_pass_index a > last then a_pass_index a else last)) as (lo, hi) =
   (Min (insert lo (a_pass_index ` set as)), Max (insert hi (a_pass_index ` set as)))"
proof (induction as arbitrary: lo hi)
  case Nil
  then show ?case by simp
next
  case (Cons a as)
  have "(if a_pass_index a < lo then a_pass_index a else lo) = min lo (a_pass_index a)"
    "(if a_pass_index a > hi then a_pass_index a else hi) = max hi (a_pass_index a)"
    by auto
  then show ?case
    by (cases "as = []") (simp_all add: Cons min.assoc max.assoc)
qed

lemma lifetimeNode_span:
  assumes "r_accesses node \<noteq> []"
  shows "r_first_use_pass (lifetimeNode node) = Min (a_pass_index ` set (r_accesses node))"
    and "r_last_use_pass (lifetimeNode node) = Max (a_pass_index ` set (r_accesses node))"
proof -
  obtain a as where "r_accesses node = a # as" using assms by (cases "r_accesses node") auto
  moreover have "insert (a_pass_index a) (a_pass_index ` set (a # as)) = a_pass_index ` set (a # as)"
    by auto
  ultimately show "r_first_use_pass (lifetimeNode node) = Min (a_pass_index ` set (r_accesses node))"
    and "r_last_use_pass (lifetimeNode node) = Max (a_pass_index ` set (r_accesses node))"
    using accessSpan_fold [of "a # as" "a_pass_index a" "a_pass_index a"]
    by (simp_all add: lifetimeNode_def accessSpan_def)
qed

lemma lifetimeNode_simps [simp]:
  "r_handle (lifetimeNode n) = r_handle n" "r_accesses (lifetimeNode n) = r_accesses n"
  "r_residency (lifetimeNode n) = r_residency n"
  "r_classifier_flags (lifetimeNode n) = r_classifier_flags n"
  by (simp_all add: lifetimeNode_def split: prod.split)

lemma runLifetime_simps [simp]:
  "g_passes (runLifetime g) = g_passes g" "g_edges (runLifetime g) = g_edges g"
  "g_commands (runLifetime g) = g_commands g" "g_draws (runLifetime g) = g_draws g"
  "g_frame_id (runLifetime g) = g_frame_id g"
  by (simp_all add: runLifetime_def)

end
