(* ===== verification/Fg_Coalesce.thy ===== *)
theory Fg_Coalesce
  imports Fg_Optimizer_State
begin

text \<open>
  Pass coalescing (\<^verbatim>\<open>fg_optimizer/passcoalesce.cpp\<close>). One round (\<open>coalesceOnce\<close>) scans the pairs
  of passes in ascending order, classifies the passes between a matching pair, and merges the
  first pair for which every intervening pass can move; \<open>runPassCoalesce\<close> repeats it. The scan
  state holds what the round may change besides the graph: the counters, the diagnostic tracker
  and the lazily created reachability object.
\<close>

section \<open>Predicates on passes\<close>

definition validCommandRange :: "FrameGraph \<Rightarrow> PassNode \<Rightarrow> bool" where
  "validCommandRange g pass =
     (rg_first (p_commands pass) \<le> length (g_commands g) \<and>
      rg_count (p_commands pass) \<le> length (g_commands g) - rg_first (p_commands pass))"

definition validDrawRange :: "FrameGraph \<Rightarrow> PassNode \<Rightarrow> bool" where
  "validDrawRange g pass =
     (rg_first (p_draws pass) \<le> length (g_draws g) \<and>
      rg_count (p_draws pass) \<le> length (g_draws g) - rg_first (p_draws pass))"

definition hasNonDrawCommand :: "FrameGraph \<Rightarrow> PassNode \<Rightarrow> bool" where
  "hasNonDrawCommand g pass = (\<exists>c \<in> set (pass_commands g pass). cref_kind c \<noteq> CmdDrawRun)"

definition hasSemanticFlag :: "PassNode \<Rightarrow> bool" where
  "hasSemanticFlag pass = (f_contains_lock (p_flags pass) \<or>
     f_contains_occlusion_query (p_flags pass) \<or> f_contains_event_query (p_flags pass) \<or>
     f_debug_marker (p_flags pass))"

record Summary =
  sm_valid :: bool
  sm_drawOnly :: bool

definition passSummary :: "FrameGraph \<Rightarrow> PassNode \<Rightarrow> Summary" where
  "passSummary g pass =
     (let valid = (validCommandRange g pass \<and> validDrawRange g pass)
      in \<lparr>sm_valid = valid, sm_drawOnly = (valid \<and> \<not> hasNonDrawCommand g pass)\<rparr>)"

text \<open>Number of hard boundaries before each pass index.\<close>

fun hardBoundariesFrom :: "FrameGraph \<Rightarrow> nat \<Rightarrow> PassNode list \<Rightarrow> nat list" where
  "hardBoundariesFrom g k [] = [k]"
| "hardBoundariesFrom g k (pass # ps) = k # hardBoundariesFrom g
     (k + (if p_kind pass \<noteq> PassRender \<or> f_dead (p_flags pass) \<or> \<not> sm_valid (passSummary g pass)
           then 1 else 0)) ps"

section \<open>Classifying the passes in between\<close>

datatype Move = MoveBefore | MoveAfter | MoveBlocked

definition eitherReaches ::
  "nat \<times> nat \<Rightarrow> nat \<times> nat \<Rightarrow> GraphQueries \<Rightarrow> bool \<times> GraphQueries" where
  "eitherReaches p1 p2 q =
     (let (r, q) = gq_reaches q (fst p1) (snd p1)
      in if r then (True, q) else gq_reaches q (fst p2) (snd p2))"

definition classifyIntervening ::
  "GraphQueries \<Rightarrow> nat \<Rightarrow> nat \<Rightarrow> nat \<Rightarrow> Move \<times> GraphQueries" where
  "classifyIntervening q a b x =
     (let (pair_feeds_x, q) = eitherReaches (a, x) (b, x) q;
          (x_feeds_pair, q) = eitherReaches (x, a) (x, b) q
      in (if pair_feeds_x \<and> x_feeds_pair then MoveBlocked
          else if \<not> x_feeds_pair then MoveAfter else MoveBefore, q))"

record Interveners =
  iv_before :: "nat list"
  iv_after :: "nat list"
  iv_dependency_kept :: u64
  iv_move_before :: u64
  iv_move_after :: u64
  iv_non_draw :: u64
  iv_semantic :: u64
  iv_commandless :: u64

definition no_interveners :: Interveners where
  "no_interveners = \<lparr>iv_before = [], iv_after = [], iv_dependency_kept = 0, iv_move_before = 0,
     iv_move_after = 0, iv_non_draw = 0, iv_semantic = 0, iv_commandless = 0\<rparr>"

datatype IntervenerFailure = BlockedCycle | NonRenderIntervener | MissingInvariant

definition countIntervener :: "FrameGraph \<Rightarrow> Summary \<Rightarrow> PassNode \<Rightarrow> Interveners \<Rightarrow> Interveners" where
  "countIntervener g sm px iv =
     (let commandless = (rg_count (p_commands px) = 0)
      in iv\<lparr>iv_commandless := iv_commandless iv + (if commandless then 1 else 0),
            iv_non_draw := iv_non_draw iv + (if \<not> commandless \<and> \<not> sm_drawOnly sm then 1 else 0),
            iv_semantic := iv_semantic iv + (if hasSemanticFlag px then 1 else 0)\<rparr>)"

definition noteMove :: "bool \<Rightarrow> PassNode \<Rightarrow> nat \<Rightarrow> Move \<Rightarrow> Interveners \<Rightarrow> Interveners" where
  "noteMove collect px x m iv =
     (if m = MoveBefore
      then let iv = iv\<lparr>iv_before := iv_before iv @ [as_u32 x]\<rparr>
           in if collect
              then iv\<lparr>iv_move_before := iv_move_before iv + 1,
                      iv_dependency_kept := iv_dependency_kept iv +
                        (if rg_count (p_commands px) = 0 then 0 else 1)\<rparr>
              else iv
      else let iv = iv\<lparr>iv_after := iv_after iv @ [as_u32 x]\<rparr>
           in if collect then iv\<lparr>iv_move_after := iv_move_after iv + 1\<rparr> else iv)"

text \<open>
  The loop over the passes between \<open>a\<close> and \<open>b\<close>, up to the first \<^verbatim>\<open>break\<close>. \<open>alloc_ok\<close> is the
  outcome of the allocations when the reachability object is created here.
\<close>

fun scanInterveners ::
  "bool \<Rightarrow> FrameGraph \<Rightarrow> Summary list \<Rightarrow> bool \<Rightarrow> nat \<Rightarrow> nat \<Rightarrow> nat list \<Rightarrow> Interveners \<Rightarrow>
   GraphQueries option \<Rightarrow> Interveners \<times> IntervenerFailure option \<times> GraphQueries option" where
  "scanInterveners alloc_ok g sms collect a b [] iv queries = (iv, None, queries)"
| "scanInterveners alloc_ok g sms collect a b (x # xs) iv queries =
     (let px = g_passes g ! x in
      if p_kind px \<noteq> PassRender then (iv, Some NonRenderIntervener, queries)
      else if f_dead (p_flags px) \<or> \<not> sm_valid (sms ! x) then (iv, Some MissingInvariant, queries)
      else let iv = (if collect then countIntervener g (sms ! x) px iv else iv);
               q = (case queries of None \<Rightarrow> newGraphQueries alloc_ok g | Some q \<Rightarrow> q);
               (m, q) = classifyIntervening q (as_u32 a) (as_u32 b) (as_u32 x)
           in if m = MoveBlocked then (iv, Some BlockedCycle, Some q)
              else scanInterveners alloc_ok g sms collect a b xs (noteMove collect px x m iv) (Some q))"

section \<open>Deciding a pair\<close>

record CoalesceState =
  st_stats :: "OptimizerStats option"
  st_tracker :: "ReturnDiagnosticTracker option"
  st_queries :: "GraphQueries option"

definition countStat :: "(OptimizerStats \<Rightarrow> OptimizerStats) \<Rightarrow> CoalesceState \<Rightarrow> CoalesceState" where
  "countStat f st = st\<lparr>st_stats := map_option f (st_stats st)\<rparr>"

definition collectReturnCandidate :: "nat \<Rightarrow> nat \<Rightarrow> CoalesceState \<Rightarrow> bool \<times> CoalesceState" where
  "collectReturnCandidate a b st =
     (case (st_stats st, st_tracker st) of
        (Some s, Some t) \<Rightarrow>
          if b > a + 1
          then let (c, t) = beginCandidate a b t in (c, st\<lparr>st_tracker := Some t\<rparr>)
          else (False, st)
      | _ \<Rightarrow> (False, st))"

definition countReturn :: "Interveners \<Rightarrow> OptimizerStats \<Rightarrow> OptimizerStats" where
  "countReturn iv s = s\<lparr>
     os_return_dependency_kept := os_return_dependency_kept s + iv_dependency_kept iv,
     os_return_move_before := os_return_move_before s + iv_move_before iv,
     os_return_move_after := os_return_move_after s + iv_move_after iv,
     os_return_non_draw_intervener := os_return_non_draw_intervener s + iv_non_draw iv,
     os_return_semantic_intervener := os_return_semantic_intervener s + iv_semantic iv,
     os_return_commandless_intervener := os_return_commandless_intervener s + iv_commandless iv\<rparr>"

definition countFailure :: "bool \<Rightarrow> bool \<Rightarrow> Interveners \<Rightarrow> IntervenerFailure \<Rightarrow> CoalesceState \<Rightarrow>
    CoalesceState" where
  "countFailure collect active_seed iv failure st =
     (let st = (if collect then countStat (\<lambda>s. let s = countReturn iv s in
            case failure of
              MissingInvariant \<Rightarrow>
                s\<lparr>os_return_missing_invariant := os_return_missing_invariant s + 1\<rparr>
            | NonRenderIntervener \<Rightarrow>
                s\<lparr>os_return_non_render_intervener := os_return_non_render_intervener s + 1\<rparr>
            | BlockedCycle \<Rightarrow>
                s\<lparr>os_return_blocked_cycle := os_return_blocked_cycle s + 1\<rparr>) st else st)
      in if failure = BlockedCycle \<and> active_seed
         then countStat (\<lambda>s. s\<lparr>os_blocked_cycle := os_blocked_cycle s + 1\<rparr>) st else st)"

text \<open>
  The body of the inner loop up to the merge: either the pair is skipped (\<open>None\<close>), or its
  classified interveners are returned together with whether the pair is collected.
\<close>

definition decidePair ::
  "bool \<Rightarrow> FrameGraph \<Rightarrow> Summary list \<Rightarrow> nat list \<Rightarrow> nat \<Rightarrow> nat \<Rightarrow> CoalesceState \<Rightarrow>
   (Interveners \<times> bool) option \<times> CoalesceState" where
  "decidePair alloc_ok g sms hard a b st =
     (let pa = g_passes g ! a; pb = g_passes g ! b; seed = f_active_render_seed (p_flags pa) in
      if p_kind pb \<noteq> PassRender \<or> f_dead (p_flags pb) then (None, st)
      else if p_targets pa \<noteq> p_targets pb then (None, st)
      else let (collect, st) = collectReturnCandidate a b st;
               st = (if collect then countStat (\<lambda>s.
                  s\<lparr>os_return_candidates := os_return_candidates s + 1\<rparr>) st else st) in
      if \<not> sm_valid (sms ! a) \<or> \<not> sm_valid (sms ! b)
      then (None, if collect then countStat (\<lambda>s.
              s\<lparr>os_return_missing_invariant := os_return_missing_invariant s + 1\<rparr>) st else st)
      else let st = (if collect \<and> rg_count (p_commands pb) = 0 then countStat (\<lambda>s.
              s\<lparr>os_return_commandless := os_return_commandless s + 1\<rparr>) st else st) in
      if \<not> sm_drawOnly (sms ! b)
      then let st = (if collect then countStat (\<lambda>s.
                s\<lparr>os_return_second_non_draw := os_return_second_non_draw s + 1\<rparr>) st else st)
           in (None, if seed then countStat (\<lambda>s.
                s\<lparr>os_second_non_draw := os_second_non_draw s + 1\<rparr>) st else st)
      else if st_tracker st = None \<and> \<not> seed \<and> hard ! b \<noteq> hard ! (a + 1) then (None, st)
      else case scanInterveners alloc_ok g sms collect a b [a + 1..<b] no_interveners
                  (st_queries st) of
        (iv, None, queries) \<Rightarrow> (Some (iv, collect), st\<lparr>st_queries := queries\<rparr>)
      | (iv, Some failure, queries) \<Rightarrow>
          (None, countFailure collect seed iv failure (st\<lparr>st_queries := queries\<rparr>)))"

fun scanB ::
  "bool \<Rightarrow> FrameGraph \<Rightarrow> Summary list \<Rightarrow> nat list \<Rightarrow> nat \<Rightarrow> nat list \<Rightarrow> CoalesceState \<Rightarrow>
   (nat \<times> nat \<times> Interveners \<times> bool) option \<times> CoalesceState" where
  "scanB alloc_ok g sms hard a [] st = (None, st)"
| "scanB alloc_ok g sms hard a (b # bs) st =
     (case decidePair alloc_ok g sms hard a b st of
        (Some (iv, collect), st) \<Rightarrow> (Some (a, b, iv, collect), st)
      | (None, st) \<Rightarrow> scanB alloc_ok g sms hard a bs st)"

fun scanA ::
  "bool \<Rightarrow> FrameGraph \<Rightarrow> Summary list \<Rightarrow> nat list \<Rightarrow> nat list \<Rightarrow> CoalesceState \<Rightarrow>
   (nat \<times> nat \<times> Interveners \<times> bool) option \<times> CoalesceState" where
  "scanA alloc_ok g sms hard [] st = (None, st)"
| "scanA alloc_ok g sms hard (a # as) st =
     (let pa = g_passes g ! a in
      if p_kind pa \<noteq> PassRender \<or> f_dead (p_flags pa) then scanA alloc_ok g sms hard as st
      else case scanB alloc_ok g sms hard a [a + 1..<length (g_passes g)] st of
             (Some found, st) \<Rightarrow> (Some found, st)
           | (None, st) \<Rightarrow> scanA alloc_ok g sms hard as st)"

section \<open>Merging a pair\<close>

text \<open>
  \<^verbatim>\<open>new_pass_src\<close>: the old index of every pass of the new order, or \<^verbatim>\<open>kMergedMarker\<close>.
\<close>

definition newPassOrder :: "nat \<Rightarrow> nat \<Rightarrow> nat \<Rightarrow> nat list \<Rightarrow> nat list \<Rightarrow> nat list" where
  "newPassOrder n a b before after = concat (map (\<lambda>p.
     if p = a then before @ [UINT32_MAX]
     else if p = b then after
     else if p > a \<and> p < b \<and> (as_u32 p \<in> set before \<or> as_u32 p \<in> set after) then []
     else [as_u32 p]) [0..<n])"

record Rebuilt =
  rb_passes :: "PassNode list"
  rb_draws :: "DrawRef list"
  rb_commands :: "CommandRef list"
  rb_old_to_new :: "nat list"

text \<open>One iteration of the loop that materializes the new passes.\<close>

definition materializePass :: "FrameGraph \<Rightarrow> nat \<Rightarrow> nat \<Rightarrow> nat \<Rightarrow> Rebuilt \<Rightarrow> Rebuilt" where
  "materializePass g a b src rb =
     (let new_idx = as_u32 (length (rb_passes rb));
          merged = (src = UINT32_MAX);
          orig = g_passes g ! (if merged then a else src);
          ds = (if merged then pass_draws g (g_passes g ! a) @ pass_draws g (g_passes g ! b)
                else pass_draws g orig);
          cs = (if merged then pass_commands g (g_passes g ! a) @ pass_commands g (g_passes g ! b)
                else pass_commands g orig);
          copy = orig\<lparr>
            p_draws := \<lparr>rg_first = as_u32 (length (rb_draws rb)), rg_count = as_u32 (length ds)\<rparr>,
            p_commands := \<lparr>rg_first = as_u32 (length (rb_commands rb)),
                           rg_count = as_u32 (length cs)\<rparr>\<rparr>;
          remap = (if merged then (rb_old_to_new rb)[a := new_idx, b := new_idx]
                   else (rb_old_to_new rb)[src := new_idx])
      in \<lparr>rb_passes = rb_passes rb @ [copy], rb_draws = rb_draws rb @ ds,
          rb_commands = rb_commands rb @ cs, rb_old_to_new = remap\<rparr>)"

definition materialize :: "FrameGraph \<Rightarrow> nat \<Rightarrow> nat \<Rightarrow> nat list \<Rightarrow> Rebuilt" where
  "materialize g a b srcs = fold (materializePass g a b) srcs
     \<lparr>rb_passes = [], rb_draws = [], rb_commands = [],
      rb_old_to_new = replicate (length (g_passes g)) UINT32_MAX\<rparr>"

definition remapAccesses :: "nat list \<Rightarrow> ResourceNode \<Rightarrow> ResourceNode" where
  "remapAccesses old_to_new node = node\<lparr>r_accesses := map (\<lambda>access.
     if a_pass_index access < length old_to_new \<and>
        old_to_new ! a_pass_index access \<noteq> UINT32_MAX
     then access\<lparr>a_pass_index := old_to_new ! a_pass_index access\<rparr> else access) (r_accesses node)\<rparr>"

definition remapEdge :: "nat list \<Rightarrow> Edge \<Rightarrow> Edge list \<Rightarrow> Edge list" where
  "remapEdge old_to_new e new_edges =
     (if e_src_pass e \<ge> length old_to_new \<or> e_dst_pass e \<ge> length old_to_new then new_edges
      else let ns = old_to_new ! e_src_pass e; nd = old_to_new ! e_dst_pass e in
        if ns = UINT32_MAX \<or> nd = UINT32_MAX \<or> ns = nd then new_edges
        else if \<exists>x \<in> set new_edges. e_src_pass x = ns \<and> e_dst_pass x = nd \<and>
                  e_resource x = e_resource e
        then new_edges
        else new_edges @ [\<lparr>e_src_pass = ns, e_dst_pass = nd, e_resource = e_resource e\<rparr>])"

definition mergePair :: "FrameGraph \<Rightarrow> nat \<Rightarrow> nat \<Rightarrow> nat list \<Rightarrow> nat list \<Rightarrow> FrameGraph" where
  "mergePair g a b before after =
     (let rb = materialize g a b (newPassOrder (length (g_passes g)) a b before after)
      in g\<lparr>g_resources := map (remapAccesses (rb_old_to_new rb)) (g_resources g),
           g_passes := rb_passes rb, g_draws := rb_draws rb, g_commands := rb_commands rb,
           g_edges := fold (remapEdge (rb_old_to_new rb)) (g_edges g) []\<rparr>)"

section \<open>A round and the fixpoint\<close>

definition witnessMerge :: "FrameGraph \<Rightarrow> PassNode \<Rightarrow> nat \<Rightarrow> WitnessSink \<Rightarrow> WitnessSink" where
  "witnessMerge g pb distance sk =
     (let first = rg_first (p_commands pb); cnt = rg_count (p_commands pb);
          representable = (cnt \<noteq> 0 \<and> first < length (g_commands g) \<and>
            cnt \<le> length (g_commands g) - first)
      in if representable
         then recordWitness (cref_command_index (g_commands g ! first)) distance sk
         else rejectUnrepresentable sk)"

definition countMerge :: "FrameGraph \<Rightarrow> PassNode \<Rightarrow> nat \<Rightarrow> Interveners \<Rightarrow> bool \<Rightarrow> OptimizerStats \<Rightarrow>
    OptimizerStats" where
  "countMerge g pa distance iv collect s =
     (let withCommands = (\<lambda>xs. of_nat (length (filter
            (\<lambda>x. rg_count (p_commands (g_passes g ! x)) \<noteq> 0) xs)));
          withoutCommands = (\<lambda>xs. of_nat (length (filter
            (\<lambda>x. rg_count (p_commands (g_passes g ! x)) = 0) xs)));
          s = s\<lparr>os_pass_coalesced_count := os_pass_coalesced_count s + 1\<rparr>;
          s = (if collect then countReturn iv
                 (s\<lparr>os_return_merged := os_return_merged s + 1\<rparr>) else s);
          s = s\<lparr>os_reorder_distance_max := max (os_reorder_distance_max s) (of_nat distance)\<rparr>
      in if f_active_render_seed (p_flags pa)
         then s\<lparr>os_active_seed_merge_count := os_active_seed_merge_count s + 1,
                os_active_seed_merge_distance_total :=
                  os_active_seed_merge_distance_total s + of_nat distance,
                os_active_seed_merge_distance_max :=
                  max (os_active_seed_merge_distance_max s) (of_nat distance),
                os_active_seed_command_before :=
                  os_active_seed_command_before s + withCommands (iv_before iv),
                os_active_seed_command_after :=
                  os_active_seed_command_after s + withCommands (iv_after iv),
                os_active_seed_empty_intervening := os_active_seed_empty_intervening s +
                  withoutCommands (iv_before iv) + withoutCommands (iv_after iv)\<rparr>
         else s)"

text \<open>
  One round on the graph, the counters, the tracker and the witness sink; the last component is
  whether a pair was merged. The reachability object lives for one round only.
\<close>

definition coalesceOnce ::
  "bool \<Rightarrow> FrameGraph \<Rightarrow> OptimizerStats option \<Rightarrow> ReturnDiagnosticTracker option \<Rightarrow>
   WitnessSink option \<Rightarrow> FrameGraph \<times> OptimizerStats option \<times> ReturnDiagnosticTracker option \<times>
   WitnessSink option \<times> bool" where
  "coalesceOnce alloc_ok g stats tracker sink =
     (let n = length (g_passes g);
          sms = map (passSummary g) (g_passes g);
          hard = hardBoundariesFrom g 0 (g_passes g)
      in case scanA alloc_ok g sms hard [0..<n]
                \<lparr>st_stats = stats, st_tracker = tracker, st_queries = None\<rparr> of
           (None, st) \<Rightarrow> (g, st_stats st, st_tracker st, sink, False)
         | (Some (a, b, iv, collect), st) \<Rightarrow>
             (let pa = g_passes g ! a; pb = g_passes g ! b; distance = as_u32 (b - a);
                  g' = mergePair g a b (iv_before iv) (iv_after iv);
                  tracker = map_option (rebuildTracker
                    (newPassOrder n a b (iv_before iv) (iv_after iv)) UINT32_MAX a b) (st_tracker st);
                  sink = (if f_active_render_seed (p_flags pa)
                          then map_option (witnessMerge g pb distance) sink else sink)
              in (g', map_option (countMerge g pa distance iv collect) (st_stats st), tracker,
                  sink, True)))"

text \<open>The loop \<^verbatim>\<open>while (guard-- > 0 && coalesceOnce(...))\<close>; the guard is the fuel.\<close>

fun coalesceLoop ::
  "bool \<Rightarrow> nat \<Rightarrow> FrameGraph \<Rightarrow> OptimizerStats option \<Rightarrow> ReturnDiagnosticTracker option \<Rightarrow>
   WitnessSink option \<Rightarrow> FrameGraph \<times> OptimizerStats option \<times> WitnessSink option" where
  "coalesceLoop alloc_ok 0 g stats tracker sink = (g, stats, sink)"
| "coalesceLoop alloc_ok (Suc guard) g stats tracker sink =
     (case coalesceOnce alloc_ok g stats tracker sink of
        (g, stats, tracker, sink, True) \<Rightarrow> coalesceLoop alloc_ok guard g stats tracker sink
      | (g, stats, tracker, sink, False) \<Rightarrow> (g, stats, sink))"

definition runPassCoalesce ::
  "bool \<Rightarrow> FrameGraph \<Rightarrow> OptimizerStats option \<Rightarrow> bool \<Rightarrow> WitnessSink option \<Rightarrow>
   FrameGraph \<times> OptimizerStats option \<times> WitnessSink option" where
  "runPassCoalesce alloc_ok g stats collect sink =
     (let tracker = (if collect \<and> stats \<noteq> None then Some (newTracker g) else None);
          (g, stats, sink) = coalesceLoop alloc_ok (length (g_passes g)) g stats tracker sink
      in (runLifetime g, stats, sink))"

end
