(* ===== verification/Fg_Builder.thy ===== *)
theory Fg_Builder
  imports Fg_Dag
begin

text \<open>
  The frame-graph builder (\<^verbatim>\<open>framegraph/fg_builder.cpp\<close>): one forward walk over the commands of
  a source payload that opens passes, records resource accesses and infers dependency edges.
  \<open>Builder\<close> is the state of the C++ class of that name; every handler is the state transformer
  of the member function with the same name. The payload and the alias resolver, which the
  class keeps as constant members, are arguments.
\<close>

section \<open>The alias resolver\<close>

text \<open>
  The two callbacks of \<^verbatim>\<open>ResourceAliasResolver\<close>; a null function pointer is \<open>None\<close>. Production
  binds them to the retained resource records, which are not part of the frame graph.
\<close>

record ResourceAliasResolver =
  ar_resolve :: "(ResourceHandle \<Rightarrow> ResourceHandle) option"
  ar_covers :: "(ResourceHandle \<Rightarrow> bool \<Rightarrow> bool \<Rightarrow> bool) option"

definition no_alias :: ResourceAliasResolver where
  "no_alias = \<lparr>ar_resolve = None, ar_covers = None\<rparr>"

definition resolveAlias :: "ResourceAliasResolver \<Rightarrow> ResourceHandle \<Rightarrow> ResourceHandle" where
  "resolveAlias ar h = (case ar_resolve ar of None \<Rightarrow> h | Some f \<Rightarrow> f h)"

definition depthStencilClearCoversResource ::
  "ResourceAliasResolver \<Rightarrow> ResourceHandle \<Rightarrow> bool \<Rightarrow> bool \<Rightarrow> bool" where
  "depthStencilClearCoversResource ar h clearDepth clearStencil =
     (case ar_covers ar of Some f \<Rightarrow> f h clearDepth clearStencil
      | None \<Rightarrow> clearDepth \<and> clearStencil)"

section \<open>Attachment sets\<close>

text \<open>The loop over the colour attachments, shared by the two functions below.\<close>

fun collectColors ::
  "nat \<Rightarrow> RenderTargetAttachment list \<Rightarrow> AttachmentSet \<times> nat \<Rightarrow> AttachmentSet \<times> nat" where
  "collectColors i [] (tset, cnt) = (tset, cnt)"
| "collectColors i (a # as) (tset, cnt) =
     collectColors (Suc i) as
       (tset\<lparr>t_color := (t_color tset)[i := att_handle a],
            t_sample_count := max (t_sample_count tset) (att_sampleCount a)\<rparr>,
        if att_handle a \<noteq> 0 then i + 1 else cnt)"

definition attachmentSetFromHot :: "FlatDrawStateRecord \<Rightarrow> AttachmentSet" where
  "attachmentSetFromHot hot =
     (let (tset, cnt) = collectColors 0 (hot_colorAttachments hot) (empty_targets, 0)
      in tset\<lparr>t_color_count := cnt,
             t_depth := att_handle (hot_depthStencil hot),
             t_sample_count :=
               max (t_sample_count tset) (att_sampleCount (hot_depthStencil hot))\<rparr>)"

definition attachmentSetFromClear :: "ClearCommandView \<Rightarrow> AttachmentSet" where
  "attachmentSetFromClear clear =
     (let (tset, cnt) =
            (if clr_clearColor clear
             then collectColors 0 (clr_colorAttachments clear) (empty_targets, 0)
             else (empty_targets, 0));
          tset = tset\<lparr>t_color_count := cnt\<rparr>
      in if clr_clearDepth clear \<or> clr_clearStencil clear
         then tset\<lparr>t_depth := att_handle (clr_depthStencil clear),
                  t_sample_count :=
                    max (t_sample_count tset) (att_sampleCount (clr_depthStencil clear))\<rparr>
         else tset)"

section \<open>Builder state and pass lifecycle\<close>

record Builder =
  b_graph :: FrameGraph
  b_currentPass :: nat
  b_openRenderPass :: bool

definition newBuilder :: "nat \<Rightarrow> Builder" where
  "newBuilder frame_id = \<lparr>b_graph = reset_graph\<lparr>g_frame_id := frame_id\<rparr>,
     b_currentPass = 0, b_openRenderPass = False\<rparr>"

definition finalizeCurrentPass :: "Builder \<Rightarrow> Builder" where
  "finalizeCurrentPass b = b\<lparr>b_openRenderPass := False\<rparr>"

definition openRenderPass :: "AttachmentSet \<Rightarrow> u64 \<Rightarrow> Builder \<Rightarrow> Builder" where
  "openRenderPass targets state_profile b =
     (let g = b_graph b;
          pass = default_pass\<lparr>p_kind := PassRender, p_targets := targets,
            p_draws := \<lparr>rg_first = as_u32 (length (g_draws g)), rg_count = 0\<rparr>,
            p_commands := \<lparr>rg_first = as_u32 (length (g_commands g)), rg_count = 0\<rparr>,
            p_state_profile := state_profile\<rparr>;
          g' = g\<lparr>g_passes := g_passes g @ [pass]\<rparr>
      in b\<lparr>b_graph := g', b_currentPass := as_u32 (length (g_passes g') - 1),
           b_openRenderPass := True\<rparr>)"

text \<open>Returns the index of the new pass; \<^verbatim>\<open>currentPass_\<close> is left to the caller.\<close>

definition emitStandalonePass ::
  "PassKind \<Rightarrow> nat \<Rightarrow> SourceCommandView \<Rightarrow> Builder \<Rightarrow> nat \<times> Builder" where
  "emitStandalonePass kind commandIndex cmd b =
     (let b = finalizeCurrentPass b;
          g = b_graph b;
          pass = default_pass\<lparr>p_kind := kind,
            p_draws := \<lparr>rg_first = as_u32 (length (g_draws g)), rg_count = 0\<rparr>,
            p_commands := \<lparr>rg_first = as_u32 (length (g_commands g)), rg_count = 1\<rparr>\<rparr>;
          g' = g\<lparr>g_commands := g_commands g @
                   [\<lparr>cref_command_index = as_u32 commandIndex, cref_kind = cmd_kind cmd\<rparr>],
                 g_passes := g_passes g @ [pass]\<rparr>
      in (as_u32 (length (g_passes g') - 1), b\<lparr>b_graph := g'\<rparr>))"

section \<open>Resource bookkeeping and dependency edges\<close>

text \<open>\<^verbatim>\<open>resourceFor\<close> returns a reference into the vector: here, the node's index.\<close>

definition resourceFor :: "ResourceHandle \<Rightarrow> Builder \<Rightarrow> nat \<times> Builder" where
  "resourceFor h b =
     (let g = b_graph b; idx = findResourceIndex g h
      in if idx \<noteq> length (g_resources g) then (idx, b)
         else (idx, b\<lparr>b_graph := g\<lparr>g_resources := g_resources g @
                 [(default_resource h)\<lparr>r_first_use_pass := b_currentPass b,
                                       r_last_use_pass := b_currentPass b\<rparr>]\<rparr>\<rparr>))"

definition addEdgeOnce :: "nat \<Rightarrow> nat \<Rightarrow> ResourceHandle \<Rightarrow> FrameGraph \<Rightarrow> FrameGraph" where
  "addEdgeOnce src dst h g =
     (if src = dst then g
      else if \<exists>e \<in> set (g_edges g). e_src_pass e = src \<and> e_dst_pass e = dst \<and> e_resource e = h
      then g
      else g\<lparr>g_edges := g_edges g @
               [\<lparr>e_src_pass = src, e_dst_pass = dst, e_resource = h\<rparr>]\<rparr>)"

text \<open>Position of the most recent write in the log; \<open>None\<close> is the source's \<^verbatim>\<open>-1\<close>.\<close>

fun last_write_from :: "nat \<Rightarrow> AccessLog list \<Rightarrow> nat option \<Rightarrow> nat option" where
  "last_write_from i [] lw = lw"
| "last_write_from i (a # as) lw =
     last_write_from (Suc i) as (if accessWrites (a_access_kind a) then Some i else lw)"

definition lastWriteIndex :: "AccessLog list \<Rightarrow> nat option" where
  "lastWriteIndex log = last_write_from 0 log None"

text \<open>
  The sources of the edges a new access needs, in the order the source adds them: RAW, then
  WAW, then WAR for every read after the last write.
\<close>

definition hazardSources :: "AccessLog list \<Rightarrow> AccessKind \<Rightarrow> nat list" where
  "hazardSources log kind =
     (let lw = lastWriteIndex log;
          prior = (case lw of None \<Rightarrow> [] | Some i \<Rightarrow> [a_pass_index (log ! i)]);
          start = (case lw of None \<Rightarrow> 0 | Some i \<Rightarrow> i + 1)
      in (if accessReads kind then prior else []) @
         (if accessWrites kind
          then prior @ map a_pass_index
                 (filter (\<lambda>a. accessReads (a_access_kind a)) (drop start log))
          else []))"

definition addDependencyEdges ::
  "AccessLog list \<Rightarrow> nat \<Rightarrow> AccessKind \<Rightarrow> ResourceHandle \<Rightarrow> FrameGraph \<Rightarrow> FrameGraph" where
  "addDependencyEdges log pass kind h g =
     fold (\<lambda>src. addEdgeOnce src pass h) (hazardSources log kind) g"

definition touchNode :: "ResourceNode \<Rightarrow> nat \<Rightarrow> AccessKind \<Rightarrow> AccessStage \<Rightarrow> ResourceNode" where
  "touchNode node pass kind stage =
     (let node = recordAccess node pass kind stage;
          node = (if pass < r_first_use_pass node then node\<lparr>r_first_use_pass := pass\<rparr> else node)
      in if pass > r_last_use_pass node then node\<lparr>r_last_use_pass := pass\<rparr> else node)"

definition noteAccess ::
  "ResourceAliasResolver \<Rightarrow> ResourceHandle \<Rightarrow> nat \<Rightarrow> AccessKind \<Rightarrow> AccessStage \<Rightarrow> bool \<Rightarrow>
   Builder \<Rightarrow> Builder" where
  "noteAccess ar handle pass kind stage resolve_alias b =
     (if handle = 0 then b
      else let h = (if resolve_alias then resolveAlias ar handle else handle) in
        if h = 0 then b
        else let (i, b) = resourceFor h b;
                 node = g_resources (b_graph b) ! i;
                 g = addDependencyEdges (r_accesses node) pass kind h (b_graph b)
             in b\<lparr>b_graph := g\<lparr>g_resources :=
                    (g_resources g)[i := touchNode node pass kind stage]\<rparr>\<rparr>)"

section \<open>Command handlers\<close>

definition recordAttachmentWrites ::
  "ResourceAliasResolver \<Rightarrow> AttachmentSet \<Rightarrow> nat \<Rightarrow> Builder \<Rightarrow> Builder" where
  "recordAttachmentWrites ar targets pass b =
     noteAccess ar (t_depth targets) pass AccWrite StageFragment True
       (fold (\<lambda>i. noteAccess ar (t_color targets ! i) pass AccWrite StageFragment True)
          [0..<t_color_count targets] b)"

definition recordTextureReads ::
  "ResourceAliasResolver \<Rightarrow> FlatDrawStateRecord \<Rightarrow> nat \<Rightarrow> Builder \<Rightarrow> Builder" where
  "recordTextureReads ar hot pass b =
     (if hot_textureMask hot = 0 then b
      else fold (\<lambda>stage b.
             if hot_textureMask hot AND push_bit stage 1 = 0 then b
             else noteAccess ar (hot_textures hot ! stage) pass AccRead StageFragment False b)
           [0..<length (hot_textures hot)] b)"

definition update_pass :: "nat \<Rightarrow> (PassNode \<Rightarrow> PassNode) \<Rightarrow> FrameGraph \<Rightarrow> FrameGraph" where
  "update_pass i f g = g\<lparr>g_passes := (g_passes g)[i := f (g_passes g ! i)]\<rparr>"

definition appendCommand :: "nat \<Rightarrow> MetalCommandKind \<Rightarrow> Builder \<Rightarrow> Builder" where
  "appendCommand commandIndex kind b =
     (let g = (b_graph b)\<lparr>g_commands := g_commands (b_graph b) @
                 [\<lparr>cref_command_index = as_u32 commandIndex, cref_kind = kind\<rparr>]\<rparr>
      in b\<lparr>b_graph := update_pass (b_currentPass b)
             (\<lambda>p. p\<lparr>p_commands := (p_commands p)\<lparr>rg_count :=
                as_u32 (rg_count (p_commands p) + 1)\<rparr>\<rparr>) g\<rparr>)"

definition appendDraw :: "DrawRef \<Rightarrow> Builder \<Rightarrow> Builder" where
  "appendDraw d b =
     (let g = (b_graph b)\<lparr>g_draws := g_draws (b_graph b) @ [d]\<rparr>
      in b\<lparr>b_graph := update_pass (b_currentPass b)
             (\<lambda>p. p\<lparr>p_draws := (p_draws p)\<lparr>rg_count :=
                as_u32 (rg_count (p_draws p) + 1)\<rparr>\<rparr>) g\<rparr>)"

definition handleDrawRun ::
  "ResourceAliasResolver \<Rightarrow> nat \<Rightarrow> SourceCommandView \<Rightarrow> Builder \<Rightarrow> Builder" where
  "handleDrawRun ar commandIndex cmd b =
     (case cmd_hot cmd of None \<Rightarrow> b
      | Some hot \<Rightarrow>
        (let targets = attachmentSetFromHot hot;
             state_profile = (case cmd_drawRunRecord cmd of None \<Rightarrow> 0
                              | Some r \<Rightarrow> run_runStableBindingHash r);
             b = (if \<not> b_openRenderPass b \<or>
                     p_targets (g_passes (b_graph b) ! b_currentPass b) \<noteq> targets
                  then let b = openRenderPass targets state_profile b
                       in recordAttachmentWrites ar targets (b_currentPass b) b
                  else if p_state_profile (g_passes (b_graph b) ! b_currentPass b) = 0
                  then b\<lparr>b_graph := update_pass (b_currentPass b)
                           (\<lambda>p. p\<lparr>p_state_profile := state_profile\<rparr>) (b_graph b)\<rparr>
                  else b);
             b = recordTextureReads ar hot (b_currentPass b) b;
             param_first = (case cmd_drawRunRecord cmd of None \<Rightarrow> 0 | Some r \<Rightarrow> run_firstParam r);
             param_count = (case cmd_drawRunRecord cmd of None \<Rightarrow> as_u32 (cmd_drawParamCount cmd)
                            | Some r \<Rightarrow> run_paramCount r)
         in appendCommand commandIndex CmdDrawRun
              (appendDraw \<lparr>dref_command_index = as_u32 commandIndex,
                 dref_param_first = param_first, dref_param_count = param_count\<rparr> b)))"

definition handleClear ::
  "ResourceAliasResolver \<Rightarrow> nat \<Rightarrow> SourceCommandView \<Rightarrow> Builder \<Rightarrow> Builder" where
  "handleClear ar commandIndex cmd b =
     (case cmd_clear cmd of None \<Rightarrow> b
      | Some clear \<Rightarrow>
        (let targets = attachmentSetFromClear clear;
             colorAccessKind = (if clr_rectCount clear = 0 then AccClear else AccReadWrite);
             depthStencilAccessKind =
               (if clr_rectCount clear = 0 \<and>
                   depthStencilClearCoversResource ar (att_handle (clr_depthStencil clear))
                     (clr_clearDepth clear) (clr_clearStencil clear)
                then AccClear else AccReadWrite);
             b = openRenderPass targets 0 (finalizeCurrentPass b);
             b = appendCommand commandIndex CmdClear b;
             b = fold (\<lambda>i b. noteAccess ar (t_color targets ! i) (b_currentPass b)
                        colorAccessKind StageFragment True b)
                   [0..<t_color_count targets] b
         in if t_depth targets \<noteq> 0
            then noteAccess ar (t_depth targets) (b_currentPass b) depthStencilAccessKind
                   StageFragment True b
            else b))"

definition handlePresent ::
  "ResourceAliasResolver \<Rightarrow> nat \<Rightarrow> SourceCommandView \<Rightarrow> Builder \<Rightarrow> Builder" where
  "handlePresent ar commandIndex cmd b =
     (let (pass, b) = emitStandalonePass PassPresent commandIndex cmd b;
          b = (case cmd_presentSource cmd of None \<Rightarrow> b
               | Some source \<Rightarrow>
                 if source \<noteq> 0
                 then noteAccess ar source pass AccRead StageCopy True (b\<lparr>b_currentPass := pass\<rparr>)
                 else b)
      in b\<lparr>b_graph := (b_graph b)\<lparr>g_flush_boundary := True\<rparr>\<rparr>)"

definition emitBlit ::
  "ResourceAliasResolver \<Rightarrow> nat \<Rightarrow> SourceCommandView \<Rightarrow> ResourceHandle \<Rightarrow> ResourceHandle \<Rightarrow>
   Builder \<Rightarrow> Builder" where
  "emitBlit ar commandIndex cmd source dest b =
     (let (pass, b) = emitStandalonePass PassBlit commandIndex cmd b;
          b = b\<lparr>b_currentPass := pass\<rparr>;
          b = (if source \<noteq> 0 then noteAccess ar source pass AccRead StageCopy True b else b)
      in if dest \<noteq> 0 then noteAccess ar dest pass AccWrite StageCopy True b else b)"

definition handleSurfaceCopy ::
  "ResourceAliasResolver \<Rightarrow> nat \<Rightarrow> SourceCommandView \<Rightarrow> Builder \<Rightarrow> Builder" where
  "handleSurfaceCopy ar commandIndex cmd b =
     (case cmd_surfaceCopy cmd of None \<Rightarrow> b
      | Some d \<Rightarrow> emitBlit ar commandIndex cmd (cpy_source d) (cpy_destination d) b)"

definition handleStretchRect ::
  "ResourceAliasResolver \<Rightarrow> nat \<Rightarrow> SourceCommandView \<Rightarrow> Builder \<Rightarrow> Builder" where
  "handleStretchRect ar commandIndex cmd b =
     (case cmd_stretchRect cmd of None \<Rightarrow> b
      | Some d \<Rightarrow> emitBlit ar commandIndex cmd (cpy_source d) (cpy_destination d) b)"

definition handleColorFill ::
  "ResourceAliasResolver \<Rightarrow> nat \<Rightarrow> SourceCommandView \<Rightarrow> Builder \<Rightarrow> Builder" where
  "handleColorFill ar commandIndex cmd b =
     (case cmd_colorFill_destination cmd of None \<Rightarrow> b
      | Some dest \<Rightarrow> emitBlit ar commandIndex cmd 0 dest b)"

definition handleDepthResolve ::
  "ResourceAliasResolver \<Rightarrow> nat \<Rightarrow> SourceCommandView \<Rightarrow> Builder \<Rightarrow> Builder" where
  "handleDepthResolve ar commandIndex cmd b =
     (case cmd_depthResolve cmd of None \<Rightarrow> b
      | Some d \<Rightarrow> emitBlit ar commandIndex cmd (cpy_source d) (cpy_destination d) b)"

definition handleGenerateMipmaps ::
  "ResourceAliasResolver \<Rightarrow> nat \<Rightarrow> SourceCommandView \<Rightarrow> Builder \<Rightarrow> Builder" where
  "handleGenerateMipmaps ar commandIndex cmd b =
     (case cmd_generateMipmaps_texture cmd of None \<Rightarrow> b
      | Some texture \<Rightarrow>
        (let (pass, b) = emitStandalonePass PassBlit commandIndex cmd b
         in noteAccess ar texture pass AccReadWrite StageCopy False (b\<lparr>b_currentPass := pass\<rparr>)))"

definition markReadback :: "ResourceHandle \<Rightarrow> Builder \<Rightarrow> Builder" where
  "markReadback h b =
     (let (i, b) = resourceFor h b; g = b_graph b; node = g_resources g ! i
      in b\<lparr>b_graph := g\<lparr>g_resources := (g_resources g)[i := node\<lparr>r_classifier_flags :=
             (r_classifier_flags node)\<lparr>cf_readback_seen := True\<rparr>\<rparr>]\<rparr>\<rparr>)"

definition handleReadback ::
  "ResourceAliasResolver \<Rightarrow> nat \<Rightarrow> SourceCommandView \<Rightarrow> Builder \<Rightarrow> Builder" where
  "handleReadback ar commandIndex cmd b =
     (case cmd_readback_source cmd of None \<Rightarrow> b
      | Some source \<Rightarrow>
        (let (pass, b) = emitStandalonePass PassBlit commandIndex cmd b;
             b = noteAccess ar source pass AccRead StageCopy True (b\<lparr>b_currentPass := pass\<rparr>)
         in if source \<noteq> 0 then markReadback source b else b))"

definition handleCommand ::
  "ResourceAliasResolver \<Rightarrow> SourcePayloadView \<Rightarrow> nat \<Rightarrow> Builder \<Rightarrow> Builder" where
  "handleCommand ar payload i b =
     (let cmd = commandAt payload i in
      case cmd_kind cmd of
        CmdDrawRun \<Rightarrow> handleDrawRun ar i cmd b
      | CmdClear \<Rightarrow> handleClear ar i cmd b
      | CmdPresent \<Rightarrow> handlePresent ar i cmd b
      | CmdSurfaceCopy \<Rightarrow> handleSurfaceCopy ar i cmd b
      | CmdStretchRect \<Rightarrow> handleStretchRect ar i cmd b
      | CmdColorFill \<Rightarrow> handleColorFill ar i cmd b
      | CmdDepthResolve \<Rightarrow> handleDepthResolve ar i cmd b
      | CmdGenerateMipmaps \<Rightarrow> handleGenerateMipmaps ar i cmd b
      | CmdReadback \<Rightarrow> handleReadback ar i cmd b)"

definition runBuilder ::
  "ResourceAliasResolver \<Rightarrow> SourcePayloadView \<Rightarrow> Builder \<Rightarrow> Builder" where
  "runBuilder ar payload b =
     finalizeCurrentPass (fold (handleCommand ar payload) [0..<commandCount payload] b)"

definition buildFrameGraph ::
  "SourcePayloadView \<Rightarrow> nat \<Rightarrow> ResourceAliasResolver \<Rightarrow> FrameGraph" where
  "buildFrameGraph payload frame_id ar = b_graph (runBuilder ar payload (newBuilder frame_id))"

end
