(* ===== verification/Fg_Hazards.thy ===== *)
theory Fg_Hazards
  imports Fg_Builder
begin

text \<open>
  What the builder's bookkeeping guarantees. \<open>graph_ok\<close> is the invariant of the resource nodes
  and the edges: one node per non-null handle, chronological logs, edges that point forward,
  every conflicting pair of accesses ordered by the edges, and every edge justified by a
  conflicting pair. \<open>noted\<close> summarises what a handler's accesses do to the builder; it
  composes, so each handler is a few lines.
\<close>

section \<open>Covered logs\<close>

definition log_covered :: "(nat \<times> nat) set \<Rightarrow> AccessLog list \<Rightarrow> bool" where
  "log_covered E log = (\<forall>i j. i < j \<longrightarrow> j < length log \<longrightarrow>
     conflicting (a_access_kind (log ! i)) (a_access_kind (log ! j)) \<longrightarrow>
     (a_pass_index (log ! i), a_pass_index (log ! j)) \<in> E\<^sup>*)"

lemma log_covered_mono: "log_covered E log \<Longrightarrow> E \<subseteq> F \<Longrightarrow> log_covered F log"
  unfolding log_covered_def by (meson rtrancl_mono subsetD)

lemma log_covered_Nil [simp]: "log_covered E []"
  by (simp add: log_covered_def)

lemma last_write_from_append:
  "last_write_from i (xs @ [a]) lw =
     (if accessWrites (a_access_kind a) then Some (i + length xs) else last_write_from i xs lw)"
  by (induction i xs lw rule: last_write_from.induct) auto

lemma lastWriteIndex_snoc:
  "lastWriteIndex (xs @ [a]) =
     (if accessWrites (a_access_kind a) then Some (length xs) else lastWriteIndex xs)"
  by (simp add: lastWriteIndex_def last_write_from_append)

lemma lastWriteIndex_None:
  "lastWriteIndex log = None \<longleftrightarrow> (\<forall>a \<in> set log. \<not> accessWrites (a_access_kind a))"
proof (induction log rule: rev_induct)
  case Nil
  then show ?case by (simp add: lastWriteIndex_def)
next
  case (snoc a log)
  then show ?case by (auto simp: lastWriteIndex_snoc)
qed

lemma lastWriteIndex_Some:
  "lastWriteIndex log = Some w \<Longrightarrow>
     w < length log \<and> accessWrites (a_access_kind (log ! w)) \<and>
     (\<forall>j. w < j \<longrightarrow> j < length log \<longrightarrow> \<not> accessWrites (a_access_kind (log ! j)))"
proof (induction log rule: rev_induct)
  case Nil
  then show ?case by (simp add: lastWriteIndex_def)
next
  case (snoc a log)
  then show ?case
    by (auto simp: lastWriteIndex_snoc nth_append less_Suc_eq split: if_splits)
qed

text \<open>Where the reads after the last write start, and the hazard sources as a set.\<close>

definition war_start :: "AccessLog list \<Rightarrow> nat" where
  "war_start log = (case lastWriteIndex log of None \<Rightarrow> 0 | Some w \<Rightarrow> w + 1)"

lemma set_hazardSources:
  "set (hazardSources log k) =
     {a_pass_index (log ! w) | w. lastWriteIndex log = Some w \<and> (accessReads k \<or> accessWrites k)} \<union>
     {a_pass_index a | a. accessWrites k \<and> a \<in> set (drop (war_start log) log) \<and>
        accessReads (a_access_kind a)}"
  by (cases "lastWriteIndex log"; cases "accessReads k"; cases "accessWrites k")
    (auto simp: hazardSources_def war_start_def Let_def)

lemma hazardSources_last:
  "accessReads k \<or> accessWrites k \<Longrightarrow> lastWriteIndex log = Some w \<Longrightarrow>
     a_pass_index (log ! w) \<in> set (hazardSources log k)"
  by (auto simp: set_hazardSources)

lemma hazardSources_war:
  assumes "accessWrites k" and "i < length log" and "accessReads (a_access_kind (log ! i))"
    and "\<And>w. lastWriteIndex log = Some w \<Longrightarrow> w < i"
  shows "a_pass_index (log ! i) \<in> set (hazardSources log k)"
proof -
  have "war_start log \<le> i"
    using assms(4) by (auto simp: war_start_def split: option.split)
  then have "drop (war_start log) log ! (i - war_start log) = log ! i"
    and "i - war_start log < length (drop (war_start log) log)"
    using assms(2) by auto
  then have "log ! i \<in> set (drop (war_start log) log)"
    by (metis nth_mem)
  then show ?thesis
    using assms(1,3) unfolding set_hazardSources by blast
qed

text \<open>Appending an access whose hazard sources are joined to it keeps the log covered.\<close>

lemma log_covered_snoc:
  assumes cov: "log_covered E log"
    and src: "\<And>s. s \<in> set (hazardSources log (a_access_kind a)) \<Longrightarrow> (s, a_pass_index a) \<in> E\<^sup>*"
  shows "log_covered E (log @ [a])"
proof -
  have last: "(a_pass_index (log ! i), a_pass_index a) \<in> E\<^sup>*"
    if i: "i < length log" and c: "conflicting (a_access_kind (log ! i)) (a_access_kind a)" for i
  proof (cases "lastWriteIndex log")
    case None
    then have nw: "\<not> accessWrites (a_access_kind (log ! i))"
      using i by (simp add: lastWriteIndex_None)
    with c have "accessWrites (a_access_kind a)" "accessReads (a_access_kind (log ! i))"
      by (auto simp: conflicting_def)
    with None i show ?thesis by (intro src hazardSources_war) auto
  next
    case (Some w)
    note w = lastWriteIndex_Some [OF Some]
    have via: "(a_pass_index (log ! w), a_pass_index a) \<in> E\<^sup>*"
      using c Some by (intro src hazardSources_last) (auto simp: conflicting_def)
    consider "i < w" | "i = w" | "w < i" by linarith
    then show ?thesis
    proof cases
      case 1
      have "conflicting (a_access_kind (log ! i)) (a_access_kind (log ! w))"
        using c w by (auto simp: conflicting_def)
      with cov 1 w have "(a_pass_index (log ! i), a_pass_index (log ! w)) \<in> E\<^sup>*"
        by (simp add: log_covered_def)
      with via show ?thesis by simp
    next
      case 2
      with via show ?thesis by simp
    next
      case 3
      with w i have "\<not> accessWrites (a_access_kind (log ! i))" by blast
      with c have "accessWrites (a_access_kind a)" "accessReads (a_access_kind (log ! i))"
        by (auto simp: conflicting_def)
      with 3 i Some show ?thesis by (intro src hazardSources_war) auto
    qed
  qed
  show ?thesis
    unfolding log_covered_def
  proof (intro allI impI)
    fix i j
    assume ij: "i < j" "j < length (log @ [a])"
      and c: "conflicting (a_access_kind ((log @ [a]) ! i)) (a_access_kind ((log @ [a]) ! j))"
    show "(a_pass_index ((log @ [a]) ! i), a_pass_index ((log @ [a]) ! j)) \<in> E\<^sup>*"
    proof (cases "j < length log")
      case True
      with ij c cov show ?thesis by (simp add: nth_append log_covered_def)
    next
      case False
      with ij c show ?thesis by (simp add: nth_append less_Suc_eq last)
    qed
  qed
qed

text \<open>The converse: every hazard source is the pass of an earlier conflicting access.\<close>

lemma hazardSources_justified:
  assumes "s \<in> set (hazardSources log k)"
  shows "\<exists>i < length log. a_pass_index (log ! i) = s \<and> conflicting (a_access_kind (log ! i)) k"
proof -
  consider w where "lastWriteIndex log = Some w" "s = a_pass_index (log ! w)"
      "accessReads k \<or> accessWrites k"
  | a where "accessWrites k" "a \<in> set (drop (war_start log) log)" "accessReads (a_access_kind a)"
      "s = a_pass_index a"
    using assms unfolding set_hazardSources by blast
  then show ?thesis
  proof cases
    case 1
    with lastWriteIndex_Some [OF 1(1)] show ?thesis
      by (auto simp: conflicting_def)
  next
    case 2
    then have "a \<in> set log" by (meson in_set_dropD)
    with 2 show ?thesis
      by (auto simp: conflicting_def in_set_conv_nth)
  qed
qed

section \<open>What adding edges does\<close>

lemma addEdgeOnce_frame [simp]:
  "g_passes (addEdgeOnce s d h g) = g_passes g"
  "g_resources (addEdgeOnce s d h g) = g_resources g"
  "g_draws (addEdgeOnce s d h g) = g_draws g"
  "g_commands (addEdgeOnce s d h g) = g_commands g"
  "g_flush_boundary (addEdgeOnce s d h g) = g_flush_boundary g"
  by (simp_all add: addEdgeOnce_def)

lemma addEdgeOnce_edges:
  "set (g_edges (addEdgeOnce s d h g)) = set (g_edges g) \<union>
     (if s = d then {} else {\<lparr>e_src_pass = s, e_dst_pass = d, e_resource = h\<rparr>})"
proof -
  have "\<lparr>e_src_pass = s, e_dst_pass = d, e_resource = h\<rparr> \<in> set (g_edges g)"
    if "\<exists>e \<in> set (g_edges g). e_src_pass e = s \<and> e_dst_pass e = d \<and> e_resource e = h"
    using that by (metis Edge.surjective old.unit.exhaust)
  then show ?thesis by (auto simp: addEdgeOnce_def)
qed

lemma addEdgeOnce_distinct:
  "distinct (g_edges g) \<Longrightarrow> distinct (g_edges (addEdgeOnce s d h g))"
  by (auto simp: addEdgeOnce_def)

lemma addDependencyEdges_frame [simp]:
  "g_passes (addDependencyEdges l p k h g) = g_passes g"
  "g_resources (addDependencyEdges l p k h g) = g_resources g"
  "g_draws (addDependencyEdges l p k h g) = g_draws g"
  "g_commands (addDependencyEdges l p k h g) = g_commands g"
  "g_flush_boundary (addDependencyEdges l p k h g) = g_flush_boundary g"
proof -
  have "g_passes (fold (\<lambda>s. addEdgeOnce s p h) ss g) = g_passes g"
    "g_resources (fold (\<lambda>s. addEdgeOnce s p h) ss g) = g_resources g"
    "g_draws (fold (\<lambda>s. addEdgeOnce s p h) ss g) = g_draws g"
    "g_commands (fold (\<lambda>s. addEdgeOnce s p h) ss g) = g_commands g"
    "g_flush_boundary (fold (\<lambda>s. addEdgeOnce s p h) ss g) = g_flush_boundary g" for ss
    by (induction ss arbitrary: g) simp_all
  then show "g_passes (addDependencyEdges l p k h g) = g_passes g"
    "g_resources (addDependencyEdges l p k h g) = g_resources g"
    "g_draws (addDependencyEdges l p k h g) = g_draws g"
    "g_commands (addDependencyEdges l p k h g) = g_commands g"
    "g_flush_boundary (addDependencyEdges l p k h g) = g_flush_boundary g"
    by (simp_all add: addDependencyEdges_def)
qed

lemma addDependencyEdges_edges:
  "set (g_edges (addDependencyEdges log p k h g)) = set (g_edges g) \<union>
     (\<lambda>s. \<lparr>e_src_pass = s, e_dst_pass = p, e_resource = h\<rparr>) ` {s \<in> set (hazardSources log k). s \<noteq> p}"
proof -
  have "set (g_edges (fold (\<lambda>s. addEdgeOnce s p h) ss g)) = set (g_edges g) \<union>
     (\<lambda>s. \<lparr>e_src_pass = s, e_dst_pass = p, e_resource = h\<rparr>) ` {s \<in> set ss. s \<noteq> p}" for ss
    by (induction ss arbitrary: g) (auto simp: addEdgeOnce_edges)
  then show ?thesis by (simp add: addDependencyEdges_def)
qed

lemma addDependencyEdges_distinct:
  "distinct (g_edges g) \<Longrightarrow> distinct (g_edges (addDependencyEdges log p k h g))"
proof -
  have "distinct (g_edges g) \<Longrightarrow> distinct (g_edges (fold (\<lambda>s. addEdgeOnce s p h) ss g))" for ss
    by (induction ss arbitrary: g) (simp_all add: addEdgeOnce_distinct)
  then show "distinct (g_edges g) \<Longrightarrow> distinct (g_edges (addDependencyEdges log p k h g))"
    by (simp add: addDependencyEdges_def)
qed

lemma edge_rel_alt: "edge_rel g = (\<lambda>e. (e_src_pass e, e_dst_pass e)) ` set (g_edges g)"
  by (auto simp: edge_rel_def)

lemma edge_rel_addDependencyEdges:
  "edge_rel (addDependencyEdges log p k h g) =
     edge_rel g \<union> {(s, p) | s. s \<in> set (hazardSources log k) \<and> s \<noteq> p}"
  by (auto simp: edge_rel_alt addDependencyEdges_edges image_Un image_image)

section \<open>The graph invariant\<close>

definition edge_ok :: "FrameGraph \<Rightarrow> Edge \<Rightarrow> bool" where
  "edge_ok g e = (e_src_pass e < e_dst_pass e \<and> e_dst_pass e < length (g_passes g) \<and>
     (\<exists>a \<in> set (log_of g (e_resource e)). \<exists>b \<in> set (log_of g (e_resource e)).
        a_pass_index a = e_src_pass e \<and> a_pass_index b = e_dst_pass e \<and>
        conflicting (a_access_kind a) (a_access_kind b)))"

definition log_ok :: "FrameGraph \<Rightarrow> AccessLog list \<Rightarrow> bool" where
  "log_ok g log = (sorted (map a_pass_index log) \<and>
     (\<forall>a \<in> set log. a_pass_index a < length (g_passes g)) \<and> log_covered (edge_rel g) log)"

definition graph_ok :: "FrameGraph \<Rightarrow> bool" where
  "graph_ok g = (distinct (map r_handle (g_resources g)) \<and>
     (\<forall>r \<in> set (g_resources g). r_handle r \<noteq> 0) \<and>
     (\<forall>h. log_ok g (log_of g h)) \<and>
     distinct (g_edges g) \<and> (\<forall>e \<in> set (g_edges g). edge_ok g e))"

lemma graph_ok_logD:
  assumes "graph_ok g"
  shows "sorted (map a_pass_index (log_of g h))"
    and "a \<in> set (log_of g h) \<Longrightarrow> a_pass_index a < length (g_passes g)"
    and "log_covered (edge_rel g) (log_of g h)"
  using assms by (auto simp: graph_ok_def log_ok_def)

lemma graph_ok_reset: "graph_ok (reset_graph\<lparr>g_frame_id := n\<rparr>)"
  by (simp add: graph_ok_def reset_graph_def log_of_def log_in_def log_ok_def)

text \<open>Only the number of passes, the resources and the edges matter; passes may be added.\<close>

lemma graph_ok_cong:
  assumes "graph_ok g" and "g_resources g' = g_resources g" and "g_edges g' = g_edges g"
    and "length (g_passes g) \<le> length (g_passes g')"
  shows "graph_ok g'"
proof -
  have "edge_rel g' = edge_rel g" and "log_of g' = log_of g"
    using assms(2,3) by (auto simp: edge_rel_alt log_of_def)
  then show ?thesis
    using assms by (fastforce simp: graph_ok_def log_ok_def edge_ok_def)
qed

section \<open>Recording one access\<close>

lemma resourceFor_spec:
  assumes "resourceFor h b = (i, b')"
  shows "i = findResourceIndex (b_graph b') h \<and> i < length (g_resources (b_graph b')) \<and>
     b_currentPass b' = b_currentPass b \<and> b_openRenderPass b' = b_openRenderPass b \<and>
     g_passes (b_graph b') = g_passes (b_graph b) \<and>
     g_commands (b_graph b') = g_commands (b_graph b) \<and>
     g_draws (b_graph b') = g_draws (b_graph b) \<and>
     g_edges (b_graph b') = g_edges (b_graph b) \<and>
     log_of (b_graph b') = log_of (b_graph b)"
proof (cases "findResourceIndex (b_graph b) h = length (g_resources (b_graph b))")
  case True
  then have "h \<notin> r_handle ` set (g_resources (b_graph b))"
    using find_index_from_absent [of 0 "g_resources (b_graph b)" h]
    by (simp add: findResourceIndex_def)
  with True assms show ?thesis
    by (auto simp: resourceFor_def findResourceIndex_def find_index_append log_of_def
        log_in_append default_resource_def fun_eq_iff)
next
  case False
  with assms find_index_from_bounds [of 0 "g_resources (b_graph b)" h] show ?thesis
    by (auto simp: resourceFor_def findResourceIndex_def)
qed

lemma resourceFor_ok:
  assumes "resourceFor h b = (i, b')" and "h \<noteq> 0" and "graph_ok (b_graph b)"
  shows "graph_ok (b_graph b')"
proof -
  note spec = resourceFor_spec [OF assms(1)]
  have "distinct (map r_handle (g_resources (b_graph b'))) \<and>
      (\<forall>r \<in> set (g_resources (b_graph b')). r_handle r \<noteq> 0)"
    using assms find_index_from_absent [of 0 "g_resources (b_graph b)" h]
    by (auto simp: resourceFor_def findResourceIndex_def default_resource_def graph_ok_def
        split: if_splits)
  moreover have "edge_rel (b_graph b') = edge_rel (b_graph b)"
    using spec by (simp add: edge_rel_alt)
  ultimately show ?thesis
    using assms(3) spec by (auto simp: graph_ok_def log_ok_def edge_ok_def)
qed

lemma resourceFor_handle:
  assumes "resourceFor h b = (i, b')"
  shows "r_handle (g_resources (b_graph b') ! i) = h"
    and "r_accesses (g_resources (b_graph b') ! i) = log_of (b_graph b') h"
proof -
  have i: "i = find_index_from 0 (g_resources (b_graph b')) h" "i < length (g_resources (b_graph b'))"
    using resourceFor_spec [OF assms] by (auto simp: findResourceIndex_def)
  then show "r_handle (g_resources (b_graph b') ! i) = h"
    using find_index_from_found [of 0 "g_resources (b_graph b')" h] by simp
  show "r_accesses (g_resources (b_graph b') ! i) = log_of (b_graph b') h"
    using i by (simp add: log_of_def log_in_def)
qed

lemma touchNode_simps [simp]:
  "r_handle (touchNode node p k st) = r_handle node"
  "r_accesses (touchNode node p k st) =
     r_accesses node @ [\<lparr>a_pass_index = p, a_access_kind = k, a_stage = st\<rparr>]"
  by (simp_all add: touchNode_def recordAccess_def Let_def)

text \<open>
  The effect of recording on the graph alone: the log of \<open>h\<close> grows by one access, the edges by
  the access's hazard sources. The invariant is kept when the access belongs to the last pass.
\<close>

definition record_in :: "FrameGraph \<Rightarrow> nat \<Rightarrow> nat \<Rightarrow> AccessKind \<Rightarrow> AccessStage \<Rightarrow> ResourceHandle \<Rightarrow>
    FrameGraph" where
  "record_in g i pass kind stage h =
     (let node = g_resources g ! i; g' = addDependencyEdges (r_accesses node) pass kind h g
      in g'\<lparr>g_resources := (g_resources g')[i := touchNode node pass kind stage]\<rparr>)"

lemma record_in_frame [simp]:
  "g_passes (record_in g i p k st h) = g_passes g"
  "g_commands (record_in g i p k st h) = g_commands g"
  "g_draws (record_in g i p k st h) = g_draws g"
  by (simp_all add: record_in_def Let_def)

lemma record_in_log:
  assumes "findResourceIndex g h = i" and "i < length (g_resources g)"
  shows "log_of (record_in g i p k st h) h' = (if h' = h
     then log_of g h @ [\<lparr>a_pass_index = p, a_access_kind = k, a_stage = st\<rparr>] else log_of g h')"
proof -
  have "r_handle (g_resources g ! i) = h" "r_accesses (g_resources g ! i) = log_of g h"
    using assms find_index_from_found [of 0 "g_resources g" h]
    by (auto simp: findResourceIndex_def log_of_def log_in_def)
  then show ?thesis
    using assms by (simp add: record_in_def Let_def log_of_def findResourceIndex_def log_in_update)
qed

lemma record_in_edges:
  assumes "findResourceIndex g h = i" and "i < length (g_resources g)"
  shows "set (g_edges (record_in g i p k st h)) = set (g_edges g) \<union>
       (\<lambda>s. \<lparr>e_src_pass = s, e_dst_pass = p, e_resource = h\<rparr>) `
         {s \<in> set (hazardSources (log_of g h) k). s \<noteq> p}"
    and "distinct (g_edges g) \<Longrightarrow> distinct (g_edges (record_in g i p k st h))"
    and "edge_rel (record_in g i p k st h) =
       edge_rel g \<union> {(s, p) | s. s \<in> set (hazardSources (log_of g h) k) \<and> s \<noteq> p}"
proof -
  have l: "r_accesses (g_resources g ! i) = log_of g h"
    using assms by (auto simp: findResourceIndex_def log_of_def log_in_def)
  show "set (g_edges (record_in g i p k st h)) = set (g_edges g) \<union>
       (\<lambda>s. \<lparr>e_src_pass = s, e_dst_pass = p, e_resource = h\<rparr>) `
         {s \<in> set (hazardSources (log_of g h) k). s \<noteq> p}"
    by (simp add: record_in_def Let_def l addDependencyEdges_edges)
  then show "edge_rel (record_in g i p k st h) =
       edge_rel g \<union> {(s, p) | s. s \<in> set (hazardSources (log_of g h) k) \<and> s \<noteq> p}"
    by (auto simp: edge_rel_alt image_Un image_image)
  show "distinct (g_edges g) \<Longrightarrow> distinct (g_edges (record_in g i p k st h))"
    by (simp add: record_in_def Let_def addDependencyEdges_distinct)
qed

lemma record_in_ok:
  assumes ok: "graph_ok g" and i: "findResourceIndex g h = i" "i < length (g_resources g)"
    and last: "Suc p = length (g_passes g)"
  shows "graph_ok (record_in g i p k st h)"
proof -
  let ?g = "record_in g i p k st h"
  let ?a = "\<lparr>a_pass_index = p, a_access_kind = k, a_stage = st\<rparr>"
  note logs = record_in_log [OF i, of p k st] and edges = record_in_edges [OF i, of p k st]
  have le: "a_pass_index a \<le> p" if "a \<in> set (log_of g h')" for a h'
    using graph_ok_logD(2) [OF ok that] last by simp
  have src: "s \<le> p" if "s \<in> set (hazardSources (log_of g h) k)" for s
    using hazardSources_justified [OF that] le by (metis nth_mem)
  have handles: "map r_handle (g_resources ?g) = map r_handle (g_resources g)"
    by (simp add: record_in_def map_update_same)
  then have hset: "r_handle ` set (g_resources ?g) = r_handle ` set (g_resources g)"
    by (metis list.set_map)
  have "log_ok ?g (log_of ?g h')" for h'
  proof -
    have "log_covered (edge_rel ?g) (log_of g h')"
      using graph_ok_logD(3) [OF ok] edges(3) by (auto intro: log_covered_mono)
    moreover have "log_covered (edge_rel ?g) (log_of g h @ [?a])"
      if "log_covered (edge_rel ?g) (log_of g h)"
      using that edges(3) by (intro log_covered_snoc) auto
    ultimately show ?thesis
      using graph_ok_logD(1,2) [OF ok] le last
      by (auto simp: log_ok_def logs sorted_append)
  qed
  moreover have "edge_ok ?g e" if e: "e \<in> set (g_edges ?g)" for e
  proof -
    consider "e \<in> set (g_edges g)"
      | s where "e = \<lparr>e_src_pass = s, e_dst_pass = p, e_resource = h\<rparr>"
          "s \<in> set (hazardSources (log_of g h) k)" "s \<noteq> p"
      using e edges(1) by auto
    then show ?thesis
    proof cases
      case 1
      then have "edge_ok g e" using ok by (simp add: graph_ok_def)
      moreover have "set (log_of g (e_resource e)) \<subseteq> set (log_of ?g (e_resource e))"
        by (auto simp: logs)
      ultimately show ?thesis by (simp add: edge_ok_def) blast
    next
      case 2
      with hazardSources_justified [OF 2(2)] src [OF 2(2)] last show ?thesis
        by (auto simp: edge_ok_def logs)
    qed
  qed
  ultimately show ?thesis
    using ok handles hset edges(2) unfolding graph_ok_def by (metis (no_types, lifting) image_iff)
qed

section \<open>The effect of a group of accesses\<close>

text \<open>
  \<open>noted pass K b b'\<close>: going from \<open>b\<close> to \<open>b'\<close>, the builder recorded for \<open>pass\<close> exactly the
  accesses \<open>K\<close> (pairs of resource and access kind) and touched neither passes nor commands.
\<close>

definition noted ::
  "nat \<Rightarrow> (ResourceHandle \<times> AccessKind) set \<Rightarrow> Builder \<Rightarrow> Builder \<Rightarrow> bool" where
  "noted pass K b b' =
     (g_passes (b_graph b') = g_passes (b_graph b) \<and>
      g_commands (b_graph b') = g_commands (b_graph b) \<and>
      g_draws (b_graph b') = g_draws (b_graph b) \<and>
      b_currentPass b' = b_currentPass b \<and> b_openRenderPass b' = b_openRenderPass b \<and>
      (graph_ok (b_graph b) \<longrightarrow> Suc pass = length (g_passes (b_graph b)) \<longrightarrow>
         graph_ok (b_graph b')) \<and>
      set (g_edges (b_graph b)) \<subseteq> set (g_edges (b_graph b')) \<and>
      (\<forall>h. \<exists>as. log_of (b_graph b') h = log_of (b_graph b) h @ as \<and>
         (\<forall>a \<in> set as. a_pass_index a = pass) \<and> a_access_kind ` set as = {k. (h, k) \<in> K}))"

lemma noted_refl [simp]: "noted pass {} b b"
  by (simp add: noted_def)

lemma noted_trans:
  assumes "noted pass K b b1" and "noted pass L b1 b2"
  shows "noted pass (K \<union> L) b b2"
proof -
  have "\<exists>as. log_of (b_graph b2) h = log_of (b_graph b) h @ as \<and>
      (\<forall>a \<in> set as. a_pass_index a = pass) \<and> a_access_kind ` set as = {k. (h, k) \<in> K \<union> L}" for h
  proof -
    obtain as where "log_of (b_graph b1) h = log_of (b_graph b) h @ as"
      "\<forall>a \<in> set as. a_pass_index a = pass" "a_access_kind ` set as = {k. (h, k) \<in> K}"
      using assms(1) unfolding noted_def by blast
    moreover obtain cs where "log_of (b_graph b2) h = log_of (b_graph b1) h @ cs"
      "\<forall>a \<in> set cs. a_pass_index a = pass" "a_access_kind ` set cs = {k. (h, k) \<in> L}"
      using assms(2) unfolding noted_def by blast
    ultimately show ?thesis
      by (intro exI [of _ "as @ cs"]) auto
  qed
  then show ?thesis
    using assms unfolding noted_def by auto
qed

lemma noted_fold:
  "(\<And>x b. x \<in> set xs \<Longrightarrow> noted pass (K x) b (f x b)) \<Longrightarrow>
     noted pass (\<Union>x \<in> set xs. K x) b (fold f xs b)"
proof (induction xs arbitrary: b)
  case Nil
  then show ?case by simp
next
  case (Cons x xs)
  then have "noted pass (K x \<union> (\<Union>x \<in> set xs. K x)) b (fold f xs (f x b))"
    by (intro noted_trans [of pass "K x" b "f x b"]) auto
  then show ?case by simp
qed

definition access_keys ::
  "ResourceAliasResolver \<Rightarrow> bool \<Rightarrow> ResourceHandle \<Rightarrow> AccessKind \<Rightarrow>
   (ResourceHandle \<times> AccessKind) set" where
  "access_keys ar resolve_alias handle kind =
     (let h = (if resolve_alias then resolveAlias ar handle else handle)
      in if handle = 0 \<or> h = 0 then {} else {(h, kind)})"

lemma noted_noteAccess:
  "noted pass (access_keys ar res handle kind) b (noteAccess ar handle pass kind st res b)"
proof -
  let ?h = "if res then resolveAlias ar handle else handle"
  show ?thesis
  proof (cases "handle = 0 \<or> ?h = 0")
    case True
    then show ?thesis by (auto simp: noteAccess_def access_keys_def)
  next
    case False
    obtain i b1 where r: "resourceFor ?h b = (i, b1)" by fastforce
    note spec = resourceFor_spec [OF r]
    have "noteAccess ar handle pass kind st res b = b1\<lparr>b_graph := record_in (b_graph b1) i pass kind st ?h\<rparr>"
      using False r by (simp add: noteAccess_def record_in_def)
    moreover have "graph_ok (record_in (b_graph b1) i pass kind st ?h)"
      if "graph_ok (b_graph b)" "Suc pass = length (g_passes (b_graph b))"
      using that spec resourceFor_ok [OF r] False by (intro record_in_ok) auto
    moreover have "set (g_edges (b_graph b)) \<subseteq> set (g_edges (record_in (b_graph b1) i pass kind st ?h))"
      using spec record_in_edges(1) [of "b_graph b1" ?h i] by auto
    ultimately show ?thesis
      using spec False by (simp add: noted_def record_in_log access_keys_def)
  qed
qed

lemma noted_markReadback:
  assumes "h \<noteq> 0"
  shows "noted pass {} b (markReadback h b)"
proof -
  obtain i b1 where r: "resourceFor h b = (i, b1)" by fastforce
  note spec = resourceFor_spec [OF r]
  let ?rs = "g_resources (b_graph b1)"
  let ?rs' = "?rs[i := (?rs ! i)\<lparr>r_classifier_flags :=
     (r_classifier_flags (?rs ! i))\<lparr>cf_readback_seen := True\<rparr>\<rparr>]"
  have handles: "map r_handle ?rs' = map r_handle ?rs"
    by (rule map_update_same) simp_all
  have "map r_accesses ?rs' = map r_accesses ?rs"
    by (rule map_update_same) simp_all
  with handles have logs: "log_in ?rs' h' = log_in ?rs h'" for h'
    by (rule log_in_cong)
  let ?g = "(b_graph b1)\<lparr>g_resources := ?rs'\<rparr>"
  have log_of: "log_of ?g = log_of (b_graph b)"
    using spec logs by (auto simp: log_of_def fun_eq_iff)
  have "graph_ok ?g" if "graph_ok (b_graph b1)"
  proof -
    have "r_handle ` set ?rs' = r_handle ` set ?rs" using handles by (metis list.set_map)
    then have "\<forall>r \<in> set ?rs'. r_handle r \<noteq> 0"
      using that unfolding graph_ok_def by (metis (no_types, lifting) image_iff)
    then show ?thesis
      using that handles spec log_of
      by (simp add: graph_ok_def log_ok_def edge_ok_def edge_rel_alt)
  qed
  then show ?thesis
    using r spec log_of resourceFor_ok [OF r assms] by (simp add: noted_def markReadback_def)
qed

end
