(* ===== verification/Fg_Builder_Inv.thy ===== *)
theory Fg_Builder_Inv
  imports Fg_Hazards
begin

text \<open>
  The builder's structural invariant and its preservation by every command handler. A handler
  that accepts a command places it in exactly one pass (\<open>placed\<close>): a pass of its own, or the
  open render pass; the accesses it records are the command's \<open>footprint\<close>. Folding the
  handlers over the payload gives \<open>built\<close>, from which the properties of \<open>buildFrameGraph\<close>
  follow.
\<close>

section \<open>The commands of each pass\<close>

definition cmd_ranges :: "FrameGraph \<Rightarrow> (nat \<times> nat) list" where
  "cmd_ranges g = map (\<lambda>p. (rg_first (p_commands p), rg_count (p_commands p))) (g_passes g)"

definition draw_ranges :: "FrameGraph \<Rightarrow> (nat \<times> nat) list" where
  "draw_ranges g = map (\<lambda>p. (rg_first (p_draws p), rg_count (p_draws p))) (g_passes g)"

definition groups :: "FrameGraph \<Rightarrow> CommandRef list list" where
  "groups g = map (pass_commands g) (g_passes g)"

definition draw_groups :: "FrameGraph \<Rightarrow> DrawRef list list" where
  "draw_groups g = map (pass_draws g) (g_passes g)"

definition tiling :: "FrameGraph \<Rightarrow> bool" where
  "tiling g = (tiles_from 0 (cmd_ranges g) (length (g_commands g)) \<and>
     tiles_from 0 (draw_ranges g) (length (g_draws g)) \<and>
     length (g_commands g) < u32_limit \<and> length (g_draws g) < u32_limit)"

lemma groups_alt: "groups g = tile_groups (g_commands g) (cmd_ranges g)"
  by (simp add: groups_def tile_groups_def cmd_ranges_def pass_commands_def)

lemma draw_groups_alt: "draw_groups g = tile_groups (g_draws g) (draw_ranges g)"
  by (simp add: draw_groups_def tile_groups_def draw_ranges_def pass_draws_def)

lemma length_groups [simp]: "length (groups g) = length (g_passes g)"
  by (simp add: groups_def)

lemma groups_concat: "tiling g \<Longrightarrow> concat (groups g) = g_commands g"
  by (simp add: groups_alt tiling_def tile_groups_concat)

lemma linear_commands_groups: "linear_commands g = concat (groups g)"
  by (simp add: linear_commands_def groups_def)

lemma length_concat_ge: "[] \<notin> set xss \<Longrightarrow> length xss \<le> length (concat xss)"
proof (induction xss)
  case Nil
  then show ?case by simp
next
  case (Cons xs xss)
  then show ?case by (cases xs) auto
qed

text \<open>An open pass is one more, empty, group; a command joins the group of the last pass.\<close>

lemma openRenderPass_spec:
  assumes "tiling (b_graph b)" and "length (g_passes (b_graph b)) < u32_limit"
    and "b' = openRenderPass t sp b"
  shows "tiling (b_graph b')"
    and "groups (b_graph b') = groups (b_graph b) @ [[]]"
    and "draw_groups (b_graph b') = draw_groups (b_graph b) @ [[]]"
    and "\<exists>p. g_passes (b_graph b') = g_passes (b_graph b) @ [p] \<and> p_targets p = t \<and>
      p_kind p = PassRender \<and> p_flags p = no_flags"
    and "b_currentPass b' = length (g_passes (b_graph b))" and "b_openRenderPass b'"
    and "g_resources (b_graph b') = g_resources (b_graph b)"
    and "g_edges (b_graph b') = g_edges (b_graph b)"
    and "g_commands (b_graph b') = g_commands (b_graph b)"
    and "g_draws (b_graph b') = g_draws (b_graph b)"
proof -
  let ?g = "b_graph b"
  have r: "cmd_ranges (b_graph b') = cmd_ranges ?g @ [(length (g_commands ?g), 0)]"
    "draw_ranges (b_graph b') = draw_ranges ?g @ [(length (g_draws ?g), 0)]"
    and c: "g_commands (b_graph b') = g_commands ?g" "g_draws (b_graph b') = g_draws ?g"
    using assms by (simp_all add: openRenderPass_def cmd_ranges_def draw_ranges_def tiling_def)
  show "tiling (b_graph b')"
    and "groups (b_graph b') = groups (b_graph b) @ [[]]"
    and "draw_groups (b_graph b') = draw_groups (b_graph b) @ [[]]"
    using assms(1) tile_open [of "cmd_ranges ?g" "g_commands ?g"]
      tile_open [of "draw_ranges ?g" "g_draws ?g"]
    by (simp_all add: tiling_def groups_alt draw_groups_alt r c)
qed (use assms in \<open>simp_all add: openRenderPass_def default_pass_def\<close>)

text \<open>The two ways a command reference reaches the graph.\<close>

definition add_group :: "bool \<Rightarrow> 'a list \<Rightarrow> 'a list list \<Rightarrow> 'a list list" where
  "add_group new xs gs = (if new then gs @ [xs] else butlast gs @ [last gs @ xs])"

lemma update_last_pass:
  assumes "g_passes g = ps @ [p]" and "i = length ps"
  shows "g_passes (update_pass i f g) = ps @ [f p]"
    and "g_resources (update_pass i f g) = g_resources g"
    and "g_edges (update_pass i f g) = g_edges g"
    and "g_commands (update_pass i f g) = g_commands g"
    and "g_draws (update_pass i f g) = g_draws g"
  using assms by (simp_all add: update_pass_def)

lemma appendCommand_spec:
  assumes t: "tiling (b_graph b)" and ps: "g_passes (b_graph b) = ps @ [p]"
    and cur: "b_currentPass b = length ps"
    and i: "i < u32_limit" and len: "Suc (length (g_commands (b_graph b))) < u32_limit"
    and b': "b' = appendCommand i k b"
  shows "tiling (b_graph b')"
    and "groups (b_graph b') = add_group False
           [\<lparr>cref_command_index = i, cref_kind = k\<rparr>] (groups (b_graph b))"
    and "draw_groups (b_graph b') = draw_groups (b_graph b)"
    and "\<exists>p'. g_passes (b_graph b') = ps @ [p'] \<and> p_targets p' = p_targets p \<and>
      p_kind p' = p_kind p \<and> p_flags p' = p_flags p"
    and "b_currentPass b' = b_currentPass b" and "b_openRenderPass b' = b_openRenderPass b"
    and "g_resources (b_graph b') = g_resources (b_graph b)"
    and "g_edges (b_graph b') = g_edges (b_graph b)"
    and "g_commands (b_graph b') =
           g_commands (b_graph b) @ [\<lparr>cref_command_index = i, cref_kind = k\<rparr>]"
    and "g_draws (b_graph b') = g_draws (b_graph b)"
proof -
  let ?g = "b_graph b" and ?c = "\<lparr>cref_command_index = i, cref_kind = k\<rparr>"
  let ?rs = "map (\<lambda>p. (rg_first (p_commands p), rg_count (p_commands p))) ps"
  let ?f = "rg_first (p_commands p)" and ?n = "rg_count (p_commands p)"
  have r: "cmd_ranges ?g = ?rs @ [(?f, ?n)]" by (simp add: cmd_ranges_def ps)
  with t have "tiles_from 0 (?rs @ [(?f, ?n)]) (length (g_commands ?g))"
    by (simp add: tiling_def)
  note app = tile_append [OF this, of ?c] tiles_from_range [OF this, of ?f ?n]
  have n: "as_u32 (Suc ?n) = Suc ?n" using app(3) len by simp
  have c: "g_commands (b_graph b') = g_commands ?g @ [?c]" "g_draws (b_graph b') = g_draws ?g"
    and r': "cmd_ranges (b_graph b') = ?rs @ [(?f, Suc ?n)]"
    and d: "draw_ranges (b_graph b') = draw_ranges ?g"
    using i by (simp_all add: b' appendCommand_def update_pass_def ps cur cmd_ranges_def
        draw_ranges_def n)
  show "tiling (b_graph b')" and "draw_groups (b_graph b') = draw_groups (b_graph b)"
    and "groups (b_graph b') = add_group False [?c] (groups (b_graph b))"
    using t len app(1,2) unfolding groups_alt draw_groups_alt r r'
    by (simp_all add: tiling_def c d r' add_group_def) (simp_all add: tile_groups_def)
qed (use assms in \<open>simp_all add: appendCommand_def update_pass_def\<close>)

lemma appendDraw_spec:
  assumes t: "tiling (b_graph b)" and ps: "g_passes (b_graph b) = ps @ [p]"
    and cur: "b_currentPass b = length ps"
    and len: "Suc (length (g_draws (b_graph b))) < u32_limit"
    and b': "b' = appendDraw d b"
  shows "tiling (b_graph b')"
    and "groups (b_graph b') = groups (b_graph b)"
    and "draw_groups (b_graph b') = add_group False [d] (draw_groups (b_graph b))"
    and "\<exists>p'. g_passes (b_graph b') = ps @ [p'] \<and> p_targets p' = p_targets p \<and>
      p_kind p' = p_kind p \<and> p_flags p' = p_flags p"
    and "b_currentPass b' = b_currentPass b" and "b_openRenderPass b' = b_openRenderPass b"
    and "g_resources (b_graph b') = g_resources (b_graph b)"
    and "g_edges (b_graph b') = g_edges (b_graph b)"
    and "g_commands (b_graph b') = g_commands (b_graph b)"
    and "g_draws (b_graph b') = g_draws (b_graph b) @ [d]"
proof -
  let ?g = "b_graph b"
  let ?rs = "map (\<lambda>p. (rg_first (p_draws p), rg_count (p_draws p))) ps"
  let ?f = "rg_first (p_draws p)" and ?n = "rg_count (p_draws p)"
  have r: "draw_ranges ?g = ?rs @ [(?f, ?n)]" by (simp add: draw_ranges_def ps)
  with t have "tiles_from 0 (?rs @ [(?f, ?n)]) (length (g_draws ?g))"
    by (simp add: tiling_def)
  note app = tile_append [OF this, of d] tiles_from_range [OF this, of ?f ?n]
  have n: "as_u32 (Suc ?n) = Suc ?n" using app(3) len by simp
  have c: "g_draws (b_graph b') = g_draws ?g @ [d]" "g_commands (b_graph b') = g_commands ?g"
    and r': "draw_ranges (b_graph b') = ?rs @ [(?f, Suc ?n)]"
    and d: "cmd_ranges (b_graph b') = cmd_ranges ?g"
    by (simp_all add: b' appendDraw_def update_pass_def ps cur cmd_ranges_def draw_ranges_def n)
  show "tiling (b_graph b')" and "groups (b_graph b') = groups (b_graph b)"
    and "draw_groups (b_graph b') = add_group False [d] (draw_groups (b_graph b))"
    using t len app(1,2) unfolding groups_alt draw_groups_alt r r'
    by (simp_all add: tiling_def c d r' add_group_def) (simp_all add: tile_groups_def)
qed (use assms in \<open>simp_all add: appendDraw_def update_pass_def\<close>)

lemma emitStandalonePass_spec:
  assumes t: "tiling (b_graph b)" and np: "length (g_passes (b_graph b)) < u32_limit"
    and i: "i < u32_limit" and len: "Suc (length (g_commands (b_graph b))) < u32_limit"
    and b': "(pass, b') = emitStandalonePass kind i cmd b"
  shows "tiling (b_graph b')"
    and "groups (b_graph b') =
           groups (b_graph b) @ [[\<lparr>cref_command_index = i, cref_kind = cmd_kind cmd\<rparr>]]"
    and "draw_groups (b_graph b') = draw_groups (b_graph b) @ [[]]"
    and "\<exists>p. g_passes (b_graph b') = g_passes (b_graph b) @ [p] \<and> p_kind p = kind \<and>
      p_flags p = no_flags"
    and "pass = length (g_passes (b_graph b))" and "\<not> b_openRenderPass b'"
    and "g_resources (b_graph b') = g_resources (b_graph b)"
    and "g_edges (b_graph b') = g_edges (b_graph b)"
    and "g_commands (b_graph b') =
           g_commands (b_graph b) @ [\<lparr>cref_command_index = i, cref_kind = cmd_kind cmd\<rparr>]"
    and "g_draws (b_graph b') = g_draws (b_graph b)"
proof -
  let ?g = "b_graph b" and ?c = "\<lparr>cref_command_index = i, cref_kind = cmd_kind cmd\<rparr>"
  have r: "cmd_ranges (b_graph b') = cmd_ranges ?g @ [(length (g_commands ?g), Suc 0)]"
    "draw_ranges (b_graph b') = draw_ranges ?g @ [(length (g_draws ?g), 0)]"
    and c: "g_commands (b_graph b') = g_commands ?g @ [?c]" "g_draws (b_graph b') = g_draws ?g"
    using assms by (auto simp: emitStandalonePass_def finalizeCurrentPass_def cmd_ranges_def
        draw_ranges_def tiling_def)
  have "tiles_from 0 (cmd_ranges ?g @ [(length (g_commands ?g), 0)]) (length (g_commands ?g))"
    using t by (simp add: tiling_def tile_open)
  from tile_append [OF this, of ?c]
  show "tiling (b_graph b')"
    and "groups (b_graph b') = groups (b_graph b) @ [[?c]]"
    and "draw_groups (b_graph b') = draw_groups (b_graph b) @ [[]]"
    using t len tile_open [of "draw_ranges ?g" "g_draws ?g"]
    by (simp_all add: tiling_def groups_alt draw_groups_alt r c) (simp add: gather_def)
qed (use assms in \<open>simp_all add: emitStandalonePass_def finalizeCurrentPass_def default_pass_def\<close>)

section \<open>The accesses a command makes\<close>

definition accepted :: "SourceCommandView \<Rightarrow> bool" where
  "accepted cmd = (case cmd_kind cmd of
     CmdDrawRun \<Rightarrow> cmd_hot cmd \<noteq> None
   | CmdClear \<Rightarrow> cmd_clear cmd \<noteq> None
   | CmdPresent \<Rightarrow> True
   | CmdSurfaceCopy \<Rightarrow> cmd_surfaceCopy cmd \<noteq> None
   | CmdStretchRect \<Rightarrow> cmd_stretchRect cmd \<noteq> None
   | CmdColorFill \<Rightarrow> cmd_colorFill_destination cmd \<noteq> None
   | CmdDepthResolve \<Rightarrow> cmd_depthResolve cmd \<noteq> None
   | CmdGenerateMipmaps \<Rightarrow> cmd_generateMipmaps_texture cmd \<noteq> None
   | CmdReadback \<Rightarrow> cmd_readback_source cmd \<noteq> None)"

definition attach_keys :: "ResourceAliasResolver \<Rightarrow> AttachmentSet \<Rightarrow> AccessKind \<Rightarrow> AccessKind \<Rightarrow>
    (ResourceHandle \<times> AccessKind) set" where
  "attach_keys ar t kc kd =
     access_keys ar True (t_depth t) kd \<union>
     (\<Union>i \<in> set [0..<t_color_count t]. access_keys ar True (t_color t ! i) kc)"

definition texture_keys ::
  "ResourceAliasResolver \<Rightarrow> FlatDrawStateRecord \<Rightarrow> (ResourceHandle \<times> AccessKind) set" where
  "texture_keys ar hot =
     (\<Union>i \<in> set [0..<length (hot_textures hot)].
        if hot_textureMask hot AND push_bit i 1 = 0 then {}
        else access_keys ar False (hot_textures hot ! i) AccRead)"

definition copy_keys :: "ResourceAliasResolver \<Rightarrow> ResourceHandle \<Rightarrow> ResourceHandle \<Rightarrow>
    (ResourceHandle \<times> AccessKind) set" where
  "copy_keys ar src dst = access_keys ar True src AccRead \<union> access_keys ar True dst AccWrite"

definition depthStencilKind :: "ResourceAliasResolver \<Rightarrow> ClearCommandView \<Rightarrow> AccessKind" where
  "depthStencilKind ar clear =
     (if clr_rectCount clear = 0 \<and>
         depthStencilClearCoversResource ar (att_handle (clr_depthStencil clear))
           (clr_clearDepth clear) (clr_clearStencil clear)
      then AccClear else AccReadWrite)"

definition footprint ::
  "ResourceAliasResolver \<Rightarrow> SourceCommandView \<Rightarrow> (ResourceHandle \<times> AccessKind) set" where
  "footprint ar cmd = (case cmd_kind cmd of
     CmdDrawRun \<Rightarrow> (case cmd_hot cmd of None \<Rightarrow> {}
       | Some hot \<Rightarrow> attach_keys ar (attachmentSetFromHot hot) AccWrite AccWrite \<union>
           texture_keys ar hot)
   | CmdClear \<Rightarrow> (case cmd_clear cmd of None \<Rightarrow> {}
       | Some c \<Rightarrow> attach_keys ar (attachmentSetFromClear c)
           (if clr_rectCount c = 0 then AccClear else AccReadWrite) (depthStencilKind ar c))
   | CmdPresent \<Rightarrow> (case cmd_presentSource cmd of None \<Rightarrow> {}
       | Some s \<Rightarrow> access_keys ar True s AccRead)
   | CmdSurfaceCopy \<Rightarrow> (case cmd_surfaceCopy cmd of None \<Rightarrow> {}
       | Some d \<Rightarrow> copy_keys ar (cpy_source d) (cpy_destination d))
   | CmdStretchRect \<Rightarrow> (case cmd_stretchRect cmd of None \<Rightarrow> {}
       | Some d \<Rightarrow> copy_keys ar (cpy_source d) (cpy_destination d))
   | CmdColorFill \<Rightarrow> (case cmd_colorFill_destination cmd of None \<Rightarrow> {}
       | Some d \<Rightarrow> copy_keys ar 0 d)
   | CmdDepthResolve \<Rightarrow> (case cmd_depthResolve cmd of None \<Rightarrow> {}
       | Some d \<Rightarrow> copy_keys ar (cpy_source d) (cpy_destination d))
   | CmdGenerateMipmaps \<Rightarrow> (case cmd_generateMipmaps_texture cmd of None \<Rightarrow> {}
       | Some t \<Rightarrow> access_keys ar False t AccReadWrite)
   | CmdReadback \<Rightarrow> (case cmd_readback_source cmd of None \<Rightarrow> {}
       | Some s \<Rightarrow> access_keys ar True s AccRead))"

text \<open>
  A recorded access stands for a footprint entry when it conflicts with everything the entry
  conflicts with: a draw that joins the pass of a clear is represented by the clear's write.
\<close>

definition stands_for :: "AccessKind \<Rightarrow> AccessKind \<Rightarrow> bool" where
  "stands_for l k = ((accessWrites k \<longrightarrow> accessWrites l) \<and>
     (accessReads k \<longrightarrow> accessReads l \<or> accessWrites l))"

lemma stands_for_refl [simp]: "stands_for k k"
  by (simp add: stands_for_def)

lemma stands_for_conflicting:
  "stands_for k' k \<Longrightarrow> stands_for l' l \<Longrightarrow> conflicting k l \<Longrightarrow> conflicting k' l'"
  by (auto simp: stands_for_def conflicting_def)

lemma access_keys_null [simp]: "access_keys ar res 0 k = {}"
  by (simp add: access_keys_def)

section \<open>The accesses each helper records\<close>

lemma noted_recordAttachmentWrites:
  "noted pass (attach_keys ar t AccWrite AccWrite) b (recordAttachmentWrites ar t pass b)"
proof -
  have "noted pass (\<Union>i \<in> set [0..<t_color_count t]. access_keys ar True (t_color t ! i) AccWrite) b
      (fold (\<lambda>i. noteAccess ar (t_color t ! i) pass AccWrite StageFragment True)
         [0..<t_color_count t] b)"
    by (intro noted_fold noted_noteAccess)
  from noted_trans [OF this noted_noteAccess] show ?thesis
    unfolding recordAttachmentWrites_def attach_keys_def by (simp add: Un_commute)
qed

lemma noted_recordTextureReads:
  "noted pass (texture_keys ar hot) b (recordTextureReads ar hot pass b)"
proof (cases "hot_textureMask hot = 0")
  case True
  then show ?thesis by (simp add: recordTextureReads_def texture_keys_def)
next
  case False
  have "noted pass (texture_keys ar hot) b (fold (\<lambda>stage b.
             if hot_textureMask hot AND push_bit stage 1 = 0 then b
             else noteAccess ar (hot_textures hot ! stage) pass AccRead StageFragment False b)
           [0..<length (hot_textures hot)] b)"
    unfolding texture_keys_def by (intro noted_fold) (simp add: noted_noteAccess)
  then show ?thesis using False by (simp add: recordTextureReads_def)
qed

lemma noted_emitBlit:
  "noted pass (copy_keys ar src dst) b
     (let b = (if src \<noteq> 0 then noteAccess ar src pass AccRead StageCopy True b else b)
      in if dst \<noteq> 0 then noteAccess ar dst pass AccWrite StageCopy True b else b)"
proof -
  have opt: "noted pass (access_keys ar True h k) b
      (if h \<noteq> 0 then noteAccess ar h pass k StageCopy True b else b)" for h k b
    by (simp add: noted_noteAccess)
  show ?thesis
    unfolding copy_keys_def Let_def by (rule noted_trans [OF opt opt])
qed

lemma noted_clearAttachments:
  "noted pass (attach_keys ar t kc kd) b
     (let b = fold (\<lambda>i b. noteAccess ar (t_color t ! i) pass kc StageFragment True b)
                [0..<t_color_count t] b
      in if t_depth t \<noteq> 0 then noteAccess ar (t_depth t) pass kd StageFragment True b else b)"
proof -
  have "noted pass (\<Union>i \<in> set [0..<t_color_count t]. access_keys ar True (t_color t ! i) kc) b
      (fold (\<lambda>i b. noteAccess ar (t_color t ! i) pass kc StageFragment True b)
         [0..<t_color_count t] b)"
    by (intro noted_fold noted_noteAccess)
  moreover have "noted pass (access_keys ar True (t_depth t) kd) c
      (if t_depth t \<noteq> 0 then noteAccess ar (t_depth t) pass kd StageFragment True c else c)" for c
    by (simp add: noted_noteAccess)
  ultimately show ?thesis
    unfolding attach_keys_def Let_def Un_commute [of "access_keys _ _ _ _"] by (rule noted_trans)
qed

section \<open>Placing one command\<close>

definition in_last :: "FrameGraph \<Rightarrow> ResourceHandle \<Rightarrow> AccessKind \<Rightarrow> bool" where
  "in_last g h k = (\<exists>a \<in> set (log_of g h). Suc (a_pass_index a) = length (g_passes g) \<and>
     stands_for (a_access_kind a) k)"

definition open_ok :: "ResourceAliasResolver \<Rightarrow> Builder \<Rightarrow> bool" where
  "open_ok ar b = (b_openRenderPass b \<longrightarrow>
     (let ps = g_passes (b_graph b) in
      ps \<noteq> [] \<and> Suc (b_currentPass b) = length ps \<and> p_kind (last ps) = PassRender \<and>
      (\<forall>(h, k) \<in> attach_keys ar (p_targets (last ps)) AccWrite AccWrite.
         in_last (b_graph b) h k)))"

definition plain_flags :: "FrameGraph \<Rightarrow> bool" where
  "plain_flags g = (\<forall>p \<in> set (g_passes g). p_flags p = no_flags)"

definition ready :: "ResourceAliasResolver \<Rightarrow> nat \<Rightarrow> Builder \<Rightarrow> bool" where
  "ready ar i b = (tiling (b_graph b) \<and> graph_ok (b_graph b) \<and> open_ok ar b \<and>
     plain_flags (b_graph b) \<and> i < u32_limit \<and> length (g_passes (b_graph b)) < u32_limit \<and>
     Suc (length (g_commands (b_graph b))) < u32_limit \<and>
     Suc (length (g_draws (b_graph b))) < u32_limit)"

definition log_step :: "(ResourceHandle \<times> AccessKind) set \<Rightarrow> FrameGraph \<Rightarrow> FrameGraph \<Rightarrow> bool" where
  "log_step K g g' = (\<forall>h. \<exists>as. log_of g' h = log_of g h @ as \<and>
     (\<forall>a \<in> set as. Suc (a_pass_index a) = length (g_passes g')) \<and>
     a_access_kind ` set as \<subseteq> {k. (h, k) \<in> K})"

definition placed :: "ResourceAliasResolver \<Rightarrow> (ResourceHandle \<times> AccessKind) set \<Rightarrow> CommandRef \<Rightarrow>
    DrawRef list \<Rightarrow> Builder \<Rightarrow> Builder \<Rightarrow> bool" where
  "placed ar K c ds b b' = (let g = b_graph b; g' = b_graph b' in
     (\<exists>new. (new \<or> groups g \<noteq> []) \<and> groups g' = add_group new [c] (groups g) \<and>
        draw_groups g' = add_group new ds (draw_groups g)) \<and>
     g_commands g' = g_commands g @ [c] \<and> g_draws g' = g_draws g @ ds \<and>
     tiling g' \<and> graph_ok g' \<and> open_ok ar b' \<and> plain_flags g' \<and>
     set (g_edges g) \<subseteq> set (g_edges g') \<and> log_step K g g' \<and>
     (\<forall>(h, k) \<in> K. in_last g' h k))"

text \<open>Recorded keys are accesses of the last pass.\<close>

lemma noted_in_last:
  assumes "noted pass K b b'" and "(h, k) \<in> K" and "Suc pass = length (g_passes (b_graph b))"
  shows "in_last (b_graph b') h k"
proof -
  obtain as where as: "log_of (b_graph b') h = log_of (b_graph b) h @ as"
    "\<forall>a \<in> set as. a_pass_index a = pass" "a_access_kind ` set as = {k. (h, k) \<in> K}"
    and "g_passes (b_graph b') = g_passes (b_graph b)"
    using assms(1) unfolding noted_def by blast
  moreover from as(3) assms(2) have "k \<in> a_access_kind ` set as" by simp
  then obtain a where "a \<in> set as" "a_access_kind a = k" by auto
  ultimately show ?thesis
    using assms(3) by (auto simp: in_last_def intro!: bexI [of _ a])
qed

lemma noted_keeps_last: "noted pass K b b' \<Longrightarrow> in_last (b_graph b) h k \<Longrightarrow> in_last (b_graph b') h k"
  unfolding noted_def in_last_def by (metis Un_iff set_append)

lemma noted_log_step:
  assumes "noted pass K b b'" and "Suc pass = length (g_passes (b_graph b))"
    and "log_of (b_graph b) = log_of g" and "K \<subseteq> L"
  shows "log_step L g (b_graph b')"
proof -
  have "\<exists>as. log_of (b_graph b') h = log_of g h @ as \<and>
     (\<forall>a \<in> set as. Suc (a_pass_index a) = length (g_passes (b_graph b'))) \<and>
     a_access_kind ` set as \<subseteq> {k. (h, k) \<in> L}" for h
  proof -
    obtain as where "log_of (b_graph b') h = log_of (b_graph b) h @ as"
      "\<forall>a \<in> set as. a_pass_index a = pass" "a_access_kind ` set as = {k. (h, k) \<in> K}"
      and "g_passes (b_graph b') = g_passes (b_graph b)"
      using assms(1) unfolding noted_def by blast
    then show ?thesis using assms(2,3,4) by (intro exI [of _ as]) auto
  qed
  then show ?thesis by (auto simp: log_step_def)
qed

lemma noted_frame:
  assumes "noted pass K b b'"
  shows "groups (b_graph b') = groups (b_graph b)"
    and "draw_groups (b_graph b') = draw_groups (b_graph b)"
    and "tiling (b_graph b') = tiling (b_graph b)"
    and "plain_flags (b_graph b') = plain_flags (b_graph b)"
    and "g_passes (b_graph b') = g_passes (b_graph b)"
    and "g_commands (b_graph b') = g_commands (b_graph b)"
    and "g_draws (b_graph b') = g_draws (b_graph b)"
    and "b_currentPass b' = b_currentPass b"
    and "b_openRenderPass b' = b_openRenderPass b"
    and "set (g_edges (b_graph b)) \<subseteq> set (g_edges (b_graph b'))"
  using assms by (auto simp: noted_def groups_alt draw_groups_alt cmd_ranges_def draw_ranges_def
      tiling_def plain_flags_def)

lemma noted_ok:
  "noted pass K b b' \<Longrightarrow> graph_ok (b_graph b) \<Longrightarrow> Suc pass = length (g_passes (b_graph b)) \<Longrightarrow>
     graph_ok (b_graph b')"
  by (simp add: noted_def)

text \<open>A command with a pass of its own that is closed again at once.\<close>

lemma placed_standalone:
  assumes "ready ar i b" and e: "(pass, b1) = emitStandalonePass kind i cmd b"
    and n: "noted pass K (b1\<lparr>b_currentPass := cp\<rparr>) b'"
  shows "placed ar K \<lparr>cref_command_index = i, cref_kind = cmd_kind cmd\<rparr> [] b b'"
proof -
  let ?b1 = "b1\<lparr>b_currentPass := cp\<rparr>"
  from assms(1) have r: "tiling (b_graph b)" "length (g_passes (b_graph b)) < u32_limit"
    "i < u32_limit" "Suc (length (g_commands (b_graph b))) < u32_limit" "graph_ok (b_graph b)"
    "plain_flags (b_graph b)"
    by (simp_all add: ready_def)
  note spec = emitStandalonePass_spec [OF r(1-4) e]
  note fr = noted_frame [OF n]
  have last: "Suc pass = length (g_passes (b_graph ?b1))" using spec(4,5) by auto
  have log: "log_of (b_graph ?b1) = log_of (b_graph b)"
    using spec(7) by (simp add: log_of_def fun_eq_iff)
  have "graph_ok (b_graph ?b1)"
    using r(5) spec(4,7,8) by (intro graph_ok_cong [OF r(5)]) auto
  then have "graph_ok (b_graph b')" using noted_ok [OF n] last by simp
  moreover have "plain_flags (b_graph b')"
    using spec(4) r(6) fr(4) by (auto simp: plain_flags_def)
  moreover have "open_ok ar b'" using spec(6) fr(9) by (simp add: open_ok_def)
  moreover have "tiling (b_graph b')" using fr(3) spec(1) by simp
  moreover have "log_step K (b_graph b) (b_graph b')"
    using noted_log_step [OF n last log subset_refl] .
  ultimately show ?thesis
    using spec(2,3,8,9,10) fr(1,2,6,7,10) noted_in_last [OF n _ last]
    by (auto simp: placed_def add_group_def intro: exI [of _ True])
qed

lemma add_group_simps [simp]:
  "add_group True xs gs = gs @ [xs]"
  "add_group False xs (gs @ [ys]) = gs @ [ys @ xs]"
  by (simp_all add: add_group_def)

text \<open>The two appends at the end of a draw.\<close>

lemma append_draw_command:
  assumes t: "tiling (b_graph b)" and ps: "g_passes (b_graph b) = ps @ [p]"
    and cur: "b_currentPass b = length ps" and i: "i < u32_limit"
    and len: "Suc (length (g_commands (b_graph b))) < u32_limit"
      "Suc (length (g_draws (b_graph b))) < u32_limit"
    and b': "b' = appendCommand i k (appendDraw d b)"
  shows "tiling (b_graph b')"
    and "groups (b_graph b') = add_group False
           [\<lparr>cref_command_index = i, cref_kind = k\<rparr>] (groups (b_graph b))"
    and "draw_groups (b_graph b') = add_group False [d] (draw_groups (b_graph b))"
    and "\<exists>p'. g_passes (b_graph b') = ps @ [p'] \<and> p_targets p' = p_targets p \<and>
      p_kind p' = p_kind p \<and> p_flags p' = p_flags p"
    and "b_currentPass b' = b_currentPass b" and "b_openRenderPass b' = b_openRenderPass b"
    and "g_resources (b_graph b') = g_resources (b_graph b)"
    and "g_edges (b_graph b') = g_edges (b_graph b)"
    and "g_commands (b_graph b') =
           g_commands (b_graph b) @ [\<lparr>cref_command_index = i, cref_kind = k\<rparr>]"
    and "g_draws (b_graph b') = g_draws (b_graph b) @ [d]"
proof -
  note D = appendDraw_spec [OF t ps cur len(2) refl, of d]
  from D(4) obtain p1 where p1: "g_passes (b_graph (appendDraw d b)) = ps @ [p1]"
    "p_targets p1 = p_targets p" "p_kind p1 = p_kind p" "p_flags p1 = p_flags p" by blast
  have "b_currentPass (appendDraw d b) = length ps"
    "Suc (length (g_commands (b_graph (appendDraw d b)))) < u32_limit"
    using D(5,9) cur len by simp_all
  note C = appendCommand_spec [OF D(1) p1(1) this(1) i this(2) b']
  show "tiling (b_graph b')" by (rule C(1))
  show "\<exists>p'. g_passes (b_graph b') = ps @ [p'] \<and> p_targets p' = p_targets p \<and>
      p_kind p' = p_kind p \<and> p_flags p' = p_flags p"
    using C(4) p1 by metis
  show "groups (b_graph b') = add_group False
           [\<lparr>cref_command_index = i, cref_kind = k\<rparr>] (groups (b_graph b))"
    and "draw_groups (b_graph b') = add_group False [d] (draw_groups (b_graph b))"
    and "b_currentPass b' = b_currentPass b" and "b_openRenderPass b' = b_openRenderPass b"
    and "g_resources (b_graph b') = g_resources (b_graph b)"
    and "g_edges (b_graph b') = g_edges (b_graph b)"
    and "g_commands (b_graph b') =
           g_commands (b_graph b) @ [\<lparr>cref_command_index = i, cref_kind = k\<rparr>]"
    and "g_draws (b_graph b') = g_draws (b_graph b) @ [d]"
    using C(2,3,5-10) D(2,3,5-10) by simp_all
qed

lemma in_last_cong:
  "log_of g = log_of g' \<Longrightarrow> length (g_passes g) = length (g_passes g') \<Longrightarrow> in_last g = in_last g'"
  by (auto simp: in_last_def fun_eq_iff)

lemma log_of_cong: "g_resources g = g_resources g' \<Longrightarrow> log_of g = log_of g'"
  by (simp add: log_of_def fun_eq_iff)

text \<open>A draw that joins the open pass.\<close>

lemma placed_join:
  assumes r: "ready ar i b" and op: "b_openRenderPass b" and n: "noted (b_currentPass b) T b b1"
    and K: "K = attach_keys ar (p_targets (last (g_passes (b_graph b)))) AccWrite AccWrite \<union> T"
    and b': "b' = appendCommand i k (appendDraw d b1)"
  shows "placed ar K \<lparr>cref_command_index = i, cref_kind = k\<rparr> [d] b b'"
proof -
  let ?ps = "g_passes (b_graph b)"
  from r have r': "tiling (b_graph b)" "i < u32_limit" "Suc (length (g_commands (b_graph b))) < u32_limit"
    "Suc (length (g_draws (b_graph b))) < u32_limit" "graph_ok (b_graph b)"
    "plain_flags (b_graph b)" "open_ok ar b"
    by (simp_all add: ready_def)
  from r'(7) op have o: "?ps \<noteq> []" "Suc (b_currentPass b) = length ?ps"
    "p_kind (last ?ps) = PassRender"
    and att: "\<And>h k. (h, k) \<in> attach_keys ar (p_targets (last ?ps)) AccWrite AccWrite \<Longrightarrow>
       in_last (b_graph b) h k"
    by (auto simp: open_ok_def)
  note fr = noted_frame [OF n]
  have ps: "?ps = butlast ?ps @ [last ?ps]" using o by simp
  then have ps1: "g_passes (b_graph b1) = butlast ?ps @ [last ?ps]" using fr(5) by simp
  have "b_currentPass b1 = length (butlast ?ps)" using o fr(8) by simp
  note A = append_draw_command [OF _ ps1 this r'(2) _ _ b']
  have pre: "tiling (b_graph b1)" "Suc (length (g_commands (b_graph b1))) < u32_limit"
    "Suc (length (g_draws (b_graph b1))) < u32_limit"
    using r' fr by simp_all
  note A = A [OF pre]
  from A(4) obtain p' where p': "g_passes (b_graph b') = butlast ?ps @ [p']"
    "p_targets p' = p_targets (last ?ps)" "p_kind p' = p_kind (last ?ps)"
    "p_flags p' = p_flags (last ?ps)" by blast
  have len: "length (g_passes (b_graph b')) = length ?ps" using p'(1) o(1) by simp
  have logs: "log_of (b_graph b') = log_of (b_graph b1)" using A(7) by (rule log_of_cong)
  have il: "in_last (b_graph b') = in_last (b_graph b1)"
    using logs len fr(5) by (intro in_last_cong) simp_all
  have keys: "in_last (b_graph b') h k" if "(h, k) \<in> K" for h k
    using that noted_in_last [OF n _ o(2)] noted_keeps_last [OF n att] unfolding il K by blast
  have "graph_ok (b_graph b')"
    using noted_ok [OF n r'(5) o(2)] A(7,8) fr(5) len by (auto intro: graph_ok_cong)
  moreover have "open_ok ar b'"
    using op A(5,6) fr(8,9) len p' o keys by (auto simp: open_ok_def K)
  moreover have "plain_flags (b_graph b')"
    using r'(6) p' ps unfolding plain_flags_def by (metis Un_iff empty_iff empty_set insert_iff list.simps(15) set_append)
  moreover have "log_step K (b_graph b) (b_graph b')"
    using noted_log_step [OF n o(2) refl, of K] logs len fr(5) by (simp add: log_step_def K)
  moreover have "groups (b_graph b) \<noteq> []" using o by (simp add: groups_def)
  ultimately show ?thesis
    using A(1,2,3,8,9,10) fr keys by (auto simp: placed_def intro!: exI [of _ False])
qed

text \<open>A draw that opens a pass.\<close>

lemma placed_new_draw:
  assumes r: "ready ar i b" and b0: "b0 = openRenderPass t sp b"
    and n1: "noted (b_currentPass b0) (attach_keys ar t AccWrite AccWrite) b0 b1"
    and n2: "noted (b_currentPass b0) T b1 b2"
    and K: "K = attach_keys ar t AccWrite AccWrite \<union> T"
    and b': "b' = appendCommand i k (appendDraw d b2)"
  shows "placed ar K \<lparr>cref_command_index = i, cref_kind = k\<rparr> [d] b b'"
proof -
  let ?ps = "g_passes (b_graph b)"
  from r have r': "tiling (b_graph b)" "length (g_passes (b_graph b)) < u32_limit" "i < u32_limit"
    "Suc (length (g_commands (b_graph b))) < u32_limit"
    "Suc (length (g_draws (b_graph b))) < u32_limit" "graph_ok (b_graph b)"
    "plain_flags (b_graph b)"
    by (simp_all add: ready_def)
  note O = openRenderPass_spec [OF r'(1,2) b0]
  note n = noted_trans [OF n1 n2, folded K]
  note fr = noted_frame [OF n]
  from O(4) obtain p where p: "g_passes (b_graph b0) = ?ps @ [p]" "p_targets p = t"
    "p_kind p = PassRender" "p_flags p = no_flags" by blast
  then have ps2: "g_passes (b_graph b2) = ?ps @ [p]" using fr(5) by simp
  have cur: "b_currentPass b2 = length ?ps" using O(5) fr(8) by simp
  have pre: "tiling (b_graph b2)" "Suc (length (g_commands (b_graph b2))) < u32_limit"
    "Suc (length (g_draws (b_graph b2))) < u32_limit"
    using r' fr O by simp_all
  note A = append_draw_command [OF pre(1) ps2 cur r'(3) pre(2,3) b']
  from A(4) obtain p' where p': "g_passes (b_graph b') = ?ps @ [p']"
    "p_targets p' = t" "p_kind p' = PassRender" "p_flags p' = no_flags" using p by auto
  have last: "Suc (b_currentPass b0) = length (g_passes (b_graph b0))" using O(5) p by simp
  have logs: "log_of (b_graph b') = log_of (b_graph b2)" using A(7) by (rule log_of_cong)
  have il: "in_last (b_graph b') = in_last (b_graph b2)"
    using logs p' ps2 by (intro in_last_cong) simp_all
  have keys: "in_last (b_graph b') h k" if "(h, k) \<in> K" for h k
    using that noted_in_last [OF n _ last] unfolding il by blast
  have "graph_ok (b_graph b0)" using r'(6) O(7,8) p(1) by (auto intro: graph_ok_cong)
  then have "graph_ok (b_graph b')"
    using noted_ok [OF n _ last] A(7,8) fr(5) p(1) p'(1) by (auto intro: graph_ok_cong)
  moreover have "open_ok ar b'"
    using A(5,6) cur p' keys by (auto simp: open_ok_def K)
  moreover have "plain_flags (b_graph b')" using r'(7) p' by (simp add: plain_flags_def)
  moreover have "log_step K (b_graph b) (b_graph b')"
    using noted_log_step [OF n last log_of_cong [OF O(7)], of K] logs p'(1) ps2
    by (simp add: log_step_def)
  ultimately show ?thesis
    using A(1,2,3,8,9,10) fr O(2,3,8,9,10) keys
    by (auto simp: placed_def intro!: exI [of _ True])
qed

text \<open>A clear: a new pass, whose accesses are recorded after its command.\<close>

lemma placed_clear:
  assumes r: "ready ar i b" and b0: "b0 = openRenderPass t sp (finalizeCurrentPass b)"
    and b1: "b1 = appendCommand i k b0"
    and n: "noted (b_currentPass b1) (attach_keys ar t kc kd) b1 b'"
    and w: "accessWrites kc" "accessWrites kd"
  shows "placed ar (attach_keys ar t kc kd) \<lparr>cref_command_index = i, cref_kind = k\<rparr> [] b b'"
proof -
  let ?b = "finalizeCurrentPass b" and ?ps = "g_passes (b_graph b)"
  from r have r': "tiling (b_graph ?b)" "length (g_passes (b_graph ?b)) < u32_limit" "i < u32_limit"
    "Suc (length (g_commands (b_graph b))) < u32_limit"
    "graph_ok (b_graph b)" "plain_flags (b_graph b)"
    by (simp_all add: ready_def finalizeCurrentPass_def)
  have g: "b_graph ?b = b_graph b" by (simp add: finalizeCurrentPass_def)
  note O = openRenderPass_spec [OF r'(1,2) b0, unfolded g]
  note fr = noted_frame [OF n]
  from O(4) obtain p where p: "g_passes (b_graph b0) = ?ps @ [p]" "p_targets p = t"
    "p_kind p = PassRender" "p_flags p = no_flags" by blast
  have pre: "Suc (length (g_commands (b_graph b0))) < u32_limit" using r' O by simp
  note A = appendCommand_spec [OF O(1) p(1) O(5) r'(3) pre b1]
  from A(4) obtain p1 where p1: "g_passes (b_graph b1) = ?ps @ [p1]" "p_targets p1 = t"
    "p_kind p1 = PassRender" "p_flags p1 = no_flags" using p by auto
  have last: "Suc (b_currentPass b1) = length (g_passes (b_graph b1))"
    using O(5) A(5) p1 by simp
  have logs: "log_of (b_graph b1) = log_of (b_graph b)"
    using A(7) O(7) by (intro log_of_cong) simp
  have keys: "in_last (b_graph b') h k" if "(h, k) \<in> attach_keys ar t kc kd" for h k
    using that noted_in_last [OF n _ last] by blast
  have opens: "in_last (b_graph b') h k" if hk: "(h, k) \<in> attach_keys ar t AccWrite AccWrite" for h k
  proof -
    from hk have "(h, kc) \<in> attach_keys ar t kc kd \<or> (h, kd) \<in> attach_keys ar t kc kd"
      by (auto simp: attach_keys_def access_keys_def split: if_splits)
    moreover have "k = AccWrite"
      using hk by (auto simp: attach_keys_def access_keys_def split: if_splits)
    ultimately show ?thesis
      using keys w unfolding in_last_def stands_for_def by fastforce
  qed
  have "graph_ok (b_graph b1)" using r'(5) A(7,8) O(7,8) p1(1) by (auto intro: graph_ok_cong)
  then have "graph_ok (b_graph b')" using noted_ok [OF n _ last] by simp
  moreover have "open_ok ar b'"
    using last p1 opens fr(5,8,9) by (auto simp: open_ok_def)
  moreover have "plain_flags (b_graph b')" using r'(6) p1 fr(5) by (simp add: plain_flags_def)
  ultimately show ?thesis
    using A(1,2,3,8,9,10) fr O(2,3,8,9,10) keys noted_log_step [OF n last logs subset_refl]
    by (auto simp: placed_def intro!: exI [of _ True])
qed

end
