(* ===== verification/Fg_Builder_Correct.thy ===== *)
theory Fg_Builder_Correct
  imports Fg_Builder_Inv
begin

text \<open>
  Every handler places its command (\<open>handleCommand_placed\<close>), hence the graph built from a
  payload accounts for every accepted command: the properties of \<open>buildFrameGraph\<close>.
\<close>

section \<open>The handlers\<close>

definition command_ref :: "nat \<Rightarrow> SourceCommandView \<Rightarrow> CommandRef" where
  "command_ref i cmd = \<lparr>cref_command_index = i, cref_kind = cmd_kind cmd\<rparr>"

definition draw_refs :: "nat \<Rightarrow> SourceCommandView \<Rightarrow> DrawRef list" where
  "draw_refs i cmd = (if cmd_kind cmd = CmdDrawRun \<and> cmd_hot cmd \<noteq> None
     then [\<lparr>dref_command_index = i,
       dref_param_first = (case cmd_drawRunRecord cmd of None \<Rightarrow> 0 | Some r \<Rightarrow> run_firstParam r),
       dref_param_count = (case cmd_drawRunRecord cmd of
          None \<Rightarrow> as_u32 (cmd_drawParamCount cmd) | Some r \<Rightarrow> run_paramCount r)\<rparr>]
     else [])"

text \<open>Filling in the state profile of a pass changes nothing that the invariant mentions.\<close>

lemma set_profile_frame:
  assumes "i < length (g_passes g)"
    and "g' = update_pass i (\<lambda>p. p\<lparr>p_state_profile := sp\<rparr>) g"
  shows "cmd_ranges g' = cmd_ranges g" "draw_ranges g' = draw_ranges g"
    "map p_targets (g_passes g') = map p_targets (g_passes g)"
    "map p_kind (g_passes g') = map p_kind (g_passes g)"
    "map p_flags (g_passes g') = map p_flags (g_passes g)"
    "g_commands g' = g_commands g" "g_draws g' = g_draws g"
    "g_resources g' = g_resources g" "g_edges g' = g_edges g"
  using assms by (simp_all add: update_pass_def cmd_ranges_def draw_ranges_def map_update_same)

lemma last_of_map: "map f xs = map f ys \<Longrightarrow> xs \<noteq> [] \<Longrightarrow> f (last xs) = f (last ys)"
  by (metis last_map list.map_disc_iff)

lemma set_profile_placed:
  assumes g: "b1 = b\<lparr>b_graph := update_pass i (\<lambda>p. p\<lparr>p_state_profile := sp\<rparr>) (b_graph b)\<rparr>"
    and i: "i < length (g_passes (b_graph b))"
  shows "ready ar n b \<Longrightarrow> ready ar n b1"
    and "placed ar K c ds b1 b' \<Longrightarrow> placed ar K c ds b b'"
    and "p_targets (last (g_passes (b_graph b1))) = p_targets (last (g_passes (b_graph b)))"
    and "b_openRenderPass b1 = b_openRenderPass b" and "b_currentPass b1 = b_currentPass b"
proof -
  let ?g = "b_graph b" and ?g1 = "b_graph b1"
  have "?g1 = update_pass i (\<lambda>p. p\<lparr>p_state_profile := sp\<rparr>) ?g" using g by simp
  note F = set_profile_frame [OF i this]
  have len: "length (g_passes ?g1) = length (g_passes ?g)"
    using F(3) by (metis length_map)
  have ne: "g_passes ?g1 \<noteq> []" using i len by auto
  have logs: "log_of ?g1 = log_of ?g" using F(8) by (rule log_of_cong)
  have gr: "groups ?g1 = groups ?g" "draw_groups ?g1 = draw_groups ?g" "tiling ?g1 = tiling ?g"
    using F by (simp_all add: groups_alt draw_groups_alt tiling_def)
  show t: "p_targets (last (g_passes ?g1)) = p_targets (last (g_passes ?g))"
    using last_of_map [OF F(3) ne] .
  show o: "b_openRenderPass b1 = b_openRenderPass b" and c: "b_currentPass b1 = b_currentPass b"
    using g by simp_all
  have "p_flags ` set (g_passes ?g1) = p_flags ` set (g_passes ?g)"
    using F(5) by (metis list.set_map)
  then have fl: "plain_flags ?g1 = plain_flags ?g"
    unfolding plain_flags_def by (metis (mono_tags, lifting) image_iff)
  have il: "in_last ?g1 = in_last ?g" using logs len by (rule in_last_cong)
  have op: "open_ok ar b1 = open_ok ar b"
    using last_of_map [OF F(4) ne] i ne by (auto simp: open_ok_def t o c len il)
  show "ready ar n b \<Longrightarrow> ready ar n b1"
    using F(6-9) gr fl op len by (auto simp: ready_def intro: graph_ok_cong)
  show "placed ar K c ds b1 b' \<Longrightarrow> placed ar K c ds b b'"
    using F(6-9) gr logs by (simp add: placed_def log_step_def)
qed

lemma placed_handleDrawRun:
  assumes r: "ready ar i b" and k: "cmd_kind cmd = CmdDrawRun" and h: "cmd_hot cmd = Some hot"
  shows "placed ar (footprint ar cmd) (command_ref i cmd) (draw_refs i cmd) b
    (handleDrawRun ar i cmd b)"
proof -
  let ?t = "attachmentSetFromHot hot"
  let ?sp = "case cmd_drawRunRecord cmd of None \<Rightarrow> 0 | Some r \<Rightarrow> run_runStableBindingHash r"
  let ?ps = "g_passes (b_graph b)" and ?cur = "b_currentPass b"
  have i: "as_u32 i = i" using r by (simp add: ready_def)
  obtain d where d: "draw_refs i cmd = [d]" by (simp add: draw_refs_def k h)
  have K: "footprint ar cmd = attach_keys ar ?t AccWrite AccWrite \<union> texture_keys ar hot"
    by (simp add: footprint_def k h)
  have c: "command_ref i cmd = \<lparr>cref_command_index = i, cref_kind = CmdDrawRun\<rparr>"
    by (simp add: command_ref_def k)
  have tail: "handleDrawRun ar i cmd b = appendCommand i CmdDrawRun (appendDraw d
      (let b0 = (if \<not> b_openRenderPass b \<or> p_targets (?ps ! ?cur) \<noteq> ?t
          then recordAttachmentWrites ar ?t (b_currentPass (openRenderPass ?t ?sp b)) (openRenderPass ?t ?sp b)
          else if p_state_profile (?ps ! ?cur) = 0
          then b\<lparr>b_graph := update_pass ?cur (\<lambda>p. p\<lparr>p_state_profile := ?sp\<rparr>) (b_graph b)\<rparr> else b)
       in recordTextureReads ar hot (b_currentPass b0) b0))"
    using d unfolding handleDrawRun_def draw_refs_def by (simp add: h k i)
  show ?thesis
  proof (cases "\<not> b_openRenderPass b \<or> p_targets (?ps ! ?cur) \<noteq> ?t")
    case True
    let ?b0 = "openRenderPass ?t ?sp b"
    let ?b1 = "recordAttachmentWrites ar ?t (b_currentPass ?b0) ?b0"
    have cp: "b_currentPass ?b1 = b_currentPass ?b0"
      using noted_frame(8) [OF noted_recordAttachmentWrites] .
    have eq: "handleDrawRun ar i cmd b = appendCommand i CmdDrawRun
        (appendDraw d (recordTextureReads ar hot (b_currentPass ?b0) ?b1))"
      using True tail cp by simp
    show ?thesis
      unfolding c d
      by (rule placed_new_draw [OF r refl noted_recordAttachmentWrites noted_recordTextureReads K eq])
  next
    case False
    then have op: "b_openRenderPass b" and t: "p_targets (?ps ! ?cur) = ?t" by simp_all
    from r have o: "open_ok ar b" by (simp add: ready_def)
    with op have ne: "?ps \<noteq> []" and cur: "Suc ?cur = length ?ps" by (auto simp: open_ok_def)
    then have last: "?ps ! ?cur = last ?ps" by (simp add: last_conv_nth flip: cur)
    define b0 where "b0 = (if p_state_profile (?ps ! ?cur) = 0
      then b\<lparr>b_graph := update_pass ?cur (\<lambda>p. p\<lparr>p_state_profile := ?sp\<rparr>) (b_graph b)\<rparr> else b)"
    have eq: "handleDrawRun ar i cmd b = appendCommand i CmdDrawRun
        (appendDraw d (recordTextureReads ar hot (b_currentPass b0) b0))"
      using False tail unfolding b0_def by simp
    have lt: "?cur < length ?ps" using cur by simp
    note P = set_profile_placed [where sp = ?sp, OF refl lt]
    have b0: "ready ar i b0" "b_openRenderPass b0"
      "p_targets (last (g_passes (b_graph b0))) = ?t"
      using P(1) [OF r] P(3,4) r op t last unfolding b0_def by (simp_all split: if_splits)
    have "placed ar (footprint ar cmd) (command_ref i cmd) (draw_refs i cmd) b0
        (handleDrawRun ar i cmd b)"
      unfolding c d
      by (rule placed_join [OF b0(1,2) noted_recordTextureReads _ eq]) (simp add: K b0(3))
    then show ?thesis using P(2) unfolding b0_def by (auto split: if_splits)
  qed
qed

lemma currentPass_fold:
  "b_currentPass (fold (\<lambda>i b. noteAccess ar (h i) (b_currentPass b) k st True b) js b0) =
     b_currentPass b0"
  "fold (\<lambda>i b. noteAccess ar (h i) (b_currentPass b) k st True b) js b0 =
     fold (\<lambda>i b. noteAccess ar (h i) (b_currentPass b0) k st True b) js b0"
proof -
  have one: "b_currentPass (noteAccess ar (h j) p k st True b) = b_currentPass b" for j p b
    using noted_frame(8) [OF noted_noteAccess] .
  show "b_currentPass (fold (\<lambda>i b. noteAccess ar (h i) (b_currentPass b) k st True b) js b0) =
      b_currentPass b0"
    by (induction js arbitrary: b0) (simp_all add: one)
  show "fold (\<lambda>i b. noteAccess ar (h i) (b_currentPass b) k st True b) js b0 =
      fold (\<lambda>i b. noteAccess ar (h i) (b_currentPass b0) k st True b) js b0"
    by (induction js arbitrary: b0) (simp_all add: one)
qed

lemma placed_handleClear:
  assumes r: "ready ar i b" and k: "cmd_kind cmd = CmdClear" and h: "cmd_clear cmd = Some clear"
  shows "placed ar (footprint ar cmd) (command_ref i cmd) (draw_refs i cmd) b
    (handleClear ar i cmd b)"
proof -
  let ?t = "attachmentSetFromClear clear"
  let ?kc = "if clr_rectCount clear = 0 then AccClear else AccReadWrite"
  have i: "as_u32 i = i" using r by (simp add: ready_def)
  let ?b1 = "appendCommand i CmdClear (openRenderPass ?t 0 (finalizeCurrentPass b))"
  let ?f = "fold (\<lambda>i b. noteAccess ar (t_color ?t ! i) (b_currentPass ?b1) ?kc StageFragment True b)
     [0..<t_color_count ?t] ?b1"
  have eq: "handleClear ar i cmd b = (let b = ?f in if t_depth ?t \<noteq> 0
     then noteAccess ar (t_depth ?t) (b_currentPass ?b1) (depthStencilKind ar clear) StageFragment True b
     else b)"
    using currentPass_fold(1) [of ar "\<lambda>i. t_color ?t ! i" ?kc StageFragment "[0..<t_color_count ?t]" ?b1]
      currentPass_fold(2) [of ar "\<lambda>i. t_color ?t ! i" ?kc StageFragment "[0..<t_color_count ?t]" ?b1]
    by (simp add: handleClear_def h depthStencilKind_def i)
  have K: "footprint ar cmd = attach_keys ar ?t ?kc (depthStencilKind ar clear)"
    and c: "command_ref i cmd = \<lparr>cref_command_index = i, cref_kind = CmdClear\<rparr>"
    and d: "draw_refs i cmd = []"
    by (simp_all add: footprint_def command_ref_def draw_refs_def k h)
  show ?thesis
    unfolding K c d eq
    by (rule placed_clear [OF r refl refl noted_clearAttachments])
      (simp_all add: depthStencilKind_def)
qed

lemma placed_emitBlit:
  assumes r: "ready ar i b" and k: "cmd_kind cmd \<noteq> CmdDrawRun" and F: "footprint ar cmd = copy_keys ar src dst"
  shows "placed ar (footprint ar cmd) (command_ref i cmd) (draw_refs i cmd) b
    (emitBlit ar i cmd src dst b)"
proof -
  obtain pass b1 where e: "emitStandalonePass PassBlit i cmd b = (pass, b1)" by fastforce
  have "noted pass (copy_keys ar src dst) (b1\<lparr>b_currentPass := pass\<rparr>) (emitBlit ar i cmd src dst b)"
    using noted_emitBlit [of pass ar src dst "b1\<lparr>b_currentPass := pass\<rparr>"]
    by (simp add: emitBlit_def e)
  from placed_standalone [OF r e [symmetric] this] show ?thesis
    using k F by (simp add: command_ref_def draw_refs_def)
qed

text \<open>The flush-boundary mark of a present is not part of the invariant.\<close>

lemma flush_frame [simp]:
  "groups (g\<lparr>g_flush_boundary := f\<rparr>) = groups g"
  "draw_groups (g\<lparr>g_flush_boundary := f\<rparr>) = draw_groups g"
  "tiling (g\<lparr>g_flush_boundary := f\<rparr>) = tiling g"
  "log_of (g\<lparr>g_flush_boundary := f\<rparr>) = log_of g"
  "in_last (g\<lparr>g_flush_boundary := f\<rparr>) = in_last g"
  "plain_flags (g\<lparr>g_flush_boundary := f\<rparr>) = plain_flags g"
  by (simp_all add: groups_alt draw_groups_alt cmd_ranges_def draw_ranges_def tiling_def
      log_of_def in_last_def plain_flags_def fun_eq_iff)

lemma placed_flush:
  "placed ar K c ds b b' \<Longrightarrow>
     placed ar K c ds b (b'\<lparr>b_graph := (b_graph b')\<lparr>g_flush_boundary := f\<rparr>\<rparr>)"
  by (auto simp: placed_def open_ok_def log_step_def intro: graph_ok_cong)

lemma placed_handlePresent:
  assumes r: "ready ar i b" and k: "cmd_kind cmd = CmdPresent"
  shows "placed ar (footprint ar cmd) (command_ref i cmd) (draw_refs i cmd) b
    (handlePresent ar i cmd b)"
proof -
  obtain pass b1 where e: "emitStandalonePass PassPresent i cmd b = (pass, b1)" by fastforce
  let ?b2 = "case cmd_presentSource cmd of None \<Rightarrow> b1
     | Some s \<Rightarrow> if s \<noteq> 0 then noteAccess ar s pass AccRead StageCopy True (b1\<lparr>b_currentPass := pass\<rparr>)
       else b1"
  have "\<exists>cp. noted pass (footprint ar cmd) (b1\<lparr>b_currentPass := cp\<rparr>) ?b2"
  proof (cases "\<exists>s. cmd_presentSource cmd = Some s \<and> s \<noteq> 0")
    case True
    then show ?thesis
      using noted_noteAccess by (intro exI [of _ pass]) (auto simp: footprint_def k)
  next
    case False
    then have "footprint ar cmd = {}" and "?b2 = b1"
      by (auto simp: footprint_def k split: option.splits)
    then show ?thesis by (intro exI [of _ "b_currentPass b1"]) simp
  qed
  then obtain cp where "noted pass (footprint ar cmd) (b1\<lparr>b_currentPass := cp\<rparr>) ?b2" by blast
  from placed_standalone [OF r e [symmetric] this]
  have "placed ar (footprint ar cmd) (command_ref i cmd) (draw_refs i cmd) b ?b2"
    using k by (simp add: command_ref_def draw_refs_def)
  from placed_flush [OF this, of True] show ?thesis
    by (simp add: handlePresent_def e)
qed

lemma placed_handleGenerateMipmaps:
  assumes r: "ready ar i b" and k: "cmd_kind cmd = CmdGenerateMipmaps"
    and h: "cmd_generateMipmaps_texture cmd = Some t"
  shows "placed ar (footprint ar cmd) (command_ref i cmd) (draw_refs i cmd) b
    (handleGenerateMipmaps ar i cmd b)"
proof -
  obtain pass b1 where e: "emitStandalonePass PassBlit i cmd b = (pass, b1)" by fastforce
  have "noted pass (access_keys ar False t AccReadWrite) (b1\<lparr>b_currentPass := pass\<rparr>)
      (handleGenerateMipmaps ar i cmd b)"
    using noted_noteAccess [of pass ar False t AccReadWrite "b1\<lparr>b_currentPass := pass\<rparr>" StageCopy]
    by (simp add: handleGenerateMipmaps_def h e)
  from placed_standalone [OF r e [symmetric] this] show ?thesis
    using k h by (simp add: command_ref_def draw_refs_def footprint_def)
qed

lemma placed_handleReadback:
  assumes r: "ready ar i b" and k: "cmd_kind cmd = CmdReadback"
    and h: "cmd_readback_source cmd = Some s"
  shows "placed ar (footprint ar cmd) (command_ref i cmd) (draw_refs i cmd) b
    (handleReadback ar i cmd b)"
proof -
  obtain pass b1 where e: "emitStandalonePass PassBlit i cmd b = (pass, b1)" by fastforce
  let ?b1 = "b1\<lparr>b_currentPass := pass\<rparr>"
  have "noted pass (access_keys ar True s AccRead \<union> {}) ?b1 (handleReadback ar i cmd b)"
    using noted_trans [OF noted_noteAccess noted_markReadback, of s pass ar True s AccRead ?b1 StageCopy]
      noted_noteAccess [of pass ar True s AccRead ?b1 StageCopy]
    by (cases "s = 0") (simp_all add: handleReadback_def h e)
  from placed_standalone [OF r e [symmetric] this] show ?thesis
    using k h by (simp add: command_ref_def draw_refs_def footprint_def)
qed

lemma handleCommand_placed:
  assumes r: "ready ar i b" and c: "cmd = commandAt payload i"
  shows "accepted cmd \<Longrightarrow> placed ar (footprint ar cmd) (command_ref i cmd) (draw_refs i cmd) b
      (handleCommand ar payload i b)"
    and "\<not> accepted cmd \<Longrightarrow> handleCommand ar payload i b = b"
proof -
  assume a: "accepted cmd"
  show "placed ar (footprint ar cmd) (command_ref i cmd) (draw_refs i cmd) b
      (handleCommand ar payload i b)"
  proof (cases "cmd_kind cmd")
    case CmdDrawRun
    then show ?thesis using a placed_handleDrawRun [OF r CmdDrawRun]
      by (auto simp: accepted_def handleCommand_def c [symmetric])
  next
    case CmdClear
    then show ?thesis using a placed_handleClear [OF r CmdClear]
      by (auto simp: accepted_def handleCommand_def c [symmetric])
  next
    case CmdPresent
    then show ?thesis using placed_handlePresent [OF r CmdPresent]
      by (auto simp: handleCommand_def c [symmetric])
  next
    case CmdGenerateMipmaps
    then show ?thesis using a placed_handleGenerateMipmaps [OF r CmdGenerateMipmaps]
      by (auto simp: accepted_def handleCommand_def c [symmetric])
  next
    case CmdReadback
    then show ?thesis using a placed_handleReadback [OF r CmdReadback]
      by (auto simp: accepted_def handleCommand_def c [symmetric])
  qed (use a placed_emitBlit [OF r] in \<open>auto simp: accepted_def handleCommand_def c [symmetric]
      footprint_def handleSurfaceCopy_def handleStretchRect_def handleColorFill_def
      handleDepthResolve_def\<close>)
next
  assume "\<not> accepted cmd"
  then show "handleCommand ar payload i b = b"
    by (cases "cmd_kind cmd") (auto simp: accepted_def handleCommand_def c [symmetric]
        handleDrawRun_def handleClear_def handleSurfaceCopy_def handleStretchRect_def
        handleColorFill_def handleDepthResolve_def handleGenerateMipmaps_def handleReadback_def)
qed

section \<open>Accounting for the accesses\<close>

text \<open>
  Every footprint entry of a command is represented in the log of its resource by an access of
  the command's pass, and every logged access belongs to the footprint of a command of its pass.
\<close>

definition accounted :: "(nat \<Rightarrow> (ResourceHandle \<times> AccessKind) set) \<Rightarrow> CommandRef list list \<Rightarrow>
    (ResourceHandle \<Rightarrow> AccessLog list) \<Rightarrow> bool" where
  "accounted F G L =
     ((\<forall>p < length G. \<forall>c \<in> set (G ! p). \<forall>(h, k) \<in> F (cref_command_index c).
         \<exists>a \<in> set (L h). a_pass_index a = p \<and> stands_for (a_access_kind a) k) \<and>
      (\<forall>h. \<forall>a \<in> set (L h). a_pass_index a < length G \<and>
         (\<exists>c \<in> set (G ! a_pass_index a). (h, a_access_kind a) \<in> F (cref_command_index c))))"

lemma add_group_nth:
  assumes "new \<or> G \<noteq> []" and "G' = add_group new xs G"
  shows "length G \<le> length G'" and "length G' \<noteq> 0"
    and "p < length G \<Longrightarrow> set (G ! p) \<subseteq> set (G' ! p)"
    and "set xs \<subseteq> set (G' ! (length G' - 1))"
    and "p < length G' \<Longrightarrow> set (G' ! p) \<subseteq> (if p < length G then set (G ! p) else {}) \<union>
        (if Suc p = length G' then set xs else {})"
proof -
  have A: "length G \<le> length G' \<and> length G' \<noteq> 0 \<and>
    (p < length G \<longrightarrow> set (G ! p) \<subseteq> set (G' ! p)) \<and> set xs \<subseteq> set (G' ! (length G' - 1)) \<and>
    (p < length G' \<longrightarrow> set (G' ! p) \<subseteq> (if p < length G then set (G ! p) else {}) \<union>
        (if Suc p = length G' then set xs else {}))" for p
  proof (cases new)
    case True
    with assms(2) show ?thesis by (auto simp: nth_append)
  next
    case False
    have "G = butlast G @ [last G]" and "G' = butlast G @ [last G @ xs]"
      using assms False by (simp_all add: add_group_def)
    then obtain G0 ys where "G = G0 @ [ys]" "G' = G0 @ [ys @ xs]" by blast
    then show ?thesis by (auto simp: nth_append less_Suc_eq)
  qed
  note B = A [THEN conjunct2] and C = A [THEN conjunct2, THEN conjunct2, THEN conjunct2]
  show "length G \<le> length G'" by (rule A [THEN conjunct1])
  show "length G' \<noteq> 0" by (rule B [THEN conjunct1])
  show "p < length G \<Longrightarrow> set (G ! p) \<subseteq> set (G' ! p)"
    by (rule B [THEN conjunct2, THEN conjunct1, rule_format])
  show "set xs \<subseteq> set (G' ! (length G' - 1))"
    by (rule C [THEN conjunct1])
  show "p < length G' \<Longrightarrow> set (G' ! p) \<subseteq> (if p < length G then set (G ! p) else {}) \<union>
        (if Suc p = length G' then set xs else {})"
    by (rule C [THEN conjunct2, rule_format])
qed

lemma accounted_placed:
  assumes acc: "accounted F (groups (b_graph b)) (log_of (b_graph b))"
    and pl: "placed ar (F (cref_command_index c)) c ds b b'"
  shows "accounted F (groups (b_graph b')) (log_of (b_graph b'))"
proof -
  let ?g = "b_graph b" and ?g' = "b_graph b'"
  let ?G = "groups ?g" and ?G' = "groups ?g'" and ?K = "F (cref_command_index c)"
  from pl obtain new where "new \<or> ?G \<noteq> []" "?G' = add_group new [c] ?G"
    and ls: "log_step ?K ?g ?g'" and il: "\<And>h k. (h, k) \<in> ?K \<Longrightarrow> in_last ?g' h k"
    unfolding placed_def Let_def by blast
  note G = add_group_nth [OF this(1,2)]
  have log: "\<exists>as. log_of ?g' h = log_of ?g h @ as \<and> (\<forall>a \<in> set as. Suc (a_pass_index a) = length ?G') \<and>
      (\<forall>a \<in> set as. (h, a_access_kind a) \<in> ?K)" for h
    using ls unfolding log_step_def by (fastforce simp del: length_groups simp add: length_groups [symmetric])
  have cover: "\<exists>a \<in> set (log_of ?g' h). a_pass_index a = p \<and> stands_for (a_access_kind a) k"
    if p: "p < length ?G'" and d: "d \<in> set (?G' ! p)" and hk: "(h, k) \<in> F (cref_command_index d)"
    for p d h k
  proof -
    consider "p < length ?G" "d \<in> set (?G ! p)" | "Suc p = length ?G'" "d = c"
      using G(5) [OF p] d by (auto split: if_splits)
    then show ?thesis
    proof cases
      case 1
      then obtain a where "a \<in> set (log_of ?g h)" "a_pass_index a = p" "stands_for (a_access_kind a) k"
        using acc hk unfolding accounted_def by blast
      moreover obtain as where "log_of ?g' h = log_of ?g h @ as" using log by blast
      ultimately show ?thesis by (intro bexI [of _ a]) auto
    next
      case 2
      with il [of h k] hk obtain a where "a \<in> set (log_of ?g' h)"
        "Suc (a_pass_index a) = length ?G'" "stands_for (a_access_kind a) k"
        by (auto simp: in_last_def)
      with 2 show ?thesis by (intro bexI [of _ a]) simp_all
    qed
  qed
  have prov: "a_pass_index a < length ?G' \<and>
      (\<exists>d \<in> set (?G' ! a_pass_index a). (h, a_access_kind a) \<in> F (cref_command_index d))"
    if a: "a \<in> set (log_of ?g' h)" for h a
  proof -
    obtain as where as: "log_of ?g' h = log_of ?g h @ as"
      "\<forall>a \<in> set as. Suc (a_pass_index a) = length ?G'" "\<forall>a \<in> set as. (h, a_access_kind a) \<in> ?K"
      using log by blast
    consider "a \<in> set (log_of ?g h)" | "a \<in> set as" using a as(1) by auto
    then show ?thesis
    proof cases
      case 1
      then have "a_pass_index a < length ?G" "\<exists>d \<in> set (?G ! a_pass_index a).
          (h, a_access_kind a) \<in> F (cref_command_index d)"
        using acc unfolding accounted_def by blast+
      then show ?thesis using G(1) G(3) by (meson order_less_le_trans subsetD)
    next
      case 2
      then have "Suc (a_pass_index a) = length ?G'" "(h, a_access_kind a) \<in> ?K" using as by auto
      moreover from this(1) have "c \<in> set (?G' ! a_pass_index a)"
        using G(4) by (metis diff_Suc_1 insert_subset list.simps(15))
      ultimately show ?thesis by (intro conjI bexI [of _ c]) simp_all
    qed
  qed
  show ?thesis unfolding accounted_def using cover prov by blast
qed

section \<open>The invariant of the walk\<close>

definition accepted_refs :: "SourcePayloadView \<Rightarrow> nat \<Rightarrow> CommandRef list" where
  "accepted_refs payload n = map (\<lambda>i. command_ref i (commandAt payload i))
     (filter (\<lambda>i. accepted (commandAt payload i)) [0..<n])"

definition draws_of :: "SourcePayloadView \<Rightarrow> CommandRef list \<Rightarrow> DrawRef list" where
  "draws_of payload cs = concat (map (\<lambda>c. draw_refs (cref_command_index c)
     (commandAt payload (cref_command_index c))) cs)"

definition command_footprint ::
  "ResourceAliasResolver \<Rightarrow> SourcePayloadView \<Rightarrow> nat \<Rightarrow> (ResourceHandle \<times> AccessKind) set" where
  "command_footprint ar payload i = footprint ar (commandAt payload i)"

definition built :: "ResourceAliasResolver \<Rightarrow> SourcePayloadView \<Rightarrow> nat \<Rightarrow> Builder \<Rightarrow> bool" where
  "built ar payload n b = (let g = b_graph b in
     tiling g \<and> graph_ok g \<and> open_ok ar b \<and> plain_flags g \<and> [] \<notin> set (groups g) \<and>
     g_commands g = accepted_refs payload n \<and>
     draw_groups g = map (draws_of payload) (groups g) \<and>
     length (g_draws g) \<le> n \<and>
     accounted (command_footprint ar payload) (groups g) (log_of g))"

lemma length_accepted_refs: "length (accepted_refs payload n) \<le> n"
  unfolding accepted_refs_def by (metis length_filter_le length_map length_upt diff_zero)

lemma built_ready:
  assumes "built ar payload n b" and "Suc n < u32_limit"
  shows "ready ar n b"
proof -
  have "length (g_passes (b_graph b)) \<le> length (concat (groups (b_graph b)))"
    using length_concat_ge [of "groups (b_graph b)"] assms(1) by (simp add: built_def)
  also have "\<dots> = length (g_commands (b_graph b))"
    using assms(1) by (simp add: groups_concat built_def)
  finally show ?thesis
    using assms length_accepted_refs [of payload n] by (auto simp: built_def ready_def)
qed

lemma built_start: "built ar payload 0 (newBuilder frame_id)"
  using graph_ok_reset [of frame_id]
  by (simp add: built_def newBuilder_def tiling_def cmd_ranges_def draw_ranges_def reset_graph_def
      open_ok_def plain_flags_def groups_def draw_groups_def accepted_refs_def accounted_def
      log_of_def log_in_def)

lemma add_group_map:
  "new \<or> gs \<noteq> [] \<Longrightarrow> f [] = [] \<Longrightarrow> (\<And>xs ys. f (xs @ ys) = f xs @ f ys) \<Longrightarrow>
     add_group new (f xs) (map f gs) = map f (add_group new xs gs)"
  by (cases new) (auto simp: add_group_def map_butlast last_map)

lemma built_step:
  assumes inv: "built ar payload n b" and n: "Suc n < u32_limit"
  shows "built ar payload (Suc n) (handleCommand ar payload n b)"
proof -
  let ?cmd = "commandAt payload n" and ?b' = "handleCommand ar payload n b"
  note r = built_ready [OF inv n]
  show ?thesis
  proof (cases "accepted ?cmd")
    case False
    then have "?b' = b" using handleCommand_placed(2) [OF r refl] by simp
    moreover have "accepted_refs payload (Suc n) = accepted_refs payload n"
      using False by (simp add: accepted_refs_def)
    ultimately show ?thesis using inv by (simp add: built_def)
  next
    case True
    have idx: "cref_command_index (command_ref n ?cmd) = n" by (simp add: command_ref_def)
    from handleCommand_placed(1) [OF r refl True]
    have pl: "placed ar (command_footprint ar payload (cref_command_index (command_ref n ?cmd)))
        (command_ref n ?cmd) (draw_refs n ?cmd) b ?b'"
      by (simp add: command_footprint_def idx)
    then obtain new where new: "new \<or> groups (b_graph b) \<noteq> []"
      "groups (b_graph ?b') = add_group new [command_ref n ?cmd] (groups (b_graph b))"
      "draw_groups (b_graph ?b') = add_group new (draw_refs n ?cmd) (draw_groups (b_graph b))"
      unfolding placed_def Let_def by blast
    have "accounted (command_footprint ar payload) (groups (b_graph ?b')) (log_of (b_graph ?b'))"
      using inv by (intro accounted_placed [where c = "command_ref n ?cmd" and F = "command_footprint ar payload", OF _ pl])
        (simp add: built_def)
    moreover have "accepted_refs payload (Suc n) = accepted_refs payload n @ [command_ref n ?cmd]"
      using True by (simp add: accepted_refs_def)
    moreover have "draw_groups (b_graph ?b') = map (draws_of payload) (groups (b_graph ?b'))"
      using new inv add_group_map [OF new(1), of "draws_of payload" "[command_ref n ?cmd]"]
      by (simp add: built_def draws_of_def idx)
    moreover have "[] \<notin> set (groups (b_graph ?b'))"
      using new inv by (auto simp: built_def add_group_def dest: in_set_butlastD)
    moreover have "length (draw_refs n ?cmd) \<le> 1" by (simp add: draw_refs_def)
    ultimately show ?thesis
      using pl inv by (simp add: built_def placed_def)
  qed
qed

lemma built_fold:
  "Suc n < u32_limit \<Longrightarrow>
     built ar payload n (fold (handleCommand ar payload) [0..<n] (newBuilder frame_id))"
proof (induction n)
  case 0
  then show ?case by (simp add: built_start)
next
  case (Suc n)
  then show ?case using built_step [of ar payload n] by simp
qed

text \<open>The conclusion that the properties below unfold.\<close>

lemma built_buildFrameGraph:
  assumes "Suc (commandCount payload) < u32_limit"
  obtains b where "built ar payload (commandCount payload) b"
    and "buildFrameGraph payload frame_id ar = b_graph b"
  using built_fold [OF assms, of ar payload frame_id]
  by (simp add: buildFrameGraph_def runBuilder_def finalizeCurrentPass_def)

end
