(* ===== verification/Fg_Builder_Theorems.thy ===== *)
theory Fg_Builder_Theorems
  imports Fg_Builder_Correct
begin

text \<open>
  What \<open>buildFrameGraph\<close> guarantees, stated on its result: the passes partition the accepted
  commands in submission order, and the dependency edges are complete and justified with
  respect to the commands' footprints. The same facts as \<open>hazard_ok\<close>, the form the optimizer
  passes preserve.
\<close>

section \<open>Positions of commands\<close>

lemma accepted_refs_sorted:
  "sorted_wrt (<) (map cref_command_index (accepted_refs payload n))"
proof -
  have "map cref_command_index (accepted_refs payload n) =
      filter (\<lambda>i. accepted (commandAt payload i)) [0..<n]"
    by (simp add: accepted_refs_def command_ref_def comp_def)
  then show ?thesis by (simp add: sorted_wrt_filter)
qed

lemma accepted_refs_mem:
  "c \<in> set (accepted_refs payload n) \<longleftrightarrow>
     cref_command_index c < n \<and> accepted (commandAt payload (cref_command_index c)) \<and>
     c = command_ref (cref_command_index c) (commandAt payload (cref_command_index c))"
  by (auto simp: accepted_refs_def command_ref_def)

text \<open>In a sorted concatenation, an element of an earlier group has a smaller key.\<close>

lemma sorted_concat_groups:
  fixes f :: "'a \<Rightarrow> nat"
  assumes "sorted_wrt (<) (map f (concat gs))" and "p < q" and "q < length gs"
    and "x \<in> set (gs ! p)" and "y \<in> set (gs ! q)"
  shows "f x < f y"
proof -
  have "precedes (concat gs) x y"
    using assms by (intro precedes_concat [of p q]) auto
  then obtain i j where "i < j" "j < length (concat gs)" "concat gs ! i = x" "concat gs ! j = y"
    by (auto simp: precedes_def)
  with assms(1) show ?thesis
    by (auto simp: sorted_wrt_iff_nth_less simp del: length_concat)
qed

text \<open>Positions in a chronological log.\<close>

lemma log_positions:
  assumes "sorted (map a_pass_index log)" and "a \<in> set log" and "b \<in> set log"
    and "a_pass_index a < a_pass_index b"
  obtains i j where "i < j" "j < length log" "log ! i = a" "log ! j = b"
proof -
  from assms obtain i j where ij: "i < length log" "log ! i = a" "j < length log" "log ! j = b"
    by (auto simp: in_set_conv_nth)
  have "i < j"
  proof (rule ccontr)
    assume "\<not> i < j"
    then have "map a_pass_index log ! j \<le> map a_pass_index log ! i"
      using ij assms(1) by (intro sorted_nth_mono) auto
    then show False using ij assms(4) by simp
  qed
  then show thesis using ij that by blast
qed

section \<open>Evaluation at concrete payloads\<close>

lemmas builder_eval =
  buildFrameGraph_def runBuilder_def commandCount_def payload_commands_def upt_rec
  handleCommand_def commandAt_def handleStretchRect_def handleColorFill_def handleDrawRun_def
  handleClear_def handleReadback_def handlePresent_def emitBlit_def
  emitStandalonePass_def newBuilder_def reset_graph_def finalizeCurrentPass_def default_pass_def
  noteAccess_def resolveAlias_def no_alias_def resourceFor_def findResourceIndex_def
  empty_command_def default_resource_def addDependencyEdges_def addEdgeOnce_def
  hazardSources_def lastWriteIndex_def touchNode_def recordAccess_def pass_commands_def
  gather_def markReadback_def

definition copy_command :: "ResourceHandle \<Rightarrow> ResourceHandle \<Rightarrow> SourceCommandView" where
  "copy_command s d = empty_command\<lparr>cmd_kind := CmdStretchRect,
     cmd_stretchRect := Some \<lparr>cpy_source = s, cpy_destination = d\<rparr>\<rparr>"

definition demo_copies :: SourcePayloadView where
  "demo_copies = Some [copy_command 5 7, copy_command 7 9]"

section \<open>The properties\<close>

text \<open>
  C18: for every payload of fewer than 2^32 - 1 commands, walking the passes of the built graph
  in order and each pass's commands in order yields exactly the accepted commands of the
  payload, once each and in submission order; no pass is empty, and the draws of a pass are the
  draws of its draw-run commands.
\<close>

theorem build_partitions_commands:
  fixes payload frame_id ar
  assumes "Suc (commandCount payload) < u32_limit"
  defines "g \<equiv> buildFrameGraph payload frame_id ar"
  shows "linear_commands g = accepted_refs payload (commandCount payload) \<and>
    (\<forall>p \<in> set (g_passes g). pass_commands g p \<noteq> [] \<and>
       pass_draws g p = draws_of payload (pass_commands g p))"
proof -
  obtain b where b: "built ar payload (commandCount payload) b" "g = b_graph b"
    using built_buildFrameGraph [OF assms(1)] unfolding g_def by metis
  then have lin: "linear_commands g = accepted_refs payload (commandCount payload)"
    by (simp add: built_def linear_commands_groups groups_concat)
  have "pass_commands g p \<noteq> [] \<and> pass_draws g p = draws_of payload (pass_commands g p)"
    if "p \<in> set (g_passes g)" for p
  proof -
    have "pass_commands g p \<in> set (groups g)" using that by (simp add: groups_def)
    then have "pass_commands g p \<noteq> []" using b by (auto simp: built_def)
    moreover have "\<forall>p \<in> set (g_passes g). pass_draws g p = draws_of payload (pass_commands g p)"
      using b by (simp add: built_def draw_groups_def groups_def)
    ultimately show ?thesis using that by blast
  qed
  with lin show ?thesis by blast
qed

theorem build_partitions_commands_witness:
  "map cref_command_index (linear_commands (buildFrameGraph demo_copies 3 no_alias)) = [0, 1]"
proof -
  have "Suc (commandCount demo_copies) < u32_limit" by (simp add: demo_copies_def)
  from build_partitions_commands [OF this, of 3 no_alias] show ?thesis
    by (simp add: accepted_refs_def command_ref_def demo_copies_def commandAt_def
        payload_commands_def commandCount_def copy_command_def accepted_def upt_rec)
qed

text \<open>The same for any state the walk reaches; the optimizer rests on it too.\<close>

lemma built_orders:
  assumes b: "built ar payload n b" "g = b_graph b"
    and pq: "p < length (g_passes g)" "q < length (g_passes g)"
    and cd: "c \<in> set (pass_commands g (g_passes g ! p))" "d \<in> set (pass_commands g (g_passes g ! q))"
    and lt: "cref_command_index c < cref_command_index d"
    and hk: "(h, k) \<in> command_footprint ar payload (cref_command_index c)"
    and hl: "(h, l) \<in> command_footprint ar payload (cref_command_index d)"
    and conf: "conflicting k l"
  shows "(p, q) \<in> (edge_rel g)\<^sup>*"
proof -
  have cG: "c \<in> set (groups g ! p)" and dG: "d \<in> set (groups g ! q)"
    using pq cd by (simp_all add: groups_def)
  have sorted: "sorted_wrt (<) (map cref_command_index (concat (groups g)))"
    using b accepted_refs_sorted by (simp add: built_def groups_concat)
  have acc: "accounted (command_footprint ar payload) (groups g) (log_of g)" and ok: "graph_ok g"
    using b by (simp_all add: built_def)
  consider "p = q" | "p < q" | "q < p" by linarith
  then show ?thesis
  proof cases
    case 1
    then show ?thesis by simp
  next
    case 2
    obtain a where a: "a \<in> set (log_of g h)" "a_pass_index a = p" "stands_for (a_access_kind a) k"
      using acc cG pq(1) hk unfolding accounted_def length_groups by fastforce
    obtain e where e: "e \<in> set (log_of g h)" "a_pass_index e = q" "stands_for (a_access_kind e) l"
      using acc dG pq(2) hl unfolding accounted_def length_groups by fastforce
    have "conflicting (a_access_kind a) (a_access_kind e)"
      using stands_for_conflicting [OF a(3) e(3) conf] .
    moreover obtain i j where "i < j" "j < length (log_of g h)" "log_of g h ! i = a"
        "log_of g h ! j = e"
      using log_positions [OF graph_ok_logD(1) [OF ok] a(1) e(1)] a(2) e(2) 2 by metis
    ultimately show ?thesis
      using graph_ok_logD(3) [OF ok, of h] a(2) e(2) unfolding log_covered_def by blast
  next
    case 3
    with sorted_concat_groups [OF sorted 3 _ dG cG] pq lt show ?thesis by simp
  qed
qed

text \<open>
  C14: the dependency edges are complete. If one command is submitted before another and the two
  access the same resource in conflicting ways (after alias resolution), then the pass of the
  first reaches the pass of the second along the edges, or they share a pass.
\<close>

theorem build_orders_hazards:
  fixes payload frame_id ar
  assumes "Suc (commandCount payload) < u32_limit"
  defines "g \<equiv> buildFrameGraph payload frame_id ar"
  assumes "p < length (g_passes g)" and "q < length (g_passes g)"
    and "c \<in> set (pass_commands g (g_passes g ! p))"
    and "d \<in> set (pass_commands g (g_passes g ! q))"
    and "cref_command_index c < cref_command_index d"
    and "(h, k) \<in> command_footprint ar payload (cref_command_index c)"
    and "(h, l) \<in> command_footprint ar payload (cref_command_index d)"
    and "conflicting k l"
  shows "(p, q) \<in> (edge_rel g)\<^sup>*"
proof -
  obtain b where "built ar payload (commandCount payload) b" "g = b_graph b"
    using built_buildFrameGraph [OF assms(1)] unfolding g_def by metis
  from built_orders [OF this assms(3-10)] show ?thesis .
qed

theorem build_orders_hazards_witness:
  "(0, 1) \<in> (edge_rel (buildFrameGraph demo_copies 0 no_alias))\<^sup>*"
proof (rule build_orders_hazards [where c = "command_ref 0 (copy_command 5 7)"
      and d = "command_ref 1 (copy_command 7 9)" and h = 7 and k = AccWrite and l = AccRead])
  show "Suc (commandCount demo_copies) < u32_limit" by (simp add: demo_copies_def)
qed (simp_all add: builder_eval demo_copies_def copy_command_def command_ref_def conflicting_def
    command_footprint_def footprint_def copy_keys_def access_keys_def)

text \<open>
  The dependency edges are justified. Every edge points forward, from an existing pass to a
  later one, names a non-null resource, and joins passes holding two commands that access the
  edge's resource in conflicting ways; no edge is stored twice.
\<close>

theorem build_edges_justified:
  fixes payload frame_id ar
  assumes "Suc (commandCount payload) < u32_limit"
  defines "g \<equiv> buildFrameGraph payload frame_id ar"
  shows "distinct (g_edges g) \<and> (\<forall>e \<in> set (g_edges g).
    e_src_pass e < e_dst_pass e \<and> e_dst_pass e < length (g_passes g) \<and>
    (\<exists>c \<in> set (pass_commands g (g_passes g ! e_src_pass e)).
     \<exists>d \<in> set (pass_commands g (g_passes g ! e_dst_pass e)).
     \<exists>k l. (e_resource e, k) \<in> command_footprint ar payload (cref_command_index c) \<and>
       (e_resource e, l) \<in> command_footprint ar payload (cref_command_index d) \<and>
       conflicting k l))"
proof -
  obtain b where b: "built ar payload (commandCount payload) b" "g = b_graph b"
    using built_buildFrameGraph [OF assms(1)] unfolding g_def by metis
  then have acc: "accounted (command_footprint ar payload) (groups g) (log_of g)" and ok: "graph_ok g"
    by (simp_all add: built_def)
  have from_log: "\<exists>c \<in> set (pass_commands g (g_passes g ! a_pass_index a)).
      (h, a_access_kind a) \<in> command_footprint ar payload (cref_command_index c)"
    if "a \<in> set (log_of g h)" for a h
  proof -
    have "a_pass_index a < length (groups g) \<and> (\<exists>c \<in> set (groups g ! a_pass_index a).
        (h, a_access_kind a) \<in> command_footprint ar payload (cref_command_index c))"
      using acc that unfolding accounted_def by blast
    then show ?thesis by (auto simp: groups_def)
  qed
  have "e_src_pass e < e_dst_pass e \<and> e_dst_pass e < length (g_passes g) \<and>
    (\<exists>c \<in> set (pass_commands g (g_passes g ! e_src_pass e)).
     \<exists>d \<in> set (pass_commands g (g_passes g ! e_dst_pass e)).
     \<exists>k l. (e_resource e, k) \<in> command_footprint ar payload (cref_command_index c) \<and>
       (e_resource e, l) \<in> command_footprint ar payload (cref_command_index d) \<and>
       conflicting k l)" if "e \<in> set (g_edges g)" for e
  proof -
    from ok that have "edge_ok g e" by (simp add: graph_ok_def)
    then obtain a a' where a: "a \<in> set (log_of g (e_resource e))" "a' \<in> set (log_of g (e_resource e))"
      "a_pass_index a = e_src_pass e" "a_pass_index a' = e_dst_pass e"
      "conflicting (a_access_kind a) (a_access_kind a')"
      and lt: "e_src_pass e < e_dst_pass e" "e_dst_pass e < length (g_passes g)"
      by (auto simp: edge_ok_def)
    from from_log [OF a(1)] from_log [OF a(2)] a(3,4,5) lt show ?thesis by metis
  qed
  moreover have "distinct (g_edges g)" using ok by (simp add: graph_ok_def)
  ultimately show ?thesis by blast
qed

theorem build_edges_justified_witness:
  "distinct (g_edges (buildFrameGraph demo_copies 3 no_alias)) \<and>
   length (g_edges (buildFrameGraph demo_copies 3 no_alias)) = 1"
proof -
  have "Suc (commandCount demo_copies) < u32_limit" by (simp add: demo_copies_def)
  from build_edges_justified [OF this, of 3 no_alias]
  have "distinct (g_edges (buildFrameGraph demo_copies 3 no_alias))" by blast
  moreover have "length (g_edges (buildFrameGraph demo_copies 3 no_alias)) = 1"
    by (simp add: builder_eval demo_copies_def copy_command_def)
  ultimately show ?thesis ..
qed

end
