(* ===== verification/Fg_Order.thy ===== *)
theory Fg_Order
  imports Fg_Builder_Theorems Fg_Reach
begin

text \<open>
  What the optimizer passes preserve. A graph is seen as the list of its passes' commands
  (\<open>groups\<close>) and its edge relation; \<open>hazard_ok R g\<close> says that the edges point forward and
  that any two commands related by \<open>R\<close> lie in passes joined by an edge path, in order when the
  pass is the same. Every pass-graph transformation is an instance of \<open>ordered_remap\<close>.
\<close>

definition forward :: "(nat \<times> nat) set \<Rightarrow> nat \<Rightarrow> bool" where
  "forward E n = (\<forall>(p, q) \<in> E. p < q \<and> q < n)"

definition ordered :: "('c \<Rightarrow> 'c \<Rightarrow> bool) \<Rightarrow> 'c list list \<Rightarrow> (nat \<times> nat) set \<Rightarrow> bool" where
  "ordered R G E = (\<forall>p q c d. p < length G \<longrightarrow> q < length G \<longrightarrow> c \<in> set (G ! p) \<longrightarrow>
     d \<in> set (G ! q) \<longrightarrow> R c d \<longrightarrow> (p, q) \<in> E\<^sup>* \<and> (p = q \<longrightarrow> precedes (G ! p) c d))"

definition hazard_ok :: "(CommandRef \<Rightarrow> CommandRef \<Rightarrow> bool) \<Rightarrow> FrameGraph \<Rightarrow> bool" where
  "hazard_ok R g = (forward (edge_rel g) (length (g_passes g)) \<and>
     ordered R (groups g) (edge_rel g))"

lemma forward_path:
  assumes "forward E n" and "(p, q) \<in> E\<^sup>*"
  shows "p = q \<or> (p < q \<and> q < n)"
  using assms(2)
proof (induction rule: rtrancl_induct)
  case base
  then show ?case by simp
next
  case (step y z)
  then have "y < z \<and> z < n" using assms(1) by (auto simp: forward_def)
  with step show ?case by auto
qed

lemma forward_in_range:
  "forward (edge_rel g) (length (g_passes g)) \<Longrightarrow> in_range g"
  by (force simp: forward_def in_range_def edge_rel_def)

text \<open>The order of related commands in the flattened graph.\<close>

lemma ordered_linear:
  assumes "forward E (length G)" and "ordered R G E" and "R c d"
    and "c \<in> set (concat G)" and "d \<in> set (concat G)"
  shows "precedes (concat G) c d"
proof -
  obtain p q where pq: "p < length G" "c \<in> set (G ! p)" "q < length G" "d \<in> set (G ! q)"
    using assms(4,5) by (auto simp: in_set_conv_nth [of _ G])
  then have path: "(p, q) \<in> E\<^sup>*" and same: "p = q \<Longrightarrow> precedes (G ! p) c d"
    using assms(2,3) by (auto simp: ordered_def)
  from forward_path [OF assms(1) path] show ?thesis
  proof
    assume "p = q"
    with same pq show ?thesis by (simp add: precedes_concat_in)
  next
    assume "p < q \<and> q < length G"
    with pq show ?thesis by (auto intro: precedes_concat)
  qed
qed

text \<open>
  Renumbering the passes by \<open>f\<close>: commands stay with their pass, passes that are joined have
  their commands joined in order, and edges are carried over unless they become loops.
\<close>

lemma ordered_remap:
  assumes ord: "ordered R G E" and fwd: "forward E (length G)"
    and members: "\<And>q c. q < length G' \<Longrightarrow> c \<in> set (G' ! q) \<Longrightarrow>
      \<exists>p < length G. f p = q \<and> c \<in> set (G ! p)"
    and same: "\<And>p c d. p < length G \<Longrightarrow> precedes (G ! p) c d \<Longrightarrow> precedes (G' ! f p) c d"
    and joined: "\<And>p q c d. p < q \<Longrightarrow> q < length G \<Longrightarrow> f p = f q \<Longrightarrow> c \<in> set (G ! p) \<Longrightarrow>
      d \<in> set (G ! q) \<Longrightarrow> precedes (G' ! f p) c d"
    and edges: "\<And>p q. (p, q) \<in> E \<Longrightarrow> f p = f q \<or> (f p, f q) \<in> E'"
  shows "ordered R G' E'"
proof -
  have path: "(f p, f q) \<in> E'\<^sup>*" if "(p, q) \<in> E\<^sup>*" for p q
    using that
  proof (induction rule: rtrancl_induct)
    case base
    then show ?case by simp
  next
    case (step y z)
    then show ?case using edges [OF step(2)] by (metis rtrancl.rtrancl_into_rtrancl)
  qed
  have "(q1, q2) \<in> E'\<^sup>* \<and> (q1 = q2 \<longrightarrow> precedes (G' ! q1) c d)"
    if A: "q1 < length G'" "q2 < length G'" "c \<in> set (G' ! q1)" "d \<in> set (G' ! q2)" "R c d"
    for q1 q2 c d
  proof -
    obtain p1 where p1: "p1 < length G" "f p1 = q1" "c \<in> set (G ! p1)"
      using members [OF A(1,3)] by blast
    obtain p2 where p2: "p2 < length G" "f p2 = q2" "d \<in> set (G ! p2)"
      using members [OF A(2,4)] by blast
    note p = p1 p2
    then have pp: "(p1, p2) \<in> E\<^sup>*" "p1 = p2 \<Longrightarrow> precedes (G ! p1) c d"
      using ord A(5) by (auto simp: ordered_def)
    from forward_path [OF fwd pp(1)] show ?thesis
    proof
      assume "p1 = p2"
      then show ?thesis using p pp same by auto
    next
      assume "p1 < p2 \<and> p2 < length G"
      then show ?thesis using p path [OF pp(1)] joined [of p1 p2 c d] by auto
    qed
  qed
  then show ?thesis unfolding ordered_def by blast
qed

lemma precedes_index:
  assumes "distinct xs" and "precedes xs x y" and "i < length xs" and "j < length xs"
    and "xs ! i = x" and "xs ! j = y"
  shows "i < j"
  using assms unfolding precedes_def by (metis nth_eq_iff_index_eq order_less_trans)

lemma precedes_sorted:
  assumes "sorted_wrt (<) xs" and "x \<in> set xs" and "y \<in> set xs" and "x < (y :: nat)"
  shows "precedes xs x y"
proof -
  obtain i j where ij: "i < length xs" "xs ! i = x" "j < length xs" "xs ! j = y"
    using assms by (auto simp: in_set_conv_nth)
  have "i < j"
  proof (rule ccontr)
    assume "\<not> i < j"
    then consider "i = j" | "j < i" by linarith
    then show False
      using ij assms(1,4) by cases (auto simp: sorted_wrt_iff_nth_less dest: less_asym)
  qed
  with ij show ?thesis unfolding precedes_def by blast
qed

section \<open>The built graph\<close>

text \<open>Submission order restricted to conflicting commands.\<close>

definition depends :: "(nat \<Rightarrow> (ResourceHandle \<times> AccessKind) set) \<Rightarrow> nat \<Rightarrow> nat \<Rightarrow> bool" where
  "depends F i j = (\<exists>h k l. (h, k) \<in> F i \<and> (h, l) \<in> F j \<and> conflicting k l)"

definition must_precede ::
  "(nat \<Rightarrow> (ResourceHandle \<times> AccessKind) set) \<Rightarrow> CommandRef \<Rightarrow> CommandRef \<Rightarrow> bool" where
  "must_precede F c d = (cref_command_index c < cref_command_index d \<and>
     depends F (cref_command_index c) (cref_command_index d))"

lemma depends_sym: "depends F i j \<Longrightarrow> depends F j i"
  unfolding depends_def using conflicting_sym by blast

end
