(* ===== verification/Fg_Merge.thy ===== *)
theory Fg_Merge
  imports Fg_Coalesce Fg_Order
begin

text \<open>
  Merging a pair of passes is sound when no pass between them both depends on the pair and feeds
  it (\<open>merge_ok\<close>): the merged graph has the same commands, and keeps \<open>hazard_ok\<close>.
\<close>

section \<open>The new pass order\<close>

definition feeds :: "(nat \<times> nat) set \<Rightarrow> nat \<Rightarrow> nat \<Rightarrow> nat \<Rightarrow> bool" where
  "feeds E a b x = ((x, a) \<in> E\<^sup>* \<or> (x, b) \<in> E\<^sup>*)"

definition fed :: "(nat \<times> nat) set \<Rightarrow> nat \<Rightarrow> nat \<Rightarrow> nat \<Rightarrow> bool" where
  "fed E a b x = ((a, x) \<in> E\<^sup>* \<or> (b, x) \<in> E\<^sup>*)"

definition merge_ok :: "(nat \<times> nat) set \<Rightarrow> nat \<Rightarrow> nat \<Rightarrow> nat \<Rightarrow> bool" where
  "merge_ok E n a b = (a < b \<and> b < n \<and> n < u32_limit - 1 \<and> forward E n \<and>
     (\<forall>x. a < x \<longrightarrow> x < b \<longrightarrow> \<not> (fed E a b x \<and> feeds E a b x)))"

definition before_of :: "(nat \<times> nat) set \<Rightarrow> nat \<Rightarrow> nat \<Rightarrow> nat list" where
  "before_of E a b = filter (feeds E a b) [a + 1..<b]"

definition after_of :: "(nat \<times> nat) set \<Rightarrow> nat \<Rightarrow> nat \<Rightarrow> nat list" where
  "after_of E a b = filter (\<lambda>x. \<not> feeds E a b x) [a + 1..<b]"

abbreviation merge_marker :: nat where
  "merge_marker \<equiv> UINT32_MAX"

definition merged_order :: "(nat \<times> nat) set \<Rightarrow> nat \<Rightarrow> nat \<Rightarrow> nat \<Rightarrow> nat list" where
  "merged_order E n a b = [0..<a] @ before_of E a b @ [merge_marker] @ after_of E a b @ [b + 1..<n]"

lemma concat_map_singles: "(\<And>x. x \<in> set xs \<Longrightarrow> f x = [x]) \<Longrightarrow> concat (map f xs) = xs"
  by (induction xs) auto

lemma concat_map_empty: "(\<And>x. x \<in> set xs \<Longrightarrow> f x = []) \<Longrightarrow> concat (map f xs) = []"
  by (induction xs) auto

lemma newPassOrder_merged:
  assumes ok: "merge_ok E n a b"
  shows "newPassOrder n a b (before_of E a b) (after_of E a b) = merged_order E n a b"
proof -
  let ?before = "before_of E a b" and ?after = "after_of E a b"
  let ?f = "\<lambda>p. if p = a then ?before @ [merge_marker] else if p = b then ?after
     else if p > a \<and> p < b \<and> (as_u32 p \<in> set ?before \<or> as_u32 p \<in> set ?after) then []
     else [as_u32 p]"
  have lt: "a < b" "b < n" "n < u32_limit - 1" using ok by (simp_all add: merge_ok_def)
  have u: "as_u32 p = p" if "p < n" for p using that lt by simp
  have split: "[0..<n] = [0..<a] @ [a] @ [a + 1..<b] @ [b] @ [b + 1..<n]"
    using lt by (metis (no_types) Suc_eq_plus1 Suc_leI append_Cons append_Nil less_or_eq_imp_le
        upt_add_eq_append upt_conv_Cons order_less_trans le_add_diff_inverse zero_le)
  have "concat (map ?f [0..<a]) = [0..<a]"
    using lt u by (intro concat_map_singles) auto
  moreover have "concat (map ?f [a + 1..<b]) = []"
    using lt u by (intro concat_map_empty) (auto simp: before_of_def after_of_def)
  moreover have "concat (map ?f [b + 1..<n]) = [b + 1..<n]"
    using lt u by (intro concat_map_singles) auto
  moreover have "concat (map ?f [a]) = ?before @ [merge_marker]" "concat (map ?f [b]) = ?after"
    using lt by simp_all
  ultimately show ?thesis
    unfolding newPassOrder_def merged_order_def split map_append concat_append by simp
qed

lemma set_merged_order:
  "merge_ok E n a b \<Longrightarrow> set (merged_order E n a b) = insert merge_marker ({0..<n} - {a, b})"
  by (auto simp: merged_order_def before_of_def after_of_def merge_ok_def)

lemma distinct_merged_order: "merge_ok E n a b \<Longrightarrow> distinct (merged_order E n a b)"
  by (auto simp: merged_order_def before_of_def after_of_def merge_ok_def)

text \<open>The entry of the new order that stands for an old pass.\<close>

definition mark :: "nat \<Rightarrow> nat \<Rightarrow> nat \<Rightarrow> nat" where
  "mark a b p = (if p = a \<or> p = b then merge_marker else p)"

lemma feeds_back: "(x, y) \<in> E \<Longrightarrow> feeds E a b y \<Longrightarrow> feeds E a b x"
  unfolding feeds_def by (meson converse_rtrancl_into_rtrancl)

text \<open>No edge runs backwards in the new order.\<close>

lemma merged_order_edge:
  assumes ok: "merge_ok E n a b" and e: "(s, d) \<in> E"
  shows "mark a b s = mark a b d \<or> precedes (merged_order E n a b) (mark a b s) (mark a b d)"
proof -
  have lt: "a < b" "b < n" and sd: "s < d" "d < n"
    using ok e by (auto simp: merge_ok_def forward_def)
  let ?B = "before_of E a b" and ?A = "after_of E a b"
  let ?BM = "?B @ [merge_marker]" and ?T = "[b + 1..<n]"
  have order: "merged_order E n a b = [0..<a] @ ?BM @ ?A @ ?T"
    by (simp add: merged_order_def)
  have BA: "x \<in> set ?B \<union> set ?A" if "a < x" "x < b" for x
    using that by (auto simp: before_of_def after_of_def)
  have fed_d: "d \<in> set ?A" if "s = a" "a < d" "d < b"
  proof -
    have "fed E a b d" using e that(1) by (auto simp: fed_def)
    then show ?thesis using ok that by (auto simp: merge_ok_def after_of_def)
  qed
  have sorted: "sorted_wrt (<) ?B" "sorted_wrt (<) ?A"
    by (simp_all add: before_of_def after_of_def sorted_wrt_filter)
  consider "s < a" | "s = a" "d = b" | "s = a" "d \<noteq> b" "d < b" | "s = a" "d > b"
    | "a < s" "s < b" "d < b" | "a < s" "s < b" "d = b" | "a < s" "s < b" "d > b"
    | "s \<ge> b" using sd by linarith
  then show ?thesis
  proof cases
    case 1
    have ms: "mark a b s = s" "s \<in> set [0..<a]" using 1 lt by (auto simp: mark_def)
    show ?thesis
    proof (cases "d < a")
      case True
      then have "precedes [0..<a] s d" using sd by (intro precedes_sorted) auto
      moreover have "mark a b d = d" using True lt by (simp add: mark_def)
      ultimately show ?thesis unfolding order using ms by (simp add: precedes_append_left)
    next
      case False
      then have "mark a b d \<in> set (?BM @ ?A @ ?T)"
        using BA [of d] sd lt by (auto simp: mark_def)
      then show ?thesis unfolding order using ms by (metis precedes_append_both)
    qed
  next
    case 2
    then show ?thesis by (simp add: mark_def)
  next
    case 3
    then have "mark a b d \<in> set (?A @ ?T)" using fed_d sd by (simp add: mark_def)
    moreover have "mark a b s \<in> set ?BM" using 3 by (simp add: mark_def)
    ultimately show ?thesis unfolding order
      by (metis precedes_append_both precedes_append_right)
  next
    case 4
    then have "mark a b d \<in> set (?A @ ?T)" using sd lt by (simp add: mark_def)
    moreover have "mark a b s \<in> set ?BM" using 4 by (simp add: mark_def)
    ultimately show ?thesis unfolding order
      by (metis precedes_append_both precedes_append_right)
  next
    case 5
    then have m: "mark a b s = s" "mark a b d = d" using sd by (auto simp: mark_def)
    show ?thesis
    proof (cases "feeds E a b d")
      case True
      then have "s \<in> set ?B" "d \<in> set ?B"
        using 5 sd feeds_back [OF e] by (auto simp: before_of_def)
      then have "precedes ?BM s d" using sorted sd by (simp add: precedes_sorted precedes_append_left)
      then show ?thesis unfolding order m by (metis precedes_append_left precedes_append_right)
    next
      case False
      then have d: "d \<in> set ?A" using 5 sd by (auto simp: after_of_def)
      show ?thesis
      proof (cases "s \<in> set ?B")
        case True
        then have "precedes (?BM @ ?A @ ?T) s d" using d by (intro precedes_append_both) auto
        then show ?thesis unfolding order m by (metis precedes_append_right)
      next
        case False
        then have "s \<in> set ?A" using BA [of s] 5 by auto
        then have "precedes ?A s d" using d sorted sd by (simp add: precedes_sorted)
        then show ?thesis unfolding order m by (metis precedes_append_left precedes_append_right)
      qed
    qed
  next
    case 6
    then have "feeds E a b s" using e by (auto simp: feeds_def)
    then have "s \<in> set ?B" using 6 by (auto simp: before_of_def)
    then have "precedes ?BM s merge_marker" by (intro precedes_append_both) auto
    moreover have "mark a b s = s" "mark a b d = merge_marker" using 6 by (auto simp: mark_def)
    ultimately show ?thesis unfolding order by (metis precedes_append_left precedes_append_right)
  next
    case 7
    then have m: "mark a b s = s" "mark a b d = d" using lt by (auto simp: mark_def)
    have "s \<in> set (?BM @ ?A)" using BA [of s] 7 by auto
    moreover have "d \<in> set ?T" using 7 sd by simp
    ultimately have "precedes ((?BM @ ?A) @ ?T) s d" by (rule precedes_append_both)
    then show ?thesis unfolding order m by (metis append_assoc precedes_append_right)
  next
    case 8
    have md: "mark a b d = d" "d \<in> set ?T" using 8 sd lt by (auto simp: mark_def)
    show ?thesis
    proof (cases "s = b")
      case True
      then have "mark a b s = merge_marker" by (simp add: mark_def)
      moreover have "precedes (?BM @ ?A @ ?T) merge_marker d"
        using md(2) by (intro precedes_append_both) auto
      ultimately show ?thesis unfolding order md by (metis precedes_append_right)
    next
      case False
      then have "precedes ?T s d" using 8 sd by (intro precedes_sorted) auto
      moreover have "mark a b s = s" using False 8 lt by (simp add: mark_def)
      ultimately show ?thesis unfolding order md by (metis precedes_append_right)
    qed
  qed
qed

section \<open>The materialized passes\<close>

definition merged_group :: "FrameGraph \<Rightarrow> nat \<Rightarrow> nat \<Rightarrow> nat \<Rightarrow> CommandRef list" where
  "merged_group g a b src = (if src = merge_marker then groups g ! a @ groups g ! b
     else groups g ! src)"

definition merged_draws :: "FrameGraph \<Rightarrow> nat \<Rightarrow> nat \<Rightarrow> nat \<Rightarrow> DrawRef list" where
  "merged_draws g a b src = (if src = merge_marker then draw_groups g ! a @ draw_groups g ! b
     else draw_groups g ! src)"

definition rb_cmd_ranges :: "Rebuilt \<Rightarrow> (nat \<times> nat) list" where
  "rb_cmd_ranges rb = map (\<lambda>p. (rg_first (p_commands p), rg_count (p_commands p))) (rb_passes rb)"

definition rb_draw_ranges :: "Rebuilt \<Rightarrow> (nat \<times> nat) list" where
  "rb_draw_ranges rb = map (\<lambda>p. (rg_first (p_draws p), rg_count (p_draws p))) (rb_passes rb)"

text \<open>The attributes a materialized pass copies.\<close>

definition same_pass :: "PassNode \<Rightarrow> PassNode \<Rightarrow> bool" where
  "same_pass p q = (p_kind p = p_kind q \<and> p_targets p = p_targets q \<and>
     p_state_profile p = p_state_profile q \<and> p_load_store p = p_load_store q \<and>
     p_flags p = p_flags q)"

definition rebuilt_ok :: "FrameGraph \<Rightarrow> nat \<Rightarrow> nat \<Rightarrow> nat list \<Rightarrow> Rebuilt \<Rightarrow> bool" where
  "rebuilt_ok g a b srcs rb =
     (length (rb_passes rb) = length srcs \<and>
      rb_commands rb = concat (map (merged_group g a b) srcs) \<and>
      rb_draws rb = concat (map (merged_draws g a b) srcs) \<and>
      tiles_from 0 (rb_cmd_ranges rb) (length (rb_commands rb)) \<and>
      tiles_from 0 (rb_draw_ranges rb) (length (rb_draws rb)) \<and>
      tile_groups (rb_commands rb) (rb_cmd_ranges rb) = map (merged_group g a b) srcs \<and>
      tile_groups (rb_draws rb) (rb_draw_ranges rb) = map (merged_draws g a b) srcs \<and>
      length (rb_old_to_new rb) = length (g_passes g) \<and>
      (\<forall>i<length srcs. same_pass (rb_passes rb ! i)
         (g_passes g ! (if srcs ! i = merge_marker then a else srcs ! i))) \<and>
      (\<forall>i<length srcs. if srcs ! i = merge_marker
         then rb_old_to_new rb ! a = i \<and> rb_old_to_new rb ! b = i
         else rb_old_to_new rb ! (srcs ! i) = i))"

lemma materialize_ok:
  assumes ab: "a < length (g_passes g)" "b < length (g_passes g)"
    and srcs: "distinct srcs" "\<forall>s \<in> set srcs. s = merge_marker \<or> (s < length (g_passes g) \<and> s \<noteq> a \<and> s \<noteq> b)"
    and bounds: "length (concat (map (merged_group g a b) srcs)) < u32_limit"
      "length (concat (map (merged_draws g a b) srcs)) < u32_limit" "length srcs < u32_limit"
  shows "rebuilt_ok g a b srcs (materialize g a b srcs)"
  using srcs bounds
proof (induction srcs rule: rev_induct)
  case Nil
  then show ?case
    by (simp add: materialize_def rebuilt_ok_def rb_cmd_ranges_def rb_draw_ranges_def tile_groups_def)
next
  case (snoc src srcs)
  define rb where "rb = materialize g a b srcs"
  have IH: "rebuilt_ok g a b srcs rb"
    unfolding rb_def using snoc.prems by (intro snoc.IH) auto
  have step: "materialize g a b (srcs @ [src]) = materializePass g a b src rb"
    by (simp add: materialize_def rb_def)
  let ?cs = "merged_group g a b src" and ?ds = "merged_draws g a b src"
  have src: "src = merge_marker \<or> (src < length (g_passes g) \<and> src \<noteq> a \<and> src \<noteq> b)"
    and fresh: "src \<notin> set srcs" using snoc.prems(1,2) by auto
  have len: "length (rb_commands rb) + length ?cs < u32_limit"
    "length (rb_draws rb) + length ?ds < u32_limit" "length (rb_passes rb) < u32_limit"
    using snoc.prems(3,4,5) IH by (simp_all add: rebuilt_ok_def)
  let ?orig = "g_passes g ! (if src = merge_marker then a else src)"
  have cs: "(if src = merge_marker then pass_commands g (g_passes g ! a) @ pass_commands g (g_passes g ! b)
      else pass_commands g ?orig) = ?cs"
    "(if src = merge_marker then pass_draws g (g_passes g ! a) @ pass_draws g (g_passes g ! b)
      else pass_draws g ?orig) = ?ds"
    using ab src by (auto simp: merged_group_def merged_draws_def groups_def draw_groups_def)
  let ?i = "length (rb_passes rb)"
  let ?copy = "?orig\<lparr>p_draws := \<lparr>rg_first = length (rb_draws rb), rg_count = length ?ds\<rparr>,
     p_commands := \<lparr>rg_first = length (rb_commands rb), rg_count = length ?cs\<rparr>\<rparr>"
  let ?otn = "if src = merge_marker then (rb_old_to_new rb)[a := ?i, b := ?i]
     else (rb_old_to_new rb)[src := ?i]"
  have new: "materializePass g a b src rb =
      \<lparr>rb_passes = rb_passes rb @ [?copy], rb_draws = rb_draws rb @ ?ds,
       rb_commands = rb_commands rb @ ?cs, rb_old_to_new = ?otn\<rparr>"
    using len unfolding materializePass_def Let_def cs by simp
  have r: "rb_cmd_ranges (materializePass g a b src rb) =
      rb_cmd_ranges rb @ [(length (rb_commands rb), length ?cs)]"
    "rb_draw_ranges (materializePass g a b src rb) =
      rb_draw_ranges rb @ [(length (rb_draws rb), length ?ds)]"
    by (simp_all add: new rb_cmd_ranges_def rb_draw_ranges_def)
  have i: "?i = length srcs" "length (rb_old_to_new rb) = length (g_passes g)"
    using IH by (simp_all add: rebuilt_ok_def)
  have same: "same_pass ((rb_passes rb @ [?copy]) ! j)
      (g_passes g ! (if (srcs @ [src]) ! j = merge_marker then a else (srcs @ [src]) ! j))"
    if "j < length (srcs @ [src])" for j
    using that IH i(1) by (auto simp: rebuilt_ok_def nth_append same_pass_def less_Suc_eq)
  have remap: "if (srcs @ [src]) ! j = merge_marker then ?otn ! a = j \<and> ?otn ! b = j
      else ?otn ! ((srcs @ [src]) ! j) = j" if j: "j < length (srcs @ [src])" for j
  proof (cases "j = length srcs")
    case True
    then show ?thesis using i ab src by (auto simp: nth_list_update)
  next
    case False
    then have j': "j < length srcs" using j by simp
    then have mem: "srcs ! j \<in> set srcs" by simp
    with fresh have ne: "srcs ! j \<noteq> src" by auto
    have sj: "srcs ! j = merge_marker \<or> (srcs ! j < length (g_passes g) \<and> srcs ! j \<noteq> a \<and> srcs ! j \<noteq> b)"
      using mem snoc.prems(2) by auto
    have old: "if srcs ! j = merge_marker then rb_old_to_new rb ! a = j \<and> rb_old_to_new rb ! b = j
        else rb_old_to_new rb ! (srcs ! j) = j"
      using IH j' by (simp add: rebuilt_ok_def)
    show ?thesis
    proof (cases "src = merge_marker")
      case True
      then show ?thesis using ne sj old j' by (simp add: nth_append)
    next
      case False
      then show ?thesis using ne src old j' by (simp add: nth_append)
    qed
  qed
  have I: "rb_commands rb = concat (map (merged_group g a b) srcs)"
    "rb_draws rb = concat (map (merged_draws g a b) srcs)"
    "tiles_from 0 (rb_cmd_ranges rb) (length (rb_commands rb))"
    "tiles_from 0 (rb_draw_ranges rb) (length (rb_draws rb))"
    "tile_groups (rb_commands rb) (rb_cmd_ranges rb) = map (merged_group g a b) srcs"
    "tile_groups (rb_draws rb) (rb_draw_ranges rb) = map (merged_draws g a b) srcs"
    using IH unfolding rebuilt_ok_def by blast+
  note E = tile_extend [OF I(3) len(1)] tile_extend [OF I(4) len(2)]
  show ?case
    unfolding step rebuilt_ok_def r
  proof (intro conjI)
    show "\<forall>j<length (srcs @ [src]). same_pass (rb_passes (materializePass g a b src rb) ! j)
      (g_passes g ! (if (srcs @ [src]) ! j = merge_marker then a else (srcs @ [src]) ! j))"
      using same by (simp add: new)
    show "\<forall>j<length (srcs @ [src]). if (srcs @ [src]) ! j = merge_marker
      then rb_old_to_new (materializePass g a b src rb) ! a = j \<and>
        rb_old_to_new (materializePass g a b src rb) ! b = j
      else rb_old_to_new (materializePass g a b src rb) ! ((srcs @ [src]) ! j) = j"
      using remap by (simp add: new)
  qed (use E I i in \<open>simp_all add: new\<close>)
qed

section \<open>The merged graph\<close>

lemma draw_groups_concat: "tiling g \<Longrightarrow> concat (draw_groups g) = g_draws g"
  by (simp add: draw_groups_alt tiling_def tile_groups_concat)

lemma mset_merged:
  assumes ok: "merge_ok E n a b" and n: "length G = n"
  shows "mset (concat (map (\<lambda>s. if s = merge_marker then G ! a @ G ! b else G ! s)
      (merged_order E n a b))) = mset (concat G)"
proof -
  let ?f = "\<lambda>s. if s = merge_marker then G ! a @ G ! b else G ! s"
  let ?I = "{0..<n} - {a, b}"
  have lt: "a < b" "b < n" "n < u32_limit - 1" using ok by (simp_all add: merge_ok_def)
  have "mset (concat (map ?f (merged_order E n a b))) =
      (\<Sum>s \<in> insert merge_marker ?I. mset (?f s))"
    by (simp add: mset_concat comp_def sum_list_distinct_conv_sum_set distinct_merged_order [OF ok]
        set_merged_order [OF ok] del: sum.insert)
  also have "\<dots> = mset (G ! a) + mset (G ! b) + (\<Sum>s \<in> ?I. mset (?f s))"
    using lt by (subst sum.insert) auto
  also have "(\<Sum>s \<in> ?I. mset (?f s)) = (\<Sum>s \<in> ?I. mset (G ! s))"
    using lt by (intro sum.cong) auto
  also have "mset (G ! a) + mset (G ! b) + (\<Sum>s \<in> ?I. mset (G ! s)) = (\<Sum>s \<in> {0..<n}. mset (G ! s))"
  proof -
    define J where "J = ?I"
    have eq: "{0..<n} = insert a (insert b J)" and J: "a \<notin> J" "b \<notin> J" "finite J"
      using lt by (auto simp: J_def)
    have "(\<Sum>s \<in> {0..<n}. mset (G ! s)) = mset (G ! a) + (mset (G ! b) + (\<Sum>s \<in> J. mset (G ! s)))"
      unfolding eq using J lt by simp
    then show ?thesis by (simp add: J_def add.assoc)
  qed
  also have "\<dots> = mset (concat G)"
  proof -
    have "concat G = concat (map ((!) G) [0..<n])" unfolding n [symmetric] by (simp only: map_nth)
    then show ?thesis
      by (simp add: mset_concat comp_def sum_list_distinct_conv_sum_set)
  qed
  finally show ?thesis .
qed

lemma remapEdge_fold:
  assumes "\<forall>e \<in> set es. e_src_pass e < length otn \<and> e_dst_pass e < length otn \<and>
     otn ! e_src_pass e \<noteq> UINT32_MAX \<and> otn ! e_dst_pass e \<noteq> UINT32_MAX"
  shows "set (fold (remapEdge otn) es new) = set new \<union>
     {\<lparr>e_src_pass = otn ! e_src_pass e, e_dst_pass = otn ! e_dst_pass e, e_resource = e_resource e\<rparr> | e.
       e \<in> set es \<and> otn ! e_src_pass e \<noteq> otn ! e_dst_pass e}"
  using assms
proof (induction es arbitrary: new)
  case Nil
  then show ?case by simp
next
  case (Cons e es)
  let ?x = "\<lparr>e_src_pass = otn ! e_src_pass e, e_dst_pass = otn ! e_dst_pass e, e_resource = e_resource e\<rparr>"
  have "?x \<in> set new" if "\<exists>x \<in> set new. e_src_pass x = otn ! e_src_pass e \<and>
      e_dst_pass x = otn ! e_dst_pass e \<and> e_resource x = e_resource e"
    using that by (metis Edge.surjective old.unit.exhaust)
  then have "set (remapEdge otn e new) = set new \<union>
      (if otn ! e_src_pass e = otn ! e_dst_pass e then {} else {?x})"
    using Cons.prems by (auto simp: remapEdge_def)
  then show ?case using Cons by (auto split: if_splits)
qed

text \<open>
  Everything the pass needs to know about a merge: \<open>nu\<close> renumbers the passes.
\<close>

lemma mergePair_spec:
  assumes t: "tiling g" and ok: "merge_ok (edge_rel g) (length (g_passes g)) a b"
    and g': "g' = mergePair g a b (before_of (edge_rel g) a b) (after_of (edge_rel g) a b)"
  obtains nu where
    "tiling g'" and "Suc (length (g_passes g')) = length (g_passes g)"
    "mset (g_commands g') = mset (g_commands g)"
    "forward (edge_rel g') (length (g_passes g'))"
    "\<And>p. p < length (g_passes g) \<Longrightarrow> nu p < length (g_passes g')"
    "\<And>p q. p < length (g_passes g) \<Longrightarrow> q < length (g_passes g) \<Longrightarrow> nu p = nu q \<longleftrightarrow> mark a b p = mark a b q"
    "\<And>p. p < length (g_passes g) \<Longrightarrow> groups g' ! nu p =
       (if p = a \<or> p = b then groups g ! a @ groups g ! b else groups g ! p)"
    "\<And>p. p < length (g_passes g) \<Longrightarrow> draw_groups g' ! nu p =
       (if p = a \<or> p = b then draw_groups g ! a @ draw_groups g ! b else draw_groups g ! p)"
    "\<And>p. p < length (g_passes g) \<Longrightarrow>
       same_pass (g_passes g' ! nu p) (g_passes g ! (if p = b then a else p))"
    "\<And>q. q < length (g_passes g') \<Longrightarrow> \<exists>p < length (g_passes g). nu p = q"
    "edge_rel g' = {(nu s, nu d) | s d. (s, d) \<in> edge_rel g \<and> nu s \<noteq> nu d}"
    "map r_handle (g_resources g') = map r_handle (g_resources g)"
proof -
  let ?n = "length (g_passes g)" and ?E = "edge_rel g"
  let ?srcs = "merged_order ?E ?n a b"
  define rb where "rb = materialize g a b ?srcs"
  have lt: "a < b" "b < ?n" "?n < u32_limit - 1" and fwd: "forward ?E ?n"
    using ok by (simp_all add: merge_ok_def)
  have dist: "distinct ?srcs" and set: "set ?srcs = insert merge_marker ({0..<?n} - {a, b})"
    using ok by (rule distinct_merged_order, rule set_merged_order)
  have len: "length ?srcs = ?n - 1"
  proof -
    have "card (set ?srcs) = Suc (card ({0..<?n} - {a, b}))"
      using set lt by simp
    also have "card ({0..<?n} - {a, b}) = ?n - 2" using lt by (subst card_Diff_subset) auto
    finally show ?thesis using distinct_card [OF dist] lt by simp
  qed
  have cs: "merged_group g a b = (\<lambda>s. if s = merge_marker then groups g ! a @ groups g ! b else groups g ! s)"
    "merged_draws g a b = (\<lambda>s. if s = merge_marker then draw_groups g ! a @ draw_groups g ! b else draw_groups g ! s)"
    by (auto simp: merged_group_def merged_draws_def)
  have dg: "length (draw_groups g) = ?n" "concat (draw_groups g) = g_draws g"
    using t by (simp_all add: draw_groups_concat) (simp add: draw_groups_def)
  have mc: "mset (concat (map (merged_group g a b) ?srcs)) = mset (g_commands g)"
    and md: "mset (concat (map (merged_draws g a b) ?srcs)) = mset (g_draws g)"
    using mset_merged [OF ok, of "groups g"] mset_merged [OF ok, of "draw_groups g"] dg groups_concat [OF t]
    by (simp_all add: cs)
  have bounds: "length (concat (map (merged_group g a b) ?srcs)) < u32_limit"
    "length (concat (map (merged_draws g a b) ?srcs)) < u32_limit" "length ?srcs < u32_limit"
    using mset_eq_length [OF mc] mset_eq_length [OF md] t len lt by (simp_all add: tiling_def)
  have rb: "rebuilt_ok g a b ?srcs rb"
    unfolding rb_def using lt dist set bounds by (intro materialize_ok) auto
  have g'_eq: "g' = g\<lparr>g_resources := map (remapAccesses (rb_old_to_new rb)) (g_resources g),
      g_passes := rb_passes rb, g_draws := rb_draws rb, g_commands := rb_commands rb,
      g_edges := fold (remapEdge (rb_old_to_new rb)) (g_edges g) []\<rparr>"
    unfolding g' mergePair_def newPassOrder_merged [OF ok] rb_def Let_def by simp
  define nu where "nu p = rb_old_to_new rb ! p" for p
  have R: "length (rb_passes rb) = ?n - 1" "length (rb_old_to_new rb) = ?n"
    "rb_commands rb = concat (map (merged_group g a b) ?srcs)"
    "rb_draws rb = concat (map (merged_draws g a b) ?srcs)"
    "tiles_from 0 (rb_cmd_ranges rb) (length (rb_commands rb))"
    "tiles_from 0 (rb_draw_ranges rb) (length (rb_draws rb))"
    "tile_groups (rb_commands rb) (rb_cmd_ranges rb) = map (merged_group g a b) ?srcs"
    "tile_groups (rb_draws rb) (rb_draw_ranges rb) = map (merged_draws g a b) ?srcs"
    and same: "\<forall>i < ?n - 1. same_pass (rb_passes rb ! i)
      (g_passes g ! (if ?srcs ! i = merge_marker then a else ?srcs ! i))"
    using rb unfolding rebuilt_ok_def len by blast+
  have np: "length (g_passes g') = ?n - 1" using R(1) by (simp add: g'_eq)
  have nu: "nu p < ?n - 1 \<and> ?srcs ! nu p = mark a b p" if p: "p < ?n" for p
  proof -
    have "mark a b p \<in> set ?srcs" using set p by (auto simp: mark_def)
    then obtain i where i: "i < length ?srcs" "?srcs ! i = mark a b p"
      by (auto simp: in_set_conv_nth)
    have "nu p = i"
    proof (cases "p = a \<or> p = b")
      case True
      then have "?srcs ! i = merge_marker" using i by (simp add: mark_def)
      then show ?thesis using rb i(1) True unfolding rebuilt_ok_def nu_def by auto
    next
      case False
      then have "?srcs ! i = p" "p \<noteq> merge_marker" using i p lt by (simp_all add: mark_def)
      then show ?thesis using rb i(1) unfolding rebuilt_ok_def nu_def by metis
    qed
    then show ?thesis using i len by simp
  qed
  show thesis
  proof (rule that)
    have gr: "groups g' = map (merged_group g a b) ?srcs" "draw_groups g' = map (merged_draws g a b) ?srcs"
      and cr: "cmd_ranges g' = rb_cmd_ranges rb" "draw_ranges g' = rb_draw_ranges rb"
      using R(7,8) by (simp_all add: g'_eq groups_alt draw_groups_alt cmd_ranges_def draw_ranges_def
          rb_cmd_ranges_def rb_draw_ranges_def)
    show "tiling g'"
      unfolding tiling_def cr using R(3-6) bounds by (simp add: g'_eq)
    show "Suc (length (g_passes g')) = length (g_passes g)" using np lt by simp
    show "mset (g_commands g') = mset (g_commands g)" using mc R(3) by (simp add: g'_eq)
    show "nu p < length (g_passes g')" if "p < ?n" for p using nu [OF that] np by simp
    show "nu p = nu q \<longleftrightarrow> mark a b p = mark a b q" if "p < ?n" "q < ?n" for p q
      using nu [OF that(1)] nu [OF that(2)] dist len by (metis nth_eq_iff_index_eq)
    show "groups g' ! nu p = (if p = a \<or> p = b then groups g ! a @ groups g ! b else groups g ! p)"
      if "p < ?n" for p
      using nu [OF that] that lt len by (auto simp: gr merged_group_def mark_def)
    show "draw_groups g' ! nu p = (if p = a \<or> p = b then draw_groups g ! a @ draw_groups g ! b
       else draw_groups g ! p)" if "p < ?n" for p
      using nu [OF that] that lt len by (auto simp: gr merged_draws_def mark_def)
    show "same_pass (g_passes g' ! nu p) (g_passes g ! (if p = b then a else p))" if "p < ?n" for p
    proof -
      have "same_pass (rb_passes rb ! nu p)
          (g_passes g ! (if ?srcs ! nu p = merge_marker then a else ?srcs ! nu p))"
        using same nu [OF that] by blast
      then show ?thesis using nu [OF that] that lt by (auto simp: g'_eq mark_def split: if_splits)
    qed
    show "\<exists>p < ?n. nu p = q" if "q < length (g_passes g')" for q
    proof -
      have q: "q < length ?srcs" using that np len by simp
      then have "?srcs ! q \<in> set ?srcs" by simp
      then obtain p where p: "p < ?n" "?srcs ! q = mark a b p"
        using set lt by (auto simp: mark_def split: if_splits intro: that)
      then have "nu p = q" using nu [OF p(1)] q dist len by (metis nth_eq_iff_index_eq)
      with p show ?thesis by blast
    qed
    have er: "\<forall>e \<in> set (g_edges g). e_src_pass e < ?n \<and> e_dst_pass e < ?n"
      using forward_in_range [OF fwd] by (simp add: in_range_def)
    then have "\<forall>e \<in> set (g_edges g). e_src_pass e < length (rb_old_to_new rb) \<and>
       e_dst_pass e < length (rb_old_to_new rb) \<and> rb_old_to_new rb ! e_src_pass e \<noteq> UINT32_MAX \<and>
       rb_old_to_new rb ! e_dst_pass e \<noteq> UINT32_MAX"
      using nu lt R(2) unfolding nu_def by force
    from remapEdge_fold [OF this, of "[]"]
    have S: "set (g_edges g') = (\<lambda>e. \<lparr>e_src_pass = nu (e_src_pass e), e_dst_pass = nu (e_dst_pass e),
        e_resource = e_resource e\<rparr>) ` {e \<in> set (g_edges g). nu (e_src_pass e) \<noteq> nu (e_dst_pass e)}"
      by (auto simp: g'_eq nu_def)
    have "edge_rel g' = (\<lambda>e. (nu (e_src_pass e), nu (e_dst_pass e))) `
        {e \<in> set (g_edges g). nu (e_src_pass e) \<noteq> nu (e_dst_pass e)}"
      unfolding edge_rel_alt S by (simp add: image_image)
    then show edges: "edge_rel g' = {(nu s, nu d) | s d. (s, d) \<in> edge_rel g \<and> nu s \<noteq> nu d}"
      unfolding edge_rel_alt [of g] by blast
    show "map r_handle (g_resources g') = map r_handle (g_resources g)"
      by (simp add: g'_eq remapAccesses_def comp_def)
    show "forward (edge_rel g') (length (g_passes g'))"
      unfolding forward_def edges
    proof clarify
      fix s d assume e: "(s, d) \<in> ?E" and ne: "nu s \<noteq> nu d"
      have sd: "s < ?n" "d < ?n" using e fwd by (auto simp: forward_def)
      have "mark a b s \<noteq> mark a b d"
        using ne nu [OF sd(1)] nu [OF sd(2)] dist len by (metis nth_eq_iff_index_eq)
      then have prec: "precedes ?srcs (mark a b s) (mark a b d)"
        using merged_order_edge [OF ok e] by simp
      then have "nu s < nu d"
        using precedes_index [OF dist prec, of "nu s" "nu d"] nu [OF sd(1)] nu [OF sd(2)] len
        by simp
      then show "nu s < nu d \<and> nu d < length (g_passes g')" using nu [OF sd(2)] np by simp
    qed
  qed
qed

lemma mergePair_hazard:
  assumes t: "tiling g" and ok: "merge_ok (edge_rel g) (length (g_passes g)) a b"
    and g': "g' = mergePair g a b (before_of (edge_rel g) a b) (after_of (edge_rel g) a b)"
    and h: "hazard_ok R g"
  shows "hazard_ok R g'"
proof -
  let ?n = "length (g_passes g)"
  have lt: "a < b" "b < ?n" using ok by (simp_all add: merge_ok_def)
  show ?thesis
  proof (rule mergePair_spec [OF t ok g'])
  fix nu
  assume fwd: "forward (edge_rel g') (length (g_passes g'))"
    and nu: "\<And>p q. p < ?n \<Longrightarrow> q < ?n \<Longrightarrow> nu p = nu q \<longleftrightarrow> mark a b p = mark a b q"
    and gr: "\<And>p. p < ?n \<Longrightarrow> groups g' ! nu p =
       (if p = a \<or> p = b then groups g ! a @ groups g ! b else groups g ! p)"
    and onto: "\<And>q. q < length (g_passes g') \<Longrightarrow> \<exists>p < ?n. nu p = q"
    and edges: "edge_rel g' = {(nu s, nu d) | s d. (s, d) \<in> edge_rel g \<and> nu s \<noteq> nu d}"
  have "ordered R (groups g') (edge_rel g')"
  proof (rule ordered_remap [of R "groups g" "edge_rel g" "groups g'" nu])
    show "ordered R (groups g) (edge_rel g)" "forward (edge_rel g) (length (groups g))"
      using h by (simp_all add: hazard_ok_def)
    show "\<exists>p<length (groups g). nu p = q \<and> c \<in> set (groups g ! p)"
      if q: "q < length (groups g')" and c: "c \<in> set (groups g' ! q)" for q c
    proof -
      obtain p where p: "p < ?n" "nu p = q" using onto q by auto
      show ?thesis
      proof (cases "p = a \<or> p = b")
        case False
        then show ?thesis using gr [OF p(1)] p c by auto
      next
        case True
        then have "c \<in> set (groups g ! a) \<or> c \<in> set (groups g ! b)"
          using gr [OF p(1)] p c by auto
        moreover have "nu a = q" "nu b = q"
          using nu [of p a] nu [of p b] p lt True by (auto simp: mark_def)
        ultimately show ?thesis using lt by (metis length_groups order_less_trans)
      qed
    qed
    show "precedes (groups g' ! nu p) c d" if "p < length (groups g)" "precedes (groups g ! p) c d" for p c d
      using that gr [of p] by (auto intro: precedes_append_left precedes_append_right)
    show "precedes (groups g' ! nu p) c d" if "p < q" "q < length (groups g)" "nu p = nu q"
      "c \<in> set (groups g ! p)" "d \<in> set (groups g ! q)" for p q c d
    proof -
      have "mark a b p = mark a b q" using nu [of p q] that by simp
      then have "p = a \<and> q = b" using that(1,2) lt ok by (auto simp: mark_def merge_ok_def split: if_splits)
      then show ?thesis using gr [of p] that by (simp add: precedes_append_both)
    qed
    show "nu p = nu q \<or> (nu p, nu q) \<in> edge_rel g'" if "(p, q) \<in> edge_rel g" for p q
      using that edges by auto
  qed
  then show "hazard_ok R g'" using fwd by (simp add: hazard_ok_def)
  qed
qed

end
