(* ===== verification/Fg_Coalesce_Correct.thy ===== *)
theory Fg_Coalesce_Correct
  imports Fg_Merge
begin

text \<open>
  Pass coalescing merges exactly the mergeable pairs: the scan finds one when there is one
  (\<open>coalesceOnce_merges\<close>, \<open>coalesceOnce_stops\<close>), so the result of \<open>runPassCoalesce\<close> is reached by
  \<open>merge_step\<close>s and has no mergeable pair left.
\<close>

section \<open>The classification\<close>

lemma eitherReaches_spec:
  assumes "gq_ok q g" and "in_range g"
    and "fst p1 < length (g_passes g)" and "snd p1 < length (g_passes g)"
    and "fst p2 < length (g_passes g)" and "snd p2 < length (g_passes g)"
    and e: "eitherReaches p1 p2 q = (r, q')"
  shows "gq_ok q' g" and "r \<longleftrightarrow> p1 \<in> (edge_rel g)\<^sup>* \<or> p2 \<in> (edge_rel g)\<^sup>*"
proof -
  obtain r1 q1 where 1: "gq_reaches q (fst p1) (snd p1) = (r1, q1)" by fastforce
  note A = gq_reaches_correct [OF assms(1,2,3,4) 1]
  obtain r2 q2 where 2: "gq_reaches q1 (fst p2) (snd p2) = (r2, q2)" by fastforce
  note B = gq_reaches_correct [OF A(2) assms(2,5,6) 2]
  show "gq_ok q' g" and "r \<longleftrightarrow> p1 \<in> (edge_rel g)\<^sup>* \<or> p2 \<in> (edge_rel g)\<^sup>*"
    using A B e 1 2 by (auto simp: eitherReaches_def split: if_splits)
qed

lemma classifyIntervening_spec:
  assumes "gq_ok q g" and "in_range g" and "a < length (g_passes g)" and "b < length (g_passes g)"
    and "x < length (g_passes g)" and c: "classifyIntervening q a b x = (m, q')"
  shows "gq_ok q' g"
    and "m = (if fed (edge_rel g) a b x \<and> feeds (edge_rel g) a b x then MoveBlocked
       else if \<not> feeds (edge_rel g) a b x then MoveAfter else MoveBefore)"
proof -
  obtain r1 q1 where 1: "eitherReaches (a, x) (b, x) q = (r1, q1)" by fastforce
  note A = eitherReaches_spec [OF assms(1,2) _ _ _ _ 1]
  obtain r2 q2 where 2: "eitherReaches (x, a) (x, b) q1 = (r2, q2)" by fastforce
  have q1: "gq_ok q1 g" using A(1) assms(3-5) by simp
  note B = eitherReaches_spec [OF q1 assms(2) _ _ _ _ 2]
  have "r1 = fed (edge_rel g) a b x" "r2 = feeds (edge_rel g) a b x"
    using A(2) B(2) assms(3-5) by (simp_all add: fed_def feeds_def)
  then show "gq_ok q' g"
    and "m = (if fed (edge_rel g) a b x \<and> feeds (edge_rel g) a b x then MoveBlocked
       else if \<not> feeds (edge_rel g) a b x then MoveAfter else MoveBefore)"
    using c 1 2 B(1) assms(3-5) by (auto simp: classifyIntervening_def)
qed

text \<open>What the loop over the interveners checks of each one.\<close>

definition movable :: "FrameGraph \<Rightarrow> Summary list \<Rightarrow> nat \<Rightarrow> nat \<Rightarrow> nat \<Rightarrow> bool" where
  "movable g sms a b x = (p_kind (g_passes g ! x) = PassRender \<and> \<not> f_dead (p_flags (g_passes g ! x)) \<and>
     sm_valid (sms ! x) \<and> \<not> (fed (edge_rel g) a b x \<and> feeds (edge_rel g) a b x))"

definition queries_ok :: "GraphQueries option \<Rightarrow> FrameGraph \<Rightarrow> bool" where
  "queries_ok queries g = (\<forall>q. queries = Some q \<longrightarrow> gq_ok q g)"

lemma noteMove_lists [simp]:
  "iv_before (noteMove c p x m iv) = iv_before iv @ (if m = MoveBefore then [as_u32 x] else [])"
  "iv_after (noteMove c p x m iv) = iv_after iv @ (if m = MoveBefore then [] else [as_u32 x])"
  by (simp_all add: noteMove_def)

lemma countIntervener_lists [simp]:
  "iv_before (countIntervener g s p iv) = iv_before iv"
  "iv_after (countIntervener g s p iv) = iv_after iv"
  by (simp_all add: countIntervener_def)

lemma scanInterveners_spec:
  assumes "in_range g" and "a < length (g_passes g)" and "b < length (g_passes g)"
    and "length (g_passes g) < u32_limit"
    and "\<forall>x \<in> set xs. x < length (g_passes g)" and "queries_ok queries g"
    and "scanInterveners alloc_ok g sms collect a b xs iv queries = (iv', failure, queries')"
  shows "queries_ok queries' g \<and> (failure = None \<longleftrightarrow> (\<forall>x \<in> set xs. movable g sms a b x)) \<and>
    (failure = None \<longrightarrow> iv_before iv' = iv_before iv @ filter (feeds (edge_rel g) a b) xs \<and>
       iv_after iv' = iv_after iv @ filter (\<lambda>x. \<not> feeds (edge_rel g) a b x) xs)"
  using assms(5-7)
proof (induction xs arbitrary: iv queries)
  case Nil
  then show ?case by simp
next
  case (Cons x xs)
  let ?px = "g_passes g ! x"
  have x: "x < length (g_passes g)" "\<forall>x \<in> set xs. x < length (g_passes g)"
    using Cons.prems(1) by auto
  have u: "as_u32 a = a" "as_u32 b = b" "as_u32 x = x" using assms(2,3,4) x by simp_all
  show ?case
  proof (cases "p_kind ?px \<noteq> PassRender \<or> f_dead (p_flags ?px) \<or> \<not> sm_valid (sms ! x)")
    case True
    then have "failure \<noteq> None" "queries' = queries" using Cons.prems(3) by (auto split: if_splits)
    then show ?thesis using True Cons.prems(2) by (auto simp: movable_def)
  next
    case False
    define q where "q = (case queries of None \<Rightarrow> newGraphQueries alloc_ok g | Some q \<Rightarrow> q)"
    have q: "gq_ok q g"
      using Cons.prems(2) gq_ok_new by (auto simp: q_def queries_ok_def split: option.split)
    obtain m q' where m: "classifyIntervening q a b x = (m, q')" by fastforce
    note C = classifyIntervening_spec [OF q assms(1,2,3) x(1) m]
    define iv1 where "iv1 = (if collect then countIntervener g (sms ! x) ?px iv else iv)"
    have lists: "iv_before iv1 = iv_before iv" "iv_after iv1 = iv_after iv"
      by (simp_all add: iv1_def)
    have eq: "scanInterveners alloc_ok g sms collect a b (x # xs) iv queries =
        (if m = MoveBlocked then (iv1, Some BlockedCycle, Some q')
         else scanInterveners alloc_ok g sms collect a b xs (noteMove collect ?px x m iv1) (Some q'))"
      using False m u unfolding iv1_def q_def by simp
    show ?thesis
    proof (cases "m = MoveBlocked")
      case True
      then have "failure \<noteq> None" "queries' = Some q'" using eq Cons.prems(3) by auto
      moreover have "\<not> movable g sms a b x" using True C(2) by (auto simp: movable_def split: if_splits)
      ultimately show ?thesis using C(1) by (auto simp: queries_ok_def)
    next
      case False
      then have ok: "movable g sms a b x" and mv: "m = (if feeds (edge_rel g) a b x then MoveBefore else MoveAfter)"
        using C(2) \<open>\<not> (p_kind ?px \<noteq> PassRender \<or> f_dead (p_flags ?px) \<or> \<not> sm_valid (sms ! x))\<close>
        by (auto simp: movable_def split: if_splits)
      have "queries_ok (Some q') g" using C(1) by (simp add: queries_ok_def)
      from Cons.IH [OF x(2) this, of "noteMove collect ?px x m iv1"] False eq Cons.prems(3)
      show ?thesis using ok mv lists u by auto
    qed
  qed
qed

section \<open>Deciding a pair\<close>

definition pair_ok :: "FrameGraph \<Rightarrow> Summary list \<Rightarrow> nat \<Rightarrow> nat \<Rightarrow> bool" where
  "pair_ok g sms a b = (let pa = g_passes g ! a; pb = g_passes g ! b in
     p_kind pb = PassRender \<and> \<not> f_dead (p_flags pb) \<and> p_targets pa = p_targets pb \<and>
     sm_valid (sms ! a) \<and> sm_valid (sms ! b) \<and> sm_drawOnly (sms ! b) \<and>
     (\<forall>x. a < x \<longrightarrow> x < b \<longrightarrow> movable g sms a b x))"

lemma hardBoundariesFrom_nth:
  "i \<le> length ps \<Longrightarrow> hardBoundariesFrom g k ps ! i = k + length (filter
     (\<lambda>p. p_kind p \<noteq> PassRender \<or> f_dead (p_flags p) \<or> \<not> sm_valid (passSummary g p)) (take i ps))"
proof (induction ps arbitrary: k i)
  case Nil
  then show ?case by simp
next
  case (Cons p ps)
  then show ?case by (cases i) auto
qed

lemma hardBoundaries_eq:
  assumes "a < b" and "b < length (g_passes g)"
    and "hard = hardBoundariesFrom g 0 (g_passes g)" and "sms = map (passSummary g) (g_passes g)"
    and "hard ! b \<noteq> hard ! (a + 1)"
  shows "\<exists>x. a < x \<and> x < b \<and> \<not> movable g sms a b x"
proof -
  let ?P = "\<lambda>p. p_kind p \<noteq> PassRender \<or> f_dead (p_flags p) \<or> \<not> sm_valid (passSummary g p)"
  let ?ps = "g_passes g"
  have "take b ?ps = take (a + 1) ?ps @ take (b - (a + 1)) (drop (a + 1) ?ps)"
    using take_add [of "a + 1" "b - (a + 1)" ?ps] assms(1) by simp
  then have "length (filter ?P (take b ?ps)) = length (filter ?P (take (a + 1) ?ps)) +
      length (filter ?P (take (b - (a + 1)) (drop (a + 1) ?ps)))"
    by (metis filter_append length_append)
  moreover have "hard ! b = length (filter ?P (take b ?ps))"
    "hard ! (a + 1) = length (filter ?P (take (a + 1) ?ps))"
    using assms(1,2,3) by (simp_all add: hardBoundariesFrom_nth)
  ultimately have "filter ?P (take (b - (a + 1)) (drop (a + 1) ?ps)) \<noteq> []"
    using assms(5) by force
  then obtain p where p: "p \<in> set (take (b - (a + 1)) (drop (a + 1) ?ps))" "?P p"
    unfolding filter_empty_conv by blast
  then obtain j where j: "j < b - (a + 1)" "?ps ! (a + 1 + j) = p"
    using assms(2) by (auto simp: in_set_conv_nth)
  then have "\<not> movable g sms a b (a + 1 + j)"
    using p(2) assms(2,4) by (auto simp: movable_def)
  with j(1) show ?thesis by (intro exI [of _ "a + 1 + j"]) auto
qed

lemma countStat_simps [simp]:
  "st_queries (countStat f st) = st_queries st" "st_tracker (countStat f st) = st_tracker st"
  by (simp_all add: countStat_def)

lemma countFailure_simps [simp]: "st_queries (countFailure c s iv f st) = st_queries st"
  by (simp add: countFailure_def)

lemma decidePair_spec:
  assumes "in_range g" and lt: "a < b" "b < length (g_passes g)"
    and lim: "length (g_passes g) < u32_limit"
    and sms: "sms = map (passSummary g) (g_passes g)"
    and hard: "hard = hardBoundariesFrom g 0 (g_passes g)"
    and q: "queries_ok (st_queries st) g"
    and d: "decidePair alloc_ok g sms hard a b st = (res, st')"
  shows "queries_ok (st_queries st') g \<and> (res \<noteq> None \<longleftrightarrow> pair_ok g sms a b) \<and>
    (\<forall>iv collect. res = Some (iv, collect) \<longrightarrow>
       iv_before iv = before_of (edge_rel g) a b \<and> iv_after iv = after_of (edge_rel g) a b)"
proof -
  let ?pa = "g_passes g ! a" and ?pb = "g_passes g ! b"
  obtain collect st1 where c: "collectReturnCandidate a b st = (collect, st1)" by fastforce
  have st1: "st_queries st1 = st_queries st"
    using c by (auto simp: collectReturnCandidate_def split: option.splits if_splits prod.splits)
  define st2 where "st2 = (if collect then countStat (\<lambda>s.
      s\<lparr>os_return_candidates := os_return_candidates s + 1\<rparr>) st1 else st1)"
  define st3 where "st3 = (if collect \<and> rg_count (p_commands ?pb) = 0 then countStat (\<lambda>s.
      s\<lparr>os_return_commandless := os_return_commandless s + 1\<rparr>) st2 else st2)"
  have eq: "decidePair alloc_ok g sms hard a b st =
    (if p_kind ?pb \<noteq> PassRender \<or> f_dead (p_flags ?pb) then (None, st)
     else if p_targets ?pa \<noteq> p_targets ?pb then (None, st)
     else if \<not> sm_valid (sms ! a) \<or> \<not> sm_valid (sms ! b)
     then (None, if collect then countStat (\<lambda>s.
              s\<lparr>os_return_missing_invariant := os_return_missing_invariant s + 1\<rparr>) st2 else st2)
     else if \<not> sm_drawOnly (sms ! b)
     then (None, let st4 = (if collect then countStat (\<lambda>s.
                s\<lparr>os_return_second_non_draw := os_return_second_non_draw s + 1\<rparr>) st3 else st3)
           in if f_active_render_seed (p_flags ?pa) then countStat (\<lambda>s.
                s\<lparr>os_second_non_draw := os_second_non_draw s + 1\<rparr>) st4 else st4)
     else if st_tracker st3 = None \<and> \<not> f_active_render_seed (p_flags ?pa) \<and> hard ! b \<noteq> hard ! (a + 1)
     then (None, st3)
     else case scanInterveners alloc_ok g sms collect a b [a + 1..<b] no_interveners
                  (st_queries st3) of
        (iv, None, queries) \<Rightarrow> (Some (iv, collect), st3\<lparr>st_queries := queries\<rparr>)
      | (iv, Some failure, queries) \<Rightarrow>
          (None, countFailure collect (f_active_render_seed (p_flags ?pa)) iv failure
             (st3\<lparr>st_queries := queries\<rparr>)))"
    unfolding decidePair_def Let_def c prod.case st2_def st3_def by (rule refl)
  have q23: "st_queries st2 = st_queries st" "st_queries st3 = st_queries st"
    by (simp_all add: st2_def st3_def st1)
  obtain iv failure queries where s: "scanInterveners alloc_ok g sms collect a b [a + 1..<b]
      no_interveners (st_queries st) = (iv, failure, queries)"
    by (metis prod_cases3)
  have "\<forall>x \<in> set [a + 1..<b]. x < length (g_passes g)" using lt by auto
  note S = scanInterveners_spec [OF assms(1) _ lt(2) lim this q s]
  have S': "queries_ok queries g" "failure = None \<longleftrightarrow> (\<forall>x. a < x \<longrightarrow> x < b \<longrightarrow> movable g sms a b x)"
    "failure = None \<Longrightarrow> iv_before iv = before_of (edge_rel g) a b \<and> iv_after iv = after_of (edge_rel g) a b"
    using S lt by (auto simp: before_of_def after_of_def no_interveners_def)
  consider (skip) "p_kind ?pb \<noteq> PassRender \<or> f_dead (p_flags ?pb) \<or> p_targets ?pa \<noteq> p_targets ?pb"
    | (invalid) "p_kind ?pb = PassRender" "\<not> f_dead (p_flags ?pb)" "p_targets ?pa = p_targets ?pb"
        "\<not> sm_valid (sms ! a) \<or> \<not> sm_valid (sms ! b) \<or> \<not> sm_drawOnly (sms ! b)"
    | (hard) "p_kind ?pb = PassRender" "\<not> f_dead (p_flags ?pb)" "p_targets ?pa = p_targets ?pb"
        "sm_valid (sms ! a)" "sm_valid (sms ! b)" "sm_drawOnly (sms ! b)"
        "st_tracker st3 = None \<and> \<not> f_active_render_seed (p_flags ?pa) \<and> hard ! b \<noteq> hard ! (a + 1)"
    | (scan) "p_kind ?pb = PassRender" "\<not> f_dead (p_flags ?pb)" "p_targets ?pa = p_targets ?pb"
        "sm_valid (sms ! a)" "sm_valid (sms ! b)" "sm_drawOnly (sms ! b)"
        "\<not> (st_tracker st3 = None \<and> \<not> f_active_render_seed (p_flags ?pa) \<and> hard ! b \<noteq> hard ! (a + 1))"
    by blast
  then show ?thesis
  proof cases
    case skip
    then have "res = None \<and> st' = st" using d unfolding eq by (auto split: if_splits)
    then show ?thesis using skip q by (auto simp: pair_ok_def)
  next
    case invalid
    then have "res = None \<and> st_queries st' = st_queries st"
      using d q23 unfolding eq by (auto split: if_splits)
    then show ?thesis using invalid q by (auto simp: pair_ok_def)
  next
    case hard
    then have "res = None \<and> st' = st3" using d unfolding eq by auto
    moreover have "\<not> pair_ok g sms a b"
      using hardBoundaries_eq [OF lt \<open>hard = _\<close> sms] hard(7) by (auto simp: pair_ok_def)
    ultimately show ?thesis using q q23 by simp
  next
    case scan
    then have D: "(res, st') = (case failure of None \<Rightarrow> (Some (iv, collect), st3\<lparr>st_queries := queries\<rparr>)
      | Some f \<Rightarrow> (None, countFailure collect (f_active_render_seed (p_flags ?pa)) iv f
             (st3\<lparr>st_queries := queries\<rparr>)))"
      using d s q23 unfolding eq by (auto split: option.splits)
    show ?thesis
    proof (cases failure)
      case None
      then show ?thesis using D S' scan by (auto simp: pair_ok_def)
    next
      case (Some f)
      then have "\<not> pair_ok g sms a b" using S'(2) by (auto simp: pair_ok_def)
      then show ?thesis using D S' Some by auto
    qed
  qed
qed

section \<open>One round\<close>

definition render_live :: "FrameGraph \<Rightarrow> nat \<Rightarrow> bool" where
  "render_live g p = (p_kind (g_passes g ! p) = PassRender \<and> \<not> f_dead (p_flags (g_passes g ! p)))"

text \<open>A pair of passes that pass coalescing may merge.\<close>

definition mergeable :: "FrameGraph \<Rightarrow> nat \<Rightarrow> nat \<Rightarrow> bool" where
  "mergeable g a b = (a < b \<and> b < length (g_passes g) \<and> render_live g a \<and>
     pair_ok g (map (passSummary g) (g_passes g)) a b)"

definition moves_of :: "FrameGraph \<Rightarrow> nat \<Rightarrow> nat \<Rightarrow> Interveners \<Rightarrow> bool" where
  "moves_of g a b iv =
     (iv_before iv = before_of (edge_rel g) a b \<and> iv_after iv = after_of (edge_rel g) a b)"

lemma scanB_spec:
  assumes "in_range g" and "length (g_passes g) < u32_limit"
    and sms: "sms = map (passSummary g) (g_passes g)"
    and hard: "hard = hardBoundariesFrom g 0 (g_passes g)"
    and "\<forall>b \<in> set bs. a < b \<and> b < length (g_passes g)" and "queries_ok (st_queries st) g"
    and "scanB alloc_ok g sms hard a bs st = (res, st')"
  shows "queries_ok (st_queries st') g \<and> (case res of None \<Rightarrow> \<forall>b \<in> set bs. \<not> pair_ok g sms a b
    | Some (a', b, iv, collect) \<Rightarrow> a' = a \<and> b \<in> set bs \<and> pair_ok g sms a b \<and> moves_of g a b iv)"
  using assms(5-7)
proof (induction bs arbitrary: st)
  case Nil
  then show ?case by simp
next
  case (Cons b bs)
  obtain r st1 where d: "decidePair alloc_ok g sms hard a b st = (r, st1)" by fastforce
  have ab: "a < b" "b < length (g_passes g)" using Cons.prems(1) by simp_all
  note D = decidePair_spec [OF assms(1) ab assms(2) sms hard Cons.prems(2) d]
  show ?case
  proof (cases r)
    case None
    then have s: "scanB alloc_ok g sms hard a bs st1 = (res, st')" using Cons.prems(3) d by simp
    have q: "queries_ok (st_queries st1) g" and no: "\<not> pair_ok g sms a b"
      using D None by simp_all
    have "\<forall>b \<in> set bs. a < b \<and> b < length (g_passes g)" using Cons.prems(1) by simp
    from Cons.IH [OF this q s] show ?thesis using no by (cases res) auto
  next
    case (Some ic)
    then obtain iv collect where ic: "r = Some (iv, collect)" by (cases ic) auto
    then have "moves_of g a b iv" using D by (simp add: moves_of_def)
    then show ?thesis using Cons.prems(3) d D ic by auto
  qed
qed

lemma scanA_spec:
  assumes "in_range g" and "length (g_passes g) < u32_limit"
    and sms: "sms = map (passSummary g) (g_passes g)"
    and hard: "hard = hardBoundariesFrom g 0 (g_passes g)"
    and "\<forall>a \<in> set as. a < length (g_passes g)" and "queries_ok (st_queries st) g"
    and "scanA alloc_ok g sms hard as st = (res, st')"
  shows "case res of None \<Rightarrow> \<forall>a \<in> set as. \<forall>b. \<not> mergeable g a b
    | Some (a, b, iv, collect) \<Rightarrow> mergeable g a b \<and> moves_of g a b iv"
  using assms(5-7)
proof (induction as arbitrary: st)
  case Nil
  then show ?case by simp
next
  case (Cons a as)
  have as: "\<forall>a \<in> set as. a < length (g_passes g)" using Cons.prems(1) by simp
  show ?case
  proof (cases "render_live g a")
    case False
    then have "scanA alloc_ok g sms hard as st = (res, st')" using Cons.prems(3)
      by (auto simp: render_live_def split: if_splits)
    from Cons.IH [OF as Cons.prems(2) this] show ?thesis
      using False by (cases res) (auto simp: mergeable_def)
  next
    case True
    obtain r st1 where d: "scanB alloc_ok g sms hard a [a + 1..<length (g_passes g)] st = (r, st1)"
      by fastforce
    have "\<forall>b \<in> set [a + 1..<length (g_passes g)]. a < b \<and> b < length (g_passes g)" by auto
    note B = scanB_spec [OF assms(1,2) sms hard this Cons.prems(2) d]
    have eq: "scanA alloc_ok g sms hard (a # as) st = (case r of
        Some found \<Rightarrow> (Some found, st1) | None \<Rightarrow> scanA alloc_ok g sms hard as st1)"
      using True d by (auto simp: render_live_def split: option.split)
    show ?thesis
    proof (cases r)
      case None
      then have s: "scanA alloc_ok g sms hard as st1 = (res, st')" using Cons.prems(3) eq by simp
      have "\<not> mergeable g a b" for b
        using B None by (auto simp: mergeable_def sms)
      moreover have "queries_ok (st_queries st1) g" using B by blast
      note Cons.IH [OF as this s]
      ultimately show ?thesis by (cases res) auto
    next
      case (Some f)
      obtain a' b iv collect where f: "f = (a', b, iv, collect)" by (metis prod_cases4)
      have "a' = a" "pair_ok g sms a b" "moves_of g a b iv" "b \<in> set [a + 1..<length (g_passes g)]"
        using B Some f by simp_all
      then show ?thesis using Cons.prems(3) eq Some f True by (auto simp: mergeable_def sms)
    qed
  qed
qed

inductive merge_step :: "FrameGraph \<Rightarrow> FrameGraph \<Rightarrow> bool" where
  merge: "mergeable g a b \<Longrightarrow> g' = mergePair g a b (before_of (edge_rel g) a b) (after_of (edge_rel g) a b) \<Longrightarrow>
    merge_step g g'"

inductive_cases merge_stepE: "merge_step g g'"

text \<open>What a graph needs for the merges to be exact, and keeps.\<close>

definition planned :: "FrameGraph \<Rightarrow> bool" where
  "planned g = (tiling g \<and> forward (edge_rel g) (length (g_passes g)) \<and>
     length (g_passes g) < u32_limit - 1)"

lemma mergeable_merge_ok:
  "planned g \<Longrightarrow> mergeable g a b \<Longrightarrow> merge_ok (edge_rel g) (length (g_passes g)) a b"
  by (auto simp: planned_def mergeable_def merge_ok_def pair_ok_def movable_def)

lemma coalesceOnce_result:
  assumes "planned g" and "coalesceOnce alloc_ok g stats tracker sink = (g', stats', tracker', sink', merged)"
  shows "if merged then merge_step g g' else g' = g \<and> (\<forall>a b. \<not> mergeable g a b)"
proof -
  have r: "in_range g" "length (g_passes g) < u32_limit"
    using assms(1) forward_in_range by (auto simp: planned_def)
  let ?st = "\<lparr>st_stats = stats, st_tracker = tracker, st_queries = None\<rparr>"
  obtain res st where s: "scanA alloc_ok g (map (passSummary g) (g_passes g))
      (hardBoundariesFrom g 0 (g_passes g)) [0..<length (g_passes g)] ?st = (res, st)" by fastforce
  have "queries_ok (st_queries ?st) g" by (simp add: queries_ok_def)
  note A = scanA_spec [OF r refl refl _ this s]
  show ?thesis
  proof (cases res)
    case None
    then have "merged = False" "g' = g" using assms(2) s by (simp_all add: coalesceOnce_def)
    moreover have "\<not> mergeable g a b" for a b
      using A None by (cases "a < length (g_passes g)") (auto simp: mergeable_def)
    ultimately show ?thesis by simp
  next
    case (Some f)
    obtain a b iv collect where f: "f = (a, b, iv, collect)" by (metis prod_cases4)
    then have "merged" "g' = mergePair g a b (iv_before iv) (iv_after iv)"
      using assms(2) s Some by (simp_all add: coalesceOnce_def)
    moreover have "mergeable g a b" "iv_before iv = before_of (edge_rel g) a b"
      "iv_after iv = after_of (edge_rel g) a b"
      using A Some f by (auto simp: moves_of_def)
    ultimately show ?thesis by (auto intro: merge_step.merge)
  qed
qed

lemma merge_step_planned:
  assumes "merge_step g g'" and p: "planned g"
  shows "planned g' \<and> Suc (length (g_passes g')) = length (g_passes g) \<and>
    mset (g_commands g') = mset (g_commands g) \<and> (\<forall>R. hazard_ok R g \<longrightarrow> hazard_ok R g') \<and>
    map r_handle (g_resources g') = map r_handle (g_resources g)"
  using assms(1)
proof cases
  case (merge a b)
  have t: "tiling g" using p by (simp add: planned_def)
  note ok = mergeable_merge_ok [OF p merge(1)]
  have hz: "hazard_ok R g'" if "hazard_ok R g" for R
    using mergePair_hazard [OF t ok merge(2) that] .
  show ?thesis
  proof (rule mergePair_spec [OF t ok merge(2)])
    assume "tiling g'" "Suc (length (g_passes g')) = length (g_passes g)"
      "mset (g_commands g') = mset (g_commands g)" "forward (edge_rel g') (length (g_passes g'))"
      "map r_handle (g_resources g') = map r_handle (g_resources g)"
    then show ?thesis using hz p by (auto simp: planned_def)
  qed
qed

section \<open>The fixpoint\<close>

lemma coalesceLoop_result:
  assumes "planned g" and "length (g_passes g) \<le> guard"
    and "coalesceLoop alloc_ok guard g stats tracker sink = (g', stats', sink')"
  shows "merge_step\<^sup>*\<^sup>* g g' \<and> planned g' \<and> (\<forall>a b. \<not> mergeable g' a b)"
  using assms
proof (induction alloc_ok guard g stats tracker sink rule: coalesceLoop.induct)
  case (1 alloc_ok g stats tracker sink)
  then show ?case by (auto simp: mergeable_def)
next
  case (2 alloc_ok guard g stats tracker sink)
  obtain g1 stats1 tracker1 sink1 merged where
    o: "coalesceOnce alloc_ok g stats tracker sink = (g1, stats1, tracker1, sink1, merged)"
    by (metis prod_cases5)
  note R = coalesceOnce_result [OF 2(2) o]
  show ?case
  proof (cases merged)
    case False
    then show ?thesis using R 2(2,4) o by simp
  next
    case True
    then have step: "merge_step g g1" using R by simp
    note P = merge_step_planned [OF step 2(2)]
    have "merge_step\<^sup>*\<^sup>* g1 g' \<and> planned g' \<and> (\<forall>a b. \<not> mergeable g' a b)"
    proof (rule 2(1) [OF o [symmetric] refl refl refl])
      show "merged = True" using True by simp
      show "planned g1" "length (g_passes g1) \<le> guard" using P 2(3) by simp_all
      show "coalesceLoop alloc_ok guard g1 stats1 tracker1 sink1 = (g', stats', sink')"
        using 2(4) o True by simp
    qed
    then show ?thesis using step by (meson converse_rtranclp_into_rtranclp)
  qed
qed

section \<open>The pass\<close>

lemma mergeable_runLifetime [simp]: "mergeable (runLifetime g) a b = mergeable g a b"
proof -
  have e: "edge_rel (runLifetime g) = edge_rel g" by (simp add: edge_rel_alt)
  have "passSummary (runLifetime g) = passSummary g"
    by (auto simp: fun_eq_iff passSummary_def validCommandRange_def validDrawRange_def
        hasNonDrawCommand_def pass_commands_def)
  then show ?thesis
    by (simp add: mergeable_def pair_ok_def render_live_def movable_def e)
qed

lemma groups_runLifetime [simp]: "groups (runLifetime g) = groups g"
  by (simp add: groups_def pass_commands_def)

lemma planned_runLifetime [simp]: "planned (runLifetime g) = planned g"
  by (simp add: planned_def tiling_def cmd_ranges_def draw_ranges_def edge_rel_alt)

lemma hazard_ok_runLifetime [simp]: "hazard_ok R (runLifetime g) = hazard_ok R g"
  by (simp add: hazard_ok_def edge_rel_alt)

lemma merge_steps_keep:
  assumes "merge_step\<^sup>*\<^sup>* g g'" and "planned g"
  shows "planned g' \<and> mset (g_commands g') = mset (g_commands g) \<and>
    (\<forall>R. hazard_ok R g \<longrightarrow> hazard_ok R g') \<and>
    map r_handle (g_resources g') = map r_handle (g_resources g) \<and>
    length (g_passes g') \<le> length (g_passes g)"
  using assms
proof (induction rule: rtranclp_induct)
  case base
  then show ?case by simp
next
  case (step g1 g2)
  then show ?case using merge_step_planned [OF step(2)] by fastforce
qed

lemma runPassCoalesce_result:
  assumes "planned g" and "runPassCoalesce alloc_ok g stats collect sink = (g', stats', sink')"
  shows "\<exists>g1. merge_step\<^sup>*\<^sup>* g g1 \<and> g' = runLifetime g1" and "\<not> mergeable g' a b"
proof -
  obtain g1 stats1 sink1 where l: "coalesceLoop alloc_ok (length (g_passes g)) g stats
      (if collect \<and> stats \<noteq> None then Some (newTracker g) else None) sink = (g1, stats1, sink1)"
    by (metis prod_cases3)
  then have "g' = runLifetime g1" using assms(2) by (simp add: runPassCoalesce_def)
  with coalesceLoop_result [OF assms(1) le_refl l]
  show "\<exists>g1. merge_step\<^sup>*\<^sup>* g g1 \<and> g' = runLifetime g1" and "\<not> mergeable g' a b" by auto
qed

text \<open>
  C19: pass coalescing terminates in a fixpoint. From a well-formed graph, with or without
  diagnostics and whether or not the query table can be allocated, the guarded loop performs
  only merges of mergeable pairs, and its guard is large enough: no mergeable pair is left.
\<close>

theorem coalesce_reaches_fixpoint:
  assumes "planned g" and "runPassCoalesce alloc_ok g stats collect sink = (g', stats', sink')"
  shows "(\<exists>g1. merge_step\<^sup>*\<^sup>* g g1 \<and> g' = runLifetime g1) \<and> (\<forall>a b. \<not> mergeable g' a b)"
  using runPassCoalesce_result [OF assms] by blast

text \<open>Two passes on the same target with an unrelated pass between them.\<close>

definition target_pass :: "TextureHandle \<Rightarrow> nat \<Rightarrow> PassNode" where
  "target_pass h i = default_pass\<lparr>p_targets := empty_targets\<lparr>t_depth := h\<rparr>,
     p_commands := \<lparr>rg_first = i, rg_count = 1\<rparr>\<rparr>"

definition return_graph :: FrameGraph where
  "return_graph = reset_graph\<lparr>
     g_passes := [target_pass 3 0, target_pass 4 1, target_pass 3 2],
     g_commands := [\<lparr>cref_command_index = 0, cref_kind = CmdDrawRun\<rparr>,
       \<lparr>cref_command_index = 1, cref_kind = CmdDrawRun\<rparr>,
       \<lparr>cref_command_index = 2, cref_kind = CmdDrawRun\<rparr>]\<rparr>"

lemma planned_return_graph: "planned return_graph"
  by (simp add: planned_def tiling_def cmd_ranges_def draw_ranges_def return_graph_def
      target_pass_def reset_graph_def default_pass_def forward_def edge_rel_def)

lemma mergeable_return_graph: "mergeable return_graph 0 2"
proof -
  have "edge_rel return_graph = {}" by (simp add: edge_rel_def return_graph_def reset_graph_def)
  then show ?thesis
    by (auto simp: mergeable_def pair_ok_def render_live_def movable_def fed_def feeds_def
        passSummary_def validCommandRange_def validDrawRange_def hasNonDrawCommand_def
        pass_commands_def gather_def target_pass_def default_pass_def return_graph_def
        reset_graph_def no_flags_def nth_Cons' less_Suc_eq numeral_2_eq_2)
qed

theorem coalesce_reaches_fixpoint_witness:
  "mergeable return_graph 0 2 \<and>
   \<not> mergeable (fst (runPassCoalesce True return_graph None False None)) 0 2"
  using coalesce_reaches_fixpoint [OF planned_return_graph, of True None False None]
    mergeable_return_graph
  by (metis prod_cases3 fst_conv)

text \<open>
  C15: pass coalescing keeps the dependencies. Whatever relation between commands the graph
  orders (related commands in passes joined by an edge path, in order inside one pass), the
  coalesced graph orders too; its edges still point forward, its passes still tile the command
  and draw vectors, and it has the same commands.
\<close>

theorem coalesce_keeps_dependencies:
  assumes "planned g" and "hazard_ok R g"
    and "runPassCoalesce alloc_ok g stats collect sink = (g', stats', sink')"
  shows "planned g' \<and> hazard_ok R g' \<and> mset (g_commands g') = mset (g_commands g)"
proof -
  obtain g1 where "merge_step\<^sup>*\<^sup>* g g1" "g' = runLifetime g1"
    using runPassCoalesce_result [OF assms(1,3)] by blast
  with merge_steps_keep [OF this(1) assms(1)] assms(2) show ?thesis by simp
qed

end
