(* ===== verification/Fg_Reorder.thy ===== *)
theory Fg_Reorder
  imports Fg_Optimizer_State Fg_Order
begin

text \<open>
  The dependency-respecting reorder (\<^verbatim>\<open>fg_optimizer/reorder.cpp\<close>): Kahn's algorithm that always
  emits the ready pass with the cheapest transition from the last one, the smallest index among
  equals. On a graph with forward edges it never gives up, its order is a topological
  permutation, and renumbering keeps \<open>hazard_ok\<close>.
\<close>

section \<open>The algorithm\<close>

definition transitionCost :: "PassNode \<Rightarrow> PassNode \<Rightarrow> nat" where
  "transitionCost src dst =
     (let cost = 0;
          cost = (if p_kind src \<noteq> p_kind dst then cost + 10 else cost)
      in if p_targets src \<noteq> p_targets dst then cost + 100 else cost)"

text \<open>Edges that count: no self-edge, both ends in range.\<close>

definition edge_counts :: "nat \<Rightarrow> Edge \<Rightarrow> bool" where
  "edge_counts n e = (e_src_pass e \<noteq> e_dst_pass e \<and> e_src_pass e < n \<and> e_dst_pass e < n)"

definition buildDegrees :: "nat \<Rightarrow> Edge list \<Rightarrow> nat list list \<times> nat list" where
  "buildDegrees n es = fold (\<lambda>e (succ, in_degree).
     if edge_counts n e
     then (succ[e_src_pass e := succ ! e_src_pass e @ [e_dst_pass e]],
           in_degree[e_dst_pass e := Suc (in_degree ! e_dst_pass e)])
     else (succ, in_degree)) es (replicate n [], replicate n 0)"

record Kahn =
  kh_in_degree :: "nat list"
  kh_emitted :: "bool list"
  kh_old_to_new :: "nat list"
  kh_new_order :: "nat list"
  kh_last_old :: nat

text \<open>The scan for the cheapest ready pass; \<open>best = n\<close> means none was found yet.\<close>

fun pickBest :: "PassNode list \<Rightarrow> Kahn \<Rightarrow> nat list \<Rightarrow> nat \<times> nat \<Rightarrow> nat \<times> nat" where
  "pickBest passes k [] (best, best_cost) = (best, best_cost)"
| "pickBest passes k (p # ps) (best, best_cost) =
     (if kh_emitted k ! p \<or> kh_in_degree k ! p \<noteq> 0 then pickBest passes k ps (best, best_cost)
      else let n = length passes;
               cost = (if kh_last_old k = n then 0
                       else transitionCost (passes ! kh_last_old k) (passes ! p))
           in if best = n \<or> cost < best_cost \<or> (cost = best_cost \<and> p < best)
              then pickBest passes k ps (p, cost)
              else pickBest passes k ps (best, best_cost))"

definition emitPass :: "nat list list \<Rightarrow> nat \<Rightarrow> Kahn \<Rightarrow> Kahn" where
  "emitPass succ best k = \<lparr>
     kh_in_degree = fold (\<lambda>s in_degree. if in_degree ! s > 0
        then in_degree[s := in_degree ! s - 1] else in_degree) (succ ! best) (kh_in_degree k),
     kh_emitted = (kh_emitted k)[best := True],
     kh_old_to_new = (kh_old_to_new k)[best := as_u32 (length (kh_new_order k))],
     kh_new_order = kh_new_order k @ [as_u32 best],
     kh_last_old = best\<rparr>"

text \<open>The outer loop; \<open>None\<close> is the early return on a cycle.\<close>

fun kahnSteps :: "PassNode list \<Rightarrow> nat list list \<Rightarrow> nat \<Rightarrow> Kahn \<Rightarrow> Kahn option" where
  "kahnSteps passes succ 0 k = Some k"
| "kahnSteps passes succ (Suc m) k =
     (let n = length passes; (best, best_cost) = pickBest passes k [0..<n] (n, 0)
      in if best = n then None else kahnSteps passes succ m (emitPass succ best k))"

definition remapLog :: "nat \<Rightarrow> nat list \<Rightarrow> ResourceNode \<Rightarrow> ResourceNode" where
  "remapLog n old_to_new node =
     (let node = node\<lparr>r_accesses := map (\<lambda>a. if a_pass_index a < n
            then a\<lparr>a_pass_index := old_to_new ! a_pass_index a\<rparr> else a) (r_accesses node)\<rparr>
      in if r_accesses node = [] then node
         else let (first, last) = accessSpan (r_accesses node)
              in node\<lparr>r_first_use_pass := first, r_last_use_pass := last\<rparr>)"

definition reorderEdge :: "nat \<Rightarrow> nat list \<Rightarrow> Edge \<Rightarrow> Edge" where
  "reorderEdge n old_to_new e =
     (let e = (if e_src_pass e < n then e\<lparr>e_src_pass := old_to_new ! e_src_pass e\<rparr> else e)
      in if e_dst_pass e < n then e\<lparr>e_dst_pass := old_to_new ! e_dst_pass e\<rparr> else e)"

definition startKahn :: "nat \<Rightarrow> nat list \<Rightarrow> Kahn" where
  "startKahn n in_degree = \<lparr>kh_in_degree = in_degree, kh_emitted = replicate n False,
     kh_old_to_new = replicate n 0, kh_new_order = [], kh_last_old = n\<rparr>"

definition runReorder :: "FrameGraph \<Rightarrow> FrameGraph" where
  "runReorder g =
     (let n = length (g_passes g) in
      if n < 2 then g
      else let (succ, in_degree) = buildDegrees n (g_edges g)
           in case kahnSteps (g_passes g) succ n (startKahn n in_degree) of
                None \<Rightarrow> g
              | Some k \<Rightarrow> g\<lparr>
                  g_passes := map (\<lambda>i. g_passes g ! i) (kh_new_order k),
                  g_resources := map (remapLog n (kh_old_to_new k)) (g_resources g),
                  g_edges := map (reorderEdge n (kh_old_to_new k)) (g_edges g)\<rparr>)"

section \<open>The degrees\<close>

definition indeg :: "nat \<Rightarrow> Edge list \<Rightarrow> nat set \<Rightarrow> nat \<Rightarrow> nat" where
  "indeg n es D p = length (filter (\<lambda>e. edge_counts n e \<and> e_dst_pass e = p \<and> e_src_pass e \<notin> D) es)"

definition outs :: "nat \<Rightarrow> Edge list \<Rightarrow> nat \<Rightarrow> nat list" where
  "outs n es p = map e_dst_pass (filter (\<lambda>e. edge_counts n e \<and> e_src_pass e = p) es)"

lemma buildDegrees_spec:
  assumes "buildDegrees n es = (succ, in_degree)"
  shows "length succ = n \<and> length in_degree = n \<and>
    (\<forall>p<n. succ ! p = outs n es p \<and> in_degree ! p = indeg n es {} p)"
  using assms
proof (induction es arbitrary: succ in_degree rule: rev_induct)
  case Nil
  then show ?case by (auto simp: buildDegrees_def outs_def indeg_def)
next
  case (snoc e es)
  obtain s d where sd: "buildDegrees n es = (s, d)" by fastforce
  note IH = snoc.IH [OF sd]
  have "(succ, in_degree) = (if edge_counts n e
     then (s[e_src_pass e := s ! e_src_pass e @ [e_dst_pass e]],
           d[e_dst_pass e := Suc (d ! e_dst_pass e)]) else (s, d))"
    using snoc.prems sd by (auto simp: buildDegrees_def)
  then show ?case
    using IH by (cases "edge_counts n e") (auto simp: outs_def indeg_def edge_counts_def nth_list_update)
qed

lemma decrement_fold:
  assumes "\<forall>s \<in> set ss. s < length ds" and "\<forall>p<length ds. count_list ss p \<le> ds ! p"
  shows "length (fold (\<lambda>s ds. if ds ! s > 0 then ds[s := ds ! s - 1] else ds) ss ds) = length ds \<and>
    (\<forall>p<length ds. fold (\<lambda>s ds. if ds ! s > 0 then ds[s := ds ! s - 1] else ds) ss ds ! p =
       ds ! p - count_list ss p)"
  using assms
proof (induction ss arbitrary: ds)
  case Nil
  then show ?case by simp
next
  case (Cons s ss)
  have s: "s < length ds" "ds ! s > 0" using Cons.prems by (auto dest: spec [of _ s])
  let ?ds = "ds[s := ds ! s - 1]"
  have "\<forall>p<length ?ds. count_list ss p \<le> ?ds ! p"
    using Cons.prems(2) s by (auto simp: nth_list_update split: if_splits)
  with Cons.IH [of ?ds] Cons.prems s show ?case
    by (auto simp: nth_list_update)
qed

lemma count_outs: "count_list (outs n es p) q =
    length (filter (\<lambda>e. edge_counts n e \<and> e_dst_pass e = q \<and> e_src_pass e = p) es)"
  by (induction es) (auto simp: outs_def)

lemma indeg_insert:
  assumes "v \<notin> D"
  shows "indeg n es D q = indeg n es (insert v D) q + count_list (outs n es v) q"
  unfolding count_outs indeg_def using assms by (induction es) auto

lemma indeg_zero:
  "indeg n es D q = 0 \<longleftrightarrow> (\<forall>e \<in> set es. edge_counts n e \<longrightarrow> e_dst_pass e = q \<longrightarrow> e_src_pass e \<in> D)"
  by (auto simp: indeg_def filter_empty_conv)

section \<open>The selection\<close>

definition ready_pass :: "Kahn \<Rightarrow> nat \<Rightarrow> bool" where
  "ready_pass k p = (\<not> kh_emitted k ! p \<and> kh_in_degree k ! p = 0)"

lemma pickBest_spec:
  assumes "pickBest passes k ps (best, cost) = (best', cost')"
    and "best = length passes \<or> ready_pass k best" and "\<forall>p \<in> set ps. p < length passes"
  shows "(best' = length passes \<longleftrightarrow> best = length passes \<and> (\<forall>p \<in> set ps. \<not> ready_pass k p)) \<and>
    (best' = length passes \<or> (ready_pass k best' \<and> (best' = best \<or> best' \<in> set ps)))"
  using assms
proof (induction ps arbitrary: best cost)
  case Nil
  then show ?case by auto
next
  case (Cons p ps)
  let ?c = "if kh_last_old k = length passes then 0
     else transitionCost (passes ! kh_last_old k) (passes ! p)"
  have ps: "\<forall>p \<in> set ps. p < length passes" and p: "p < length passes" using Cons.prems(3) by auto
  consider (skip) "\<not> ready_pass k p" "pickBest passes k ps (best, cost) = (best', cost')"
    | (take) "ready_pass k p" "pickBest passes k ps (p, ?c) = (best', cost')"
    | (keep) "ready_pass k p" "best \<noteq> length passes" "pickBest passes k ps (best, cost) = (best', cost')"
    using Cons.prems(1) unfolding ready_pass_def by (auto simp del: One_nat_def split: if_splits)
  then show ?case
  proof cases
    case skip
    from Cons.IH [OF skip(2) Cons.prems(2) ps] show ?thesis using skip(1) by auto
  next
    case take
    from Cons.IH [OF take(2) _ ps] show ?thesis using take(1) p by auto
  next
    case keep
    from Cons.IH [OF keep(3) Cons.prems(2) ps] show ?thesis using keep(2) by auto
  qed
qed

section \<open>The invariant of the outer loop\<close>

definition kahn_ok :: "nat \<Rightarrow> Edge list \<Rightarrow> Kahn \<Rightarrow> bool" where
  "kahn_ok n es k = (length (kh_in_degree k) = n \<and> length (kh_emitted k) = n \<and>
     length (kh_old_to_new k) = n \<and> distinct (kh_new_order k) \<and>
     set (kh_new_order k) = {p. p < n \<and> kh_emitted k ! p} \<and>
     (\<forall>p<n. kh_in_degree k ! p = indeg n es (set (kh_new_order k)) p) \<and>
     (\<forall>i<length (kh_new_order k). kh_old_to_new k ! (kh_new_order k ! i) = i) \<and>
     (\<forall>e \<in> set es. edge_counts n e \<longrightarrow> e_dst_pass e \<in> set (kh_new_order k) \<longrightarrow>
        precedes (kh_new_order k) (e_src_pass e) (e_dst_pass e)))"

lemma kahn_ok_start:
  assumes "buildDegrees n es = (succ, in_degree)"
  shows "kahn_ok n es (startKahn n in_degree)"
  using buildDegrees_spec [OF assms] by (auto simp: kahn_ok_def startKahn_def)

lemma kahn_ok_emit:
  assumes ok: "kahn_ok n es k" and n: "n < u32_limit" and best: "best < n" "ready_pass k best"
    and succ: "succ ! best = outs n es best"
  shows "kahn_ok n es (emitPass succ best k)"
proof -
  let ?D = "set (kh_new_order k)"
  have fresh: "best \<notin> ?D" using ok best by (simp add: kahn_ok_def ready_pass_def)
  have len: "length (kh_new_order k) \<le> n"
  proof -
    have "?D \<subseteq> {..<n}" using ok by (auto simp: kahn_ok_def)
    then have "card ?D \<le> n" using card_mono [of "{..<n}"] by simp
    then show ?thesis using distinct_card [of "kh_new_order k"] ok by (simp add: kahn_ok_def)
  qed
  have u: "as_u32 best = best" "as_u32 (length (kh_new_order k)) = length (kh_new_order k)"
    using n best len by simp_all
  have order: "kh_new_order (emitPass succ best k) = kh_new_order k @ [best]"
    by (simp add: emitPass_def u)
  have deg: "length (kh_in_degree (emitPass succ best k)) = n \<and>
    (\<forall>p<n. kh_in_degree (emitPass succ best k) ! p = indeg n es (insert best ?D) p)"
  proof -
    have "\<forall>s \<in> set (outs n es best). s < length (kh_in_degree k)"
      using ok by (auto simp: outs_def edge_counts_def kahn_ok_def)
    moreover have "\<forall>p<length (kh_in_degree k). count_list (outs n es best) p \<le> kh_in_degree k ! p"
      using ok indeg_insert [OF fresh, of n es] by (simp add: kahn_ok_def)
    ultimately show ?thesis
      using decrement_fold [of "outs n es best" "kh_in_degree k"] ok indeg_insert [OF fresh, of n es]
      by (simp add: emitPass_def succ kahn_ok_def)
  qed
  have zero: "indeg n es ?D best = 0" using ok best by (simp add: kahn_ok_def ready_pass_def)
  have topo: "precedes (kh_new_order k @ [best]) (e_src_pass e) (e_dst_pass e)"
    if "e \<in> set es" "edge_counts n e" "e_dst_pass e \<in> set (kh_new_order k @ [best])" for e
  proof (cases "e_dst_pass e \<in> ?D")
    case True
    then show ?thesis using ok that by (auto simp: kahn_ok_def intro: precedes_append_left)
  next
    case False
    then have "e_dst_pass e = best" using that(3) by simp
    moreover from this have "e_src_pass e \<in> ?D" using zero that by (auto simp: indeg_zero)
    ultimately show ?thesis by (simp add: precedes_append_both)
  qed
  have pos: "kh_old_to_new (emitPass succ best k) ! ((kh_new_order k @ [best]) ! i) = i"
    if "i < length (kh_new_order k @ [best])" for i
  proof (cases "i = length (kh_new_order k)")
    case True
    then show ?thesis using ok best(1) u by (simp add: emitPass_def kahn_ok_def)
  next
    case False
    then have i: "i < length (kh_new_order k)" using that by simp
    then have "kh_new_order k ! i \<noteq> best" using fresh by (metis nth_mem)
    then show ?thesis using ok i by (simp add: emitPass_def kahn_ok_def nth_append)
  qed
  have em: "length (kh_emitted (emitPass succ best k)) = n"
    "length (kh_old_to_new (emitPass succ best k)) = n"
    "set (kh_new_order k @ [best]) = {p. p < n \<and> kh_emitted (emitPass succ best k) ! p}"
    using ok best(1) by (auto simp: emitPass_def kahn_ok_def nth_list_update)
  have "distinct (kh_new_order k @ [best])" using ok fresh by (simp add: kahn_ok_def)
  then show ?thesis
    unfolding kahn_ok_def order using deg em topo pos by simp
qed

text \<open>With forward edges some unemitted pass is ready: the one with the smallest index.\<close>

lemma ready_exists:
  assumes ok: "kahn_ok n es k" and fwd: "\<forall>e \<in> set es. e_src_pass e < e_dst_pass e"
    and left: "length (kh_new_order k) < n"
  shows "\<exists>p<n. ready_pass k p"
proof -
  have "card (set (kh_new_order k)) < n"
    using ok left distinct_card [of "kh_new_order k"] by (simp add: kahn_ok_def)
  then have "\<not> {..<n} \<subseteq> set (kh_new_order k)"
    using card_mono [of "set (kh_new_order k)" "{..<n}"] by auto
  then have ex: "\<exists>p. p < n \<and> p \<notin> set (kh_new_order k)" by auto
  define p where "p = (LEAST p. p < n \<and> p \<notin> set (kh_new_order k))"
  have p: "p < n" "p \<notin> set (kh_new_order k)"
    using LeastI_ex [OF ex] by (simp_all add: p_def)
  have smaller: "q \<in> set (kh_new_order k)" if "q < p" for q
  proof -
    have "\<not> (q < n \<and> q \<notin> set (kh_new_order k))"
      using that unfolding p_def by (rule not_less_Least)
    then show ?thesis using that p(1) by auto
  qed
  have "indeg n es (set (kh_new_order k)) p = 0"
    using smaller fwd by (auto simp: indeg_zero)
  then show ?thesis using ok p by (auto simp: ready_pass_def kahn_ok_def)
qed

lemma kahnSteps_spec:
  assumes "kahn_ok (length passes) es k" and "length passes < u32_limit"
    and "\<forall>e \<in> set es. e_src_pass e < e_dst_pass e"
    and "\<forall>p < length passes. succ ! p = outs (length passes) es p"
    and "length (kh_new_order k) + m = length passes"
  shows "\<exists>k'. kahnSteps passes succ m k = Some k' \<and> kahn_ok (length passes) es k' \<and>
    length (kh_new_order k') = length passes"
  using assms(1,5)
proof (induction m arbitrary: k)
  case 0
  then show ?case by simp
next
  case (Suc m)
  let ?n = "length passes"
  obtain best cost where b: "pickBest passes k [0..<?n] (?n, 0) = (best, cost)" by fastforce
  obtain p where p: "p < ?n" "ready_pass k p"
    using ready_exists [OF Suc.prems(1) assms(3)] Suc.prems(2) by auto
  have best: "best \<noteq> ?n" "best < ?n" "ready_pass k best"
    using pickBest_spec [OF b] p by auto
  have "kahn_ok ?n es (emitPass succ best k)"
    using kahn_ok_emit [OF Suc.prems(1) assms(2) best(2,3)] assms(4) best(2) by simp
  moreover have "length (kh_new_order (emitPass succ best k)) + m = ?n"
    using Suc.prems(2) by (simp add: emitPass_def)
  ultimately show ?case using Suc.IH [of "emitPass succ best k"] b best(1) by simp
qed

section \<open>The result\<close>

text \<open>Everything the later proofs use: \<open>nu\<close> renumbers the passes.\<close>

lemma runReorder_spec:
  assumes fwd: "forward (edge_rel g) (length (g_passes g))" and n: "length (g_passes g) < u32_limit"
  obtains nu where
    "length (g_passes (runReorder g)) = length (g_passes g)"
    "bij_betw nu {..<length (g_passes g)} {..<length (g_passes g)}"
    "\<And>p. p < length (g_passes g) \<Longrightarrow> g_passes (runReorder g) ! nu p = g_passes g ! p"
    "edge_rel (runReorder g) = {(nu s, nu d) | s d. (s, d) \<in> edge_rel g}"
    "forward (edge_rel (runReorder g)) (length (g_passes g))"
    "g_commands (runReorder g) = g_commands g" "g_draws (runReorder g) = g_draws g"
    "mset (g_passes (runReorder g)) = mset (g_passes g)"
    "map r_handle (g_resources (runReorder g)) = map r_handle (g_resources g)"
proof -
  let ?n = "length (g_passes g)" and ?es = "g_edges g"
  show thesis
  proof (cases "?n < 2")
    case True
    then show thesis using fwd that [of id] by (simp add: runReorder_def)
  next
    case False
    have es: "\<forall>e \<in> set ?es. e_src_pass e < e_dst_pass e \<and> e_dst_pass e < ?n"
      using fwd by (force simp: forward_def edge_rel_def)
    then have counts: "\<forall>e \<in> set ?es. edge_counts ?n e" by (force simp: edge_counts_def)
    obtain succ in_degree where d: "buildDegrees ?n ?es = (succ, in_degree)" by fastforce
    note D = buildDegrees_spec [OF d]
    have "length (kh_new_order (startKahn ?n in_degree)) + ?n = ?n" by (simp add: startKahn_def)
    from kahnSteps_spec [OF kahn_ok_start [OF d] n _ _ this, of succ] es D
    obtain k where k: "kahnSteps (g_passes g) succ ?n (startKahn ?n in_degree) = Some k"
      "kahn_ok ?n ?es k" "length (kh_new_order k) = ?n" by auto
    let ?o = "kh_new_order k"
    define nu where "nu p = kh_old_to_new k ! p" for p
    have res: "runReorder g = g\<lparr>g_passes := map (\<lambda>i. g_passes g ! i) ?o,
        g_resources := map (remapLog ?n (kh_old_to_new k)) (g_resources g),
        g_edges := map (reorderEdge ?n (kh_old_to_new k)) ?es\<rparr>"
      using False d k(1) by (simp add: runReorder_def)
    have set_o: "set ?o = {..<?n}"
    proof -
      have "set ?o \<subseteq> {..<?n}" using k(2) by (auto simp: kahn_ok_def)
      moreover have "card (set ?o) = ?n" using k distinct_card [of ?o] by (simp add: kahn_ok_def)
      ultimately show ?thesis by (intro card_subset_eq) simp_all
    qed
    have nu: "nu p < ?n \<and> ?o ! nu p = p" if p: "p < ?n" for p
    proof -
      have "p \<in> set ?o" using p set_o by simp
      then obtain i where i: "i < length ?o" "?o ! i = p" by (auto simp: in_set_conv_nth)
      then have "nu p = i" using k(2) unfolding kahn_ok_def nu_def by blast
      then show ?thesis using i k(3) by simp
    qed
    have inv: "nu (?o ! i) = i \<and> ?o ! i < ?n" if "i < ?n" for i
      using k(2,3) that set_o unfolding kahn_ok_def nu_def by (metis lessThan_iff nth_mem)
    have edges: "edge_rel (runReorder g) = {(nu s, nu d) | s d. (s, d) \<in> edge_rel g}"
    proof -
      have "reorderEdge ?n (kh_old_to_new k) e = e\<lparr>e_src_pass := nu (e_src_pass e), e_dst_pass := nu (e_dst_pass e)\<rparr>"
        if "e \<in> set ?es" for e
        using es that by (auto simp: reorderEdge_def nu_def)
      then have "edge_rel (runReorder g) = (\<lambda>e. (nu (e_src_pass e), nu (e_dst_pass e))) ` set ?es"
        by (auto simp: edge_rel_alt res image_image)
      then show ?thesis unfolding edge_rel_alt [of g] by blast
    qed
    show thesis
    proof (rule that)
      show "length (g_passes (runReorder g)) = ?n" using k(3) by (simp add: res)
      show "bij_betw nu {..<?n} {..<?n}"
        using nu inv by (intro bij_betw_byWitness [where f' = "\<lambda>i. ?o ! i"]) auto
      show "g_passes (runReorder g) ! nu p = g_passes g ! p" if "p < ?n" for p
        using nu [OF that] k(3) by (simp add: res)
      show "edge_rel (runReorder g) = {(nu s, nu d) | s d. (s, d) \<in> edge_rel g}" by (rule edges)
      show "forward (edge_rel (runReorder g)) ?n"
        unfolding forward_def edges
      proof clarify
        fix s d assume e: "(s, d) \<in> edge_rel g"
        then have sd: "s < ?n" "d < ?n" using fwd by (auto simp: forward_def)
        obtain e' where e': "e' \<in> set ?es" "e_src_pass e' = s" "e_dst_pass e' = d"
          using e by (auto simp: edge_rel_def)
        then have "precedes ?o s d" using k(2) counts set_o sd unfolding kahn_ok_def by auto
        moreover have "distinct ?o" using k(2) by (simp add: kahn_ok_def)
        ultimately have "nu s < nu d"
          using precedes_index [of ?o s d "nu s" "nu d"] nu [OF sd(1)] nu [OF sd(2)] k(3) by simp
        then show "nu s < nu d \<and> nu d < ?n" using nu [OF sd(2)] by simp
      qed
      show "g_commands (runReorder g) = g_commands g" "g_draws (runReorder g) = g_draws g"
        by (simp_all add: res)
      have "mset ?o = mset [0..<?n]"
        using k(2) set_o by (subst set_eq_iff_mset_eq_distinct [symmetric])
          (auto simp: kahn_ok_def)
      then have "mset (map (\<lambda>i. g_passes g ! i) ?o) = mset (map (\<lambda>i. g_passes g ! i) [0..<?n])"
        by (simp only: mset_map)
      also have "map (\<lambda>i. g_passes g ! i) [0..<?n] = g_passes g" by (rule map_nth)
      finally show "mset (g_passes (runReorder g)) = mset (g_passes g)" by (simp add: res)
      have "r_handle (remapLog m otn node) = r_handle node" for m otn node
        by (simp add: remapLog_def split: prod.split)
      then show "map r_handle (g_resources (runReorder g)) = map r_handle (g_resources g)"
        by (simp add: res comp_def)
    qed
  qed
qed

lemma runReorder_hazard:
  assumes h: "hazard_ok R g" and n: "length (g_passes g) < u32_limit"
  shows "hazard_ok R (runReorder g)"
proof -
  let ?n = "length (g_passes g)" and ?g = "runReorder g"
  have fwd: "forward (edge_rel g) ?n" using h by (simp add: hazard_ok_def)
  show ?thesis
  proof (rule runReorder_spec [OF fwd n])
    fix nu
    assume len: "length (g_passes ?g) = ?n" and bij: "bij_betw nu {..<?n} {..<?n}"
      and ps: "\<And>p. p < ?n \<Longrightarrow> g_passes ?g ! nu p = g_passes g ! p"
      and edges: "edge_rel ?g = {(nu s, nu d) | s d. (s, d) \<in> edge_rel g}"
      and fwd': "forward (edge_rel ?g) ?n" and cs: "g_commands ?g = g_commands g"
    have nu: "nu p < ?n" if "p < ?n" for p using bij that by (auto simp: bij_betw_def)
    have onto: "\<exists>p < ?n. nu p = q" if "q < ?n" for q
    proof -
      have "q \<in> nu ` {..<?n}" using bij that by (simp add: bij_betw_def)
      then show ?thesis by auto
    qed
    have gr: "groups ?g ! nu p = groups g ! p" if "p < ?n" for p
      using nu [OF that] len ps [OF that] that cs by (simp add: groups_def pass_commands_def)
    have "ordered R (groups ?g) (edge_rel ?g)"
    proof (rule ordered_remap [of R "groups g" "edge_rel g" "groups ?g" nu])
      show "ordered R (groups g) (edge_rel g)" "forward (edge_rel g) (length (groups g))"
        using h by (simp_all add: hazard_ok_def)
      show "\<exists>p<length (groups g). nu p = q \<and> c \<in> set (groups g ! p)"
        if "q < length (groups ?g)" "c \<in> set (groups ?g ! q)" for q c
      proof -
        obtain p where "p < ?n" "nu p = q" using onto \<open>q < length (groups ?g)\<close> len by auto
        then show ?thesis using \<open>c \<in> set (groups ?g ! q)\<close> gr by auto
      qed
      show "precedes (groups ?g ! nu p) c d" if "p < length (groups g)" "precedes (groups g ! p) c d" for p c d
        using that gr by simp
      show "precedes (groups ?g ! nu p) c d" if "p < q" "q < length (groups g)" "nu p = nu q"
        "c \<in> set (groups g ! p)" "d \<in> set (groups g ! q)" for p q c d
        using that bij by (auto simp: bij_betw_def inj_on_def)
      show "nu p = nu q \<or> (nu p, nu q) \<in> edge_rel ?g" if "(p, q) \<in> edge_rel g" for p q
        using that edges by auto
    qed
    then show ?thesis using fwd' len by (simp add: hazard_ok_def)
  qed
qed

text \<open>
  C16: the reorder pass never gives up on a graph with forward edges, and its result is a
  dependency-respecting permutation: the same passes with multiplicity, edges that point
  forward again, and every dependency between commands that the graph ordered is still ordered.
\<close>

theorem reorder_keeps_dependencies:
  assumes "hazard_ok R g" and "length (g_passes g) < u32_limit"
  shows "mset (g_passes (runReorder g)) = mset (g_passes g) \<and> hazard_ok R (runReorder g) \<and>
    (\<forall>succ in_degree. length (g_passes g) \<ge> 2 \<longrightarrow>
       buildDegrees (length (g_passes g)) (g_edges g) = (succ, in_degree) \<longrightarrow>
       kahnSteps (g_passes g) succ (length (g_passes g))
         (startKahn (length (g_passes g)) in_degree) \<noteq> None)"
proof (intro conjI allI impI)
  have fwd: "forward (edge_rel g) (length (g_passes g))" using assms(1) by (simp add: hazard_ok_def)
  show "mset (g_passes (runReorder g)) = mset (g_passes g)"
    by (rule runReorder_spec [OF fwd assms(2)])
  show "hazard_ok R (runReorder g)" by (rule runReorder_hazard [OF assms])
  fix succ in_degree
  assume d: "buildDegrees (length (g_passes g)) (g_edges g) = (succ, in_degree)"
  have es: "\<forall>e \<in> set (g_edges g). e_src_pass e < e_dst_pass e"
    using fwd by (force simp: forward_def edge_rel_def)
  have "length (kh_new_order (startKahn (length (g_passes g)) in_degree)) + length (g_passes g) =
      length (g_passes g)" by (simp add: startKahn_def)
  from kahnSteps_spec [OF kahn_ok_start [OF d] assms(2) es _ this, of succ] buildDegrees_spec [OF d]
  show "kahnSteps (g_passes g) succ (length (g_passes g))
         (startKahn (length (g_passes g)) in_degree) \<noteq> None" by auto
qed

text \<open>Render, blit and render to the first target again, with one dependency edge.\<close>

definition three_passes :: FrameGraph where
  "three_passes = reset_graph\<lparr>
     g_passes := [default_pass\<lparr>p_targets := empty_targets\<lparr>t_depth := 3\<rparr>\<rparr>,
       default_pass\<lparr>p_kind := PassBlit\<rparr>,
       default_pass\<lparr>p_targets := empty_targets\<lparr>t_depth := 3\<rparr>\<rparr>],
     g_edges := [\<lparr>e_src_pass = 0, e_dst_pass = 1, e_resource = 3\<rparr>]\<rparr>"

theorem reorder_keeps_dependencies_witness:
  "mset (g_passes (runReorder three_passes)) = mset (g_passes three_passes) \<and>
   map p_kind (g_passes (runReorder three_passes)) = [PassRender, PassRender, PassBlit]"
proof -
  have "hazard_ok (\<lambda>c d. False) three_passes"
    by (simp add: hazard_ok_def ordered_def forward_def edge_rel_def three_passes_def reset_graph_def)
  moreover have "length (g_passes three_passes) < u32_limit" by (simp add: three_passes_def)
  ultimately have "mset (g_passes (runReorder three_passes)) = mset (g_passes three_passes)"
    using reorder_keeps_dependencies by blast
  moreover have "map p_kind (g_passes (runReorder three_passes)) = [PassRender, PassRender, PassBlit]"
    by (simp add: runReorder_def three_passes_def buildDegrees_def edge_counts_def reset_graph_def
        startKahn_def upt_rec numeral_3_eq_3 transitionCost_def emitPass_def default_pass_def
        empty_targets_def)
  ultimately show ?thesis ..
qed

end
