(* ===== verification/Fg_Residency.thy ===== *)
theory Fg_Residency
  imports Fg_Optimizer_State
begin

text \<open>
  The optimizer passes that decide about attachments without moving a pass: the memoryless
  classifier (\<^verbatim>\<open>fg_optimizer/memoryless.cpp\<close>), dead-pass elimination (\<^verbatim>\<open>dce.cpp\<close>) and load/store
  selection (\<^verbatim>\<open>loadstore.cpp\<close>). Each only changes its own field: residency, the dead flag, the
  load/store policy.
\<close>

section \<open>The memoryless classifier\<close>

record MemorylessObservation =
  mo_handle :: ResourceHandle
  mo_observation_frames :: u32
  mo_bound_as_backbuffer :: bool

fun findObservation :: "MemorylessObservation list \<Rightarrow> ResourceHandle \<Rightarrow> MemorylessObservation option" where
  "findObservation [] h = None"
| "findObservation (obs # rest) h = (if mo_handle obs = h then Some obs else findObservation rest h)"

text \<open>The producer is the last writing pass of the log.\<close>

definition producerPass :: "AccessLog list \<Rightarrow> nat option" where
  "producerPass accesses = fold (\<lambda>a p. if accessWrites (a_access_kind a) then Some (a_pass_index a) else p)
     accesses None"

definition currentChunkClean :: "ResourceNode \<Rightarrow> bool" where
  "currentChunkClean node =
     (if cf_lock_seen (r_classifier_flags node) \<or> cf_readback_seen (r_classifier_flags node) then False
      else case producerPass (r_accesses node) of
             None \<Rightarrow> True
           | Some producer \<Rightarrow> (\<forall>a \<in> set (r_accesses node).
               accessReads (a_access_kind a) \<longrightarrow> a_pass_index a = producer))"

text \<open>The body of the loop over the resources, with the counters.\<close>

definition classifyMemoryless ::
  "MemorylessObservation list \<Rightarrow> u32 \<Rightarrow> ResourceNode \<Rightarrow> OptimizerStats option \<Rightarrow>
   ResourceNode \<times> OptimizerStats option" where
  "classifyMemoryless observations threshold node stats =
     (if \<not> resourceIsTransient node then (node, stats)
      else if cf_lock_seen (r_classifier_flags node)
      then (node, map_option (\<lambda>s. s\<lparr>os_memoryless_dropped_via_lock :=
              os_memoryless_dropped_via_lock s + 1\<rparr>) stats)
      else if cf_readback_seen (r_classifier_flags node)
      then (node, map_option (\<lambda>s. s\<lparr>os_memoryless_dropped_via_readback :=
              os_memoryless_dropped_via_readback s + 1\<rparr>) stats)
      else if \<not> currentChunkClean node then (node, stats)
      else let obs = findObservation observations (r_handle node) in
        if (case obs of None \<Rightarrow> False | Some x \<Rightarrow> mo_bound_as_backbuffer x) then (node, stats)
        else let frames = (case obs of None \<Rightarrow> 0 | Some x \<Rightarrow> mo_observation_frames x) in
          if frames < threshold
          then (node, map_option (\<lambda>s. s\<lparr>os_memoryless_blocked_observation :=
                  os_memoryless_blocked_observation s + 1\<rparr>) stats)
          else (node\<lparr>r_residency := Memoryless\<rparr>,
                map_option (\<lambda>s. s\<lparr>os_memoryless_promoted := os_memoryless_promoted s + 1\<rparr>) stats))"

fun classifyAll ::
  "MemorylessObservation list \<Rightarrow> u32 \<Rightarrow> ResourceNode list \<Rightarrow> OptimizerStats option \<Rightarrow>
   ResourceNode list \<times> OptimizerStats option" where
  "classifyAll observations threshold [] stats = ([], stats)"
| "classifyAll observations threshold (node # nodes) stats =
     (let (node, stats) = classifyMemoryless observations threshold node stats;
          (nodes, stats) = classifyAll observations threshold nodes stats
      in (node # nodes, stats))"

definition markMemorylessCandidates ::
  "FrameGraph \<Rightarrow> MemorylessObservation list \<Rightarrow> u32 \<Rightarrow> OptimizerStats option \<Rightarrow>
   FrameGraph \<times> OptimizerStats option" where
  "markMemorylessCandidates g observations threshold stats =
     (let (nodes, stats) = classifyAll observations threshold (g_resources g) stats
      in (g\<lparr>g_resources := nodes\<rparr>, stats))"

section \<open>Dead-pass elimination\<close>

text \<open>The look-ahead proof is a borrowed span of handles; \<^verbatim>\<open>contains\<close> is membership.\<close>

definition readAfterWriteInChunk :: "ResourceNode \<Rightarrow> nat \<Rightarrow> bool" where
  "readAfterWriteInChunk node write_pass = (\<exists>a \<in> set (r_accesses node).
     accessReads (a_access_kind a) \<and> a_pass_index a > write_pass)"

definition fullyOverwrittenLaterInChunk :: "ResourceNode \<Rightarrow> nat \<Rightarrow> bool" where
  "fullyOverwrittenLaterInChunk node write_pass = (\<exists>a \<in> set (r_accesses node).
     a_access_kind a = AccClear \<and> a_pass_index a > write_pass)"

definition collectDceLookaheadFullOverwrites :: "FrameGraph \<Rightarrow> ResourceHandle list" where
  "collectDceLookaheadFullOverwrites lookahead = concat (map (\<lambda>node.
     if r_handle node = 0 \<or> r_accesses node = [] \<or> cf_lock_seen (r_classifier_flags node) \<or>
        cf_readback_seen (r_classifier_flags node) then []
     else if a_access_kind (hd (r_accesses node)) = AccClear then [r_handle node] else [])
     (g_resources lookahead))"

definition passWrote :: "nat \<Rightarrow> ResourceNode \<Rightarrow> bool" where
  "passWrote pass_index node = (\<exists>a \<in> set (r_accesses node).
     a_pass_index a = pass_index \<and> accessWrites (a_access_kind a))"

record DceVerdict =
  dv_wrote_anything :: bool
  dv_all_writes_dead :: bool
  dv_all_cross_chunk_safe :: bool
  dv_readback_on_any_write :: bool

definition judgeWrite :: "ResourceHandle list \<Rightarrow> nat \<Rightarrow> ResourceNode \<Rightarrow> DceVerdict \<Rightarrow> DceVerdict" where
  "judgeWrite lookahead pass_index node v =
     (if \<not> passWrote pass_index node then v
      else let v = v\<lparr>dv_wrote_anything := True\<rparr>;
               v = (if cf_readback_seen (r_classifier_flags node)
                    then v\<lparr>dv_readback_on_any_write := True\<rparr> else v);
               v = (if readAfterWriteInChunk node pass_index
                    then v\<lparr>dv_all_writes_dead := False\<rparr> else v)
           in if r_residency node \<noteq> Memoryless \<and> \<not> fullyOverwrittenLaterInChunk node pass_index \<and>
                 r_handle node \<notin> set lookahead
              then v\<lparr>dv_all_cross_chunk_safe := False\<rparr> else v)"

definition passProtected :: "PassNode \<Rightarrow> bool" where
  "passProtected pass = (p_kind pass = PassPresent \<or> f_contains_occlusion_query (p_flags pass) \<or>
     f_contains_event_query (p_flags pass) \<or> f_contains_lock (p_flags pass) \<or>
     f_debug_marker (p_flags pass) \<or> f_dead (p_flags pass))"

definition dceStep ::
  "ResourceHandle list \<Rightarrow> nat \<Rightarrow> FrameGraph \<times> OptimizerStats option \<Rightarrow>
   FrameGraph \<times> OptimizerStats option" where
  "dceStep lookahead p gs =
     (let (g, stats) = gs; pass = g_passes g ! p; pass_index = as_u32 p in
      if passProtected pass then (g, stats)
      else if f_active_render_seed (p_flags pass) \<and> rg_count (p_commands pass) = 0 then (g, stats)
      else if p_kind pass = PassPresent \<or> p_kind pass = PassSync then (g, stats)
      else let v = fold (judgeWrite lookahead pass_index) (g_resources g)
                 \<lparr>dv_wrote_anything = False, dv_all_writes_dead = True,
                  dv_all_cross_chunk_safe = True, dv_readback_on_any_write = False\<rparr>
           in if \<not> dv_wrote_anything v then (g, stats)
              else if dv_all_writes_dead v \<and> \<not> dv_readback_on_any_write v \<and>
                      dv_all_cross_chunk_safe v
              then (g\<lparr>g_passes := (g_passes g)[p := pass\<lparr>p_flags := (p_flags pass)\<lparr>f_dead := True\<rparr>\<rparr>]\<rparr>,
                    map_option (\<lambda>s. s\<lparr>os_dce_dropped := os_dce_dropped s + 1\<rparr>) stats)
              else (g, map_option (\<lambda>s. s\<lparr>os_dce_preserved_unprovable :=
                         os_dce_preserved_unprovable s + 1\<rparr>) stats))"

definition runDce ::
  "FrameGraph \<Rightarrow> OptimizerStats option \<Rightarrow> ResourceHandle list \<Rightarrow> FrameGraph \<times> OptimizerStats option" where
  "runDce g stats lookahead = fold (dceStep lookahead) [0..<length (g_passes g)] (g, stats)"

section \<open>Load/store selection\<close>

fun clearedFirstInPass :: "AccessLog list \<Rightarrow> nat \<Rightarrow> bool" where
  "clearedFirstInPass [] pass_index = False"
| "clearedFirstInPass (a # as) pass_index =
     (if a_pass_index a \<noteq> pass_index then clearedFirstInPass as pass_index
      else a_access_kind a = AccClear)"

definition colorLoadFor :: "FrameGraph \<Rightarrow> TextureHandle \<Rightarrow> nat \<Rightarrow> LoadAction" where
  "colorLoadFor g h pass_index =
     (if h = 0 then LoadDontCare
      else let idx = findResourceIndex g h in
        if idx = length (g_resources g) then LoadLoad
        else if clearedFirstInPass (r_accesses (g_resources g ! idx)) pass_index
             then LoadClear else LoadLoad)"

definition colorStoreFor :: "FrameGraph \<Rightarrow> TextureHandle \<Rightarrow> nat \<Rightarrow> StoreAction" where
  "colorStoreFor g h pass_index =
     (if h = 0 then StoreDontCare
      else let idx = findResourceIndex g h in
        if idx = length (g_resources g) then StoreStore
        else let node = g_resources g ! idx in
          if r_residency node = Memoryless \<and> r_last_use_pass node = pass_index
          then StoreDontCare else StoreStore)"

definition policyFor :: "FrameGraph \<Rightarrow> PassNode \<Rightarrow> nat \<Rightarrow> LoadStorePolicy" where
  "policyFor g pass pass_index =
     \<lparr>ls_color_load = map (\<lambda>h. colorLoadFor g h pass_index) (t_color (p_targets pass)),
      ls_color_store = map (\<lambda>h. colorStoreFor g h pass_index) (t_color (p_targets pass)),
      ls_depth_load = colorLoadFor g (t_depth (p_targets pass)) pass_index,
      ls_depth_store = colorStoreFor g (t_depth (p_targets pass)) pass_index\<rparr>"

definition runLoadStore :: "FrameGraph \<Rightarrow> FrameGraph" where
  "runLoadStore g = g\<lparr>g_passes := map (\<lambda>p. let pass = g_passes g ! p in
     if p_kind pass \<noteq> PassRender then pass
     else pass\<lparr>p_load_store := policyFor g pass (as_u32 p)\<rparr>) [0..<length (g_passes g)]\<rparr>"

section \<open>What the classifier decides\<close>

text \<open>
  A resource may live in tile memory when one pass holds all its accesses, the CPU never touched
  it and the backend has watched it long enough without seeing it as a back buffer.
\<close>

definition watched :: "MemorylessObservation list \<Rightarrow> u32 \<Rightarrow> ResourceHandle \<Rightarrow> bool" where
  "watched observations threshold h = (case findObservation observations h of
     None \<Rightarrow> threshold = 0 | Some x \<Rightarrow> \<not> mo_bound_as_backbuffer x \<and> threshold \<le> mo_observation_frames x)"

definition single_pass :: "ResourceNode \<Rightarrow> bool" where
  "single_pass node = (\<exists>p. \<forall>a \<in> set (r_accesses node). a_pass_index a = p)"

definition promotable :: "MemorylessObservation list \<Rightarrow> u32 \<Rightarrow> ResourceNode \<Rightarrow> bool" where
  "promotable observations threshold node = (single_pass node \<and>
     \<not> cf_lock_seen (r_classifier_flags node) \<and> \<not> cf_readback_seen (r_classifier_flags node) \<and>
     watched observations threshold (r_handle node))"

lemma producerPass_cases:
  "producerPass as = None \<or> (\<exists>a \<in> set as. producerPass as = Some (a_pass_index a))"
proof -
  have "fold (\<lambda>a p. if accessWrites (a_access_kind a) then Some (a_pass_index a) else p) as q = q \<or>
    (\<exists>a \<in> set as. fold (\<lambda>a p. if accessWrites (a_access_kind a) then Some (a_pass_index a) else p) as q
      = Some (a_pass_index a))" for q
  proof (induction as arbitrary: q)
    case (Cons a as)
    from Cons [of "Some (a_pass_index a)"] Cons [of q] show ?case by auto
  qed simp
  from this [of None] show ?thesis by (simp add: producerPass_def)
qed

lemma transient_single_pass:
  "resourceIsTransient (lifetimeNode node) = single_pass node"
proof (cases "r_accesses node = []")
  case True
  then show ?thesis by (simp add: resourceIsTransient_def lifetimeNode_def single_pass_def)
next
  case False
  define P where "P = a_pass_index ` set (r_accesses node)"
  have fin: "finite P" "P \<noteq> {}" using False by (simp_all add: P_def)
  have "Min P = Max P \<longleftrightarrow> (\<exists>p. \<forall>q \<in> P. q = p)"
  proof
    assume eq: "Min P = Max P"
    have "q = Min P" if "q \<in> P" for q
      using Min_le [OF fin(1) that] Max_ge [OF fin(1) that] eq by simp
    then show "\<exists>p. \<forall>q \<in> P. q = p" by blast
  next
    assume "\<exists>p. \<forall>q \<in> P. q = p"
    then show "Min P = Max P" using Min_in [OF fin] Max_in [OF fin] by metis
  qed
  then show ?thesis
    using lifetimeNode_span [OF False] by (simp add: resourceIsTransient_def single_pass_def P_def)
qed

lemma single_pass_clean:
  assumes "single_pass node"
  shows "currentChunkClean node = (\<not> cf_lock_seen (r_classifier_flags node) \<and>
    \<not> cf_readback_seen (r_classifier_flags node))"
  using assms producerPass_cases [of "r_accesses node"]
  by (auto simp: currentChunkClean_def single_pass_def)

lemma single_pass_lifetime [simp]: "single_pass (lifetimeNode n) = single_pass n"
  by (simp add: single_pass_def)

lemma classifyMemoryless_node:
  "fst (classifyMemoryless obs t (lifetimeNode n) stats) =
     (if promotable obs t n then (lifetimeNode n)\<lparr>r_residency := Memoryless\<rparr> else lifetimeNode n)"
  by (auto simp: classifyMemoryless_def transient_single_pass single_pass_clean promotable_def
      watched_def not_less split: option.splits)

lemma classifyMemoryless_count:
  "map_option os_memoryless_promoted (snd (classifyMemoryless obs t (lifetimeNode n) stats)) =
     map_option (\<lambda>s. os_memoryless_promoted s + (if promotable obs t n then 1 else 0)) stats"
  by (cases stats) (auto simp: classifyMemoryless_def transient_single_pass single_pass_clean promotable_def
      watched_def not_less split: option.splits)

lemma classifyAll_lifetime:
  "fst (classifyAll obs t (map lifetimeNode ns) stats) = map (\<lambda>n.
     if promotable obs t n then (lifetimeNode n)\<lparr>r_residency := Memoryless\<rparr> else lifetimeNode n) ns \<and>
   map_option os_memoryless_promoted (snd (classifyAll obs t (map lifetimeNode ns) stats)) =
     map_option (\<lambda>s. os_memoryless_promoted s + of_nat (length (filter (promotable obs t) ns))) stats"
proof (induction ns arbitrary: stats)
  case Nil
  then show ?case by (cases stats) simp_all
next
  case (Cons n ns)
  obtain n' stats' where c: "classifyMemoryless obs t (lifetimeNode n) stats = (n', stats')" by force
  obtain ns' stats'' where d: "classifyAll obs t (map lifetimeNode ns) stats' = (ns', stats'')" by force
  have n: "n' = (if promotable obs t n then (lifetimeNode n)\<lparr>r_residency := Memoryless\<rparr> else lifetimeNode n)"
    and m: "map_option os_memoryless_promoted stats' =
      map_option (\<lambda>s. os_memoryless_promoted s + (if promotable obs t n then 1 else 0)) stats"
    using classifyMemoryless_node [of obs t n stats] classifyMemoryless_count [of obs t n stats] c
    by simp_all
  have e: "classifyAll obs t (map lifetimeNode (n # ns)) stats = (n' # ns', stats'')"
    by (simp add: c d)
  from Cons [of stats'] n m show ?case
    unfolding e d by (cases stats; cases stats'; cases stats'') auto
qed

text \<open>
  The memoryless classifier promotes exactly the resources it may. After the lifetime pass, a
  resource is promoted if and only if all its accesses lie in one pass, no lock and no readback
  was seen, and the backend's observation has reached the threshold without a back-buffer
  binding; nothing else of the graph changes, and the promotion counter counts the promotions.
\<close>

theorem memoryless_promotes_exactly:
  "fst (markMemorylessCandidates (runLifetime g) obs t stats) = (runLifetime g)\<lparr>g_resources :=
     map (\<lambda>n. if promotable obs t n then (lifetimeNode n)\<lparr>r_residency := Memoryless\<rparr>
              else lifetimeNode n) (g_resources g)\<rparr> \<and>
   map_option os_memoryless_promoted (snd (markMemorylessCandidates (runLifetime g) obs t stats)) =
     map_option (\<lambda>s. os_memoryless_promoted s +
       of_nat (length (filter (promotable obs t) (g_resources g)))) stats"
  using classifyAll_lifetime [of obs t "g_resources g" stats]
  by (auto simp: markMemorylessCandidates_def runLifetime_def split: prod.split)

section \<open>What dead-pass elimination drops\<close>

text \<open>Declarative form of the verdict: the content a pass leaves behind is never observed.\<close>

definition unobserved :: "ResourceHandle list \<Rightarrow> nat \<Rightarrow> ResourceNode \<Rightarrow> bool" where
  "unobserved lookahead p node = (\<not> cf_readback_seen (r_classifier_flags node) \<and>
     \<not> readAfterWriteInChunk node p \<and> (r_residency node = Memoryless \<or>
     fullyOverwrittenLaterInChunk node p \<or> r_handle node \<in> set lookahead))"

definition droppable :: "FrameGraph \<Rightarrow> ResourceHandle list \<Rightarrow> nat \<Rightarrow> bool" where
  "droppable g lookahead p = (let pass = g_passes g ! p in \<not> passProtected pass \<and>
     p_kind pass \<noteq> PassSync \<and> \<not> (f_active_render_seed (p_flags pass) \<and> rg_count (p_commands pass) = 0) \<and>
     (\<exists>n \<in> set (g_resources g). passWrote p n) \<and>
     (\<forall>n \<in> set (g_resources g). passWrote p n \<longrightarrow> unobserved lookahead p n))"

definition kill :: "PassNode \<Rightarrow> PassNode" where
  "kill pass = pass\<lparr>p_flags := (p_flags pass)\<lparr>f_dead := True\<rparr>\<rparr>"

definition swept :: "FrameGraph \<Rightarrow> ResourceHandle list \<Rightarrow> nat \<Rightarrow> PassNode list" where
  "swept g lookahead k = map (\<lambda>p. if p < k \<and> droppable g lookahead p then kill (g_passes g ! p)
     else g_passes g ! p) [0..<length (g_passes g)]"

definition verdict_ok :: "DceVerdict \<Rightarrow> bool" where
  "verdict_ok v = (dv_all_writes_dead v \<and> \<not> dv_readback_on_any_write v \<and> dv_all_cross_chunk_safe v)"

lemma judgeWrite_step:
  "dv_wrote_anything (judgeWrite look p n v) = (dv_wrote_anything v \<or> passWrote p n)"
  "verdict_ok (judgeWrite look p n v) = (verdict_ok v \<and> (passWrote p n \<longrightarrow> unobserved look p n))"
  by (simp add: judgeWrite_def) (auto simp: judgeWrite_def verdict_ok_def unobserved_def)

lemma judgeWrite_fold:
  "dv_wrote_anything (fold (judgeWrite look p) ns v) =
     (dv_wrote_anything v \<or> (\<exists>n \<in> set ns. passWrote p n))"
  "verdict_ok (fold (judgeWrite look p) ns v) =
     (verdict_ok v \<and> (\<forall>n \<in> set ns. passWrote p n \<longrightarrow> unobserved look p n))"
  by (induction ns arbitrary: v) (auto simp: judgeWrite_step)

lemma dceStep_passes:
  assumes "p < length (g_passes g)" and "length (g_passes g) < u32_limit"
  shows "fst (dceStep look p (g, stats)) =
    (if droppable g look p then g\<lparr>g_passes := (g_passes g)[p := kill (g_passes g ! p)]\<rparr> else g)"
proof -
  have "as_u32 p = p" using assms by simp
  then show ?thesis
    using judgeWrite_fold [of look p "g_resources g" "\<lparr>dv_wrote_anything = False,
      dv_all_writes_dead = True, dv_all_cross_chunk_safe = True, dv_readback_on_any_write = False\<rparr>"]
    by (auto simp: dceStep_def droppable_def kill_def passProtected_def verdict_ok_def)
qed

lemma swept_simps [simp]:
  "length (swept g look k) = length (g_passes g)" "swept g look 0 = g_passes g"
  "p < length (g_passes g) \<Longrightarrow> swept g look k ! p =
     (if p < k \<and> droppable g look p then kill (g_passes g ! p) else g_passes g ! p)"
  by (simp_all add: swept_def map_nth)

lemma droppable_swept:
  "k < length (g_passes g) \<Longrightarrow>
     droppable (g\<lparr>g_passes := swept g look k\<rparr>) look k = droppable g look k"
  by (simp add: droppable_def)

lemma swept_Suc:
  "k < length (g_passes g) \<Longrightarrow> swept g look (Suc k) = (if droppable g look k
     then (swept g look k)[k := kill (g_passes g ! k)] else swept g look k)"
  by (rule nth_equalityI) (auto simp: nth_list_update less_Suc_eq)

lemma runDce_graph:
  assumes "length (g_passes g) < u32_limit"
  shows "fst (runDce g stats look) = g\<lparr>g_passes := swept g look (length (g_passes g))\<rparr>"
proof -
  have "fst (fold (dceStep look) [0..<k] (g, stats)) = g\<lparr>g_passes := swept g look k\<rparr>"
    if "k \<le> length (g_passes g)" for k
    using that
  proof (induction k)
    case (Suc k)
    obtain g1 stats1 where g1: "fold (dceStep look) [0..<k] (g, stats) = (g1, stats1)" by force
    with Suc have "g1 = g\<lparr>g_passes := swept g look k\<rparr>" by simp
    then show ?case
      using Suc.prems assms dceStep_passes [of k g1 look stats1]
      by (simp add: g1 droppable_swept swept_Suc)
  qed simp
  then show ?thesis by (simp add: runDce_def)
qed

lemma kill_simps [simp]:
  "p_kind (kill q) = p_kind q" "p_targets (kill q) = p_targets q" "p_draws (kill q) = p_draws q"
  "p_commands (kill q) = p_commands q" "f_dead (p_flags (kill q))"
  by (simp_all add: kill_def)

text \<open>A clear that is the resource's last one survives, so an overwrite proof never dangles.\<close>

lemma last_clear_survives:
  assumes "fullyOverwrittenLaterInChunk n p" and "n \<in> set (g_resources g)"
    and "r_residency n \<noteq> Memoryless" and "r_handle n \<notin> set look"
  shows "\<exists>q > p. \<not> droppable g look q \<and>
    (\<exists>a \<in> set (r_accesses n). a_access_kind a = AccClear \<and> a_pass_index a = q)"
proof -
  define Q where "Q = a_pass_index ` {a \<in> set (r_accesses n). a_access_kind a = AccClear \<and> a_pass_index a > p}"
  have Q: "finite Q" "Q \<noteq> {}" using assms(1) by (auto simp: Q_def fullyOverwrittenLaterInChunk_def)
  define q where "q = Max Q"
  have "q \<in> Q" unfolding q_def by (rule Max_in [OF Q])
  then obtain a where a: "a \<in> set (r_accesses n)" "a_access_kind a = AccClear" "a_pass_index a = q" "q > p"
    by (auto simp: Q_def)
  have "\<not> fullyOverwrittenLaterInChunk n q"
  proof
    assume "fullyOverwrittenLaterInChunk n q"
    then obtain b where "b \<in> set (r_accesses n)" "a_access_kind b = AccClear" "a_pass_index b > q"
      by (auto simp: fullyOverwrittenLaterInChunk_def)
    then have "a_pass_index b \<in> Q" using a by (auto simp: Q_def)
    then show False using Max_ge [OF Q(1)] \<open>a_pass_index b > q\<close> by (simp add: q_def not_le [symmetric])
  qed
  then have "\<not> unobserved look q n" using assms(3,4) by (simp add: unobserved_def)
  moreover have "passWrote q n" using a by (force simp: passWrote_def)
  ultimately have "\<not> droppable g look q" using assms(2) by (auto simp: droppable_def)
  then show ?thesis using a by blast
qed

text \<open>What is promised about a dropped pass \<open>p\<close> of \<open>g\<close>, in the resulting graph \<open>g'\<close>.\<close>

definition drop_justified :: "FrameGraph \<Rightarrow> FrameGraph \<Rightarrow> ResourceHandle list \<Rightarrow> nat \<Rightarrow> bool" where
  "drop_justified g g' look p = (\<not> passProtected (g_passes g ! p) \<and>
     p_kind (g_passes g ! p) \<noteq> PassSync \<and> (\<exists>n \<in> set (g_resources g). passWrote p n) \<and>
     (\<forall>n \<in> set (g_resources g). passWrote p n \<longrightarrow> \<not> cf_readback_seen (r_classifier_flags n) \<and>
        (\<forall>a \<in> set (r_accesses n). p < a_pass_index a \<longrightarrow> \<not> accessReads (a_access_kind a)) \<and>
        (r_residency n = Memoryless \<or> r_handle n \<in> set look \<or>
         (\<exists>a \<in> set (r_accesses n). a_access_kind a = AccClear \<and> p < a_pass_index a \<and>
            g_passes g' ! a_pass_index a = g_passes g ! a_pass_index a))))"

text \<open>
  C23: dead-pass elimination is safe. It changes nothing but dead flags; a pass it drops is not a
  present, sync, query, lock or marker pass and writes something; and of everything it writes,
  nothing is read back or read by a later pass, and the content would not outlive the chunk: the
  resource is memoryless, or the successor chunk clears it first, or a later clear in a pass
  that is itself not dropped overwrites it.
\<close>

theorem dce_drops_only_unobserved:
  assumes "runDce g stats look = (g', stats')" and "length (g_passes g) < u32_limit"
    and "\<forall>n \<in> set (g_resources g). \<forall>a \<in> set (r_accesses n). a_pass_index a < length (g_passes g)"
  shows "g\<lparr>g_passes := g_passes g'\<rparr> = g' \<and> length (g_passes g') = length (g_passes g) \<and>
    (\<forall>p < length (g_passes g). g_passes g' ! p = g_passes g ! p \<or>
      (g_passes g' ! p = kill (g_passes g ! p) \<and> drop_justified g g' look p))"
proof (intro conjI allI impI)
  have g': "g' = g\<lparr>g_passes := swept g look (length (g_passes g))\<rparr>"
    using runDce_graph [OF assms(2), of stats look] assms(1) by simp
  show "g\<lparr>g_passes := g_passes g'\<rparr> = g'" "length (g_passes g') = length (g_passes g)"
    by (simp_all add: g')
  fix p assume p: "p < length (g_passes g)"
  show "g_passes g' ! p = g_passes g ! p \<or>
      (g_passes g' ! p = kill (g_passes g ! p) \<and> drop_justified g g' look p)"
  proof (cases "droppable g look p")
    case False
    then show ?thesis using p by (simp add: g')
  next
    case True
    have "\<exists>a \<in> set (r_accesses n). a_access_kind a = AccClear \<and> p < a_pass_index a \<and>
          g_passes g' ! a_pass_index a = g_passes g ! a_pass_index a"
      if n: "n \<in> set (g_resources g)" "passWrote p n"
        and r: "r_residency n \<noteq> Memoryless" "r_handle n \<notin> set look" for n
    proof -
      have "fullyOverwrittenLaterInChunk n p"
        using True n r by (auto simp: droppable_def unobserved_def)
      from last_clear_survives [OF this n(1) r] obtain a where
        "a \<in> set (r_accesses n)" "a_access_kind a = AccClear" "p < a_pass_index a"
        "\<not> droppable g look (a_pass_index a)" by blast
      then show ?thesis using assms(3) n(1) by (auto simp: g')
    qed
    then have "drop_justified g g' look p" using True
      unfolding drop_justified_def droppable_def unobserved_def readAfterWriteInChunk_def
      by (simp add: Let_def) blast
    then show ?thesis using True p by (simp add: g')
  qed
qed

text \<open>
  A pass that writes surface 7, a second one that clears it unread, and a present of something
  else. (A read after the clear would keep the first pass: the test looks at all later reads.)
\<close>

definition overwritten_graph :: FrameGraph where
  "overwritten_graph = reset_graph\<lparr>
     g_passes := [default_pass, default_pass, default_pass\<lparr>p_kind := PassPresent\<rparr>],
     g_resources := [(default_resource 7)\<lparr>r_accesses := [
       \<lparr>a_pass_index = 0, a_access_kind = AccWrite, a_stage = StageFragment\<rparr>,
       \<lparr>a_pass_index = 1, a_access_kind = AccClear, a_stage = StageFragment\<rparr>]\<rparr>]\<rparr>"

theorem dce_drops_only_unobserved_witness:
  "map (f_dead \<circ> p_flags) (g_passes (fst (runDce overwritten_graph None []))) = [True, False, False] \<and>
   drop_justified overwritten_graph (fst (runDce overwritten_graph None [])) [] 0"
proof -
  obtain g' stats' where r: "runDce overwritten_graph None [] = (g', stats')" by force
  have d: "map (f_dead \<circ> p_flags) (g_passes (fst (runDce overwritten_graph None []))) = [True, False, False]"
    by (simp add: runDce_def overwritten_graph_def upt_rec numeral_3_eq_3 dceStep_def passProtected_def
        default_pass_def no_flags_def judgeWrite_def passWrote_def default_resource_def reset_graph_def
        no_classifier_def readAfterWriteInChunk_def fullyOverwrittenLaterInChunk_def)
  have v: "\<forall>n \<in> set (g_resources overwritten_graph). \<forall>a \<in> set (r_accesses n).
      a_pass_index a < length (g_passes overwritten_graph)"
    by (simp add: overwritten_graph_def)
  have l: "length (g_passes overwritten_graph) = 3" by (simp add: overwritten_graph_def)
  have f: "\<not> f_dead (p_flags (g_passes overwritten_graph ! 0))"
    by (simp add: overwritten_graph_def default_pass_def no_flags_def)
  have b: "length (g_passes overwritten_graph) < u32_limit" using l by simp
  note D = dce_drops_only_unobserved [OF r b v]
  then have "length (g_passes g') = 3" using l by simp
  moreover have "g_passes g' ! 0 = g_passes overwritten_graph ! 0 \<or> drop_justified overwritten_graph g' [] 0"
    using D l by (metis zero_less_numeral)
  moreover from d r \<open>length (g_passes g') = 3\<close> have "f_dead (p_flags (g_passes g' ! 0))"
    by (cases "g_passes g'") auto
  ultimately have "drop_justified overwritten_graph g' [] 0" using f by auto
  then show ?thesis using d r by simp
qed

section \<open>What load/store selection picks\<close>

text \<open>The resource node of a bound handle, and its accesses in one pass, in log order.\<close>

definition node_of :: "FrameGraph \<Rightarrow> ResourceHandle \<Rightarrow> ResourceNode option" where
  "node_of g h = (let i = findResourceIndex g h in
     if i < length (g_resources g) then Some (g_resources g ! i) else None)"

definition accesses_in :: "nat \<Rightarrow> ResourceNode \<Rightarrow> AccessLog list" where
  "accesses_in p n = filter (\<lambda>a. a_pass_index a = p) (r_accesses n)"

lemma clearedFirstInPass_filter:
  "clearedFirstInPass as p = (filter (\<lambda>a. a_pass_index a = p) as \<noteq> [] \<and>
     a_access_kind (hd (filter (\<lambda>a. a_pass_index a = p) as)) = AccClear)"
  by (induction as) auto

lemma node_of_Some:
  "node_of g h = Some n \<Longrightarrow> n \<in> set (g_resources g) \<and> r_handle n = h"
  using find_index_from_found [of 0 "g_resources g" h]
  by (auto simp: node_of_def findResourceIndex_def split: if_splits) (metis nth_mem)

lemma findResourceIndex_le: "findResourceIndex g h \<le> length (g_resources g)"
  using find_index_from_bounds [of 0 "g_resources g" h] by (simp add: findResourceIndex_def)

lemma colorLoadFor_node:
  assumes "h \<noteq> 0"
  shows "colorLoadFor g h p = (case node_of g h of None \<Rightarrow> LoadLoad | Some n \<Rightarrow>
    if accesses_in p n \<noteq> [] \<and> a_access_kind (hd (accesses_in p n)) = AccClear then LoadClear else LoadLoad)"
  using assms findResourceIndex_le [of g h]
  by (auto simp: colorLoadFor_def node_of_def clearedFirstInPass_filter accesses_in_def)

lemma colorStoreFor_node:
  assumes "h \<noteq> 0"
  shows "colorStoreFor g h p = (case node_of g h of None \<Rightarrow> StoreStore | Some n \<Rightarrow>
    if r_residency n = Memoryless \<and> r_last_use_pass n = p then StoreDontCare else StoreStore)"
  using assms findResourceIndex_le [of g h]
  by (auto simp: colorStoreFor_def node_of_def)

text \<open>Which actions are safe for a bound attachment of pass \<open>p\<close>.\<close>

definition load_safe :: "FrameGraph \<Rightarrow> nat \<Rightarrow> ResourceHandle \<Rightarrow> LoadAction \<Rightarrow> bool" where
  "load_safe g p h act = (act \<noteq> LoadDontCare \<and> (act = LoadClear \<longleftrightarrow> (\<exists>n as a. node_of g h = Some n \<and>
     accesses_in p n = a # as \<and> a_access_kind a = AccClear)))"

definition store_safe :: "FrameGraph \<Rightarrow> nat \<Rightarrow> ResourceHandle \<Rightarrow> StoreAction \<Rightarrow> bool" where
  "store_safe g p h act = (act = StoreDontCare \<longrightarrow> (\<exists>n \<in> set (g_resources g). r_handle n = h \<and>
     r_residency n = Memoryless \<and> (\<forall>a \<in> set (r_accesses n). a_pass_index a \<le> p)))"

definition lifetimes_ok :: "FrameGraph \<Rightarrow> bool" where
  "lifetimes_ok g = (\<forall>n \<in> set (g_resources g). \<forall>a \<in> set (r_accesses n). a_pass_index a \<le> r_last_use_pass n)"

lemma colorLoadFor_safe: "h \<noteq> 0 \<Longrightarrow> load_safe g p h (colorLoadFor g h p)"
  by (cases "node_of g h"; cases "accesses_in p (the (node_of g h))")
    (auto simp: load_safe_def colorLoadFor_node)

lemma colorStoreFor_safe: "lifetimes_ok g \<Longrightarrow> h \<noteq> 0 \<Longrightarrow> store_safe g p h (colorStoreFor g h p)"
  by (auto simp: store_safe_def colorStoreFor_node lifetimes_ok_def split: option.splits if_splits
      dest!: node_of_Some)

text \<open>
  C24: load/store selection is safe. It only rewrites the policy of render passes; in such a pass a
  bound attachment is cleared on load exactly when its first access there is a clear and loaded
  otherwise, and its store is discarded only for a memoryless surface that no later pass touches.
\<close>

theorem loadstore_safe:
  assumes "lifetimes_ok g" and "length (g_passes g) < u32_limit" and "p < length (g_passes g)"
    and "pol = p_load_store (g_passes (runLoadStore g) ! p)" and "ts = p_targets (g_passes g ! p)"
  shows "g_passes (runLoadStore g) ! p = (g_passes g ! p)\<lparr>p_load_store := pol\<rparr> \<and>
    (p_kind (g_passes g ! p) \<noteq> PassRender \<longrightarrow> pol = p_load_store (g_passes g ! p)) \<and>
    (p_kind (g_passes g ! p) = PassRender \<longrightarrow>
      length (ls_color_load pol) = length (t_color ts) \<and> length (ls_color_store pol) = length (t_color ts) \<and>
      (\<forall>c < length (t_color ts). t_color ts ! c \<noteq> 0 \<longrightarrow>
         load_safe g p (t_color ts ! c) (ls_color_load pol ! c) \<and>
         store_safe g p (t_color ts ! c) (ls_color_store pol ! c)) \<and>
      (t_depth ts \<noteq> 0 \<longrightarrow> load_safe g p (t_depth ts) (ls_depth_load pol) \<and>
         store_safe g p (t_depth ts) (ls_depth_store pol)))"
  using assms colorLoadFor_safe colorStoreFor_safe
  by (auto simp: runLoadStore_def policyFor_def)

text \<open>A memoryless surface 7 that is cleared and then drawn to in a single pass.\<close>

definition tile_graph :: FrameGraph where
  "tile_graph = reset_graph\<lparr>
     g_passes := [default_pass\<lparr>p_targets := empty_targets\<lparr>t_color := [7]\<rparr>\<rparr>],
     g_resources := [(default_resource 7)\<lparr>r_residency := Memoryless, r_accesses := [
       \<lparr>a_pass_index = 0, a_access_kind = AccClear, a_stage = StageFragment\<rparr>,
       \<lparr>a_pass_index = 0, a_access_kind = AccReadWrite, a_stage = StageFragment\<rparr>]\<rparr>]\<rparr>"

theorem loadstore_safe_witness:
  "load_safe tile_graph 0 7 LoadClear \<and> store_safe tile_graph 0 7 StoreDontCare"
proof -
  define pol where "pol = p_load_store (g_passes (runLoadStore tile_graph) ! 0)"
  have p: "ls_color_load pol = [LoadClear]" "ls_color_store pol = [StoreDontCare]"
    by (simp_all add: pol_def runLoadStore_def tile_graph_def policyFor_def colorLoadFor_def
        colorStoreFor_def findResourceIndex_def default_resource_def default_pass_def reset_graph_def)
  have h: "lifetimes_ok tile_graph" "length (g_passes tile_graph) < u32_limit"
    "0 < length (g_passes tile_graph)"
    by (simp_all add: lifetimes_ok_def tile_graph_def default_resource_def)
  have "t_color (p_targets (g_passes tile_graph ! 0)) = [7]"
    "p_kind (g_passes tile_graph ! 0) = PassRender"
    by (simp_all add: tile_graph_def default_pass_def)
  with loadstore_safe [OF h pol_def refl] p show ?thesis by simp
qed

end
