(* ===== verification/Fg_Linearizer.thy ===== *)
theory Fg_Linearizer
  imports Fg_Builder_Theorems
begin

text \<open>
  The linearizer (\<^verbatim>\<open>framegraph/fg_linearizer.cpp\<close>): the device-free operation plan and the
  source-command replay plan. The device-gated executor of the same file is not modelled.
  \<open>replay_plan_valid_iff\<close> says when a replay plan is accepted and what it then contains;
  \<open>linearization_brackets\<close> that the operation plan opens, fills and closes every pass.
\<close>

section \<open>The operation plan\<close>

datatype LinearOpKind = OpBeginPass | OpEmitDraw | OpEmitClear | OpEndPass | OpPresent | OpBlit

record LinearOp =
  lo_kind :: LinearOpKind
  lo_pass_index :: nat
  lo_attachments :: AttachmentSet
  lo_load_store :: LoadStorePolicy
  lo_pass_kind :: PassKind
  lo_draw :: DrawRef

definition default_op :: LinearOp where
  "default_op = \<lparr>lo_kind = OpBeginPass, lo_pass_index = 0, lo_attachments = empty_targets,
     lo_load_store = default_policy, lo_pass_kind = PassRender,
     lo_draw = \<lparr>dref_command_index = 0, dref_param_first = 0, dref_param_count = 0\<rparr>\<rparr>"

definition passHasClearLoad :: "PassNode \<Rightarrow> bool" where
  "passHasClearLoad pass = ((\<exists>action \<in> set (ls_color_load (p_load_store pass)). action = LoadClear) \<or>
     ls_depth_load (p_load_store pass) = LoadClear)"

definition emitRenderPass :: "FrameGraph \<Rightarrow> nat \<Rightarrow> LinearOp list \<Rightarrow> LinearOp list" where
  "emitRenderPass g pass_index ops =
     (let pass = g_passes g ! pass_index;
          hasDraws = (rg_count (p_draws pass) \<noteq> 0);
          hasClear = passHasClearLoad pass
      in if \<not> hasDraws \<and> hasClear
         then ops @ [default_op\<lparr>lo_kind := OpEmitClear, lo_pass_index := pass_index,
                lo_pass_kind := PassRender, lo_attachments := p_targets pass,
                lo_load_store := p_load_store pass\<rparr>]
         else if \<not> hasDraws then ops
         else let ops = ops @ [default_op\<lparr>lo_kind := OpBeginPass, lo_pass_index := pass_index,
                    lo_pass_kind := PassRender, lo_attachments := p_targets pass,
                    lo_load_store := p_load_store pass,
                    lo_draw := g_draws g ! rg_first (p_draws pass)\<rparr>];
                  ops = fold (\<lambda>i ops. ops @ [default_op\<lparr>lo_kind := OpEmitDraw,
                    lo_pass_index := pass_index,
                    lo_draw := g_draws g ! as_u32 (rg_first (p_draws pass) + i)\<rparr>])
                    [0..<rg_count (p_draws pass)] ops
              in ops @ [default_op\<lparr>lo_kind := OpEndPass, lo_pass_index := pass_index\<rparr>])"

definition emitStandaloneOp :: "nat \<Rightarrow> PassKind \<Rightarrow> LinearOp list \<Rightarrow> LinearOp list" where
  "emitStandaloneOp pass_index kind ops = ops @ [default_op\<lparr>
     lo_kind := (if kind = PassPresent then OpPresent else OpBlit),
     lo_pass_index := pass_index, lo_pass_kind := kind\<rparr>]"

text \<open>The body of the loop over the passes.\<close>

definition linearizePass :: "FrameGraph \<Rightarrow> nat \<Rightarrow> LinearOp list \<Rightarrow> LinearOp list" where
  "linearizePass g p ops = (let pass = g_passes g ! p; pass_index = as_u32 p in
     if f_dead (p_flags pass) then ops
     else case p_kind pass of
            PassRender \<Rightarrow> emitRenderPass g pass_index ops
          | PassPresent \<Rightarrow> emitStandaloneOp pass_index PassPresent ops
          | PassBlit \<Rightarrow> emitStandaloneOp pass_index PassBlit ops
          | PassCompute \<Rightarrow> ops
          | PassSync \<Rightarrow> ops)"

definition planLinearization :: "FrameGraph \<Rightarrow> LinearOp list" where
  "planLinearization g = fold (linearizePass g) [0..<length (g_passes g)] []"

section \<open>The replay plan\<close>

record ReplayCommandPlan =
  rp_command_indices :: "nat list"
  rp_valid :: bool
  rp_reordered :: bool
  rp_dropped :: bool

definition empty_replay :: ReplayCommandPlan where
  "empty_replay = \<lparr>rp_command_indices = [], rp_valid = False, rp_reordered = False, rp_dropped = False\<rparr>"

record ReplayWalk =
  rw_plan :: ReplayCommandPlan
  rw_accounted :: "bool list"
  rw_omitted :: "bool list"

text \<open>
  The loop over one pass's commands; \<open>Inl\<close> is the early return of the plan built so far.
\<close>

fun accountRefs ::
  "SourcePayloadView \<Rightarrow> bool \<Rightarrow> CommandRef list \<Rightarrow> ReplayWalk \<Rightarrow> ReplayCommandPlan + ReplayWalk" where
  "accountRefs payload dead [] w = Inr w"
| "accountRefs payload dead (ref # refs) w =
     (let i = cref_command_index ref in
      if i \<ge> commandCount payload \<or> rw_accounted w ! i \<or>
         cmd_kind (commandAt payload i) \<noteq> cref_kind ref then Inl (rw_plan w)
      else let w = w\<lparr>rw_accounted := (rw_accounted w)[i := True]\<rparr> in
        if dead
        then accountRefs payload dead refs (w\<lparr>rw_plan := (rw_plan w)\<lparr>rp_dropped := True\<rparr>,
               rw_omitted := (rw_omitted w)[i := True]\<rparr>)
        else accountRefs payload dead refs (w\<lparr>rw_plan := (rw_plan w)\<lparr>rp_command_indices :=
               rp_command_indices (rw_plan w) @ [i]\<rparr>\<rparr>))"

fun accountPasses ::
  "FrameGraph \<Rightarrow> SourcePayloadView \<Rightarrow> PassNode list \<Rightarrow> ReplayWalk \<Rightarrow> ReplayCommandPlan + ReplayWalk" where
  "accountPasses g payload [] w = Inr w"
| "accountPasses g payload (pass # passes) w =
     (if rg_first (p_commands pass) > length (g_commands g) \<or>
         rg_count (p_commands pass) > length (g_commands g) - rg_first (p_commands pass)
      then Inl (rw_plan w)
      else case accountRefs payload (f_dead (p_flags pass)) (pass_commands g pass) w of
             Inl plan \<Rightarrow> Inl plan
           | Inr w \<Rightarrow> accountPasses g payload passes w)"

text \<open>\<^verbatim>\<open>while (natural_index < command_count && omitted[natural_index]) ++natural_index\<close>.\<close>

function skipOmitted :: "bool list \<Rightarrow> nat \<Rightarrow> nat" where
  "skipOmitted omitted i =
     (if i < length omitted \<and> omitted ! i then skipOmitted omitted (Suc i) else i)"
  by auto
termination by (relation "measure (\<lambda>(omitted, i). length omitted - i)") auto

declare skipOmitted.simps [simp del]

fun detectReorder :: "bool list \<Rightarrow> nat \<Rightarrow> nat list \<Rightarrow> bool" where
  "detectReorder omitted natural_index [] = False"
| "detectReorder omitted natural_index (command_index # rest) =
     (let natural_index = skipOmitted omitted natural_index in
      if command_index \<noteq> natural_index then True
      else detectReorder omitted (Suc natural_index) rest)"

definition planReplayCommands :: "FrameGraph \<Rightarrow> SourcePayloadView \<Rightarrow> ReplayCommandPlan" where
  "planReplayCommands g payload =
     (let n = commandCount payload in
      case accountPasses g payload (g_passes g)
             \<lparr>rw_plan = empty_replay, rw_accounted = replicate n False, rw_omitted = replicate n False\<rparr> of
        Inl plan \<Rightarrow> plan
      | Inr w \<Rightarrow> if False \<in> set (rw_accounted w) then rw_plan w
                 else (rw_plan w)\<lparr>rp_valid := True,
                   rp_reordered := detectReorder (rw_omitted w) 0 (rp_command_indices (rw_plan w))\<rparr>)"

section \<open>When a replay plan is valid\<close>

text \<open>The commands a graph accounts for, live and dead, in pass order.\<close>

definition live_commands :: "FrameGraph \<Rightarrow> CommandRef list" where
  "live_commands g = concat (map (pass_commands g) (filter (\<lambda>p. \<not> f_dead (p_flags p)) (g_passes g)))"

definition dead_commands :: "FrameGraph \<Rightarrow> CommandRef list" where
  "dead_commands g = concat (map (pass_commands g) (filter (\<lambda>p. f_dead (p_flags p)) (g_passes g)))"

definition ranges_valid :: "FrameGraph \<Rightarrow> PassNode list \<Rightarrow> bool" where
  "ranges_valid g passes = (\<forall>p \<in> set passes.
     rg_first (p_commands p) + rg_count (p_commands p) \<le> length (g_commands g))"

definition kinds_match :: "SourcePayloadView \<Rightarrow> CommandRef list \<Rightarrow> bool" where
  "kinds_match payload cs = (\<forall>c \<in> set cs. cref_command_index c < commandCount payload \<and>
     cmd_kind (commandAt payload (cref_command_index c)) = cref_kind c)"

text \<open>Walking some references succeeds when they are new, distinct and match the payload.\<close>

definition fits :: "SourcePayloadView \<Rightarrow> CommandRef list \<Rightarrow> bool list \<Rightarrow> bool" where
  "fits payload cs acc = (kinds_match payload cs \<and> distinct (map cref_command_index cs) \<and>
     (\<forall>c \<in> set cs. \<not> acc ! cref_command_index c))"

definition tick :: "nat list \<Rightarrow> bool list \<Rightarrow> bool list" where
  "tick is bs = fold (\<lambda>i bs. bs[i := True]) is bs"

lemma tick_nth: "length (tick is bs) = length bs \<and>
  (j < length bs \<longrightarrow> tick is bs ! j = (bs ! j \<or> j \<in> set is))"
proof (induction "is" arbitrary: bs)
  case Nil
  then show ?case by (simp add: tick_def)
next
  case (Cons i "is")
  from Cons [of "bs[i := True]"] show ?case by (cases "i = j") (auto simp: tick_def)
qed

lemma tick_simps [simp]:
  "length (tick is bs) = length bs" "j < length bs \<Longrightarrow> tick is bs ! j = (bs ! j \<or> j \<in> set is)"
  "tick [] bs = bs" "tick (i # is) bs = tick is (bs[i := True])"
  "tick (is @ js) bs = tick js (tick is bs)"
  using tick_nth [of "is" bs j] by (simp_all add: tick_def)

lemma fits_Cons:
  assumes "length acc = commandCount payload"
  shows "fits payload (c # cs) acc = (cref_command_index c < commandCount payload \<and>
    \<not> acc ! cref_command_index c \<and> cmd_kind (commandAt payload (cref_command_index c)) = cref_kind c \<and>
    fits payload cs (acc[cref_command_index c := True]))"
  using assms by (auto simp: fits_def kinds_match_def nth_list_update split: if_splits)

lemma fits_append:
  assumes "length acc = commandCount payload"
  shows "fits payload (cs @ ds) acc =
    (fits payload cs acc \<and> fits payload ds (tick (map cref_command_index cs) acc))"
  using assms
proof (induction cs arbitrary: acc)
  case Nil
  then show ?case by (simp add: fits_def kinds_match_def)
next
  case (Cons c cs)
  then show ?case by (simp add: fits_Cons)
qed

text \<open>The plan after some references of a dead or live pass.\<close>

definition advance :: "bool \<Rightarrow> CommandRef list \<Rightarrow> ReplayWalk \<Rightarrow> ReplayWalk" where
  "advance dead cs w = (let is = map cref_command_index cs in w\<lparr>
     rw_plan := (if dead then (rw_plan w)\<lparr>rp_dropped := rp_dropped (rw_plan w) \<or> cs \<noteq> []\<rparr>
       else (rw_plan w)\<lparr>rp_command_indices := rp_command_indices (rw_plan w) @ is\<rparr>),
     rw_accounted := tick is (rw_accounted w),
     rw_omitted := (if dead then tick is (rw_omitted w) else rw_omitted w)\<rparr>)"

lemma accountRefs_spec:
  assumes "length (rw_accounted w) = commandCount payload"
  shows "(fits payload cs (rw_accounted w) \<longrightarrow> accountRefs payload dead cs w = Inr (advance dead cs w)) \<and>
    (\<not> fits payload cs (rw_accounted w) \<longrightarrow>
       (\<exists>plan. accountRefs payload dead cs w = Inl plan \<and> rp_valid plan = rp_valid (rw_plan w)))"
  using assms
proof (induction payload dead cs w rule: accountRefs.induct)
  case (1 payload dead w)
  then show ?case by (simp add: fits_def kinds_match_def advance_def)
next
  case (2 payload dead ref refs w)
  show ?case
  proof (cases "cref_command_index ref \<ge> commandCount payload \<or> rw_accounted w ! cref_command_index ref \<or>
      cmd_kind (commandAt payload (cref_command_index ref)) \<noteq> cref_kind ref")
    case True
    then show ?thesis using fits_Cons [OF 2(3)] by auto
  next
    case False
    show ?thesis
      using 2(1) [OF refl False refl] 2(2) [OF refl False refl] 2(3) False fits_Cons [OF 2(3)]
      by (cases dead) (simp_all add: advance_def)
  qed
qed

lemma advance_simps [simp]:
  "rw_accounted (advance dead cs w) = tick (map cref_command_index cs) (rw_accounted w)"
  "rp_valid (rw_plan (advance dead cs w)) = rp_valid (rw_plan w)"
  by (simp_all add: advance_def)

text \<open>Live and dead references of a list of passes, and the walk over the passes.\<close>

definition refs_of :: "FrameGraph \<Rightarrow> (PassNode \<Rightarrow> bool) \<Rightarrow> PassNode list \<Rightarrow> CommandRef list" where
  "refs_of g P passes = concat (map (pass_commands g) (filter P passes))"

abbreviation is_dead :: "PassNode \<Rightarrow> bool" where
  "is_dead p \<equiv> f_dead (p_flags p)"

lemma refs_of_simps [simp]:
  "refs_of g P [] = []"
  "refs_of g P (p # ps) = (if P p then pass_commands g p @ refs_of g P ps else refs_of g P ps)"
  by (simp_all add: refs_of_def)

definition walked :: "FrameGraph \<Rightarrow> PassNode list \<Rightarrow> ReplayWalk \<Rightarrow> ReplayWalk" where
  "walked g passes w = fold (\<lambda>p. advance (is_dead p) (pass_commands g p)) passes w"

lemma accountPasses_spec:
  assumes "length (rw_accounted w) = commandCount payload"
  shows "(ranges_valid g passes \<and> fits payload (refs_of g (\<lambda>_. True) passes) (rw_accounted w) \<longrightarrow>
      accountPasses g payload passes w = Inr (walked g passes w)) \<and>
    (\<not> (ranges_valid g passes \<and> fits payload (refs_of g (\<lambda>_. True) passes) (rw_accounted w)) \<longrightarrow>
      (\<exists>plan. accountPasses g payload passes w = Inl plan \<and> rp_valid plan = rp_valid (rw_plan w)))"
  using assms
proof (induction g payload passes w rule: accountPasses.induct)
  case (1 g payload w)
  then show ?case by (simp add: ranges_valid_def fits_def kinds_match_def walked_def)
next
  case (2 g payload pass passes w)
  let ?f = "rg_first (p_commands pass)" and ?c = "rg_count (p_commands pass)"
    and ?n = "length (g_commands g)"
  show ?case
  proof (cases "?f > ?n \<or> ?c > ?n - ?f")
    case True
    then have "\<not> ranges_valid g (pass # passes)" by (auto simp: ranges_valid_def)
    with True show ?thesis by auto
  next
    case False
    then have rv: "ranges_valid g (pass # passes) = ranges_valid g passes"
      by (auto simp: ranges_valid_def)
    note A = accountRefs_spec [OF 2(2), of "pass_commands g pass" "is_dead pass"]
    show ?thesis
    proof (cases "fits payload (pass_commands g pass) (rw_accounted w)")
      case True
      with A have a: "accountRefs payload (is_dead pass) (pass_commands g pass) w =
          Inr (advance (is_dead pass) (pass_commands g pass) w)" by simp
      from 2(1) [OF False a] 2(2) have IH: "(ranges_valid g passes \<and>
            fits payload (refs_of g (\<lambda>_. True) passes) (tick (map cref_command_index (pass_commands g pass)) (rw_accounted w)) \<longrightarrow>
          accountPasses g payload passes (advance (is_dead pass) (pass_commands g pass) w) =
            Inr (walked g passes (advance (is_dead pass) (pass_commands g pass) w))) \<and>
        (\<not> (ranges_valid g passes \<and>
            fits payload (refs_of g (\<lambda>_. True) passes) (tick (map cref_command_index (pass_commands g pass)) (rw_accounted w))) \<longrightarrow>
          (\<exists>plan. accountPasses g payload passes (advance (is_dead pass) (pass_commands g pass) w) = Inl plan \<and>
            rp_valid plan = rp_valid (rw_plan w)))" by simp
      have "accountPasses g payload (pass # passes) w =
          accountPasses g payload passes (advance (is_dead pass) (pass_commands g pass) w)"
        using False a by auto
      with IH True rv fits_append [OF 2(2)] show ?thesis by (simp add: walked_def)
    next
      case nofit: False
      with A obtain plan where "accountRefs payload (is_dead pass) (pass_commands g pass) w = Inl plan"
        "rp_valid plan = rp_valid (rw_plan w)" by blast
      moreover have "\<not> fits payload (refs_of g (\<lambda>_. True) (pass # passes)) (rw_accounted w)"
        using nofit fits_append [OF 2(2)] by simp
      ultimately show ?thesis using False by auto
    qed
  qed
qed

lemma walked_plan:
  "rp_command_indices (rw_plan (walked g passes w)) =
     rp_command_indices (rw_plan w) @ map cref_command_index (refs_of g (\<lambda>p. \<not> is_dead p) passes)"
  "rp_dropped (rw_plan (walked g passes w)) =
     (rp_dropped (rw_plan w) \<or> refs_of g is_dead passes \<noteq> [])"
  "rp_valid (rw_plan (walked g passes w)) = rp_valid (rw_plan w)"
  "rp_reordered (rw_plan (walked g passes w)) = rp_reordered (rw_plan w)"
  "rw_accounted (walked g passes w) =
     tick (map cref_command_index (refs_of g (\<lambda>_. True) passes)) (rw_accounted w)"
  "rw_omitted (walked g passes w) =
     tick (map cref_command_index (refs_of g is_dead passes)) (rw_omitted w)"
  by (induction passes arbitrary: w) (auto simp: walked_def advance_def)

text \<open>The natural-order test.\<close>

lemma skipOmitted_filter:
  "k \<le> length om \<Longrightarrow> filter (\<lambda>i. \<not> om ! i) [k..<length om] =
     (if skipOmitted om k < length om
      then skipOmitted om k # filter (\<lambda>i. \<not> om ! i) [Suc (skipOmitted om k)..<length om] else [])"
proof (induction om k rule: skipOmitted.induct)
  case (1 om k)
  show ?case
  proof (cases "k < length om \<and> om ! k")
    case True
    then show ?thesis using 1(1) [OF True] by (simp add: skipOmitted.simps [of om k] upt_conv_Cons)
  next
    case False
    then show ?thesis using 1(2) by (auto simp: skipOmitted.simps [of om k] upt_conv_Cons)
  qed
qed

lemma skipOmitted_le: "k \<le> length om \<Longrightarrow> skipOmitted om k \<le> length om"
  by (induction om k rule: skipOmitted.induct) (simp add: skipOmitted.simps)

lemma detectReorder_prefix:
  assumes "k \<le> length om" and "\<forall>i \<in> set is. i < length om"
  shows "detectReorder om k is = (\<nexists>zs. filter (\<lambda>i. \<not> om ! i) [k..<length om] = is @ zs)"
  using assms
proof (induction om k "is" rule: detectReorder.induct)
  case (1 om k)
  then show ?case by simp
next
  case (2 om k i "is")
  show ?case
  proof (cases "i = skipOmitted om k")
    case True
    then have "skipOmitted om k < length om" using 2(3) by simp
    with True 2(1) [OF refl, of] 2(2,3) skipOmitted_filter [of k om] show ?thesis by simp
  next
    case False
    with skipOmitted_filter [OF 2(2)] show ?thesis by auto
  qed
qed

lemma detectReorder_sorted:
  assumes "distinct is" and "set is = {i. i < length om \<and> \<not> om ! i}"
  shows "detectReorder om 0 is = (\<not> sorted is)"
proof -
  let ?nat = "filter (\<lambda>i. \<not> om ! i) [0..<length om]"
  have nat: "sorted ?nat" "distinct ?nat" by (simp_all add: sorted_wrt_filter)
  have "set ?nat = {i. i < length om \<and> \<not> om ! i}" by auto
  then have nat_set: "set ?nat = set is" unfolding assms(2) .
  note nat = nat nat_set
  have "(\<exists>zs. ?nat = is @ zs) \<longleftrightarrow> is = ?nat"
  proof
    assume "\<exists>zs. ?nat = is @ zs"
    then obtain zs where zs: "?nat = is @ zs" by blast
    have "length ?nat = length is" using nat assms(1) by (metis distinct_card)
    moreover have "length ?nat = length is + length zs" unfolding zs by (rule length_append)
    ultimately show "is = ?nat" using zs by simp
  qed auto
  moreover have "is = ?nat \<longleftrightarrow> sorted is"
    using nat assms(1) by (metis sorted_distinct_set_unique)
  ultimately show ?thesis
    using detectReorder_prefix [of 0 om "is"] assms(2) by simp
qed

text \<open>The conditions of a valid plan: every command exactly once, with the payload's kind.\<close>

definition replayable :: "FrameGraph \<Rightarrow> SourcePayloadView \<Rightarrow> bool" where
  "replayable g payload = (ranges_valid g (g_passes g) \<and> kinds_match payload (linear_commands g) \<and>
     mset (map cref_command_index (linear_commands g)) = mset [0..<commandCount payload])"

lemma linear_commands_refs: "linear_commands g = refs_of g (\<lambda>_. True) (g_passes g)"
  by (simp add: linear_commands_def refs_of_def)

lemma live_dead_refs:
  "live_commands g = refs_of g (\<lambda>p. \<not> is_dead p) (g_passes g)"
  "dead_commands g = refs_of g is_dead (g_passes g)"
  by (simp_all add: live_commands_def dead_commands_def refs_of_def)

lemma mset_live_dead: "mset (linear_commands g) = mset (live_commands g) + mset (dead_commands g)"
proof -
  have "mset (refs_of g (\<lambda>_. True) ps) = mset (refs_of g (\<lambda>p. \<not> is_dead p) ps) + mset (refs_of g is_dead ps)"
    for ps by (induction ps) auto
  then show ?thesis by (simp add: linear_commands_refs live_dead_refs)
qed

lemma distinct_all_below:
  "(distinct is \<and> (\<forall>i \<in> set is. i < n) \<and> (\<forall>i < n. i \<in> set is)) = (mset is = mset [0..<n])"
proof
  assume "distinct is \<and> (\<forall>i \<in> set is. i < n) \<and> (\<forall>i < n. i \<in> set is)"
  then have "distinct is" "set is = set [0..<n]" by auto
  then show "mset is = mset [0..<n]" using set_eq_iff_mset_eq_distinct distinct_upt by metis
next
  assume m: "mset is = mset [0..<n]"
  then have "distinct is" "set is = set [0..<n]"
    using mset_eq_setD mset_eq_imp_distinct_iff distinct_upt by metis+
  then show "distinct is \<and> (\<forall>i \<in> set is. i < n) \<and> (\<forall>i < n. i \<in> set is)" by auto
qed

lemma planReplay_result:
  fixes g payload
  defines "r \<equiv> planReplayCommands g payload"
  shows "rp_valid r = replayable g payload \<and>
    (rp_valid r \<longrightarrow> rp_command_indices r = map cref_command_index (live_commands g) \<and>
       rp_dropped r = (dead_commands g \<noteq> []) \<and> rp_reordered r = (\<not> sorted (rp_command_indices r)))"
proof -
  let ?n = "commandCount payload" and ?lin = "linear_commands g"
  let ?idx = "map cref_command_index"
  define w where "w = \<lparr>rw_plan = empty_replay, rw_accounted = replicate ?n False, rw_omitted = replicate ?n False\<rparr>"
  have len: "length (rw_accounted w) = ?n" by (simp add: w_def)
  have r: "r = (case accountPasses g payload (g_passes g) w of Inl plan \<Rightarrow> plan
      | Inr w \<Rightarrow> if False \<in> set (rw_accounted w) then rw_plan w
                 else (rw_plan w)\<lparr>rp_valid := True,
                   rp_reordered := detectReorder (rw_omitted w) 0 (rp_command_indices (rw_plan w))\<rparr>)"
    by (simp add: r_def planReplayCommands_def w_def)
  have fits: "fits payload ?lin (rw_accounted w) = (kinds_match payload ?lin \<and> distinct (?idx ?lin))"
    by (auto simp: fits_def kinds_match_def w_def)
  note A = accountPasses_spec [OF len, of g "g_passes g", folded linear_commands_refs, unfolded fits]
  have w0: "\<not> rp_valid (rw_plan w)" "rp_command_indices (rw_plan w) = []" "\<not> rp_dropped (rw_plan w)"
    "rw_omitted w = replicate ?n False"
    by (simp_all add: w_def empty_replay_def)
  show ?thesis
  proof (cases "ranges_valid g (g_passes g) \<and> kinds_match payload ?lin \<and> distinct (?idx ?lin)")
    case False
    then obtain plan where "accountPasses g payload (g_passes g) w = Inl plan" "\<not> rp_valid plan"
      using A w0 by blast
    moreover have "\<not> replayable g payload"
      using False distinct_all_below [of "?idx ?lin" ?n] by (auto simp: replayable_def)
    ultimately show ?thesis by (simp add: r)
  next
    case True
    then have a: "accountPasses g payload (g_passes g) w = Inr (walked g (g_passes g) w)" using A by blast
    have acc: "rw_accounted (walked g (g_passes g) w) = tick (?idx ?lin) (replicate ?n False)"
      by (simp add: walked_plan linear_commands_refs w_def)
    have all: "False \<in> set (rw_accounted (walked g (g_passes g) w)) \<longleftrightarrow> \<not> (\<forall>i < ?n. i \<in> set (?idx ?lin))"
    proof -
      have "False \<in> set bs \<longleftrightarrow> (\<exists>i < length bs. \<not> bs ! i)" for bs
        by (auto simp: in_set_conv_nth)
      then show ?thesis unfolding acc by (simp del: set_map cong: conj_cong)
    qed
    have rep: "replayable g payload = (\<forall>i < ?n. i \<in> set (?idx ?lin))"
      using True distinct_all_below [of "?idx ?lin" ?n] by (auto simp: replayable_def kinds_match_def)
    show ?thesis
    proof (cases "replayable g payload")
      case False
      then show ?thesis using all rep w0 by (simp add: r a walked_plan)
    next
      case valid: True
      let ?om = "tick (?idx (dead_commands g)) (replicate ?n False)"
      have m: "mset (?idx (live_commands g)) + mset (?idx (dead_commands g)) = mset [0..<?n]"
        using valid mset_live_dead [of g] by (simp add: replayable_def flip: image_mset_union)
      then have s: "set (?idx (live_commands g)) \<union> set (?idx (dead_commands g)) = {..<?n}"
        by (metis atLeast_upt mset_append mset_eq_setD set_append)
      have d: "distinct (?idx (live_commands g) @ ?idx (dead_commands g))"
        using m by (metis distinct_upt mset_append mset_eq_imp_distinct_iff)
      have "?om ! i = (i \<in> set (?idx (dead_commands g)))" if "i < ?n" for i
        using that by (simp del: set_map)
      then have "{i. i < length ?om \<and> \<not> ?om ! i} = {i. i < ?n \<and> i \<notin> set (?idx (dead_commands g))}"
        by (auto simp del: set_map)
      also have "\<dots> = set (?idx (live_commands g))" using s d by (auto simp del: set_map)
      finally have "detectReorder ?om 0 (?idx (live_commands g)) = (\<not> sorted (?idx (live_commands g)))"
        using d by (intro detectReorder_sorted) (simp_all del: set_map)
      then show ?thesis using all rep valid w0
        by (simp add: r a walked_plan live_dead_refs)
    qed
  qed
qed

text \<open>
  C20: a replay plan is accepted exactly when the graph accounts for every source command once, in
  range and with the kind the payload has. An accepted plan lists the commands of the live
  passes in pass order, says whether any command was dropped, and is flagged as reordered
  exactly when the list is not in submission order.
\<close>

theorem replay_plan_valid_iff:
  fixes g payload
  defines "r \<equiv> planReplayCommands g payload"
  shows "rp_valid r = replayable g payload \<and>
    (rp_valid r \<longrightarrow> rp_command_indices r = map cref_command_index (live_commands g) \<and>
       rp_dropped r = (dead_commands g \<noteq> []) \<and> rp_reordered r = (\<not> sorted (rp_command_indices r)))"
  unfolding r_def by (rule planReplay_result)

text \<open>Two copies whose passes were swapped: a valid, reordered plan.\<close>

definition swapped_graph :: FrameGraph where
  "swapped_graph = reset_graph\<lparr>
     g_passes := [default_pass\<lparr>p_kind := PassBlit, p_commands := \<lparr>rg_first = 0, rg_count = 1\<rparr>\<rparr>,
       default_pass\<lparr>p_kind := PassBlit, p_commands := \<lparr>rg_first = 1, rg_count = 1\<rparr>\<rparr>],
     g_commands := [\<lparr>cref_command_index = 1, cref_kind = CmdStretchRect\<rparr>,
       \<lparr>cref_command_index = 0, cref_kind = CmdStretchRect\<rparr>]\<rparr>"

theorem replay_plan_valid_iff_witness:
  "planReplayCommands swapped_graph demo_copies =
     \<lparr>rp_command_indices = [1, 0], rp_valid = True, rp_reordered = True, rp_dropped = False\<rparr>"
proof -
  let ?r = "planReplayCommands swapped_graph demo_copies"
  have "replayable swapped_graph demo_copies" "live_commands swapped_graph =
      [\<lparr>cref_command_index = 1, cref_kind = CmdStretchRect\<rparr>, \<lparr>cref_command_index = 0, cref_kind = CmdStretchRect\<rparr>]"
    "dead_commands swapped_graph = []"
    by (simp_all add: replayable_def ranges_valid_def kinds_match_def linear_commands_def live_commands_def
        dead_commands_def swapped_graph_def pass_commands_def gather_def demo_copies_def copy_command_def
        default_pass_def no_flags_def upt_rec numeral_2_eq_2)
  with replay_plan_valid_iff [of swapped_graph demo_copies] show ?thesis by simp
qed

section \<open>The shape of the operation plan\<close>

text \<open>The operations of one pass, and what it means for a plan to be well bracketed.\<close>

definition draw_op :: "nat \<Rightarrow> DrawRef \<Rightarrow> LinearOp" where
  "draw_op p d = default_op\<lparr>lo_kind := OpEmitDraw, lo_pass_index := p, lo_draw := d\<rparr>"

definition pass_ops :: "FrameGraph \<Rightarrow> nat \<Rightarrow> LinearOp list" where
  "pass_ops g p = (if is_dead (g_passes g ! p) then []
     else case p_kind (g_passes g ! p) of
       PassRender \<Rightarrow> emitRenderPass g p []
     | PassPresent \<Rightarrow> emitStandaloneOp p PassPresent []
     | PassBlit \<Rightarrow> emitStandaloneOp p PassBlit []
     | PassCompute \<Rightarrow> [] | PassSync \<Rightarrow> [])"

fun bracketed :: "nat option \<Rightarrow> LinearOp list \<Rightarrow> bool" where
  "bracketed inside [] = (inside = None)"
| "bracketed None (op # ops) = (if lo_kind op = OpBeginPass then bracketed (Some (lo_pass_index op)) ops
     else lo_kind op \<noteq> OpEmitDraw \<and> lo_kind op \<noteq> OpEndPass \<and> bracketed None ops)"
| "bracketed (Some p) (op # ops) = (lo_pass_index op = p \<and>
     (if lo_kind op = OpEndPass then bracketed None ops else lo_kind op = OpEmitDraw \<and> bracketed (Some p) ops))"

definition emitted_draws :: "LinearOp list \<Rightarrow> DrawRef list" where
  "emitted_draws ops = map lo_draw (filter (\<lambda>op. lo_kind op = OpEmitDraw) ops)"

lemma emitRenderPass_ops:
  "emitRenderPass g p ops = ops @ (let pass = g_passes g ! p in
     if rg_count (p_draws pass) = 0 then if passHasClearLoad pass
       then [default_op\<lparr>lo_kind := OpEmitClear, lo_pass_index := p, lo_pass_kind := PassRender,
               lo_attachments := p_targets pass, lo_load_store := p_load_store pass\<rparr>] else []
     else [default_op\<lparr>lo_kind := OpBeginPass, lo_pass_index := p, lo_pass_kind := PassRender,
             lo_attachments := p_targets pass, lo_load_store := p_load_store pass,
             lo_draw := g_draws g ! rg_first (p_draws pass)\<rparr>] @
          map (draw_op p) (pass_draws g pass) @
          [default_op\<lparr>lo_kind := OpEndPass, lo_pass_index := p\<rparr>])"
proof -
  have "fold (\<lambda>i ops. ops @ [f i]) is ops = ops @ map f is" for f :: "nat \<Rightarrow> LinearOp" and "is" ops
    by (induction "is" arbitrary: ops) auto
  then show ?thesis
    by (simp add: emitRenderPass_def pass_draws_def gather_def draw_op_def comp_def)
qed

lemma planLinearization_ops:
  assumes "length (g_passes g) < u32_limit"
  shows "planLinearization g = concat (map (pass_ops g) [0..<length (g_passes g)])"
proof -
  have step: "linearizePass g p ops = ops @ pass_ops g p" if "p < length (g_passes g)" for p ops
    using that assms
    by (cases "p_kind (g_passes g ! p)")
      (simp_all add: linearizePass_def pass_ops_def emitRenderPass_ops emitStandaloneOp_def)
  have "fold (linearizePass g) [0..<k] [] = concat (map (pass_ops g) [0..<k])"
    if "k \<le> length (g_passes g)" for k
    using that by (induction k) (simp_all add: step)
  then show ?thesis by (simp add: planLinearization_def)
qed

lemma bracketed_draws: "bracketed (Some p) (map (draw_op p) ds @ ops) = bracketed (Some p) ops"
  by (induction ds) (simp_all add: draw_op_def)

lemma bracketed_pass: "bracketed None (pass_ops g p @ ops) = bracketed None ops"
  by (simp add: pass_ops_def emitRenderPass_ops emitStandaloneOp_def bracketed_draws split: PassKind.split)

lemma emitted_pass: "emitted_draws (pass_ops g p) =
  (if is_dead (g_passes g ! p) \<or> p_kind (g_passes g ! p) \<noteq> PassRender then [] else pass_draws g (g_passes g ! p))"
proof -
  have "emitted_draws (map (draw_op p) ds) = ds" for ds
    by (induction ds) (simp_all add: emitted_draws_def draw_op_def)
  moreover have "rg_count (p_draws pass) = 0 \<Longrightarrow> pass_draws g pass = []" for pass
    by (simp add: pass_draws_def gather_def)
  ultimately show ?thesis
    by (auto simp: pass_ops_def emitRenderPass_ops emitStandaloneOp_def emitted_draws_def split: PassKind.split)
qed

lemma pass_ops_index: "op \<in> set (pass_ops g p) \<Longrightarrow> lo_pass_index op = p"
  by (auto simp: pass_ops_def emitRenderPass_ops emitStandaloneOp_def draw_op_def
      split: PassKind.splits if_splits)

lemma sorted_concat_upt:
  assumes "\<And>p x. x \<in> set (f p) \<Longrightarrow> h x = p"
  shows "sorted (map h (concat (map f [0..<n])))"
proof (induction n)
  case (Suc n)
  have "map h (f n) = replicate (length (f n)) n" using assms by (simp add: map_replicate_const [symmetric] map_idI cong: map_cong)
  with Suc assms show ?case by (fastforce simp: sorted_append)
qed simp

text \<open>
  The operation plan is well formed. Every pass that is opened is closed, draws are emitted
  only inside their own pass and nothing else happens there, the operations follow the pass
  order, and the emitted draws are the draws of the live render passes in order.
\<close>

theorem linearization_brackets:
  assumes "length (g_passes g) < u32_limit"
  shows "bracketed None (planLinearization g) \<and>
    sorted (map lo_pass_index (planLinearization g)) \<and>
    emitted_draws (planLinearization g) = concat (map (pass_draws g)
      (filter (\<lambda>p. \<not> is_dead p \<and> p_kind p = PassRender) (g_passes g)))"
proof (intro conjI)
  let ?n = "length (g_passes g)"
  note P = planLinearization_ops [OF assms]
  have "bracketed None (concat (map (pass_ops g) ps))" for ps
    by (induction ps) (simp_all add: bracketed_pass)
  then show "bracketed None (planLinearization g)" by (simp add: P)
  show "sorted (map lo_pass_index (planLinearization g))"
    unfolding P using pass_ops_index by (rule sorted_concat_upt)
  have "emitted_draws (xs @ ys) = emitted_draws xs @ emitted_draws ys" "emitted_draws [] = []" for xs ys
    by (simp_all add: emitted_draws_def)
  then have "emitted_draws (concat (map (pass_ops g) ps)) = concat (map (pass_draws g)
      (filter (\<lambda>p. \<not> is_dead p \<and> p_kind p = PassRender) (map ((!) (g_passes g)) ps)))" for ps
    by (induction ps) (simp_all add: emitted_pass)
  from this [of "[0..<?n]"] show "emitted_draws (planLinearization g) = concat (map (pass_draws g)
      (filter (\<lambda>p. \<not> is_dead p \<and> p_kind p = PassRender) (g_passes g)))"
    by (simp add: P map_nth)
qed

theorem linearization_brackets_witness:
  "bracketed None (planLinearization swapped_graph) \<and>
   map lo_kind (planLinearization swapped_graph) = [OpBlit, OpBlit]"
proof -
  have "length (g_passes swapped_graph) < u32_limit" by (simp add: swapped_graph_def)
  then have "bracketed None (planLinearization swapped_graph)" using linearization_brackets by blast
  moreover have "map lo_kind (planLinearization swapped_graph) = [OpBlit, OpBlit]"
    by (simp add: planLinearization_def linearizePass_def swapped_graph_def default_pass_def no_flags_def emitStandaloneOp_def
        upt_rec numeral_2_eq_2)
  ultimately show ?thesis ..
qed

end
