(* ===== verification/Fg_Optimizer.thy ===== *)
theory Fg_Optimizer
  imports Fg_Coalesce_Correct Fg_Reorder Fg_Residency Fg_Linearizer "HOL-Library.Sublist"
begin

text \<open>
  The optimizer orchestrator (\<^verbatim>\<open>framegraph/fg_optimizer.cpp\<close>), the look-ahead replay prefix of
  \<^verbatim>\<open>dce.cpp\<close>, and the end-to-end properties: building the frame graph of a payload, optimizing it
  with any options and planning the replay gives an order of the source commands in which
  dependent commands keep their submission order, and which therefore computes the same memory.
\<close>

section \<open>The orchestrator\<close>

definition runOptimizer ::
  "bool \<Rightarrow> FrameGraph \<Rightarrow> OptimizerOptions \<Rightarrow> MemorylessObservation list option \<Rightarrow>
   OptimizerStats option \<Rightarrow> ResourceHandle list \<Rightarrow> WitnessSink option \<Rightarrow>
   FrameGraph \<times> OptimizerStats option \<times> WitnessSink option" where
  "runOptimizer alloc_ok g options observations stats dce_lookahead activeSeedWitnesses =
     (let g = runLifetime g;
          (g, stats, sink) =
            (if oo_passcoalesce options
             then runPassCoalesce alloc_ok g stats (oo_collect_return_diagnostics options)
                    activeSeedWitnesses
             else (g, stats, activeSeedWitnesses));
          (g, stats) =
            (if oo_memoryless options
             then markMemorylessCandidates g (case observations of None \<Rightarrow> [] | Some obs \<Rightarrow> obs)
                    (oo_memoryless_observation_frames options) stats
             else (g, stats));
          (g, stats) = (if oo_dce options then runDce g stats dce_lookahead else (g, stats));
          g = (if oo_reorder options then runReorder g else g)
      in (runLoadStore g, stats, sink))"

text \<open>\<^verbatim>\<open>planDceLookaheadReplayPrefix\<close>: the loop over the passes before the boundary.\<close>

fun prefixRefs :: "nat \<Rightarrow> FrameGraph \<Rightarrow> nat list \<Rightarrow> bool list \<times> nat list \<Rightarrow> (bool list \<times> nat list) option" where
  "prefixRefs command_count g [] (seen, result) = Some (seen, result)"
| "prefixRefs command_count g (commandOffset # offsets) (seen, result) =
     (if commandOffset \<ge> length (g_commands g) then None
      else let commandIndex = cref_command_index (g_commands g ! commandOffset) in
        if commandIndex \<ge> command_count \<or> seen ! commandIndex then None
        else prefixRefs command_count g offsets (seen[commandIndex := True], result @ [commandIndex]))"

fun prefixPasses :: "nat \<Rightarrow> FrameGraph \<Rightarrow> PassNode list \<Rightarrow> bool list \<times> nat list \<Rightarrow>
    (bool list \<times> nat list) option" where
  "prefixPasses command_count g [] acc = Some acc"
| "prefixPasses command_count g (pass # passes) acc =
     (if f_dead (p_flags pass) then prefixPasses command_count g passes acc
      else case prefixRefs command_count g
              (map (\<lambda>i. rg_first (p_commands pass) + i) [0..<rg_count (p_commands pass)]) acc of
             None \<Rightarrow> None
           | Some acc \<Rightarrow> prefixPasses command_count g passes acc)"

fun firstPredictedDead :: "nat \<Rightarrow> PassNode list \<Rightarrow> PassNode list \<Rightarrow> nat" where
  "firstPredictedDead p (b # bs) (w # ws) =
     (if \<not> f_dead (p_flags b) \<and> f_dead (p_flags w) then p else firstPredictedDead (Suc p) bs ws)"
| "firstPredictedDead p bs ws = p"

definition planDceLookaheadReplayPrefix ::
  "bool \<Rightarrow> FrameGraph \<Rightarrow> nat \<Rightarrow> OptimizerOptions \<Rightarrow> ResourceHandle list \<Rightarrow> nat list" where
  "planDceLookaheadReplayPrefix alloc_ok g command_count options prior_lookahead =
     (if prior_lookahead = [] \<or> command_count = 0 then []
      else let active = options\<lparr>oo_dce := True\<rparr>;
               without = fst (runOptimizer alloc_ok g active None None [] None);
               with_la = fst (runOptimizer alloc_ok g active None None prior_lookahead None)
        in if length (g_passes without) \<noteq> length (g_passes with_la) then []
           else let passCount = length (g_passes without);
                    boundaryPass = firstPredictedDead 0 (g_passes without) (g_passes with_la)
             in if boundaryPass = 0 \<or> boundaryPass \<ge> passCount then []
                else case prefixPasses command_count with_la (take boundaryPass (g_passes with_la))
                            (replicate command_count False, []) of
                       None \<Rightarrow> []
                     | Some (seen, result) \<Rightarrow> result)"

section \<open>What the orchestrator keeps\<close>

lemma precedes_subseq: "precedes xs x y = subseq [x, y] xs"
proof
  assume "precedes xs x y"
  then obtain us vs ws where "xs = us @ x # vs @ y # ws" by (auto simp: precedes_split)
  then show "subseq [x, y] xs" by (simp add: list_emb_append2 subseq_Cons2 subseq_singleton_left)
next
  show "subseq [x, y] xs \<Longrightarrow> precedes xs x y"
  proof (induction xs)
    case (Cons z zs)
    show ?case
    proof (cases "subseq [x, y] zs")
      case True
      then show ?thesis using Cons.IH precedes_ConsI by metis
    next
      case False
      then have "x = z" "y \<in> set zs" using Cons.prems
        by (auto split: if_splits simp: subseq_singleton_left)
      then show ?thesis using precedes_append_both [of x "[z]" y zs] by simp
    qed
  qed simp
qed

lemma precedes_subseq_keep:
  assumes "subseq ys xs" and "distinct xs" and "precedes xs x y" and "x \<in> set ys" and "y \<in> set ys"
  shows "precedes ys x y"
proof -
  have "x \<noteq> y" using assms(2,3) precedes_asym by metis
  then consider "precedes ys x y" | "precedes ys y x" using assms(4,5) precedes_total by metis
  then show ?thesis
  proof cases
    case 2
    then have "precedes xs y x" using assms(1) unfolding precedes_subseq by (meson subseq_order.order_trans)
    then show ?thesis using assms(2,3) precedes_asym by metis
  qed
qed

text \<open>The commands of an optimized graph and their order.\<close>

definition carried :: "(CommandRef \<Rightarrow> CommandRef \<Rightarrow> bool) \<Rightarrow> CommandRef list \<Rightarrow> FrameGraph \<Rightarrow> bool" where
  "carried R cs g = (hazard_ok R g \<and> ranges_valid g (g_passes g) \<and>
     mset (linear_commands g) = mset cs \<and> length (g_passes g) < u32_limit)"

definition undead :: "FrameGraph \<Rightarrow> bool" where
  "undead g = (\<forall>p \<in> set (g_passes g). \<not> is_dead p)"

text \<open>Passes that only rewrite flags, policies or residency leave the command structure alone.\<close>

definition same_commands :: "FrameGraph \<Rightarrow> FrameGraph \<Rightarrow> bool" where
  "same_commands g g' = (map p_commands (g_passes g') = map p_commands (g_passes g) \<and>
     g_commands g' = g_commands g \<and> g_edges g' = g_edges g)"

lemma same_commands_groups:
  assumes "same_commands g g'"
  shows "groups g' = groups g" and "edge_rel g' = edge_rel g"
    and "length (g_passes g') = length (g_passes g)"
    and "ranges_valid g' (g_passes g') = ranges_valid g (g_passes g)"
proof -
  let ?pc = "\<lambda>r. gather (g_commands g) (rg_first r) (rg_count r)"
  have pc: "map p_commands (g_passes g') = map p_commands (g_passes g)" "g_commands g' = g_commands g"
    using assms by (simp_all add: same_commands_def)
  have "groups g' = map ?pc (map p_commands (g_passes g'))"
    by (simp add: groups_def pass_commands_def pc(2))
  also have "\<dots> = groups g" unfolding pc(1) by (simp add: groups_def pass_commands_def)
  finally show "groups g' = groups g" .
  show "edge_rel g' = edge_rel g" using assms by (simp add: same_commands_def edge_rel_def)
  show "length (g_passes g') = length (g_passes g)" using pc(1) by (metis length_map)
  have "ranges_valid h ps = (\<forall>r \<in> set (map p_commands ps). rg_first r + rg_count r \<le> length (g_commands h))"
    for h ps by (simp add: ranges_valid_def)
  then show "ranges_valid g' (g_passes g') = ranges_valid g (g_passes g)" by (simp only: pc)
qed

lemma carried_same:
  "same_commands g g' \<Longrightarrow> carried R cs g \<Longrightarrow> carried R cs g'"
  using same_commands_groups [of g g']
  by (simp add: carried_def hazard_ok_def linear_commands_groups)

lemma map_nth_same:
  "(\<And>i. i < length xs \<Longrightarrow> f (h i) = f (xs ! i)) \<Longrightarrow> map f (map h [0..<length xs]) = map f xs"
  by (rule nth_equalityI) simp_all

lemma same_commands_lifetime: "same_commands g (runLifetime g)"
  by (simp add: same_commands_def)

lemma same_commands_memoryless: "same_commands g (fst (markMemorylessCandidates g obs t stats))"
  by (simp add: same_commands_def markMemorylessCandidates_def split: prod.split)

lemma same_commands_dce:
  "length (g_passes g) < u32_limit \<Longrightarrow> same_commands g (fst (runDce g stats look))"
  by (simp add: runDce_graph same_commands_def) (rule nth_equalityI, simp_all)

lemma same_commands_loadstore: "same_commands g (runLoadStore g)"
  unfolding same_commands_def runLoadStore_def by (simp del: map_map) (rule map_nth_same, simp)

lemma undead_loadstore [simp]: "undead (runLoadStore g) = undead g"
proof -
  have "map p_flags (g_passes (runLoadStore g)) = map p_flags (g_passes g)"
    unfolding runLoadStore_def by (simp del: map_map) (rule map_nth_same, simp)
  moreover have "undead h = (\<forall>f \<in> set (map p_flags (g_passes h)). \<not> f_dead f)" for h
    by (simp add: undead_def)
  ultimately show ?thesis by (simp only:)
qed

lemma carried_reorder:
  assumes "carried R cs g"
  shows "carried R cs (runReorder g)" and "undead g \<Longrightarrow> undead (runReorder g)"
proof -
  have h: "hazard_ok R g" "length (g_passes g) < u32_limit"
    and c: "ranges_valid g (g_passes g)" "mset (linear_commands g) = mset cs"
    using assms by (simp_all add: carried_def)
  then have fwd: "forward (edge_rel g) (length (g_passes g))" by (simp add: hazard_ok_def)
  have m: "mset (g_passes (runReorder g)) = mset (g_passes g)"
    and cmds: "g_commands (runReorder g) = g_commands g"
    by (rule runReorder_spec [OF fwd h(2)]; assumption)+
  have s: "set (g_passes (runReorder g)) = set (g_passes g)" using m by (metis mset_eq_setD)
  then show "undead g \<Longrightarrow> undead (runReorder g)" by (simp add: undead_def)
  have pc: "pass_commands (runReorder g) = pass_commands g"
    by (simp add: fun_eq_iff pass_commands_def cmds)
  have "mset (concat (map f ps)) = (\<Sum>p\<in>#mset ps. mset (f p))" for f :: "PassNode \<Rightarrow> CommandRef list" and ps
    by (induction ps) simp_all
  then have "mset (linear_commands (runReorder g)) = mset (linear_commands g)"
    by (simp only: linear_commands_def pc m)
  moreover have "ranges_valid (runReorder g) (g_passes (runReorder g)) = ranges_valid g (g_passes g)"
    by (simp add: ranges_valid_def s cmds)
  moreover have "length (g_passes (runReorder g)) = length (g_passes g)" using m by (rule mset_eq_length)
  ultimately show "carried R cs (runReorder g)"
    using runReorder_hazard [OF h] h c by (simp add: carried_def)
qed

lemma planned_carried:
  assumes "planned g" and "hazard_ok R g"
  shows "carried R (g_commands g) g"
proof -
  have t: "tiling g" using assms(1) by (simp add: planned_def)
  have "ranges_valid g (g_passes g)"
    using t tiles_from_range [of 0 "cmd_ranges g" "length (g_commands g)"]
    by (force simp: tiling_def ranges_valid_def cmd_ranges_def)
  with assms t show ?thesis
    by (simp add: carried_def linear_commands_groups groups_concat planned_def)
qed

lemma merge_step_undead:
  assumes "merge_step g g'" and p: "planned g" and u: "undead g"
  shows "undead g'"
  using assms(1)
proof cases
  case (merge a b)
  have t: "tiling g" using p by (simp add: planned_def)
  note ok = mergeable_merge_ok [OF p merge(1)]
  have b: "a < b" "b < length (g_passes g)" using merge(1) by (simp_all add: mergeable_def)
  have live: "\<not> is_dead (g_passes g ! (if p = b then a else p))" if "p < length (g_passes g)" for p
    using u b that by (simp add: undead_def)
  show ?thesis
  proof (rule mergePair_spec [OF t ok merge(2)])
    fix nu
    assume s: "\<And>p. p < length (g_passes g) \<Longrightarrow>
        same_pass (g_passes g' ! nu p) (g_passes g ! (if p = b then a else p))"
      and onto: "\<And>q. q < length (g_passes g') \<Longrightarrow> \<exists>p < length (g_passes g). nu p = q"
    have "\<not> is_dead (g_passes g' ! q)" if q: "q < length (g_passes g')" for q
    proof -
      obtain p where p: "p < length (g_passes g)" "nu p = q" using onto [OF q] by blast
      then show ?thesis using s [OF p(1)] live [OF p(1)] by (simp add: same_pass_def)
    qed
    then show "undead g'" by (auto simp: undead_def in_set_conv_nth)
  qed
qed

lemma merge_steps_undead:
  "merge_step\<^sup>*\<^sup>* g g' \<Longrightarrow> planned g \<Longrightarrow> undead g \<Longrightarrow> undead g'"
proof (induction rule: rtranclp_induct)
  case base
  then show ?case by simp
next
  case (step g1 g2)
  then show ?case using merge_steps_keep [OF step(1)] merge_step_undead [OF step(2)] by blast
qed

text \<open>One lemma per stage gives the whole optimizer.\<close>

lemma runOptimizer_carried:
  assumes p: "planned g" and h: "hazard_ok R g" and u: "undead g"
    and run: "runOptimizer alloc_ok g options obs stats look sink = (g', stats', sink')"
  shows "carried R (g_commands g) g'"
    and "\<not> oo_dce options \<Longrightarrow> undead g'"
    and "\<not> oo_passcoalesce options \<Longrightarrow> \<not> oo_reorder options \<Longrightarrow> linear_commands g' = linear_commands g"
proof -
  let ?obs = "case obs of None \<Rightarrow> [] | Some obs \<Rightarrow> obs" and ?t = "oo_memoryless_observation_frames options"
  obtain g1 stats1 sink1 where 1: "(if oo_passcoalesce options
      then runPassCoalesce alloc_ok (runLifetime g) stats (oo_collect_return_diagnostics options) sink
      else (runLifetime g, stats, sink)) = (g1, stats1, sink1)" by (metis prod_cases3)
  obtain g2 stats2 where 2: "(if oo_memoryless options then markMemorylessCandidates g1 ?obs ?t stats1
      else (g1, stats1)) = (g2, stats2)" by fastforce
  obtain g3 stats3 where 3: "(if oo_dce options then runDce g2 stats2 look else (g2, stats2)) = (g3, stats3)"
    by fastforce
  define g4 where "g4 = (if oo_reorder options then runReorder g3 else g3)"
  have g': "g' = runLoadStore g4"
    using run 1 2 3 by (simp add: runOptimizer_def g4_def)
  have c1: "carried R (g_commands g) g1 \<and> undead g1"
  proof (cases "oo_passcoalesce options")
    case False
    then have "g1 = runLifetime g" using 1 by simp
    then show ?thesis using planned_carried [of g R] p h u carried_same [OF same_commands_lifetime]
      by (simp add: undead_def)
  next
    case True
    then have r: "runPassCoalesce alloc_ok (runLifetime g) stats (oo_collect_return_diagnostics options) sink
        = (g1, stats1, sink1)" using 1 by simp
    have "planned (runLifetime g)" using p by simp
    note r = runPassCoalesce_result(1) [OF this r]
    obtain g0 where g0: "merge_step\<^sup>*\<^sup>* (runLifetime g) g0" "g1 = runLifetime g0"
      using r by blast
    have "undead (runLifetime g)" using u by (simp add: undead_def)
    note merge_steps_undead [OF g0(1) _ this] and K = merge_steps_keep [OF g0(1)]
    then have "planned g0" "hazard_ok R g0" "mset (g_commands g0) = mset (g_commands g)" "undead g0"
      using p h by simp_all
    then have "carried R (g_commands g) g0" using planned_carried [of g0 R] by (simp add: carried_def)
    then show ?thesis using carried_same [OF same_commands_lifetime] \<open>undead g0\<close> g0(2)
      by (simp add: undead_def)
  qed
  have s2: "same_commands g1 g2"
    using 2 same_commands_memoryless [of g1 ?obs ?t stats1] by (auto simp: same_commands_def split: if_splits)
  have u2: "undead g2" using 2 c1 by (auto simp: undead_def markMemorylessCandidates_def split: if_splits prod.splits)
  have c2: "carried R (g_commands g) g2" using carried_same [OF s2] c1 by blast
  then have "length (g_passes g2) < u32_limit" by (simp add: carried_def)
  from same_commands_dce [OF this, of stats2 look] 3 have s3: "same_commands g2 g3"
    by (auto simp: same_commands_def split: if_splits)
  note c3 = carried_same [OF s3 c2]
  have c4: "carried R (g_commands g) g4" using carried_reorder(1) [OF c3] c3 by (simp add: g4_def)
  show "carried R (g_commands g) g'" unfolding g' by (rule carried_same [OF same_commands_loadstore c4])
  show "undead g'" if "\<not> oo_dce options"
    using that 3 u2 c3 carried_reorder(2) [of R "g_commands g" g3] by (simp add: g' g4_def)
  show "linear_commands g' = linear_commands g" if "\<not> oo_passcoalesce options" "\<not> oo_reorder options"
  proof -
    have "g1 = runLifetime g" "g4 = g3" using that 1 by (simp_all add: g4_def)
    then have "groups g' = groups g" unfolding g'
      using same_commands_groups(1) [OF same_commands_loadstore] same_commands_groups(1) [OF s3]
        same_commands_groups(1) [OF s2] by simp
    then show ?thesis by (simp add: linear_commands_groups)
  qed
qed

lemma subseq_nth_concat:
  assumes "p < length xss"
  shows "subseq (xss ! p) (concat xss)"
proof -
  have "concat xss = concat (take p xss) @ xss ! p @ concat (drop (Suc p) xss)"
    using assms by (metis append_Cons append_Nil concat.simps(2) concat_append id_take_nth_drop)
  then show ?thesis by (metis list_emb_append2 list_emb_prefix subseq_order.order_refl)
qed

text \<open>A built graph satisfies what the optimizer needs.\<close>

lemma built_planned:
  assumes b: "built ar payload n b" and n: "Suc n < u32_limit"
  shows "planned (b_graph b)" and "undead (b_graph b)"
    and "hazard_ok (must_precede (command_footprint ar payload)) (b_graph b)"
proof -
  let ?g = "b_graph b" and ?F = "command_footprint ar payload"
  have t: "tiling ?g" and ok: "graph_ok ?g" and ne: "[] \<notin> set (groups ?g)" and pf: "plain_flags ?g"
    and gc: "g_commands ?g = accepted_refs payload n"
    using b by (simp_all add: built_def)
  have fwd: "forward (edge_rel ?g) (length (g_passes ?g))"
    using ok by (auto simp: graph_ok_def edge_ok_def forward_def edge_rel_def)
  have "length (g_passes ?g) \<le> n"
    using length_concat_ge [OF ne] groups_concat [OF t] length_accepted_refs [of payload n] by (simp add: gc)
  then show "planned ?g" using t fwd n by (simp add: planned_def)
  show "undead ?g" using pf by (auto simp: undead_def plain_flags_def no_flags_def)
  have sorted: "sorted_wrt (<) (map cref_command_index (concat (groups ?g)))"
    using accepted_refs_sorted by (simp add: groups_concat [OF t] gc)
  have "precedes (groups ?g ! p) c d" if p: "p < length (groups ?g)" and c: "c \<in> set (groups ?g ! p)"
    and d: "d \<in> set (groups ?g ! p)" and lt: "cref_command_index c < cref_command_index d" for p c d
  proof -
    have dist: "distinct (concat (groups ?g))"
      using sorted by (metis distinct_map strict_sorted_iff)
    have "precedes (concat (groups ?g)) c d \<or> precedes (concat (groups ?g)) d c"
      using c d p lt by (intro precedes_total) auto
    moreover have "\<not> precedes (concat (groups ?g)) d c"
    proof
      assume "precedes (concat (groups ?g)) d c"
      then obtain i j where "i < j" "j < length (concat (groups ?g))" "concat (groups ?g) ! i = d"
        "concat (groups ?g) ! j = c" by (auto simp: precedes_def)
      moreover from this(1,2) sorted have "cref_command_index (concat (groups ?g) ! i) <
          cref_command_index (concat (groups ?g) ! j)"
        by (simp add: sorted_wrt_iff_nth_less del: length_concat)
      ultimately show False using lt by simp
    qed
    moreover have "subseq (groups ?g ! p) (concat (groups ?g))" using p by (rule subseq_nth_concat)
    ultimately show ?thesis using precedes_subseq_keep [OF _ dist] c d by blast
  qed
  then show "hazard_ok (must_precede ?F) ?g"
    unfolding hazard_ok_def ordered_def
    using fwd built_orders [OF b refl]
    by (auto simp: groups_def must_precede_def depends_def)
qed

section \<open>From the payload to the replay order\<close>

lemma subseq_subset: "subseq xs ys \<Longrightarrow> set xs \<subseteq> set ys"
  by (induction rule: list_emb.induct) auto

lemma subseq_distinct: "subseq xs ys \<Longrightarrow> distinct ys \<Longrightarrow> distinct xs"
proof (induction rule: list_emb.induct)
  case (list_emb_Cons2 x y xs ys)
  then show ?case using subseq_subset [of xs ys] by auto
qed auto

lemma subseq_sorted: "subseq xs ys \<Longrightarrow> sorted ys \<Longrightarrow> sorted (xs :: nat list)"
proof (induction rule: list_emb.induct)
  case (list_emb_Cons2 x y xs ys)
  then show ?case using subseq_subset [of xs ys] by auto
qed auto

lemma subseq_live: "subseq (live_commands g) (linear_commands g)"
proof -
  have "subseq (concat (map f (filter P ps))) (concat (map f ps))" for f :: "PassNode \<Rightarrow> CommandRef list" and P ps
    by (induction ps) (auto intro: list_emb_append2 list_emb_append_mono)
  then show ?thesis by (simp add: live_commands_def linear_commands_def)
qed

definition all_accepted :: "SourcePayloadView \<Rightarrow> bool" where
  "all_accepted payload = (\<forall>i < commandCount payload. accepted (commandAt payload i))"

lemma replayable_carried:
  assumes "carried R (accepted_refs payload (commandCount payload)) g"
  shows "replayable g payload = all_accepted payload"
proof -
  let ?n = "commandCount payload"
  have m: "mset (linear_commands g) = mset (accepted_refs payload ?n)" and rv: "ranges_valid g (g_passes g)"
    using assms by (simp_all add: carried_def)
  then have s: "set (linear_commands g) = set (accepted_refs payload ?n)" by (metis mset_eq_setD)
  have k: "kinds_match payload (linear_commands g)"
    unfolding kinds_match_def s by (auto simp: accepted_refs_def command_ref_def)
  have "map cref_command_index (accepted_refs payload ?n) = filter (\<lambda>i. accepted (commandAt payload i)) [0..<?n]"
    by (simp add: accepted_refs_def command_ref_def comp_def)
  then have idx: "mset (map cref_command_index (linear_commands g)) =
      mset (filter (\<lambda>i. accepted (commandAt payload i)) [0..<?n])" using m by (metis mset_map)
  have "mset (filter P [0..<?n]) = mset [0..<?n] \<longleftrightarrow> (\<forall>i < ?n. P i)" for P
  proof
    assume "mset (filter P [0..<?n]) = mset [0..<?n]"
    then have "set (filter P [0..<?n]) = set [0..<?n]" by (rule mset_eq_setD)
    then have "{i. i < ?n \<and> P i} = {..<?n}" by (simp add: atLeast0LessThan)
    then show "\<forall>i < ?n. P i" by blast
  next
    assume "\<forall>i < ?n. P i"
    then have "filter P [0..<?n] = [0..<?n]" by (simp add: filter_id_conv)
    then show "mset (filter P [0..<?n]) = mset [0..<?n]" by simp
  qed
  then show ?thesis using rv k idx by (simp add: replayable_def all_accepted_def)
qed

text \<open>What a replay order must satisfy with respect to the submission order.\<close>

definition keeps_order :: "(nat \<Rightarrow> (ResourceHandle \<times> AccessKind) set) \<Rightarrow> nat list \<Rightarrow> bool" where
  "keeps_order F is = (\<forall>i \<in> set is. \<forall>j \<in> set is. i < j \<longrightarrow> depends F i j \<longrightarrow> precedes is i j)"

lemma optimizer_plan_facts:
  assumes n: "Suc (commandCount payload) < u32_limit"
    and run: "runOptimizer alloc_ok (buildFrameGraph payload frame_id ar) options obs stats look sink = (g', stats', sink')"
  shows "rp_valid (planReplayCommands g' payload) = all_accepted payload"
    and "rp_valid (planReplayCommands g' payload) \<Longrightarrow>
      keeps_order (command_footprint ar payload) (rp_command_indices (planReplayCommands g' payload)) \<and>
      distinct (rp_command_indices (planReplayCommands g' payload)) \<and>
      set (rp_command_indices (planReplayCommands g' payload)) \<subseteq> {..<commandCount payload}"
    and "rp_valid (planReplayCommands g' payload) \<Longrightarrow> \<not> oo_dce options \<Longrightarrow>
      mset (rp_command_indices (planReplayCommands g' payload)) = mset [0..<commandCount payload] \<and>
      \<not> rp_dropped (planReplayCommands g' payload)"
    and "rp_valid (planReplayCommands g' payload) \<Longrightarrow> \<not> oo_passcoalesce options \<Longrightarrow> \<not> oo_reorder options \<Longrightarrow>
      \<not> rp_reordered (planReplayCommands g' payload)"
proof -
  let ?r = "planReplayCommands g' payload" and ?F = "command_footprint ar payload"
    and ?N = "commandCount payload" and ?idx = "map cref_command_index"
  let ?R = "must_precede ?F" and ?is = "rp_command_indices ?r"
  obtain b where b: "built ar payload ?N b" "buildFrameGraph payload frame_id ar = b_graph b"
    using built_buildFrameGraph [OF n] by metis
  have gc: "g_commands (b_graph b) = accepted_refs payload ?N" and t: "tiling (b_graph b)"
    using b by (simp_all add: built_def)
  note P = built_planned [OF b(1) n]
  note C = runOptimizer_carried [OF P(1,3,2) run [unfolded b(2)], unfolded gc]
  note r = planReplay_result [of g' payload]
  show valid: "rp_valid ?r = all_accepted payload" using r replayable_carried [OF C(1)] by blast
  have lin_idx: "subseq ?is (?idx (linear_commands g'))" if "rp_valid ?r"
    using r that subseq_live [of g'] by (simp add: subseq_map)
  have m: "mset (?idx (linear_commands g')) = mset [0..<?N]" if "rp_valid ?r"
    using r that by (simp add: replayable_def)
  show "keeps_order ?F ?is \<and> distinct ?is \<and> set ?is \<subseteq> {..<?N}" if v: "rp_valid ?r"
  proof (intro conjI)
    have dist: "distinct (?idx (linear_commands g'))" using m [OF v] by (metis distinct_upt mset_eq_imp_distinct_iff)
    then show "distinct ?is" using lin_idx [OF v] subseq_distinct by blast
    have "set ?is \<subseteq> set (?idx (linear_commands g'))" using lin_idx [OF v] by (rule subseq_subset)
    moreover have "set (?idx (linear_commands g')) = {..<?N}" using m [OF v] by (metis atLeast_upt mset_eq_setD)
    ultimately show "set ?is \<subseteq> {..<?N}" by (simp only:)
    show "keeps_order ?F ?is"
      unfolding keeps_order_def
    proof (intro ballI impI)
      fix i j assume ij: "i \<in> set ?is" "j \<in> set ?is" "i < j" "depends ?F i j"
      from ij obtain c d where cd: "c \<in> set (live_commands g')" "d \<in> set (live_commands g')"
        "cref_command_index c = i" "cref_command_index d = j" using r v by auto
      then have "c \<in> set (concat (groups g'))" "d \<in> set (concat (groups g'))"
        using subseq_subset [OF subseq_live [of g']] by (auto simp: linear_commands_groups)
      moreover have "?R c d" using cd ij by (simp add: must_precede_def)
      ultimately have "precedes (linear_commands g') c d"
        using C(1) unfolding linear_commands_groups
        by (intro ordered_linear [of "edge_rel g'" "groups g'" ?R c d]) (simp_all add: carried_def hazard_ok_def)
      then have "precedes (?idx (linear_commands g')) i j" using precedes_map cd by metis
      then show "precedes ?is i j" by (rule precedes_subseq_keep [OF lin_idx [OF v] dist _ ij(1,2)])
    qed
  qed
  show "mset ?is = mset [0..<?N] \<and> \<not> rp_dropped ?r" if v: "rp_valid ?r" "\<not> oo_dce options"
  proof -
    have "undead g'" by (rule C(2) [OF v(2)])
    then have "filter is_dead (g_passes g') = []" "filter (\<lambda>p. \<not> is_dead p) (g_passes g') = g_passes g'"
      by (auto simp: undead_def filter_empty_conv filter_id_conv)
    then have "live_commands g' = linear_commands g'" "dead_commands g' = []"
      by (simp_all add: live_commands_def linear_commands_def dead_commands_def)
    then show ?thesis using r v m by simp
  qed
  show "\<not> rp_reordered ?r" if v: "rp_valid ?r" "\<not> oo_passcoalesce options" "\<not> oo_reorder options"
  proof -
    have "linear_commands g' = accepted_refs payload ?N"
      using C(3) [OF v(2,3)] t by (simp add: linear_commands_groups groups_concat gc)
    then have "sorted (?idx (linear_commands g'))"
      using accepted_refs_sorted strict_sorted_imp_sorted by metis
    then have "sorted ?is" using lin_idx [OF v(1)] subseq_sorted by blast
    then show ?thesis using r v by blast
  qed
qed

section \<open>The meaning of a command sequence\<close>

text \<open>
  A memory maps handles to contents. Running command \<open>i\<close> replaces the contents of the resources its
  footprint writes by a function \<open>body\<close> of the resources it touches, read or written: what a
  draw leaves in an attachment may depend on the attachment and on the depth buffer.
\<close>

definition touches :: "(ResourceHandle \<times> AccessKind) set \<Rightarrow> ResourceHandle \<Rightarrow> bool" where
  "touches K h = (\<exists>k. (h, k) \<in> K \<and> (accessReads k \<or> accessWrites k))"

definition writes :: "(ResourceHandle \<times> AccessKind) set \<Rightarrow> ResourceHandle \<Rightarrow> bool" where
  "writes K h = (\<exists>k. (h, k) \<in> K \<and> accessWrites k)"

definition run_command ::
  "(nat \<Rightarrow> (ResourceHandle \<times> AccessKind) set) \<Rightarrow>
   (nat \<Rightarrow> (ResourceHandle \<Rightarrow> 'v option) \<Rightarrow> ResourceHandle \<Rightarrow> 'v) \<Rightarrow>
   nat \<Rightarrow> (ResourceHandle \<Rightarrow> 'v) \<Rightarrow> ResourceHandle \<Rightarrow> 'v" where
  "run_command F body i m = (\<lambda>h. if writes (F i) h
     then body i (\<lambda>x. if touches (F i) x then Some (m x) else None) h else m h)"

lemma independent_touch:
  "\<not> depends F i j \<Longrightarrow> writes (F i) h \<Longrightarrow> \<not> touches (F j) h"
  unfolding depends_def writes_def touches_def conflicting_def by blast

lemma writes_touches: "writes K h \<Longrightarrow> touches K h"
  by (auto simp: writes_def touches_def)

text \<open>Commands without a conflicting access commute, so the interface applies to the model.\<close>

interpretation replay: commuting_steps "run_command F body" "depends F" for F body
proof unfold_locales
  fix i j and m :: "ResourceHandle \<Rightarrow> 'a"
  assume ij: "\<not> depends F i j" and ji: "\<not> depends F j i"
  have vi: "(\<lambda>x. if touches (F i) x then Some (run_command F body j m x) else None) =
      (\<lambda>x. if touches (F i) x then Some (m x) else None)"
    using independent_touch [OF ji] by (auto simp: run_command_def fun_eq_iff)
  have vj: "(\<lambda>x. if touches (F j) x then Some (run_command F body i m x) else None) =
      (\<lambda>x. if touches (F j) x then Some (m x) else None)"
    using independent_touch [OF ij] by (auto simp: run_command_def fun_eq_iff)
  show "run_command F body i (run_command F body j m) = run_command F body j (run_command F body i m)"
    unfolding run_command_def [of F body i "run_command F body j m"]
      run_command_def [of F body j "run_command F body i m"] vi vj
    using independent_touch [OF ij] independent_touch [OF ji] writes_touches
    by (fastforce simp: run_command_def fun_eq_iff)
qed

lemma keeps_order_same_result:
  assumes "keeps_order F is" and "mset is = mset [0..<n]"
  shows "fold (run_command F body) is m = fold (run_command F body) [0..<n] m"
proof -
  have d: "distinct is" "set is = set [0..<n]"
    using assms(2) by (metis distinct_upt mset_eq_imp_distinct_iff, metis mset_eq_setD)
  show ?thesis
  proof (rule sym, rule replay.same_result)
    show "distinct [0..<n]" "distinct is" "set [0..<n] = set is" using d by simp_all
    show "precedes is i j" if "i \<noteq> j" "depends F i j \<or> depends F j i" "precedes [0..<n] i j" for i j
    proof -
      have "i < j" using that(3) by (auto simp: precedes_def)
      moreover have "i \<in> set is" "j \<in> set is" using precedes_in_set [OF that(3)] d by auto
      moreover have "depends F i j" using that(2) depends_sym by blast
      ultimately show ?thesis using assms(1) by (simp add: keeps_order_def)
    qed
  qed
qed

section \<open>The end-to-end properties\<close>

text \<open>
  C2: optimizing a frame never changes what it computes. For every payload of fewer than 2^32 - 1
  commands that the builder accepts, building the frame graph, running the optimizer with any
  options except dead-pass elimination and replaying the planned command order leaves the same
  memory as running the commands in submission order, whatever the commands compute.
\<close>

theorem optimizer_preserves_results:
  assumes "Suc (commandCount payload) < u32_limit" and "all_accepted payload" and "\<not> oo_dce options"
    and "runOptimizer alloc_ok (buildFrameGraph payload frame_id ar) options obs stats look sink = (g', stats', sink')"
  shows "fold (run_command (command_footprint ar payload) body)
      (rp_command_indices (planReplayCommands g' payload)) m =
    fold (run_command (command_footprint ar payload) body) [0..<commandCount payload] m"
proof (rule keeps_order_same_result)
  note F = optimizer_plan_facts [OF assms(1,4)]
  have v: "rp_valid (planReplayCommands g' payload)" using F(1) assms(2) by simp
  show "keeps_order (command_footprint ar payload) (rp_command_indices (planReplayCommands g' payload))"
    using F(2) [OF v] by blast
  show "mset (rp_command_indices (planReplayCommands g' payload)) = mset [0..<commandCount payload]"
    using F(3) [OF v assms(3)] by blast
qed

text \<open>
  C17: the replay plan of an optimized frame. Whatever the options, the plan is valid exactly when
  the builder accepts every command; a valid plan lists distinct source commands and keeps every
  pair of commands with conflicting accesses in submission order; without dead-pass elimination
  it is a permutation of all commands and drops none; and without coalescing and reordering, as
  with the default options, it is in submission order.
\<close>

theorem optimizer_replay_plan:
  fixes payload g'
  defines "r \<equiv> planReplayCommands g' payload"
  assumes "Suc (commandCount payload) < u32_limit"
    and "runOptimizer alloc_ok (buildFrameGraph payload frame_id ar) options obs stats look sink = (g', stats', sink')"
  shows "rp_valid r = all_accepted payload \<and>
    (rp_valid r \<longrightarrow> keeps_order (command_footprint ar payload) (rp_command_indices r) \<and>
       distinct (rp_command_indices r) \<and> set (rp_command_indices r) \<subseteq> {..<commandCount payload} \<and>
       (\<not> oo_dce options \<longrightarrow> mset (rp_command_indices r) = mset [0..<commandCount payload] \<and> \<not> rp_dropped r) \<and>
       (\<not> oo_passcoalesce options \<longrightarrow> \<not> oo_reorder options \<longrightarrow> \<not> rp_reordered r))"
  using optimizer_plan_facts [OF assms(2,3)] unfolding r_def by blast

text \<open>Witnesses on two dependent copies, with every feature pass but dead-pass elimination on.\<close>

definition eager_options :: OptimizerOptions where
  "eager_options = default_options\<lparr>oo_passcoalesce := True, oo_memoryless := True, oo_reorder := True\<rparr>"

lemma demo_copies_accepted: "all_accepted demo_copies" "Suc (commandCount demo_copies) < u32_limit"
  by (simp_all add: all_accepted_def accepted_def demo_copies_def copy_command_def nth_Cons' empty_command_def)

lemma demo_copies_run:
  obtains g' stats' sink' where "runOptimizer True (buildFrameGraph demo_copies 3 no_alias) eager_options
    None None [] None = (g', stats', sink')"
  by (metis prod_cases3)

definition copy_body :: "nat \<Rightarrow> (ResourceHandle \<Rightarrow> nat option) \<Rightarrow> ResourceHandle \<Rightarrow> nat" where
  "copy_body i view h = (if i = 0 then the (view 5) else the (view 7))"

theorem optimizer_preserves_results_witness:
  "fold (run_command (command_footprint no_alias demo_copies) copy_body)
     (rp_command_indices (planReplayCommands (fst (runOptimizer True (buildFrameGraph demo_copies 3 no_alias)
        eager_options None None [] None)) demo_copies)) (\<lambda>h. if h = 5 then 1 else 0) 9 = 1"
proof (rule demo_copies_run)
  fix g' stats' sink'
  assume run: "runOptimizer True (buildFrameGraph demo_copies 3 no_alias) eager_options None None [] None =
    (g', stats', sink')"
  have "\<not> oo_dce eager_options" by (simp add: eager_options_def default_options_def)
  note P = optimizer_preserves_results [OF demo_copies_accepted(2,1) this run, of copy_body "\<lambda>h. if h = 5 then 1 else 0"]
  have "fold (run_command (command_footprint no_alias demo_copies) copy_body) [0..<commandCount demo_copies]
      (\<lambda>h. if h = 5 then 1 else 0) 9 = 1"
    by (simp add: demo_copies_def upt_rec run_command_def writes_def touches_def copy_body_def copy_command_def
        command_footprint_def footprint_def copy_keys_def access_keys_def empty_command_def
        resolveAlias_def no_alias_def)
  then show ?thesis using P run by simp
qed

theorem optimizer_replay_plan_witness:
  "rp_valid (planReplayCommands (fst (runOptimizer True (buildFrameGraph demo_copies 3 no_alias)
     eager_options None None [] None)) demo_copies) \<and>
   rp_command_indices (planReplayCommands (fst (runOptimizer True (buildFrameGraph demo_copies 3 no_alias)
     default_options None None [] None)) demo_copies) = [0, 1]"
proof
  obtain g' stats' sink' where run: "runOptimizer True (buildFrameGraph demo_copies 3 no_alias) eager_options
    None None [] None = (g', stats', sink')" by (rule demo_copies_run)
  from optimizer_replay_plan [OF demo_copies_accepted(2) run] demo_copies_accepted(1) run
  show "rp_valid (planReplayCommands (fst (runOptimizer True (buildFrameGraph demo_copies 3 no_alias)
     eager_options None None [] None)) demo_copies)" by simp
  obtain h' stats' sink' where run: "runOptimizer True (buildFrameGraph demo_copies 3 no_alias) default_options
    None None [] None = (h', stats', sink')" by (metis prod_cases3)
  have o: "\<not> oo_passcoalesce default_options" "\<not> oo_reorder default_options" "\<not> oo_dce default_options"
    by (simp_all add: default_options_def)
  let ?r = "planReplayCommands h' demo_copies"
  from optimizer_replay_plan [OF demo_copies_accepted(2) run] demo_copies_accepted(1) o
  have v: "rp_valid ?r" "mset (rp_command_indices ?r) = mset [0..<commandCount demo_copies]"
    "\<not> rp_reordered ?r" "distinct (rp_command_indices ?r)" by simp_all
  then have "sorted (rp_command_indices ?r)" using planReplay_result by blast
  then have "rp_command_indices ?r = [0..<commandCount demo_copies]"
    using v by (metis distinct_upt mset_eq_setD sorted_distinct_set_unique sorted_upt)
  then show "rp_command_indices (planReplayCommands (fst (runOptimizer True (buildFrameGraph demo_copies 3 no_alias)
     default_options None None [] None)) demo_copies) = [0, 1]"
    using run by (simp add: demo_copies_def upt_rec)
qed

end
