(* ===== verification/Fg_Dce_Limits.thy ===== *)
theory Fg_Dce_Limits
  imports Fg_Optimizer
begin

text \<open>
  The boundary of \<open>optimizer_preserves_results\<close>: dead-pass elimination looks for accesses of kind
  read or read-write only, but a draw's depth test loads the depth buffer that the builder logs
  as a plain write. The payload below draws a depth pre-pass, then the scene against the same
  depth buffer, then clears the depth and presents.
\<close>

definition draw_command :: "ResourceHandle list \<Rightarrow> ResourceHandle \<Rightarrow> SourceCommandView" where
  "draw_command colors depth = empty_command\<lparr>cmd_kind := CmdDrawRun, cmd_hot := Some \<lparr>
     hot_colorAttachments = map (\<lambda>h. \<lparr>att_handle = h, att_sampleCount = 1\<rparr>) colors,
     hot_depthStencil = \<lparr>att_handle = depth, att_sampleCount = 1\<rparr>,
     hot_textures = [], hot_textureMask = 0\<rparr>\<rparr>"

definition depth_clear_command :: "ResourceHandle \<Rightarrow> SourceCommandView" where
  "depth_clear_command depth = empty_command\<lparr>cmd_kind := CmdClear, cmd_clear := Some \<lparr>
     clr_colorAttachments = [], clr_depthStencil = \<lparr>att_handle = depth, att_sampleCount = 1\<rparr>,
     clr_clearColor = False, clr_clearDepth = True, clr_clearStencil = True, clr_rectCount = 0\<rparr>\<rparr>"

definition present_command :: "ResourceHandle \<Rightarrow> SourceCommandView" where
  "present_command h = empty_command\<lparr>cmd_kind := CmdPresent, cmd_presentSource := Some h\<rparr>"

definition prepass_payload :: SourcePayloadView where
  "prepass_payload = Some [draw_command [] 4, draw_command [3] 4, depth_clear_command 4, present_command 3]"

lemmas prepass_eval =
  prepass_payload_def draw_command_def depth_clear_command_def present_command_def
  builder_eval attachmentSetFromHot_def attachmentSetFromClear_def empty_targets_def
  openRenderPass_def recordAttachmentWrites_def recordTextureReads_def appendCommand_def
  appendDraw_def update_pass_def depthStencilClearCoversResource_def no_alias_def no_flags_def

lemma eight: "replicate 8 (0 :: ResourceHandle) = [0, 0, 0, 0, 0, 0, 0, 0]"
  by (simp add: numeral_eq_Suc)

lemmas optimizer_eval =
  runOptimizer_def runLifetime_def lifetimeNode_def accessSpan_def runDce_def dceStep_def
  passProtected_def judgeWrite_def passWrote_def readAfterWriteInChunk_def
  fullyOverwrittenLaterInChunk_def runLoadStore_def policyFor_def colorLoadFor_def colorStoreFor_def
  default_options_def default_policy_def no_classifier_def

definition prepass_result :: FrameGraph where
  "prepass_result = fst (runOptimizer True (buildFrameGraph prepass_payload 0 no_alias)
     (default_options\<lparr>oo_dce := True\<rparr>) None None [] None)"

lemma prepass_result_passes:
  "map (f_dead \<circ> p_flags) (g_passes prepass_result) = [True, False, False, False] \<and>
   map (ls_depth_load \<circ> p_load_store) (g_passes prepass_result) =
     [LoadLoad, LoadLoad, LoadClear, LoadDontCare] \<and>
   map cref_command_index (live_commands prepass_result) = [1, 2, 3]"
  by (simp add: prepass_result_def prepass_eval eight optimizer_eval live_commands_def
      del: upt_rec cong: let_weak_cong)

definition depth_body :: "nat \<Rightarrow> (ResourceHandle \<Rightarrow> nat option) \<Rightarrow> ResourceHandle \<Rightarrow> nat" where
  "depth_body i view h = (if i = 0 then 1 else if i = 1 then the (view 4) else 0)"

lemma prepass_footprints:
  "command_footprint no_alias prepass_payload 0 = {(4, AccWrite)}"
  "command_footprint no_alias prepass_payload (Suc 0) = {(3, AccWrite), (4, AccWrite)}"
  "command_footprint no_alias prepass_payload (Suc (Suc 0)) = {(4, AccClear)}"
  "command_footprint no_alias prepass_payload (Suc (Suc (Suc 0))) = {(3, AccRead)}"
  by (simp_all add: command_footprint_def footprint_def attach_keys_def texture_keys_def access_keys_def
      depthStencilKind_def prepass_eval eight insert_commute del: upt_rec cong: let_weak_cong)

text \<open>
  C25: dead-pass elimination can change the result. For the depth pre-pass payload, whose commands
  are all accepted, the optimizer with dead-pass elimination drops the pre-pass although the
  next pass loads the depth it wrote, and the replay computes a different colour target.
\<close>

theorem dce_drops_depth_prepass:
  "rp_valid (planReplayCommands prepass_result prepass_payload) \<and>
   rp_command_indices (planReplayCommands prepass_result prepass_payload) = [1, 2, 3] \<and>
   ls_depth_load (p_load_store (g_passes prepass_result ! 1)) = LoadLoad \<and>
   fold (run_command (command_footprint no_alias prepass_payload) depth_body)
     (rp_command_indices (planReplayCommands prepass_result prepass_payload)) (\<lambda>_. 0) 3 = 0 \<and>
   fold (run_command (command_footprint no_alias prepass_payload) depth_body)
     [0..<commandCount prepass_payload] (\<lambda>_. 0) 3 = 1"
proof -
  let ?r = "planReplayCommands prepass_result prepass_payload"
  have n: "commandCount prepass_payload = 4" by (simp add: prepass_payload_def)
  obtain stats sink where "runOptimizer True (buildFrameGraph prepass_payload 0 no_alias)
      (default_options\<lparr>oo_dce := True\<rparr>) None None [] None = (prepass_result, stats, sink)"
    by (metis prepass_result_def prod.collapse)
  note F = optimizer_plan_facts(1) [OF _ this]
  have "all_accepted prepass_payload"
    by (simp add: all_accepted_def accepted_def prepass_eval nth_Cons' del: upt_rec)
  then have v: "rp_valid ?r" using F n by simp
  have i: "rp_command_indices ?r = [1, 2, 3]"
    using planReplay_result [of prepass_result prepass_payload] v prepass_result_passes by simp
  have "ls_depth_load (p_load_store (g_passes prepass_result ! 1)) = LoadLoad"
  proof -
    have "map (ls_depth_load \<circ> p_load_store) (g_passes prepass_result) ! 1 = LoadLoad"
      using prepass_result_passes by simp
    moreover have "length (map (ls_depth_load \<circ> p_load_store) (g_passes prepass_result)) = 4"
      using prepass_result_passes by (simp only: length_Cons list.size)
    ultimately show ?thesis by simp
  qed
  moreover have "[0..<commandCount prepass_payload] = [0, 1, 2, 3]" unfolding n by (simp add: upt_rec)
  then show ?thesis using v i calculation
    by (simp add: run_command_def prepass_footprints writes_def touches_def depth_body_def
        numeral_2_eq_2 numeral_3_eq_3)
qed

end
