(* ===== verification/Fg_Seed.thy ===== *)
theory Fg_Seed
  imports Fg_Order
begin

text \<open>
  The active-render planning seed (\<^verbatim>\<open>applyActiveRenderPlanningSeed\<close> and
  \<^verbatim>\<open>activeRenderPlanningSeedProvesReplayHead\<close> of \<^verbatim>\<open>framegraph/fg_builder.cpp\<close>): a virtual first
  pass that stands for the render pass the encoder has already open. Prepending it keeps what
  the optimizer relies on, and the new edges order every hazard with the seed's writes.
\<close>

section \<open>The code\<close>

record ActiveRenderPlanningSeed =
  sd_targets :: AttachmentSet
  sd_write_dependencies :: "ResourceHandle list"
  sd_dependency_count :: nat
  sd_complete :: bool

datatype SeedResult = SeedApplied | SeedInvalid | SeedIncomplete | SeedOverflow

text \<open>The loop that canonicalises the dependencies; \<open>None\<close> is its early return.\<close>

fun canonicalDependencies :: "ResourceAliasResolver \<Rightarrow> ResourceHandle list \<Rightarrow> ResourceHandle list \<Rightarrow>
    ResourceHandle list option" where
  "canonicalDependencies ar [] dependencies = Some dependencies"
| "canonicalDependencies ar (raw # raws) dependencies =
     (let handle = resolveAlias ar raw in
      if handle = 0 then None
      else if handle \<in> set dependencies then canonicalDependencies ar raws dependencies
      else canonicalDependencies ar raws (dependencies @ [handle]))"

definition containsDependency :: "ResourceAliasResolver \<Rightarrow> ResourceHandle list \<Rightarrow> ResourceHandle \<Rightarrow> bool" where
  "containsDependency ar dependencies raw =
     (if raw = 0 then True else resolveAlias ar raw \<in> set dependencies)"

definition addSeedEdgeOnce :: "nat \<Rightarrow> ResourceHandle \<Rightarrow> Edge list \<Rightarrow> Edge list" where
  "addSeedEdgeOnce dst h es =
     (if dst = 0 then es
      else if \<exists>e \<in> set es. e_src_pass e = 0 \<and> e_dst_pass e = dst \<and> e_resource e = h then es
      else es @ [\<lparr>e_src_pass = 0, e_dst_pass = dst, e_resource = h\<rparr>])"

text \<open>The loop over a log up to and including its first write.\<close>

fun seedEdges :: "ResourceHandle \<Rightarrow> AccessLog list \<Rightarrow> Edge list \<Rightarrow> Edge list" where
  "seedEdges h [] es = es"
| "seedEdges h (a # as) es =
     (let reads = accessReads (a_access_kind a); writes = accessWrites (a_access_kind a);
          es = (if reads \<or> writes then addSeedEdgeOnce (a_pass_index a) h es else es)
      in if writes then es else seedEdges h as es)"

definition seed_write :: AccessLog where
  "seed_write = \<lparr>a_pass_index = 0, a_access_kind = AccWrite, a_stage = StageFragment\<rparr>"

definition seedDependency :: "ResourceHandle \<Rightarrow> FrameGraph \<Rightarrow> FrameGraph" where
  "seedDependency handle g =
     (let i = findResourceIndex g handle;
          g = (if i = length (g_resources g)
               then g\<lparr>g_resources := g_resources g @ [default_resource handle]\<rparr> else g);
          node = g_resources g ! i
      in g\<lparr>g_edges := seedEdges handle (r_accesses node) (g_edges g),
           g_resources := (g_resources g)[i := node\<lparr>r_accesses := seed_write # r_accesses node\<rparr>]\<rparr>)"

definition shift_access :: "AccessLog \<Rightarrow> AccessLog" where
  "shift_access a = a\<lparr>a_pass_index := Suc (a_pass_index a)\<rparr>"

definition shift_edge :: "Edge \<Rightarrow> Edge" where
  "shift_edge e = e\<lparr>e_src_pass := Suc (e_src_pass e), e_dst_pass := Suc (e_dst_pass e)\<rparr>"

definition prependVirtualPass :: "AttachmentSet \<Rightarrow> FrameGraph \<Rightarrow> FrameGraph" where
  "prependVirtualPass targets g = g\<lparr>
     g_resources := map (\<lambda>n. n\<lparr>r_accesses := map shift_access (r_accesses n)\<rparr>) (g_resources g),
     g_edges := map shift_edge (g_edges g),
     g_passes := default_pass\<lparr>p_kind := PassRender, p_targets := targets,
        p_flags := no_flags\<lparr>f_active_render_seed := True\<rparr>\<rparr> # g_passes g\<rparr>"

definition applyActiveRenderPlanningSeed ::
  "FrameGraph \<Rightarrow> ActiveRenderPlanningSeed \<Rightarrow> ResourceAliasResolver \<Rightarrow> FrameGraph \<times> SeedResult" where
  "applyActiveRenderPlanningSeed g seed ar =
     (let targets = sd_targets seed in
      if \<not> sd_complete seed then (g, SeedIncomplete)
      else if sd_dependency_count seed > length (sd_write_dependencies seed) then (g, SeedOverflow)
      else if t_color_count targets > length (t_color targets) \<or> t_sample_count targets = 0 \<or>
          sd_dependency_count seed = 0 \<or> (t_color_count targets = 0 \<and> t_depth targets = 0)
      then (g, SeedInvalid)
      else case canonicalDependencies ar (take (sd_dependency_count seed) (sd_write_dependencies seed)) [] of
        None \<Rightarrow> (g, SeedIncomplete)
      | Some dependencies \<Rightarrow>
          if \<exists>i \<in> set [0..<t_color_count targets]. \<not> containsDependency ar dependencies (t_color targets ! i)
          then (g, SeedIncomplete)
          else if \<not> containsDependency ar dependencies (t_depth targets) then (g, SeedIncomplete)
          else if length (g_passes g) \<ge> UINT32_MAX then (g, SeedOverflow)
          else if \<exists>n \<in> set (g_resources g). \<exists>a \<in> set (r_accesses n). a_pass_index a = UINT32_MAX
          then (g, SeedOverflow)
          else if \<exists>e \<in> set (g_edges g). e_src_pass e = UINT32_MAX \<or> e_dst_pass e = UINT32_MAX
          then (g, SeedOverflow)
          else (fold seedDependency dependencies (prependVirtualPass targets g), SeedApplied))"

text \<open>The first live, non-empty seed pass decides; there is no proof without one.\<close>

fun seedHead :: "FrameGraph \<Rightarrow> PassNode list \<Rightarrow> nat \<Rightarrow> bool" where
  "seedHead g [] replay_head_command = False"
| "seedHead g (pass # passes) replay_head_command =
     (if \<not> f_active_render_seed (p_flags pass) \<or> f_dead (p_flags pass) \<or> p_kind pass \<noteq> PassRender \<or>
         rg_count (p_commands pass) = 0 \<or> rg_first (p_commands pass) \<ge> length (g_commands g) \<or>
         rg_count (p_commands pass) > length (g_commands g) - rg_first (p_commands pass)
      then seedHead g passes replay_head_command
      else cref_command_index (g_commands g ! rg_first (p_commands pass)) = replay_head_command)"

definition activeRenderPlanningSeedProvesReplayHead :: "FrameGraph \<Rightarrow> nat \<Rightarrow> bool" where
  "activeRenderPlanningSeedProvesReplayHead g replay_head_command =
     seedHead g (g_passes g) replay_head_command"

section \<open>The dependencies\<close>

lemma canonicalDependencies_spec:
  "canonicalDependencies ar raws ds = Some ds' \<Longrightarrow> distinct ds \<Longrightarrow> 0 \<notin> set ds \<Longrightarrow>
     distinct ds' \<and> 0 \<notin> set ds' \<and> set ds' = set ds \<union> resolveAlias ar ` set raws"
  by (induction ar raws ds rule: canonicalDependencies.induct) (auto split: if_splits)

section \<open>The edges of one dependency\<close>

definition edge_pairs :: "Edge list \<Rightarrow> (nat \<times> nat) set" where
  "edge_pairs es = (\<lambda>e. (e_src_pass e, e_dst_pass e)) ` set es"

lemma edge_rel_pairs: "edge_rel g = edge_pairs (g_edges g)"
  by (simp add: edge_rel_alt edge_pairs_def)

lemma edge_pairs_addSeedEdgeOnce:
  "edge_pairs (addSeedEdgeOnce dst h es) = edge_pairs es \<union> (if dst = 0 then {} else {(0, dst)})"
  by (auto simp: addSeedEdgeOnce_def edge_pairs_def image_iff)

definition touching :: "AccessLog \<Rightarrow> bool" where
  "touching a = (accessReads (a_access_kind a) \<or> accessWrites (a_access_kind a))"

lemma seedEdges_pairs:
  "edge_pairs es \<subseteq> edge_pairs (seedEdges h as es) \<and>
   edge_pairs (seedEdges h as es) \<subseteq> edge_pairs es \<union> {(0, a_pass_index a) | a. a \<in> set as \<and> a_pass_index a \<noteq> 0}"
proof (induction h as es rule: seedEdges.induct)
  case (1 h es)
  then show ?case by simp
next
  case (2 h a as es)
  let ?es = "if touching a then addSeedEdgeOnce (a_pass_index a) h es else es"
  have e: "edge_pairs es \<subseteq> edge_pairs ?es"
    "edge_pairs ?es \<subseteq> edge_pairs es \<union> {(0, a_pass_index a) | a'. a_pass_index a \<noteq> 0}"
    by (auto simp: edge_pairs_addSeedEdgeOnce split: if_splits)
  show ?case
  proof (cases "accessWrites (a_access_kind a)")
    case True
    then have "seedEdges h (a # as) es = ?es" by (simp add: touching_def)
    with e show ?thesis by auto
  next
    case False
    then have "seedEdges h (a # as) es = seedEdges h as ?es" by (simp add: touching_def)
    moreover have "edge_pairs ?es \<subseteq> edge_pairs (seedEdges h as ?es) \<and> edge_pairs (seedEdges h as ?es) \<subseteq>
        edge_pairs ?es \<union> {(0, a_pass_index a) | a. a \<in> set as \<and> a_pass_index a \<noteq> 0}"
      using 2 [OF refl refl refl] False by (simp add: touching_def)
    ultimately show ?thesis using e by fastforce
  qed
qed

text \<open>Every access up to the first write gets its edge; later ones are reached through it.\<close>

lemma seedEdges_reach:
  assumes "j < length as" and "touching (as ! j)" and "\<forall>a \<in> set as. a_pass_index a \<noteq> 0"
    and "log_covered E as" and "E \<subseteq> F" and "edge_pairs (seedEdges h as es) \<subseteq> F"
  shows "(0, a_pass_index (as ! j)) \<in> F\<^sup>*"
  using assms
proof (induction h as es arbitrary: j rule: seedEdges.induct)
  case (1 h es)
  then show ?case by simp
next
  case (2 h a as es)
  let ?es = "if touching a then addSeedEdgeOnce (a_pass_index a) h es else es"
  have first: "(0, a_pass_index a) \<in> F" if "touching a"
  proof -
    have "(0, a_pass_index a) \<in> edge_pairs ?es"
      using that 2(4) by (simp add: edge_pairs_addSeedEdgeOnce)
    also have "edge_pairs ?es \<subseteq> edge_pairs (seedEdges h (a # as) es)"
    proof (cases "accessWrites (a_access_kind a)")
      case True
      then show ?thesis by (simp add: touching_def)
    next
      case False
      then have "seedEdges h (a # as) es = seedEdges h as ?es" by (simp add: touching_def)
      then show ?thesis using seedEdges_pairs [of ?es h as] by (simp only: simp_thms)
    qed
    finally show ?thesis using 2(7) by blast
  qed
  show ?case
  proof (cases j)
    case 0
    then show ?thesis using first 2(3) by auto
  next
    case (Suc i)
    show ?thesis
    proof (cases "accessWrites (a_access_kind a)")
      case True
      then have "conflicting (a_access_kind ((a # as) ! 0)) (a_access_kind ((a # as) ! j))"
        using 2(3) by (auto simp: conflicting_def touching_def)
      then have "(a_pass_index a, a_pass_index ((a # as) ! j)) \<in> E\<^sup>*"
        using 2(2,5) Suc unfolding log_covered_def by (metis nth_Cons_0 zero_less_Suc)
      moreover have "(0, a_pass_index a) \<in> F" using True by (intro first) (simp add: touching_def)
      ultimately show ?thesis using rtrancl_mono [OF 2(6)] by (meson converse_rtrancl_into_rtrancl subsetD)
    next
      case False
      have "log_covered E as"
        unfolding log_covered_def
      proof (intro allI impI)
        fix i j assume "i < j" "j < length as" "conflicting (a_access_kind (as ! i)) (a_access_kind (as ! j))"
        then show "(a_pass_index (as ! i), a_pass_index (as ! j)) \<in> E\<^sup>*"
          using 2(5) unfolding log_covered_def
          by (metis Suc_less_eq length_Cons nth_Cons_Suc)
      qed
      moreover have "seedEdges h (a # as) es = seedEdges h as ?es" using False by (simp add: touching_def)
      ultimately show ?thesis
        using 2(1) [OF refl refl refl, of i] False 2(2-7) Suc by (simp add: touching_def)
    qed
  qed
qed

section \<open>All dependencies\<close>

lemma log_of_prepend: "log_of (prependVirtualPass t g) h = map shift_access (log_of g h)"
proof -
  let ?f = "\<lambda>n. n\<lparr>r_accesses := map shift_access (r_accesses n)\<rparr>"
  have "find_index_from 0 (map ?f (g_resources g)) h = find_index_from 0 (g_resources g) h"
    by (rule find_index_cong) simp
  then show ?thesis by (simp add: log_of_def log_in_def prependVirtualPass_def)
qed

lemma seedDependency_frame [simp]:
  "g_passes (seedDependency d g) = g_passes g" "g_commands (seedDependency d g) = g_commands g"
  "g_draws (seedDependency d g) = g_draws g"
  by (simp_all add: seedDependency_def)

lemma seedDependency_spec:
  "log_of (seedDependency d g) h = (if h = d then seed_write # log_of g d else log_of g h)"
  "g_edges (seedDependency d g) = seedEdges d (log_of g d) (g_edges g)"
proof -
  let ?i = "findResourceIndex g d"
  define rs where "rs = (if ?i = length (g_resources g) then g_resources g @ [default_resource d] else g_resources g)"
  have L: "log_in rs k = log_of g k" for k
    using log_in_append [of "default_resource d" "g_resources g" k]
    by (simp add: rs_def log_of_def default_resource_def)
  have i: "find_index_from 0 rs d = ?i" "?i < length rs"
    using find_index_from_bounds [of 0 "g_resources g" d] find_index_from_absent [of 0 "g_resources g" d]
    by (auto simp: rs_def findResourceIndex_def find_index_append default_resource_def)
  then have h: "r_handle (rs ! ?i) = d" using find_index_from_found [of 0 rs d] by simp
  have acc: "r_accesses (rs ! ?i) = log_of g d" using L [of d] i by (simp add: log_in_def)
  have e: "seedDependency d g = g\<lparr>g_edges := seedEdges d (r_accesses (rs ! ?i)) (g_edges g),
      g_resources := rs[?i := (rs ! ?i)\<lparr>r_accesses := seed_write # r_accesses (rs ! ?i)\<rparr>]\<rparr>"
    by (simp add: seedDependency_def rs_def)
  show "g_edges (seedDependency d g) = seedEdges d (log_of g d) (g_edges g)" by (simp add: e acc)
  show "log_of (seedDependency d g) h = (if h = d then seed_write # log_of g d else log_of g h)"
    using log_in_update [OF i(1,2), of "(rs ! ?i)\<lparr>r_accesses := seed_write # r_accesses (rs ! ?i)\<rparr>" h] h L [of h]
    by (simp add: e log_of_def [of "g\<lparr>g_edges := x, g_resources := y\<rparr>" for x y] acc)
qed

definition seed_targets :: "FrameGraph \<Rightarrow> ResourceHandle set \<Rightarrow> (nat \<times> nat) set" where
  "seed_targets g ds = {(0, a_pass_index a) | d a. d \<in> ds \<and> a \<in> set (log_of g d) \<and> a_pass_index a \<noteq> 0}"

lemma seed_fold:
  assumes "distinct ds" and "g' = fold seedDependency ds g"
  shows "g_passes g' = g_passes g \<and> g_commands g' = g_commands g \<and> g_draws g' = g_draws g \<and>
    (\<forall>h. log_of g' h = (if h \<in> set ds then seed_write # log_of g h else log_of g h)) \<and>
    edge_rel g \<subseteq> edge_rel g' \<and> edge_rel g' \<subseteq> edge_rel g \<union> seed_targets g (set ds)"
  using assms
proof (induction ds arbitrary: g)
  case Nil
  then show ?case by simp
next
  case (Cons d ds)
  let ?g = "seedDependency d g"
  have IH: "g_passes g' = g_passes ?g \<and> g_commands g' = g_commands ?g \<and> g_draws g' = g_draws ?g \<and>
    (\<forall>h. log_of g' h = (if h \<in> set ds then seed_write # log_of ?g h else log_of ?g h)) \<and>
    edge_rel ?g \<subseteq> edge_rel g' \<and> edge_rel g' \<subseteq> edge_rel ?g \<union> seed_targets ?g (set ds)"
    using Cons by simp
  have logs: "log_of ?g h = log_of g h" if "h \<in> set ds" for h
    using that Cons.prems(1) by (auto simp: seedDependency_spec)
  then have "seed_targets ?g (set ds) = seed_targets g (set ds)"
    unfolding seed_targets_def by fastforce
  then have up: "edge_rel g' \<subseteq> edge_rel ?g \<union> seed_targets g (set ds)" using IH by simp
  have lo: "edge_rel g \<subseteq> edge_rel ?g" and mid: "edge_rel ?g \<subseteq> edge_rel g \<union> seed_targets g {d}"
    using seedEdges_pairs [of "g_edges g" d "log_of g d"]
    by (auto simp: edge_rel_pairs seedDependency_spec seed_targets_def)
  have "seed_targets g {d} \<union> seed_targets g (set ds) = seed_targets g (set (d # ds))"
    by (auto simp: seed_targets_def)
  then have "edge_rel g' \<subseteq> edge_rel g \<union> seed_targets g (set (d # ds))" using up mid by blast
  moreover have "edge_rel g \<subseteq> edge_rel g'" using lo IH by blast
  moreover have "\<forall>h. log_of g' h = (if h \<in> set (d # ds) then seed_write # log_of g h else log_of g h)"
    using IH Cons.prems(1) by (auto simp: seedDependency_spec)
  ultimately show ?case using IH by simp
qed

lemma seed_fold_reach:
  assumes "distinct ds" and "d \<in> set ds" and "a \<in> set (log_of g d)" and "touching a"
    and "\<forall>h. \<forall>a \<in> set (log_of g h). a_pass_index a \<noteq> 0" and "\<forall>h. log_covered (edge_rel g) (log_of g h)"
  shows "(0, a_pass_index a) \<in> (edge_rel (fold seedDependency ds g))\<^sup>*"
proof -
  obtain us vs where ds: "ds = us @ d # vs" using assms(2) by (auto simp: in_set_conv_decomp)
  define g1 where "g1 = fold seedDependency us g"
  have d: "distinct us" "d \<notin> set us" "distinct vs" using assms(1) ds by auto
  have "log_of g1 d = log_of g d" and E: "edge_rel g \<subseteq> edge_rel g1"
    using seed_fold [OF d(1) g1_def] d by auto
  then have edges: "edge_rel (seedDependency d g1) = edge_pairs (seedEdges d (log_of g d) (g_edges g1))"
    by (simp add: edge_rel_pairs seedDependency_spec)
  have split: "fold seedDependency ds g = fold seedDependency vs (seedDependency d g1)" by (simp add: ds g1_def)
  have F: "edge_rel (seedDependency d g1) \<subseteq> edge_rel (fold seedDependency ds g)"
    unfolding split using seed_fold [OF d(3) refl, of "seedDependency d g1"] by blast
  have "edge_rel g1 \<subseteq> edge_rel (seedDependency d g1)"
    using seedEdges_pairs [of "g_edges g1" d "log_of g d"] by (simp add: edges edge_rel_pairs [of g1])
  then have "edge_rel g \<subseteq> edge_rel (fold seedDependency ds g)" using E F by (meson subset_trans)
  moreover obtain j where "j < length (log_of g d)" "log_of g d ! j = a"
    using assms(3) by (auto simp: in_set_conv_nth)
  ultimately show ?thesis
    using seedEdges_reach [of j "log_of g d" "edge_rel g" "edge_rel (fold seedDependency ds g)" d "g_edges g1"]
      assms(4-6) F by (simp add: edges)
qed

section \<open>The virtual pass in front\<close>

lemma prepend_groups:
  "groups (prependVirtualPass t g) = [] # groups g"
  "cmd_ranges (prependVirtualPass t g) = (0, 0) # cmd_ranges g"
  "draw_ranges (prependVirtualPass t g) = (0, 0) # draw_ranges g"
  by (simp_all add: groups_def cmd_ranges_def draw_ranges_def prependVirtualPass_def pass_commands_def
      gather_def default_pass_def)

lemma prepend_edges: "edge_rel (prependVirtualPass t g) = (\<lambda>(s, d). (Suc s, Suc d)) ` edge_rel g"
  by (auto simp: edge_rel_alt prependVirtualPass_def shift_edge_def image_image)

lemma shift_path: "(p, q) \<in> E\<^sup>* \<Longrightarrow> (Suc p, Suc q) \<in> ((\<lambda>(s, d). (Suc s, Suc d)) ` E)\<^sup>*"
proof (induction rule: rtrancl_induct)
  case base
  then show ?case by simp
next
  case (step y z)
  then have "(Suc y, Suc z) \<in> (\<lambda>(s, d). (Suc s, Suc d)) ` E" by force
  with step(3) show ?case by (rule rtrancl_into_rtrancl)
qed

lemma prepend_log_covered:
  assumes "log_covered (edge_rel g) (log_of g h)"
  shows "log_covered (edge_rel (prependVirtualPass t g)) (log_of (prependVirtualPass t g) h)"
  using assms shift_path unfolding log_covered_def log_of_prepend prepend_edges
  by (simp add: shift_access_def)

lemma log_covered_Cons:
  assumes "log_covered F as" and "\<And>a. a \<in> set as \<Longrightarrow> touching a \<Longrightarrow> (0, a_pass_index a) \<in> F\<^sup>*"
  shows "log_covered F (seed_write # as)"
  unfolding log_covered_def
proof (intro allI impI)
  fix i j assume ij: "i < j" "j < length (seed_write # as)"
    and c: "conflicting (a_access_kind ((seed_write # as) ! i)) (a_access_kind ((seed_write # as) ! j))"
  obtain j' where j': "j = Suc j'" using ij by (cases j) auto
  show "(a_pass_index ((seed_write # as) ! i), a_pass_index ((seed_write # as) ! j)) \<in> F\<^sup>*"
  proof (cases i)
    case 0
    then have "touching (as ! j')" using c j' by (auto simp: seed_write_def conflicting_def touching_def)
    with assms(2) [of "as ! j'"] ij j' 0 show ?thesis by (simp add: seed_write_def)
  next
    case (Suc i')
    then show ?thesis using assms(1) ij c j' by (simp add: log_covered_def)
  qed
qed

text \<open>The canonical handles a seed names.\<close>

definition seed_handles :: "ResourceAliasResolver \<Rightarrow> ActiveRenderPlanningSeed \<Rightarrow> ResourceHandle set" where
  "seed_handles ar seed =
     resolveAlias ar ` set (take (sd_dependency_count seed) (sd_write_dependencies seed))"

lemma apply_seed_cases:
  assumes "applyActiveRenderPlanningSeed g seed ar = (g', r)"
  obtains "r \<noteq> SeedApplied" "g' = g"
  | ds where "r = SeedApplied" "g' = fold seedDependency ds (prependVirtualPass (sd_targets seed) g)"
      "distinct ds" "0 \<notin> set ds" "set ds = seed_handles ar seed" "length (g_passes g) < UINT32_MAX"
proof -
  let ?raws = "take (sd_dependency_count seed) (sd_write_dependencies seed)"
  show thesis
  proof (cases "canonicalDependencies ar ?raws []")
    case None
    then have "r \<noteq> SeedApplied \<and> g' = g"
      using assms by (auto simp: applyActiveRenderPlanningSeed_def split: if_splits)
    then show thesis using that(1) by blast
  next
    case (Some ds)
    have d: "distinct ds" "0 \<notin> set ds" "set ds = seed_handles ar seed"
      using canonicalDependencies_spec [OF Some] unfolding seed_handles_def
      by (metis distinct.simps(1) empty_iff empty_set sup_bot_left)+
    from assms Some have "(r \<noteq> SeedApplied \<and> g' = g) \<or>
        (r = SeedApplied \<and> g' = fold seedDependency ds (prependVirtualPass (sd_targets seed) g) \<and>
         length (g_passes g) < UINT32_MAX)"
      unfolding applyActiveRenderPlanningSeed_def by (auto simp: not_le split: if_splits)
    then show thesis using that(1) that(2) [OF _ _ d] by blast
  qed
qed

text \<open>The property below; the multi-source planner rests on the same facts.\<close>

lemma seed_facts:
  assumes ok: "graph_ok g" and t: "tiling g" and a: "applyActiveRenderPlanningSeed g seed ar = (g', r)"
  shows "(r \<noteq> SeedApplied \<longrightarrow> g' = g) \<and>
    (r = SeedApplied \<longrightarrow> g_passes g' = g_passes (prependVirtualPass (sd_targets seed) g) \<and>
      g_commands g' = g_commands g \<and> tiling g' \<and> groups g' = [] # groups g \<and>
      forward (edge_rel g') (length (g_passes g')) \<and>
      (\<forall>h. log_of g' h = (if h \<in> seed_handles ar seed then [seed_write] else []) @
         map shift_access (log_of g h)) \<and>
      (\<forall>h. log_covered (edge_rel g') (log_of g' h)) \<and>
      (\<forall>R. hazard_ok R g \<longrightarrow> hazard_ok R g'))"
  using a
proof (cases rule: apply_seed_cases)
  case 1
  then show ?thesis by simp
next
  case (2 ds)
  let ?g0 = "prependVirtualPass (sd_targets seed) g"
  note S = seed_fold [OF 2(3,2)]
  have frame: "g_passes g' = g_passes ?g0" "g_commands g' = g_commands g" "g_draws g' = g_draws g"
    using S by (simp_all add: prependVirtualPass_def)
  have gr: "groups g' = [] # groups g" "cmd_ranges g' = (0, 0) # cmd_ranges g" "draw_ranges g' = (0, 0) # draw_ranges g"
    using prepend_groups [of "sd_targets seed" g] frame
    by (simp_all add: groups_def cmd_ranges_def draw_ranges_def pass_commands_def prependVirtualPass_def)
  then have tg: "tiling g'" using t frame by (simp add: tiling_def)
  have n: "length (g_passes g') = Suc (length (g_passes g))" using frame by (simp add: prependVirtualPass_def)
  have log: "log_of g' h = (if h \<in> seed_handles ar seed then [seed_write] else []) @ map shift_access (log_of g h)" for h
    using S 2(5) by (simp add: log_of_prepend)
  have range: "a_pass_index a \<noteq> 0 \<and> a_pass_index a \<le> length (g_passes g)" if "a \<in> set (log_of ?g0 h)" for a h
    using that graph_ok_logD(2) [OF ok, of _ h] by (force simp: log_of_prepend shift_access_def)
  have E: "edge_rel ?g0 \<subseteq> edge_rel g'" "edge_rel g' \<subseteq> edge_rel ?g0 \<union> seed_targets ?g0 (set ds)"
    using S by blast+
  have fwd0: "forward (edge_rel ?g0) (Suc (length (g_passes g)))"
    unfolding prepend_edges forward_def
    using ok by (auto simp: graph_ok_def edge_ok_def edge_rel_alt)
  have fwd: "forward (edge_rel g') (length (g_passes g'))"
    unfolding forward_def
  proof clarify
    fix p q assume "(p, q) \<in> edge_rel g'"
    then consider "(p, q) \<in> edge_rel ?g0" | "(p, q) \<in> seed_targets ?g0 (set ds)" using E(2) by blast
    then show "p < q \<and> q < length (g_passes g')"
    proof cases
      case 1
      then show ?thesis using fwd0 n by (auto simp: forward_def)
    next
      case 2
      then show ?thesis using range n by (fastforce simp: seed_targets_def)
    qed
  qed
  have cov0: "\<forall>h. log_covered (edge_rel ?g0) (log_of ?g0 h)"
    using graph_ok_logD(3) [OF ok] prepend_log_covered by blast
  have cov: "log_covered (edge_rel g') (log_of g' h)" for h
  proof -
    have c: "log_covered (edge_rel g') (log_of ?g0 h)" using cov0 E(1) log_covered_mono by blast
    show ?thesis
    proof (cases "h \<in> set ds")
      case False
      then show ?thesis using c 2(5) by (simp add: log log_of_prepend)
    next
      case True
      have "(0, a_pass_index a) \<in> (edge_rel g')\<^sup>*" if "a \<in> set (log_of ?g0 h)" "touching a" for a
        unfolding 2(2) using seed_fold_reach [OF 2(3) True that _ cov0] range by blast
      then have "log_covered (edge_rel g') (seed_write # log_of ?g0 h)" using c by (intro log_covered_Cons)
      then show ?thesis using True 2(5) by (simp add: log log_of_prepend)
    qed
  qed
  have hz: "hazard_ok R g'" if h: "hazard_ok R g" for R
  proof -
    have "ordered R (groups g') (edge_rel g')"
    proof (rule ordered_remap [of R "groups g" "edge_rel g" "groups g'" Suc])
      show "ordered R (groups g) (edge_rel g)" "forward (edge_rel g) (length (groups g))"
        using h by (simp_all add: hazard_ok_def)
      show "\<exists>p<length (groups g). Suc p = q \<and> c \<in> set (groups g ! p)"
        if "q < length (groups g')" "c \<in> set (groups g' ! q)" for q c
        using that by (cases q) (simp_all add: gr(1))
      show "Suc p = Suc q \<or> (Suc p, Suc q) \<in> edge_rel g'" if "(p, q) \<in> edge_rel g" for p q
        using that E(1) by (force simp: prepend_edges)
    qed (simp_all add: gr(1))
    then show ?thesis using fwd by (simp add: hazard_ok_def)
  qed
  show ?thesis using 2(1) frame(1,2) tg gr(1) fwd log cov hz by blast
qed

text \<open>
  C21: the active-render seed. A seed that is not applied leaves the graph untouched. An applied seed
  prepends one commandless pass to the passes of a built graph; every log starts with the
  seed's write when the seed names the resource, the edges still point forward, and they order
  every two conflicting accesses, those with the seed's writes included; the order of commands
  that the graph guaranteed is still guaranteed.
\<close>

theorem seed_orders_hazards:
  assumes ok: "graph_ok g" and t: "tiling g" and a: "applyActiveRenderPlanningSeed g seed ar = (g', r)"
  shows "(r \<noteq> SeedApplied \<longrightarrow> g' = g) \<and>
    (r = SeedApplied \<longrightarrow> tiling g' \<and> groups g' = [] # groups g \<and>
      forward (edge_rel g') (length (g_passes g')) \<and>
      (\<forall>h. log_of g' h = (if h \<in> seed_handles ar seed then [seed_write] else []) @
         map shift_access (log_of g h)) \<and>
      (\<forall>h. log_covered (edge_rel g') (log_of g' h)) \<and>
      (\<forall>R. hazard_ok R g \<longrightarrow> hazard_ok R g'))"
  using seed_facts [OF assms] by blast

definition depth_seed :: ActiveRenderPlanningSeed where
  "depth_seed = \<lparr>sd_targets = empty_targets\<lparr>t_depth := 5\<rparr>, sd_write_dependencies = [5, 0],
     sd_dependency_count = 1, sd_complete = True\<rparr>"

theorem seed_orders_hazards_witness:
  "snd (applyActiveRenderPlanningSeed (buildFrameGraph demo_copies 3 no_alias) depth_seed no_alias) = SeedApplied \<and>
   tiling (fst (applyActiveRenderPlanningSeed (buildFrameGraph demo_copies 3 no_alias) depth_seed no_alias))"
proof -
  have "Suc (commandCount demo_copies) < u32_limit" by (simp add: demo_copies_def)
  then obtain b where b: "built no_alias demo_copies (commandCount demo_copies) b"
    "buildFrameGraph demo_copies 3 no_alias = b_graph b" using built_buildFrameGraph by metis
  then have ok: "graph_ok (buildFrameGraph demo_copies 3 no_alias)" "tiling (buildFrameGraph demo_copies 3 no_alias)"
    by (simp_all add: built_def)
  obtain g' r where a: "applyActiveRenderPlanningSeed (buildFrameGraph demo_copies 3 no_alias) depth_seed no_alias = (g', r)"
    by force
  have "snd (applyActiveRenderPlanningSeed (buildFrameGraph demo_copies 3 no_alias) depth_seed no_alias) = SeedApplied"
    by (simp add: applyActiveRenderPlanningSeed_def depth_seed_def empty_targets_def containsDependency_def
        resolveAlias_def no_alias_def builder_eval demo_copies_def copy_command_def cong: let_weak_cong)
  then show ?thesis using seed_orders_hazards [OF ok a] a by simp
qed

end
