(* ===== verification/Fg_Multi_Source.thy ===== *)
theory Fg_Multi_Source
  imports Fg_Optimizer Fg_Seed
begin

text \<open>
  The multi-source planner (\<^verbatim>\<open>framegraph/fg_multi_source_planner.cpp\<close>): validation of a window of
  source payloads, the combined frame graph with its re-inferred hazards, the natural first-in
  first-out plan, the exact-permutation validator, the pass-coalescing planner with its
  diagnostics, and the conversion of a plan into source-local runs. This theory holds the code;
  \<open>Fg_Multi_Validate\<close>, \<open>Fg_Multi_Combine\<close>, \<open>Fg_Multi_Plan\<close> and \<open>Fg_Multi_Runs\<close> hold the proofs.
\<close>

section \<open>Sources and plans\<close>

type_synonym MultiSourcePlanningSource = SourcePayloadView

abbreviation kMaxMultiSourcePlanningSources :: nat where
  "kMaxMultiSourcePlanningSources \<equiv> 8"

record RetainedSourceCommandLocator =
  lc_retainedSourceIndex :: nat
  lc_commandIndex :: nat

datatype MultiSourceReplayValidation =
    MsvValid | MsvInvalidSource | MsvInvalidCommand | MsvDuplicate | MsvMissing
  | MsvNonDrawCrossSourceMovement

datatype MultiSourceReplayDisposition = MsdPlanned | MsdNaturalFifo | MsdInvalidInput

datatype MultiSourceSeedApplyDiagnostic =
    SadNotRequested | SadApplied | SadInvalid | SadIncomplete | SadOverflow

datatype MultiSourceActiveTargetMatchDiagnostic = AtmNotRequested | AtmAbsent | AtmPresent

datatype MultiSourceFirstMatchingCommandDiagnostic = FmcNone | FmcDrawRun | FmcNonDraw

datatype MultiSourceMergeDiagnostic = MrgNone | MrgSeedMerged | MrgNonSeedOnly

datatype MultiSourcePlannerOutcome =
    OutInvalidInput | OutSeedRejected | OutNoActiveTargetMatch | OutNoMerge
  | OutNaturalAfterMerge | OutPermutationRejected | OutMovedHeadUnproved | OutPlanned

record ActiveSeedMergeTargetWitness =
  tw_retainedSourceIndex :: nat
  tw_commandIndex :: nat
  tw_mergeOrdinal :: nat
  tw_mergeDistance :: nat

record MultiSourceReplayDiagnostics =
  dg_seedApply :: MultiSourceSeedApplyDiagnostic
  dg_activeTargetMatch :: MultiSourceActiveTargetMatchDiagnostic
  dg_firstMatchingCommand :: MultiSourceFirstMatchingCommandDiagnostic
  dg_merge :: MultiSourceMergeDiagnostic
  dg_outcome :: MultiSourcePlannerOutcome
  dg_firstMatchingPassDistance :: nat
  dg_optimizerMergeCount :: u32
  dg_activeSeedMergeCount :: u32
  dg_activeSeedMergeDistanceTotal :: u64
  dg_activeSeedMergeDistanceMax :: u32
  dg_activeSeedCommandBefore :: u64
  dg_activeSeedCommandAfter :: u64
  dg_activeSeedEmptyIntervening :: u64
  dg_seedSecondNonDraw :: bool
  dg_seedBlockedCycle :: bool
  dg_interveningNonRender :: bool
  dg_activeSeedMergeAttributionMissing :: bool
  dg_activeSeedMergeWitnesses :: "ActiveSeedMergeTargetWitness list"
  dg_activeSeedMergeWitnessOverflow :: bool
  dg_activeSeedMergeWitnessMismatch :: bool

definition no_diagnostics :: MultiSourceReplayDiagnostics where
  "no_diagnostics = \<lparr>dg_seedApply = SadNotRequested, dg_activeTargetMatch = AtmNotRequested,
     dg_firstMatchingCommand = FmcNone, dg_merge = MrgNone, dg_outcome = OutInvalidInput,
     dg_firstMatchingPassDistance = 0, dg_optimizerMergeCount = 0, dg_activeSeedMergeCount = 0,
     dg_activeSeedMergeDistanceTotal = 0, dg_activeSeedMergeDistanceMax = 0,
     dg_activeSeedCommandBefore = 0, dg_activeSeedCommandAfter = 0,
     dg_activeSeedEmptyIntervening = 0, dg_seedSecondNonDraw = False,
     dg_seedBlockedCycle = False, dg_interveningNonRender = False,
     dg_activeSeedMergeAttributionMissing = False, dg_activeSeedMergeWitnesses = [],
     dg_activeSeedMergeWitnessOverflow = False, dg_activeSeedMergeWitnessMismatch = False\<rparr>"

record MultiSourceReplayPlan =
  ms_commands :: "RetainedSourceCommandLocator list"
  ms_disposition :: MultiSourceReplayDisposition
  ms_validation :: MultiSourceReplayValidation
  ms_diagnostics :: MultiSourceReplayDiagnostics

definition invalid_plan :: MultiSourceReplayPlan where
  "invalid_plan = \<lparr>ms_commands = [], ms_disposition = MsdInvalidInput,
     ms_validation = MsvInvalidSource, ms_diagnostics = no_diagnostics\<rparr>"

definition ms_valid :: "MultiSourceReplayPlan \<Rightarrow> bool" where
  "ms_valid plan = (ms_disposition plan \<noteq> MsdInvalidInput \<and> ms_validation plan = MsvValid)"

definition ms_reordered :: "MultiSourceReplayPlan \<Rightarrow> bool" where
  "ms_reordered plan = (ms_disposition plan = MsdPlanned)"

section \<open>Validating the window\<close>

text \<open>\<open>validateSources\<close> returns the total through its reference parameter; \<open>None\<close> is \<^verbatim>\<open>false\<close>.\<close>

fun validateFrom :: "MultiSourcePlanningSource list \<Rightarrow> nat \<Rightarrow> nat option" where
  "validateFrom [] totalCommands = Some totalCommands"
| "validateFrom (source # sources) totalCommands =
     (let count = commandCount source in
      if source = None \<or> count > UINT32_MAX \<or> totalCommands > UINT32_MAX - count then None
      else validateFrom sources (totalCommands + count))"

definition validateSources :: "MultiSourcePlanningSource list \<Rightarrow> nat option" where
  "validateSources sources =
     (if sources = [] \<or> length sources > kMaxMultiSourcePlanningSources then None
      else validateFrom sources 0)"

section \<open>The combined graph\<close>

text \<open>
  One step of the hazard re-inference over a log: \<open>lastWrite\<close> is the position of the last write,
  \<open>None\<close> for the source's \<^verbatim>\<open>-1\<close>. The helper \<^verbatim>\<open>addEdgeOnce\<close> of the planner is the builder's.
\<close>

definition inferAccess ::
  "ResourceNode \<Rightarrow> nat \<Rightarrow> nat option \<times> FrameGraph \<Rightarrow> nat option \<times> FrameGraph" where
  "inferAccess resource i st =
     (let (lastWrite, g) = st; accesses = r_accesses resource; access = accesses ! i;
          kind = a_access_kind access; h = r_handle resource;
          from_last = (\<lambda>g. case lastWrite of None \<Rightarrow> g
            | Some w \<Rightarrow> addEdgeOnce (a_pass_index (accesses ! w)) (a_pass_index access) h g);
          g = (if accessReads kind then from_last g else g)
      in if accessWrites kind
         then let g = from_last g;
                  start = (case lastWrite of None \<Rightarrow> 0 | Some w \<Rightarrow> w + 1);
                  g = fold (\<lambda>read g. if accessReads (a_access_kind (accesses ! read))
                              then addEdgeOnce (a_pass_index (accesses ! read)) (a_pass_index access) h g
                              else g) [start..<i] g
              in (Some i, g)
         else (lastWrite, g))"

definition inferResource :: "ResourceNode \<Rightarrow> FrameGraph \<Rightarrow> FrameGraph" where
  "inferResource resource g =
     snd (fold (inferAccess resource) [0..<length (r_accesses resource)] (None, g))"

definition inferCombinedHazards :: "FrameGraph \<Rightarrow> FrameGraph" where
  "inferCombinedHazards g = fold inferResource (g_resources g) (g\<lparr>g_edges := []\<rparr>)"

definition mergeClassifier ::
  "ResourceClassifierFlags \<Rightarrow> ResourceClassifierFlags \<Rightarrow> ResourceClassifierFlags" where
  "mergeClassifier a b = \<lparr>cf_lock_seen = (cf_lock_seen a \<or> cf_lock_seen b),
     cf_readback_seen = (cf_readback_seen a \<or> cf_readback_seen b),
     cf_cross_frame_seen = (cf_cross_frame_seen a \<or> cf_cross_frame_seen b)\<rparr>"

definition rebaseAccess :: "nat \<Rightarrow> AccessLog \<Rightarrow> AccessLog" where
  "rebaseAccess passBase a = a\<lparr>a_pass_index := a_pass_index a + as_u32 passBase\<rparr>"

definition appendResource :: "nat \<Rightarrow> ResourceNode \<Rightarrow> FrameGraph \<Rightarrow> FrameGraph option" where
  "appendResource passBase sourceResource combined =
     (let i = findResourceIndex combined (r_handle sourceResource);
          combined = (if i = length (g_resources combined)
            then combined\<lparr>g_resources := g_resources combined @ [default_resource (r_handle sourceResource)]\<rparr>
            else combined);
          resource = g_resources combined ! i
      in if \<exists>a \<in> set (r_accesses sourceResource). a_pass_index a > UINT32_MAX - passBase then None
         else Some (combined\<lparr>g_resources := (g_resources combined)[i := resource\<lparr>
                r_classifier_flags := mergeClassifier (r_classifier_flags resource)
                   (r_classifier_flags sourceResource),
                r_accesses := r_accesses resource @
                   map (rebaseAccess passBase) (r_accesses sourceResource)\<rparr>]\<rparr>))"

fun appendResources :: "nat \<Rightarrow> ResourceNode list \<Rightarrow> FrameGraph \<Rightarrow> FrameGraph option" where
  "appendResources passBase [] combined = Some combined"
| "appendResources passBase (r # rs) combined =
     (case appendResource passBase r combined of None \<Rightarrow> None
      | Some combined \<Rightarrow> appendResources passBase rs combined)"

definition rebasePass :: "nat \<Rightarrow> nat \<Rightarrow> PassNode \<Rightarrow> PassNode" where
  "rebasePass drawBase commandRefBase pass = pass\<lparr>
     p_draws := (p_draws pass)\<lparr>rg_first := rg_first (p_draws pass) + as_u32 drawBase\<rparr>,
     p_commands := (p_commands pass)\<lparr>rg_first := rg_first (p_commands pass) + as_u32 commandRefBase\<rparr>\<rparr>"

text \<open>
  \<open>None\<close> is the result \<^verbatim>\<open>false\<close>; both callers then drop the partly filled graph.
\<close>

definition appendSourceGraph :: "FrameGraph \<Rightarrow> FrameGraph \<Rightarrow> nat \<Rightarrow> FrameGraph option" where
  "appendSourceGraph combined source commandBase =
     (let passBase = length (g_passes combined); drawBase = length (g_draws combined);
          commandRefBase = length (g_commands combined)
      in if passBase > UINT32_MAX \<or> drawBase > UINT32_MAX \<or> commandRefBase > UINT32_MAX then None
         else if \<exists>d \<in> set (g_draws source). dref_command_index d > UINT32_MAX - commandBase then None
         else if \<exists>c \<in> set (g_commands source). cref_command_index c > UINT32_MAX - commandBase then None
         else if \<exists>p \<in> set (g_passes source). rg_first (p_draws p) > UINT32_MAX - drawBase \<or>
                   rg_first (p_commands p) > UINT32_MAX - commandRefBase then None
         else map_option (\<lambda>g. g\<lparr>g_flush_boundary := g_flush_boundary g \<or> g_flush_boundary source\<rparr>)
           (appendResources passBase (g_resources source) (combined\<lparr>
              g_draws := g_draws combined @ map (\<lambda>d. d\<lparr>dref_command_index :=
                dref_command_index d + commandBase\<rparr>) (g_draws source),
              g_commands := g_commands combined @ map (\<lambda>c. c\<lparr>cref_command_index :=
                cref_command_index c + commandBase\<rparr>) (g_commands source),
              g_passes := g_passes combined @ map (rebasePass drawBase commandRefBase) (g_passes source)\<rparr>)))"

text \<open>The loop of \<^verbatim>\<open>buildMultiSourceFrameGraph\<close>, whose local graphs use the default resolver.\<close>

fun appendSources ::
  "(SourcePayloadView \<Rightarrow> nat \<Rightarrow> FrameGraph) \<Rightarrow> MultiSourcePlanningSource list \<Rightarrow> FrameGraph \<Rightarrow> nat \<Rightarrow>
   FrameGraph option" where
  "appendSources build [] out commandBase = Some out"
| "appendSources build (source # sources) out commandBase =
     (case appendSourceGraph out (build source commandBase) commandBase of None \<Rightarrow> None
      | Some out \<Rightarrow>
        if commandCount source > UINT32_MAX - commandBase then None
        else appendSources build sources out (commandBase + as_u32 (commandCount source)))"

definition buildMultiSourceFrameGraph ::
  "bool \<Rightarrow> MultiSourcePlanningSource list \<Rightarrow> FrameGraph \<times> bool" where
  "buildMultiSourceFrameGraph alloc_ok sources =
     (case validateSources sources of None \<Rightarrow> (reset_graph, False)
      | Some totalCommands \<Rightarrow>
        if \<not> alloc_ok then (reset_graph, False)
        else case appendSources (\<lambda>p commandBase. buildFrameGraph p commandBase no_alias)
                   sources reset_graph 0 of
               None \<Rightarrow> (reset_graph, False)
             | Some out \<Rightarrow> (inferCombinedHazards out, True))"

end
