(* ===== verification/Fg_Multi_Planner.thy ===== *)
theory Fg_Multi_Planner
  imports Fg_Multi_Source "HOL-Library.Product_Lexorder"
begin

text \<open>
  The second half of the multi-source planner: the natural plan, the exact-permutation validator
  with its two scans, the planner itself and the source-local runs of a plan.
\<close>

section \<open>The permutation validator\<close>

definition naturalPlan :: "MultiSourcePlanningSource list \<Rightarrow> RetainedSourceCommandLocator list" where
  "naturalPlan sources = concat (map (\<lambda>s. map (\<lambda>c.
      \<lparr>lc_retainedSourceIndex = as_u32 s, lc_commandIndex = as_u32 c\<rparr>)
      [0..<commandCount (sources ! s)]) [0..<length sources])"

fun sourceBases :: "nat \<Rightarrow> MultiSourcePlanningSource list \<Rightarrow> nat list" where
  "sourceBases base [] = []"
| "sourceBases base (s # ss) = base # sourceBases (base + commandCount s) ss"

text \<open>The loop over the locators; \<open>Inl\<close> is an early return.\<close>

fun checkLocators ::
  "MultiSourcePlanningSource list \<Rightarrow> nat list \<Rightarrow> RetainedSourceCommandLocator list \<Rightarrow> bool list \<Rightarrow>
   nat list \<Rightarrow> MultiSourceReplayValidation + bool list \<times> nat list" where
  "checkLocators sources bases [] seen naturalIndices = Inr (seen, naturalIndices)"
| "checkLocators sources bases (locator # rest) seen naturalIndices =
     (let s = lc_retainedSourceIndex locator; c = lc_commandIndex locator in
      if s \<ge> length sources then Inl MsvInvalidSource
      else if c \<ge> commandCount (sources ! s) then Inl MsvInvalidCommand
      else let naturalIndex = bases ! s + c in
        if seen ! naturalIndex then Inl MsvDuplicate
        else checkLocators sources bases rest (seen[naturalIndex := True])
               (naturalIndices @ [naturalIndex]))"

definition locatorKind ::
  "MultiSourcePlanningSource list \<Rightarrow> RetainedSourceCommandLocator \<Rightarrow> MetalCommandKind" where
  "locatorKind sources locator =
     cmd_kind (commandAt (sources ! lc_retainedSourceIndex locator) (lc_commandIndex locator))"

text \<open>
  The forward scan keeps, per source, the largest natural index so far; \<open>False\<close> is the early
  return \<^verbatim>\<open>NonDrawCrossSourceMovement\<close>.
\<close>

fun prefixScan ::
  "MultiSourcePlanningSource list \<Rightarrow> (RetainedSourceCommandLocator \<times> nat) list \<Rightarrow> nat list \<Rightarrow>
   bool list \<Rightarrow> bool" where
  "prefixScan sources [] prefixMax prefixPresent = True"
| "prefixScan sources ((locator, naturalIndex) # rest) prefixMax prefixPresent =
     (let sourceIndex = lc_retainedSourceIndex locator in
      if locatorKind sources locator \<noteq> CmdDrawRun \<and>
         (\<exists>other \<in> set [0..<length sources]. other \<noteq> sourceIndex \<and> prefixPresent ! other \<and>
            prefixMax ! other > naturalIndex)
      then False
      else prefixScan sources rest
             (prefixMax[sourceIndex := max (prefixMax ! sourceIndex) naturalIndex])
             (prefixPresent[sourceIndex := True]))"

abbreviation kMissingNaturalIndex :: nat where
  "kMissingNaturalIndex \<equiv> 18446744073709551615"

text \<open>The backward scan, over the reversed plan.\<close>

fun suffixScan ::
  "MultiSourcePlanningSource list \<Rightarrow> (RetainedSourceCommandLocator \<times> nat) list \<Rightarrow> nat list \<Rightarrow> bool" where
  "suffixScan sources [] suffixMin = True"
| "suffixScan sources ((locator, naturalIndex) # rest) suffixMin =
     (let sourceIndex = lc_retainedSourceIndex locator in
      if locatorKind sources locator \<noteq> CmdDrawRun \<and>
         (\<exists>other \<in> set [0..<length sources]. other \<noteq> sourceIndex \<and>
            suffixMin ! other < naturalIndex)
      then False
      else suffixScan sources rest
             (suffixMin[sourceIndex := min (suffixMin ! sourceIndex) naturalIndex]))"

definition validateMultiSourceReplayPermutation ::
  "MultiSourcePlanningSource list \<Rightarrow> RetainedSourceCommandLocator list \<Rightarrow> MultiSourceReplayValidation" where
  "validateMultiSourceReplayPermutation sources commands =
     (case validateSources sources of None \<Rightarrow> MsvInvalidSource
      | Some totalCommands \<Rightarrow>
        if length commands < totalCommands then MsvMissing
        else if length commands > totalCommands then MsvDuplicate
        else case checkLocators sources (sourceBases 0 sources) commands
                    (replicate totalCommands False) [] of
               Inl v \<Rightarrow> v
             | Inr (seen, naturalIndices) \<Rightarrow>
               if False \<in> set seen then MsvMissing
               else if \<not> prefixScan sources (zip commands naturalIndices)
                           (replicate kMaxMultiSourcePlanningSources 0)
                           (replicate kMaxMultiSourcePlanningSources False)
               then MsvNonDrawCrossSourceMovement
               else if \<not> suffixScan sources (rev (zip commands naturalIndices))
                           (replicate kMaxMultiSourcePlanningSources kMissingNaturalIndex)
               then MsvNonDrawCrossSourceMovement
               else MsvValid)"

definition naturalFallback :: "MultiSourcePlanningSource list \<Rightarrow> MultiSourceReplayPlan" where
  "naturalFallback sources =
     (case validateSources sources of None \<Rightarrow> invalid_plan
      | Some totalCommands \<Rightarrow>
        (let commands = naturalPlan sources;
             v = validateMultiSourceReplayPermutation sources commands;
             d = (if v = MsvValid then MsdNaturalFifo else MsdInvalidInput)
         in invalid_plan\<lparr>ms_validation := v, ms_disposition := d,
              ms_commands := (if d = MsdInvalidInput then [] else commands)\<rparr>))"

section \<open>The planner\<close>

text \<open>The loop that concatenates the local graphs, with the second component \<^verbatim>\<open>commandBase\<close>.\<close>

fun combineSources ::
  "ResourceAliasResolver \<Rightarrow> MultiSourcePlanningSource list \<Rightarrow> nat \<Rightarrow> FrameGraph \<Rightarrow> nat \<Rightarrow>
   (FrameGraph \<times> nat) option" where
  "combineSources ar [] sourceIndex combined commandBase = Some (combined, commandBase)"
| "combineSources ar (payload # sources) sourceIndex combined commandBase =
     (case appendSourceGraph combined (buildFrameGraph payload sourceIndex ar) commandBase of
        None \<Rightarrow> None
      | Some combined \<Rightarrow> combineSources ar sources (Suc sourceIndex) combined
          (as_u32 (commandBase + as_u32 (commandCount payload))))"

fun seedApplyDiagnostic :: "SeedResult \<Rightarrow> MultiSourceSeedApplyDiagnostic" where
  "seedApplyDiagnostic SeedApplied = SadApplied"
| "seedApplyDiagnostic SeedInvalid = SadInvalid"
| "seedApplyDiagnostic SeedIncomplete = SadIncomplete"
| "seedApplyDiagnostic SeedOverflow = SadOverflow"

text \<open>The search for the first live render pass with the targets of pass 0.\<close>

fun firstTargetMatch :: "AttachmentSet \<Rightarrow> PassNode list \<Rightarrow> nat \<Rightarrow> nat option" where
  "firstTargetMatch targets [] passIndex = None"
| "firstTargetMatch targets (pass # passes) passIndex =
     (if p_kind pass \<noteq> PassRender \<or> f_dead (p_flags pass) \<or> p_targets pass \<noteq> targets
      then firstTargetMatch targets passes (Suc passIndex) else Some passIndex)"

definition inspectActiveTargetMatch ::
  "FrameGraph \<Rightarrow> MultiSourceReplayDiagnostics \<Rightarrow> MultiSourceReplayDiagnostics" where
  "inspectActiveTargetMatch g diagnostics =
     (let diagnostics = diagnostics\<lparr>dg_activeTargetMatch := AtmAbsent\<rparr> in
      case firstTargetMatch (p_targets (hd (g_passes g))) (tl (g_passes g)) 1 of
        None \<Rightarrow> diagnostics
      | Some passIndex \<Rightarrow>
        (let pass = g_passes g ! passIndex; r = p_commands pass;
             diagnostics = diagnostics\<lparr>dg_activeTargetMatch := AtmPresent,
               dg_firstMatchingPassDistance := min passIndex UINT32_MAX\<rparr>;
             diagnostics = (if rg_count r \<noteq> 0 \<and> rg_first r < length (g_commands g) \<and>
                 rg_count r \<le> length (g_commands g) - rg_first r
               then diagnostics\<lparr>dg_firstMatchingCommand :=
                 (if cref_kind (g_commands g ! rg_first r) = CmdDrawRun then FmcDrawRun else FmcNonDraw)\<rparr>
               else diagnostics)
         in diagnostics\<lparr>dg_interveningNonRender := dg_interveningNonRender diagnostics \<or>
              (\<exists>i \<in> set [1..<passIndex]. p_kind (g_passes g ! i) \<noteq> PassRender)\<rparr>))"

definition seedMerged :: "FrameGraph \<Rightarrow> bool" where
  "seedMerged g = (\<exists>pass \<in> set (g_passes g). f_active_render_seed (p_flags pass) \<and>
     \<not> f_dead (p_flags pass) \<and> rg_count (p_commands pass) \<noteq> 0)"

text \<open>The \<^verbatim>\<open>while\<close> loop that maps a flattened command index to its source and local index.\<close>

fun locateCommand :: "MultiSourcePlanningSource list \<Rightarrow> nat \<Rightarrow> nat \<Rightarrow> nat \<times> nat" where
  "locateCommand [] sourceIndex localIndex = (sourceIndex, localIndex)"
| "locateCommand (source # sources) sourceIndex localIndex =
     (let sourceCount = as_u32 (commandCount source) in
      if localIndex < sourceCount then (sourceIndex, localIndex)
      else locateCommand sources (Suc sourceIndex) (localIndex - sourceCount))"

text \<open>The loop over the published witnesses; the second component is the mismatch flag.\<close>

fun collectWitnesses ::
  "MultiSourcePlanningSource list \<Rightarrow> MergeWitness list \<Rightarrow> ActiveSeedMergeTargetWitness list \<Rightarrow>
   ActiveSeedMergeTargetWitness list \<times> bool" where
  "collectWitnesses sources [] out = (out, False)"
| "collectWitnesses sources (witness # rest) out =
     (let (s, l) = locateCommand sources 0 (mw_flattenedCommandIndex witness) in
      if mw_mergeDistance witness = 0 \<or> s \<ge> length sources \<or>
         cmd_kind (commandAt (sources ! s) l) \<noteq> CmdDrawRun then (out, True)
      else collectWitnesses sources rest (out @ [\<lparr>tw_retainedSourceIndex = s, tw_commandIndex = l,
             tw_mergeOrdinal = mw_mergeOrdinal witness, tw_mergeDistance = mw_mergeDistance witness\<rparr>]))"

fun adjacentTargets :: "ActiveSeedMergeTargetWitness list \<Rightarrow> bool" where
  "adjacentTargets (p # c # rest) =
     ((tw_retainedSourceIndex p = tw_retainedSourceIndex c \<and> tw_commandIndex p = tw_commandIndex c) \<or>
      adjacentTargets (c # rest))"
| "adjacentTargets xs = False"

definition publishWitnesses ::
  "MultiSourcePlanningSource list \<Rightarrow> WitnessSink \<Rightarrow> u32 \<Rightarrow> MultiSourceReplayDiagnostics \<Rightarrow>
   MultiSourceReplayDiagnostics" where
  "publishWitnesses sources sink merges diagnostics =
     (let diagnostics = diagnostics\<lparr>dg_activeSeedMergeWitnessOverflow := sk_overflow sink\<rparr>;
          diagnostics = (if sk_overflow sink then diagnostics
            else let (ws, mismatch) = collectWitnesses sources (publishable sink) [];
                     mismatch = (mismatch \<or> length ws \<noteq> unat merges);
                     ws = sort_key (\<lambda>w. (tw_retainedSourceIndex w, tw_commandIndex w, tw_mergeOrdinal w)) ws
                 in diagnostics\<lparr>dg_activeSeedMergeWitnesses := ws,
                      dg_activeSeedMergeWitnessMismatch := mismatch \<or> adjacentTargets ws\<rparr>)
      in if dg_activeSeedMergeWitnessOverflow diagnostics \<or> dg_activeSeedMergeWitnessMismatch diagnostics
         then diagnostics\<lparr>dg_activeSeedMergeWitnesses := []\<rparr> else diagnostics)"

definition recordMergeCounters ::
  "OptimizerStats \<Rightarrow> MultiSourceReplayDiagnostics \<Rightarrow> MultiSourceReplayDiagnostics" where
  "recordMergeCounters stats diagnostics = diagnostics\<lparr>
     dg_seedSecondNonDraw := os_second_non_draw stats \<noteq> 0,
     dg_seedBlockedCycle := os_blocked_cycle stats \<noteq> 0,
     dg_optimizerMergeCount := os_pass_coalesced_count stats,
     dg_activeSeedMergeCount := os_active_seed_merge_count stats,
     dg_activeSeedMergeDistanceTotal := os_active_seed_merge_distance_total stats,
     dg_activeSeedMergeDistanceMax := os_active_seed_merge_distance_max stats,
     dg_activeSeedCommandBefore := os_active_seed_command_before stats,
     dg_activeSeedCommandAfter := os_active_seed_command_after stats,
     dg_activeSeedEmptyIntervening := os_active_seed_empty_intervening stats\<rparr>"

definition attributionMissing :: "MultiSourceReplayDiagnostics \<Rightarrow> bool" where
  "attributionMissing d =
     (let intervening = dg_activeSeedCommandBefore d + dg_activeSeedCommandAfter d +
            dg_activeSeedEmptyIntervening d
      in dg_activeSeedMergeCount d = 0 \<or> dg_optimizerMergeCount d < dg_activeSeedMergeCount d \<or>
         dg_activeSeedMergeDistanceMax d = 0 \<or>
         dg_activeSeedMergeDistanceTotal d < ucast (dg_activeSeedMergeCount d) \<or>
         ucast (dg_activeSeedMergeDistanceMax d) > dg_activeSeedMergeDistanceTotal d \<or>
         intervening \<noteq> dg_activeSeedMergeDistanceTotal d - ucast (dg_activeSeedMergeCount d))"

definition classifyMerge ::
  "FrameGraph \<Rightarrow> OptimizerStats \<Rightarrow> MultiSourceReplayDiagnostics \<Rightarrow> MultiSourceReplayDiagnostics" where
  "classifyMerge combined stats diagnostics =
     (let diagnostics = diagnostics\<lparr>dg_merge :=
            (if os_pass_coalesced_count stats = 0 then MrgNone
             else if seedMerged combined then MrgSeedMerged else MrgNonSeedOnly)\<rparr>
      in if dg_merge diagnostics = MrgSeedMerged
         then diagnostics\<lparr>dg_activeSeedMergeAttributionMissing := attributionMissing diagnostics\<rparr>
         else diagnostics)"

text \<open>The loops that read the plan off the coalesced graph; \<open>None\<close> is \<^verbatim>\<open>PermutationRejected\<close>.\<close>

fun extractRefs ::
  "MultiSourcePlanningSource list \<Rightarrow> nat \<Rightarrow> CommandRef list \<Rightarrow>
   bool list \<times> RetainedSourceCommandLocator list \<Rightarrow>
   (bool list \<times> RetainedSourceCommandLocator list) option" where
  "extractRefs sources commandBase [] st = Some st"
| "extractRefs sources commandBase (command # rest) st =
     (let (seen, out) = st; i = cref_command_index command in
      if i \<ge> commandBase \<or> seen ! i then None
      else let (s, l) = locateCommand sources 0 i in
        if s \<ge> length sources \<or> cmd_kind (commandAt (sources ! s) l) \<noteq> cref_kind command then None
        else extractRefs sources commandBase rest (seen[i := True],
               out @ [\<lparr>lc_retainedSourceIndex = s, lc_commandIndex = l\<rparr>]))"

fun extractPasses ::
  "MultiSourcePlanningSource list \<Rightarrow> nat \<Rightarrow> FrameGraph \<Rightarrow> PassNode list \<Rightarrow>
   bool list \<times> RetainedSourceCommandLocator list \<Rightarrow>
   (bool list \<times> RetainedSourceCommandLocator list) option" where
  "extractPasses sources commandBase g [] st = Some st"
| "extractPasses sources commandBase g (pass # passes) st =
     (if f_dead (p_flags pass) \<or> rg_first (p_commands pass) > length (g_commands g) \<or>
         rg_count (p_commands pass) > length (g_commands g) - rg_first (p_commands pass) then None
      else case extractRefs sources commandBase (pass_commands g pass) st of
             None \<Rightarrow> None
           | Some st \<Rightarrow> extractPasses sources commandBase g passes st)"

definition flattenHead :: "MultiSourcePlanningSource list \<Rightarrow> RetainedSourceCommandLocator \<Rightarrow> nat" where
  "flattenHead sources head =
     fold (\<lambda>s flattenedHead. as_u32 (flattenedHead + as_u32 (commandCount (sources ! s))))
       [0..<lc_retainedSourceIndex head] (lc_commandIndex head)"

definition withOutcome ::
  "MultiSourceReplayPlan \<Rightarrow> MultiSourceReplayDiagnostics \<Rightarrow> MultiSourcePlannerOutcome \<Rightarrow>
   MultiSourceReplayPlan" where
  "withOutcome plan diagnostics outcome =
     plan\<lparr>ms_diagnostics := diagnostics\<lparr>dg_outcome := outcome\<rparr>\<rparr>"

text \<open>From the coalesced graph to the result, after at least one merge.\<close>

definition selectPlan ::
  "MultiSourcePlanningSource list \<Rightarrow> nat \<Rightarrow> FrameGraph \<Rightarrow> bool \<Rightarrow> MultiSourceReplayPlan \<Rightarrow>
   MultiSourceReplayDiagnostics \<Rightarrow> MultiSourceReplayPlan" where
  "selectPlan sources commandBase combined seeded fallback diagnostics =
     (case extractPasses sources commandBase combined (g_passes combined)
             (replicate commandBase False, []) of
        None \<Rightarrow> withOutcome fallback diagnostics OutPermutationRejected
      | Some (seen, commands) \<Rightarrow>
        if False \<in> set seen then withOutcome fallback diagnostics OutPermutationRejected
        else let v = validateMultiSourceReplayPermutation sources commands in
          if v \<noteq> MsvValid then withOutcome fallback diagnostics OutPermutationRejected
          else if commands = ms_commands fallback
          then withOutcome fallback diagnostics OutNaturalAfterMerge
          else if seeded \<and> hd commands \<noteq> hd (ms_commands fallback) \<and>
              \<not> activeRenderPlanningSeedProvesReplayHead combined (flattenHead sources (hd commands))
          then withOutcome fallback diagnostics OutMovedHeadUnproved
          else withOutcome \<lparr>ms_commands = commands, ms_disposition = MsdPlanned,
                 ms_validation = v, ms_diagnostics = diagnostics\<rparr> diagnostics OutPlanned)"

text \<open>From the seeded combined graph on: the optimizer, its diagnostics and the selection.\<close>

definition coalesceAndSelect ::
  "bool \<Rightarrow> MultiSourcePlanningSource list \<Rightarrow> nat \<Rightarrow> bool \<Rightarrow> bool \<Rightarrow> MultiSourceReplayPlan \<Rightarrow>
   FrameGraph \<Rightarrow> MultiSourceReplayDiagnostics \<Rightarrow> MultiSourceReplayPlan" where
  "coalesceAndSelect alloc_ok sources commandBase seeded collect fallback combined diagnostics =
     (let options = default_options\<lparr>oo_passcoalesce := True\<rparr>;
          sink = (if collect \<and> seeded
            then Some \<lparr>sk_capacity = length (g_passes combined) - 1, sk_entries = [],
                   sk_attempted = 0, sk_overflow = False\<rparr>
            else None);
          (combined, stats, sink) =
            runOptimizer alloc_ok combined options None (Some no_stats) [] sink;
          stats = the stats;
          diagnostics = recordMergeCounters stats diagnostics;
          diagnostics = (case sink of None \<Rightarrow> diagnostics
            | Some sk \<Rightarrow> publishWitnesses sources sk (os_active_seed_merge_count stats) diagnostics);
          diagnostics = classifyMerge combined stats diagnostics
      in if os_pass_coalesced_count stats = 0
         then withOutcome fallback diagnostics
                (if dg_activeTargetMatch diagnostics = AtmAbsent then OutNoActiveTargetMatch
                 else OutNoMerge)
         else selectPlan sources commandBase combined seeded fallback diagnostics)"

text \<open>
  The whole planner. The tail that stages the selected order with the capture observer when one
  is installed has no influence on the result and is left out.
\<close>

definition planMultiSourcePassCoalesceReplay ::
  "bool \<Rightarrow> MultiSourcePlanningSource list \<Rightarrow> ActiveRenderPlanningSeed option \<Rightarrow>
   ResourceAliasResolver \<Rightarrow> bool \<Rightarrow> MultiSourceReplayPlan" where
  "planMultiSourcePassCoalesceReplay alloc_ok sources activeRenderSeed ar collect =
     (let fallback = naturalFallback sources; diagnostics = ms_diagnostics fallback in
      if \<not> ms_valid fallback then fallback
      else case combineSources ar sources 0 reset_graph 0 of
        None \<Rightarrow> withOutcome fallback diagnostics OutInvalidInput
      | Some (combined, commandBase) \<Rightarrow>
        (let combined = inferCombinedHazards combined in
         case activeRenderSeed of
           None \<Rightarrow> coalesceAndSelect alloc_ok sources commandBase False collect fallback combined diagnostics
         | Some seed \<Rightarrow>
           (let (combined, seedResult) = applyActiveRenderPlanningSeed combined seed ar;
                diagnostics = diagnostics\<lparr>dg_seedApply := seedApplyDiagnostic seedResult\<rparr>
            in if seedResult \<noteq> SeedApplied then withOutcome fallback diagnostics OutSeedRejected
               else coalesceAndSelect alloc_ok sources commandBase True collect fallback combined
                      (inspectActiveTargetMatch combined diagnostics))))"

section \<open>Runs\<close>

record MultiSourceReplayRun =
  rn_retainedSourceIndex :: nat
  rn_commandBegin :: nat
  rn_commandCount :: nat
  rn_sourceFragmentOrdinal :: nat
  rn_sourceFragmentCount :: nat
  rn_transactionFragmentOrdinal :: nat
  rn_transactionFragmentCount :: nat

definition firstSourceFragment :: "MultiSourceReplayRun \<Rightarrow> bool" where
  "firstSourceFragment run = (rn_sourceFragmentOrdinal run = 0)"

definition lastSourceFragment :: "MultiSourceReplayRun \<Rightarrow> bool" where
  "lastSourceFragment run = (rn_sourceFragmentCount run \<noteq> 0 \<and>
     as_u32 (rn_sourceFragmentOrdinal run + 1) = rn_sourceFragmentCount run)"

definition firstTransactionFragment :: "MultiSourceReplayRun \<Rightarrow> bool" where
  "firstTransactionFragment run = (rn_transactionFragmentOrdinal run = 0)"

datatype MultiSourceReplayRunValidation = MrvValid | MrvInvalidPlan | MrvRepeatedSourceRun

record MultiSourceReplayRuns =
  mr_runs :: "MultiSourceReplayRun list"
  mr_validation :: MultiSourceReplayRunValidation

text \<open>Extend the last run or open a new one.\<close>

definition appendToRuns ::
  "RetainedSourceCommandLocator \<Rightarrow> MultiSourceReplayRun list \<Rightarrow> MultiSourceReplayRun list" where
  "appendToRuns command runs =
     (if runs \<noteq> [] \<and> rn_retainedSourceIndex (last runs) = lc_retainedSourceIndex command \<and>
         rn_commandBegin (last runs) + rn_commandCount (last runs) = lc_commandIndex command
      then butlast runs @ [(last runs)\<lparr>rn_commandCount := as_u32 (rn_commandCount (last runs) + 1)\<rparr>]
      else runs @ [\<lparr>rn_retainedSourceIndex = lc_retainedSourceIndex command,
             rn_commandBegin = lc_commandIndex command, rn_commandCount = 1,
             rn_sourceFragmentOrdinal = 0, rn_sourceFragmentCount = 1,
             rn_transactionFragmentOrdinal = 0, rn_transactionFragmentCount = 1\<rparr>])"

definition countFragments :: "MultiSourceReplayRun list \<Rightarrow> nat list" where
  "countFragments runs = fold (\<lambda>run counts.
     counts[rn_retainedSourceIndex run := as_u32 (counts ! rn_retainedSourceIndex run + 1)])
     runs (replicate kMaxMultiSourcePlanningSources 0)"

fun numberRuns :: "nat list \<Rightarrow> nat \<Rightarrow> nat list \<Rightarrow> nat \<Rightarrow> MultiSourceReplayRun list \<Rightarrow>
    MultiSourceReplayRun list" where
  "numberRuns counts runTotal ordinals runIndex [] = []"
| "numberRuns counts runTotal ordinals runIndex (run # runs) =
     (let s = rn_retainedSourceIndex run in
      run\<lparr>rn_sourceFragmentOrdinal := ordinals ! s, rn_sourceFragmentCount := counts ! s,
          rn_transactionFragmentOrdinal := as_u32 runIndex,
          rn_transactionFragmentCount := as_u32 runTotal\<rparr> #
      numberRuns counts runTotal (ordinals[s := as_u32 (ordinals ! s + 1)]) (Suc runIndex) runs)"

definition buildMultiSourceReplayRuns ::
  "MultiSourcePlanningSource list \<Rightarrow> MultiSourceReplayPlan \<Rightarrow> MultiSourceReplayRuns" where
  "buildMultiSourceReplayRuns sources plan =
     (if \<not> ms_valid plan \<or> validateMultiSourceReplayPermutation sources (ms_commands plan) \<noteq> MsvValid
      then \<lparr>mr_runs = [], mr_validation = MrvInvalidPlan\<rparr>
      else let runs = fold appendToRuns (ms_commands plan) [] in
        \<lparr>mr_runs = numberRuns (countFragments runs) (length runs)
           (replicate kMaxMultiSourcePlanningSources 0) 0 runs, mr_validation = MrvValid\<rparr>)"

end
