(* ===== verification/Fg_Multi_Validate.thy ===== *)
theory Fg_Multi_Validate
  imports Fg_Multi_Planner
begin

text \<open>
  The validator of multi-source replay orders is exact: it accepts precisely the permutations of
  the retained window in which commands of different sources only overtake one another when
  both are draw runs. The two linear scans are shown equal to that quadratic condition.
\<close>

section \<open>The window\<close>

definition window_size :: "MultiSourcePlanningSource list \<Rightarrow> nat" where
  "window_size sources = sum_list (map commandCount sources)"

definition valid_window :: "MultiSourcePlanningSource list \<Rightarrow> bool" where
  "valid_window sources = (sources \<noteq> [] \<and> length sources \<le> kMaxMultiSourcePlanningSources \<and>
     None \<notin> set sources \<and> window_size sources < u32_limit)"

lemma window_size_simps [simp]:
  "window_size [] = 0" "window_size (s # ss) = commandCount s + window_size ss"
  "window_size (xs @ ys) = window_size xs + window_size ys"
  by (simp_all add: window_size_def)

lemma validateFrom_iff:
  "t < u32_limit \<Longrightarrow> validateFrom sources t =
     (if None \<notin> set sources \<and> t + window_size sources < u32_limit
      then Some (t + window_size sources) else None)"
proof (induction sources t rule: validateFrom.induct)
  case (2 source sources t)
  then show ?case by (cases "source = None") auto
qed simp

lemma validateSources_iff:
  "validateSources sources = (if valid_window sources then Some (window_size sources) else None)"
  by (auto simp: validateSources_def valid_window_def validateFrom_iff)

section \<open>Natural indices\<close>

definition in_window :: "MultiSourcePlanningSource list \<Rightarrow> RetainedSourceCommandLocator \<Rightarrow> bool" where
  "in_window sources l = (lc_retainedSourceIndex l < length sources \<and>
     lc_commandIndex l < commandCount (sources ! lc_retainedSourceIndex l))"

definition natural_index :: "MultiSourcePlanningSource list \<Rightarrow> RetainedSourceCommandLocator \<Rightarrow> nat" where
  "natural_index sources l =
     window_size (take (lc_retainedSourceIndex l) sources) + lc_commandIndex l"

lemma sourceBases_nth:
  "s < length sources \<Longrightarrow> sourceBases base sources ! s = base + window_size (take s sources)"
proof (induction base sources arbitrary: s rule: sourceBases.induct)
  case (2 base x xs)
  then show ?case by (cases s) auto
qed simp

lemma window_size_take_Suc:
  "s < length sources \<Longrightarrow>
     window_size (take (Suc s) sources) = window_size (take s sources) + commandCount (sources ! s)"
  by (simp add: take_Suc_conv_app_nth)

lemma window_size_take_le: "window_size (take s sources) \<le> window_size sources"
  by (metis append_take_drop_id le_add1 window_size_simps(3))

lemma natural_index_less:
  assumes "in_window sources l"
  shows "natural_index sources l < window_size sources"
proof -
  let ?s = "lc_retainedSourceIndex l"
  have "natural_index sources l < window_size (take (Suc ?s) sources)"
    using assms by (simp add: natural_index_def in_window_def window_size_take_Suc)
  then show ?thesis using window_size_take_le order_less_le_trans by blast
qed

lemma natural_index_mono:
  assumes "in_window sources l" and "lc_retainedSourceIndex l < lc_retainedSourceIndex m"
  shows "natural_index sources l < natural_index sources m"
proof -
  let ?s = "lc_retainedSourceIndex l" and ?t = "lc_retainedSourceIndex m"
  have "natural_index sources l < window_size (take (Suc ?s) sources)"
    using assms by (simp add: natural_index_def in_window_def window_size_take_Suc)
  also have "take (Suc ?s) sources = take (Suc ?s) (take ?t sources)"
    using assms(2) by (simp add: min_absorb1)
  also have "window_size \<dots> \<le> window_size (take ?t sources)" by (rule window_size_take_le)
  finally show ?thesis by (simp add: natural_index_def)
qed

lemma natural_index_inj:
  assumes "in_window sources l" and "in_window sources m"
    and "natural_index sources l = natural_index sources m"
  shows "l = m"
proof -
  have "lc_retainedSourceIndex l = lc_retainedSourceIndex m"
    using natural_index_mono assms by (metis less_irrefl linorder_neqE_nat)
  with assms(3) show ?thesis by (simp add: natural_index_def)
qed

lemma natural_index_inj_on: "inj_on (natural_index sources) {l. in_window sources l}"
  by (rule inj_onI) (simp add: natural_index_inj)

text \<open>The natural plan enumerates the window in order of the natural index.\<close>

lemma naturalPlan_upto:
  assumes "n \<le> length sources" and "n < u32_limit" and "window_size sources < u32_limit"
  shows "map (natural_index sources) (concat (map (\<lambda>s. map (\<lambda>c.
      \<lparr>lc_retainedSourceIndex = as_u32 s, lc_commandIndex = as_u32 c\<rparr>)
      [0..<commandCount (sources ! s)]) [0..<n])) = [0..<window_size (take n sources)]"
  using assms
proof (induction n)
  case 0
  then show ?case by simp
next
  case (Suc n)
  let ?c = "commandCount (sources ! n)" and ?w = "window_size (take n sources)"
  have w: "window_size (take (Suc n) sources) = ?w + ?c"
    using Suc.prems(1) by (simp add: window_size_take_Suc)
  then have "?c < u32_limit" using Suc.prems(3) window_size_take_le [of "Suc n" sources] by simp
  then have "map (natural_index sources \<circ> (\<lambda>c. \<lparr>lc_retainedSourceIndex = as_u32 n, lc_commandIndex = as_u32 c\<rparr>))
      [0..<?c] = map (\<lambda>c. ?w + c) [0..<?c]"
    using Suc.prems(2) by (simp add: natural_index_def)
  also have "\<dots> = [?w..<?w + ?c]" by (rule nth_equalityI) simp_all
  finally have "map (natural_index sources \<circ> (\<lambda>c. \<lparr>lc_retainedSourceIndex = as_u32 n, lc_commandIndex = as_u32 c\<rparr>))
      [0..<?c] = [?w..<?w + ?c]" .
  then show ?case using Suc w by (simp add: upt_add_eq_append [of 0 ?w ?c])
qed

lemma naturalPlan_index:
  assumes "valid_window sources"
  shows "map (natural_index sources) (naturalPlan sources) = [0..<window_size sources]"
    and "\<forall>l \<in> set (naturalPlan sources). in_window sources l"
proof -
  have "length sources < u32_limit" "window_size sources < u32_limit"
    using assms by (auto simp: valid_window_def)
  then show "map (natural_index sources) (naturalPlan sources) = [0..<window_size sources]"
    using naturalPlan_upto [of "length sources" sources] by (simp add: naturalPlan_def)
  have "commandCount (sources ! s) < u32_limit" if "s < length sources" for s
  proof -
    have "commandCount (sources ! s) \<le> window_size (take (Suc s) sources)"
      using that by (simp add: window_size_take_Suc)
    also have "\<dots> \<le> window_size sources" by (rule window_size_take_le)
    finally show ?thesis using \<open>window_size sources < u32_limit\<close> by simp
  qed
  then show "\<forall>l \<in> set (naturalPlan sources). in_window sources l"
    using \<open>length sources < u32_limit\<close> by (fastforce simp: naturalPlan_def in_window_def)
qed

lemma naturalPlan_permutation:
  assumes "valid_window sources"
  shows "mset commands = mset (naturalPlan sources) \<longleftrightarrow>
    (\<forall>l \<in> set commands. in_window sources l) \<and> distinct (map (natural_index sources) commands) \<and>
    length commands = window_size sources"
proof
  note N = naturalPlan_index [OF assms]
  assume m: "mset commands = mset (naturalPlan sources)"
  then have "mset (map (natural_index sources) commands) = mset [0..<window_size sources]"
    using N(1) by (metis mset_map)
  then have "distinct (map (natural_index sources) commands)"
    and "length (map (natural_index sources) commands) = window_size sources"
    by (metis distinct_upt mset_eq_imp_distinct_iff, metis diff_zero length_upt mset_eq_length)
  then show "(\<forall>l \<in> set commands. in_window sources l) \<and> distinct (map (natural_index sources) commands) \<and>
    length commands = window_size sources"
    using N(2) mset_eq_setD [OF m] by simp
next
  note N = naturalPlan_index [OF assms]
  assume a: "(\<forall>l \<in> set commands. in_window sources l) \<and> distinct (map (natural_index sources) commands) \<and>
    length commands = window_size sources"
  have sub: "natural_index sources ` set commands \<subseteq> {..<window_size sources}"
    using a natural_index_less by auto
  have "card (natural_index sources ` set commands) = window_size sources"
    using a by (metis distinct_card length_map list.set_map)
  then have im: "natural_index sources ` set commands = {..<window_size sources}"
    using sub by (intro card_subset_eq) simp_all
  have "natural_index sources ` set (naturalPlan sources) = {..<window_size sources}"
    using N(1) by (metis atLeast_upt list.set_map)
  then have "set commands = set (naturalPlan sources)"
    using inj_on_image_eq_iff [OF natural_index_inj_on, of "set commands" sources "set (naturalPlan sources)"]
      im a N(2) by auto
  moreover have "distinct commands" "distinct (naturalPlan sources)"
    using a N(1) by (metis distinct_map, metis distinct_map distinct_upt)
  ultimately show "mset commands = mset (naturalPlan sources)" by (metis set_eq_iff_mset_eq_distinct)
qed

section \<open>The loop over the locators\<close>

lemma checkLocators_result:
  assumes "length seen = window_size sources"
  shows "(\<exists>seen' out. checkLocators sources (sourceBases 0 sources) ls seen acc = Inr (seen', out)) \<longleftrightarrow>
      (\<forall>l \<in> set ls. in_window sources l \<and> \<not> seen ! natural_index sources l) \<and>
      distinct (map (natural_index sources) ls)"
    and "checkLocators sources (sourceBases 0 sources) ls seen acc = Inr (seen', out) \<Longrightarrow>
      out = acc @ map (natural_index sources) ls \<and> length seen' = length seen \<and>
      (\<forall>i < length seen. seen' ! i = (seen ! i \<or> i \<in> natural_index sources ` set ls))"
proof -
  let ?n = "natural_index sources"
  have "((\<exists>seen' out. checkLocators sources (sourceBases 0 sources) ls seen acc = Inr (seen', out)) \<longleftrightarrow>
      (\<forall>l \<in> set ls. in_window sources l \<and> \<not> seen ! ?n l) \<and> distinct (map ?n ls)) \<and>
    (\<forall>seen' out. checkLocators sources (sourceBases 0 sources) ls seen acc = Inr (seen', out) \<longrightarrow>
      out = acc @ map ?n ls \<and> length seen' = length seen \<and>
      (\<forall>i < length seen. seen' ! i = (seen ! i \<or> i \<in> ?n ` set ls)))"
    using assms
  proof (induction ls arbitrary: seen acc)
    case Nil
    then show ?case by simp
  next
    case (Cons l ls)
    show ?case
    proof (cases "in_window sources l \<and> \<not> seen ! ?n l")
      case False
      then show ?thesis
        by (auto simp: in_window_def natural_index_def sourceBases_nth)
    next
      case True
      let ?seen = "seen[?n l := True]"
      have less: "?n l < length seen" using True natural_index_less Cons.prems by simp
      have step: "checkLocators sources (sourceBases 0 sources) (l # ls) seen acc =
          checkLocators sources (sourceBases 0 sources) ls ?seen (acc @ [?n l])"
        using True by (auto simp: in_window_def natural_index_def sourceBases_nth)
      have IH: "length ?seen = window_size sources" using Cons.prems by simp
      have "\<not> ?seen ! ?n m \<longleftrightarrow> \<not> seen ! ?n m \<and> ?n m \<noteq> ?n l" for m
        using less by (cases "?n m = ?n l") auto
      then have a: "(\<forall>m \<in> set ls. in_window sources m \<and> \<not> ?seen ! ?n m) \<and> distinct (map ?n ls) \<longleftrightarrow>
          (\<forall>m \<in> set (l # ls). in_window sources m \<and> \<not> seen ! ?n m) \<and> distinct (map ?n (l # ls))"
        using True by (auto simp: image_iff)
      have b: "?seen ! i \<or> i \<in> ?n ` set ls \<longleftrightarrow> seen ! i \<or> i \<in> ?n ` set (l # ls)" for i
        using less by (cases "i = ?n l") auto
      show ?thesis unfolding step using Cons.IH [OF IH, of "acc @ [?n l]"] unfolding a b by auto
    qed
  qed
  then show "(\<exists>seen' out. checkLocators sources (sourceBases 0 sources) ls seen acc = Inr (seen', out)) \<longleftrightarrow>
      (\<forall>l \<in> set ls. in_window sources l \<and> \<not> seen ! ?n l) \<and> distinct (map ?n ls)"
    and "checkLocators sources (sourceBases 0 sources) ls seen acc = Inr (seen', out) \<Longrightarrow>
      out = acc @ map ?n ls \<and> length seen' = length seen \<and>
      (\<forall>i < length seen. seen' ! i = (seen ! i \<or> i \<in> ?n ` set ls))"
    by blast+
qed

section \<open>The scans\<close>

text \<open>
  The condition the scans decide, for a command \<open>x\<close> replayed before a command \<open>y\<close>; commands come
  with their natural index.
\<close>

definition may_follow_nondraw ::
  "MultiSourcePlanningSource list \<Rightarrow> RetainedSourceCommandLocator \<times> nat \<Rightarrow>
   RetainedSourceCommandLocator \<times> nat \<Rightarrow> bool" where
  "may_follow_nondraw sources x y = (locatorKind sources (fst y) \<noteq> CmdDrawRun \<longrightarrow>
     lc_retainedSourceIndex (fst x) \<noteq> lc_retainedSourceIndex (fst y) \<longrightarrow> snd x \<le> snd y)"

definition may_precede_nondraw ::
  "MultiSourcePlanningSource list \<Rightarrow> RetainedSourceCommandLocator \<times> nat \<Rightarrow>
   RetainedSourceCommandLocator \<times> nat \<Rightarrow> bool" where
  "may_precede_nondraw sources x y = (locatorKind sources (fst x) \<noteq> CmdDrawRun \<longrightarrow>
     lc_retainedSourceIndex (fst y) \<noteq> lc_retainedSourceIndex (fst x) \<longrightarrow> snd x \<le> snd y)"

abbreviation "src_of x \<equiv> lc_retainedSourceIndex (fst x)"

lemma prefixScan_spec:
  assumes "\<forall>x \<in> set xs. src_of x < length sources" and "length sources \<le> length mx"
    and "length pr = length mx"
    and "\<forall>k < length mx. \<forall>n. (pr ! k \<and> mx ! k > n) \<longleftrightarrow> (\<exists>d \<in> D. src_of d = k \<and> snd d > n)"
    and "\<forall>k < length mx. \<not> pr ! k \<longrightarrow> mx ! k = 0" and "\<forall>d \<in> D. src_of d < length sources"
  shows "prefixScan sources xs mx pr \<longleftrightarrow>
    (\<forall>d \<in> D. \<forall>y \<in> set xs. may_follow_nondraw sources d y) \<and> sorted_wrt (may_follow_nondraw sources) xs"
  using assms
proof (induction xs arbitrary: mx pr D)
  case Nil
  then show ?case by simp
next
  case (Cons y ys)
  obtain l n where y: "y = (l, n)" by (cases y)
  let ?s = "lc_retainedSourceIndex l"
  let ?mx = "mx[?s := max (mx ! ?s) n]" and ?pr = "pr[?s := True]"
  have s: "?s < length mx" "?s < length sources" using Cons.prems(1,2) y by auto
  have at: "(pr ! k \<and> mx ! k > n) \<longleftrightarrow> (\<exists>d \<in> D. src_of d = k \<and> snd d > n)" if "k < length sources" for k
    using Cons.prems(2,4) that by simp
  have "(\<exists>k \<in> set [0..<length sources]. k \<noteq> ?s \<and> pr ! k \<and> mx ! k > n) \<longleftrightarrow>
      (\<exists>k < length sources. k \<noteq> ?s \<and> (\<exists>d \<in> D. src_of d = k \<and> snd d > n))"
    unfolding atLeast_upt [symmetric] using at by (simp only: Bex_def lessThan_iff) blast
  also have "\<dots> \<longleftrightarrow> (\<exists>d \<in> D. src_of d \<noteq> ?s \<and> snd d > n)"
    using Cons.prems(6) by blast
  finally have bad: "(\<exists>k \<in> set [0..<length sources]. k \<noteq> ?s \<and> pr ! k \<and> mx ! k > n) \<longleftrightarrow>
      (\<exists>d \<in> D. src_of d \<noteq> ?s \<and> snd d > n)" .
  have fails: "(locatorKind sources l \<noteq> CmdDrawRun \<and>
      (\<exists>k \<in> set [0..<length sources]. k \<noteq> ?s \<and> pr ! k \<and> mx ! k > n)) \<longleftrightarrow>
      \<not> (\<forall>d \<in> D. may_follow_nondraw sources d y)"
    unfolding bad y may_follow_nondraw_def fst_conv snd_conv not_less [symmetric] by blast
  have "prefixScan sources (y # ys) mx pr \<longleftrightarrow>
      (\<forall>d \<in> D. may_follow_nondraw sources d y) \<and> prefixScan sources ys ?mx ?pr"
    using fails by (simp add: y del: set_upt)
  also have "prefixScan sources ys ?mx ?pr \<longleftrightarrow>
      (\<forall>d \<in> insert y D. \<forall>z \<in> set ys. may_follow_nondraw sources d z) \<and>
      sorted_wrt (may_follow_nondraw sources) ys"
  proof (rule Cons.IH)
    show "\<forall>k < length ?mx. \<forall>m. (?pr ! k \<and> ?mx ! k > m) \<longleftrightarrow>
        (\<exists>d \<in> insert y D. src_of d = k \<and> snd d > m)"
    proof (intro allI impI)
      fix k m assume k: "k < length ?mx"
      show "(?pr ! k \<and> ?mx ! k > m) \<longleftrightarrow> (\<exists>d \<in> insert y D. src_of d = k \<and> snd d > m)"
      proof (cases "k = ?s")
        case True
        have "(pr ! ?s \<and> mx ! ?s > m) \<longleftrightarrow> mx ! ?s > m" using Cons.prems(5) s by force
        then show ?thesis
          using Cons.prems(4) s True Cons.prems(3) by (auto simp: y less_max_iff_disj)
      next
        case False
        then show ?thesis using Cons.prems(4) k by (auto simp: y)
      qed
    qed
    show "\<forall>k < length ?mx. \<not> ?pr ! k \<longrightarrow> ?mx ! k = 0"
      using Cons.prems(3,5) s by (auto simp: nth_list_update)
  qed (use Cons.prems s y in auto)
  finally show ?case by auto
qed

lemma suffixScan_spec:
  assumes "\<forall>x \<in> set xs. src_of x < length sources \<and> snd x \<le> kMissingNaturalIndex"
    and "length sources \<le> length mn"
    and "\<forall>k < length mn. \<forall>n \<le> kMissingNaturalIndex. (mn ! k < n) \<longleftrightarrow> (\<exists>d \<in> D. src_of d = k \<and> snd d < n)"
    and "\<forall>d \<in> D. src_of d < length sources"
  shows "suffixScan sources xs mn \<longleftrightarrow>
    (\<forall>d \<in> D. \<forall>y \<in> set xs. may_precede_nondraw sources y d) \<and>
    sorted_wrt (\<lambda>x y. may_precede_nondraw sources y x) xs"
  using assms
proof (induction xs arbitrary: mn D)
  case Nil
  then show ?case by simp
next
  case (Cons y ys)
  obtain l n where y: "y = (l, n)" by (cases y)
  let ?s = "lc_retainedSourceIndex l"
  let ?mn = "mn[?s := min (mn ! ?s) n]"
  have s: "?s < length mn" "?s < length sources" "n \<le> kMissingNaturalIndex"
    using Cons.prems(1,2) y by auto
  have at: "mn ! k < n \<longleftrightarrow> (\<exists>d \<in> D. src_of d = k \<and> snd d < n)" if "k < length sources" for k
    using Cons.prems(2,3) s(3) that by simp
  have "(\<exists>k \<in> set [0..<length sources]. k \<noteq> ?s \<and> mn ! k < n) \<longleftrightarrow>
      (\<exists>k < length sources. k \<noteq> ?s \<and> (\<exists>d \<in> D. src_of d = k \<and> snd d < n))"
    unfolding atLeast_upt [symmetric] using at by (simp only: Bex_def lessThan_iff) blast
  also have "\<dots> \<longleftrightarrow> (\<exists>d \<in> D. src_of d \<noteq> ?s \<and> snd d < n)"
    using Cons.prems(4) by blast
  finally have bad: "(\<exists>k \<in> set [0..<length sources]. k \<noteq> ?s \<and> mn ! k < n) \<longleftrightarrow>
      (\<exists>d \<in> D. src_of d \<noteq> ?s \<and> snd d < n)" .
  have fails: "(locatorKind sources l \<noteq> CmdDrawRun \<and>
      (\<exists>k \<in> set [0..<length sources]. k \<noteq> ?s \<and> mn ! k < n)) \<longleftrightarrow>
      \<not> (\<forall>d \<in> D. may_precede_nondraw sources y d)"
    unfolding bad y may_precede_nondraw_def fst_conv snd_conv not_less [symmetric] by blast
  have "suffixScan sources (y # ys) mn \<longleftrightarrow>
      (\<forall>d \<in> D. may_precede_nondraw sources y d) \<and> suffixScan sources ys ?mn"
    using fails by (simp add: y del: set_upt)
  also have "suffixScan sources ys ?mn \<longleftrightarrow>
      (\<forall>d \<in> insert y D. \<forall>z \<in> set ys. may_precede_nondraw sources z d) \<and>
      sorted_wrt (\<lambda>x y. may_precede_nondraw sources y x) ys"
  proof (rule Cons.IH)
    show "\<forall>k < length ?mn. \<forall>m \<le> kMissingNaturalIndex. (?mn ! k < m) \<longleftrightarrow>
        (\<exists>d \<in> insert y D. src_of d = k \<and> snd d < m)"
    proof (intro allI impI)
      fix k m assume k: "k < length ?mn" and m: "m \<le> kMissingNaturalIndex"
      show "(?mn ! k < m) \<longleftrightarrow> (\<exists>d \<in> insert y D. src_of d = k \<and> snd d < m)"
      proof (cases "k = ?s")
        case True
        then show ?thesis
          using Cons.prems(3) s m by (auto simp: y min_less_iff_disj)
      next
        case False
        then show ?thesis using Cons.prems(3) k m by (auto simp: y)
      qed
    qed
  qed (use Cons.prems s y in auto)
  finally show ?case by auto
qed

section \<open>The verdict\<close>

text \<open>
  The quadratic condition: a command of another source is only overtaken when both are draws.
\<close>

definition draws_only_overtake ::
  "MultiSourcePlanningSource list \<Rightarrow> RetainedSourceCommandLocator list \<Rightarrow> bool" where
  "draws_only_overtake sources commands = (\<forall>i j. i < j \<longrightarrow> j < length commands \<longrightarrow>
     lc_retainedSourceIndex (commands ! i) \<noteq> lc_retainedSourceIndex (commands ! j) \<longrightarrow>
     natural_index sources (commands ! j) < natural_index sources (commands ! i) \<longrightarrow>
     locatorKind sources (commands ! i) = CmdDrawRun \<and> locatorKind sources (commands ! j) = CmdDrawRun)"

lemma scans_spec:
  assumes "valid_window sources" and "\<forall>l \<in> set commands. in_window sources l"
  defines "xs \<equiv> zip commands (map (natural_index sources) commands)"
  shows "prefixScan sources xs (replicate 8 0) (replicate 8 False) \<and>
      suffixScan sources (rev xs) (replicate 8 kMissingNaturalIndex) \<longleftrightarrow>
    draws_only_overtake sources commands"
proof -
  have src: "\<forall>x \<in> set xs. src_of x < length sources" and len: "length sources \<le> 8"
    using assms(1,2) by (auto simp: xs_def in_window_def valid_window_def dest!: set_zip_leftD)
  have small: "\<forall>x \<in> set xs. snd x \<le> kMissingNaturalIndex"
  proof
    fix x assume "x \<in> set xs"
    then obtain i where i: "i < length commands" "snd x = natural_index sources (commands ! i)"
      by (auto simp: xs_def set_zip)
    then have "in_window sources (commands ! i)" using assms(2) by simp
    from natural_index_less [OF this] i(2) assms(1) show "snd x \<le> kMissingNaturalIndex"
      by (simp add: valid_window_def)
  qed
  have p: "prefixScan sources xs (replicate 8 0) (replicate 8 False) \<longleftrightarrow>
      sorted_wrt (may_follow_nondraw sources) xs"
    by (subst prefixScan_spec [where D = "{}"]) (use src len in simp_all)
  have s: "suffixScan sources (rev xs) (replicate 8 kMissingNaturalIndex) \<longleftrightarrow>
      sorted_wrt (may_precede_nondraw sources) xs"
    by (subst suffixScan_spec [where D = "{}"]) (use src len small in \<open>simp_all add: sorted_wrt_rev\<close>)
  have nth: "i < length commands \<Longrightarrow> xs ! i = (commands ! i, natural_index sources (commands ! i))" for i
    by (simp add: xs_def)
  have lx: "length xs = length commands" by (simp add: xs_def)
  have pair: "may_follow_nondraw sources (xs ! i) (xs ! j) \<and> may_precede_nondraw sources (xs ! i) (xs ! j) \<longleftrightarrow>
      (lc_retainedSourceIndex (commands ! i) \<noteq> lc_retainedSourceIndex (commands ! j) \<longrightarrow>
       natural_index sources (commands ! j) < natural_index sources (commands ! i) \<longrightarrow>
       locatorKind sources (commands ! i) = CmdDrawRun \<and> locatorKind sources (commands ! j) = CmdDrawRun)"
    if "i < length commands" "j < length commands" for i j
    using that by (auto simp: nth may_follow_nondraw_def may_precede_nondraw_def not_le)
  show ?thesis
    unfolding p s draws_only_overtake_def sorted_wrt_iff_nth_less lx
    using pair by (meson order_less_trans)
qed

lemma validator_cases:
  assumes w: "valid_window sources" and len: "length commands = window_size sources"
  shows "validateMultiSourceReplayPermutation sources commands = MsvValid \<longleftrightarrow>
    mset commands = mset (naturalPlan sources) \<and> draws_only_overtake sources commands"
proof -
  let ?n = "natural_index sources" and ?seen = "replicate (window_size sources) False"
  let ?r = "checkLocators sources (sourceBases 0 sources) commands ?seen []"
  have fresh: "(\<forall>l \<in> set commands. in_window sources l \<and> \<not> ?seen ! ?n l) \<longleftrightarrow>
      (\<forall>l \<in> set commands. in_window sources l)"
    using natural_index_less by auto
  note C = checkLocators_result [of ?seen sources commands "[]", simplified length_replicate, OF refl]
  note P = naturalPlan_permutation [OF w, of commands]
  show ?thesis
  proof (cases ?r)
    case (Inl v)
    then have "\<not> mset commands = mset (naturalPlan sources)"
      using C(1) P unfolding fresh by auto
    moreover have "v \<noteq> MsvValid"
    proof -
      have "checkLocators sources bases ls seen acc = Inl v \<Longrightarrow> v \<noteq> MsvValid" for bases ls seen acc
        by (induction sources bases ls seen acc rule: checkLocators.induct) (auto split: if_splits)
      then show ?thesis using Inl by blast
    qed
    ultimately show ?thesis
      using w len Inl by (simp add: validateMultiSourceReplayPermutation_def validateSources_iff)
  next
    case (Inr res)
    then obtain seen' out where r: "?r = Inr (seen', out)" by (cases res) auto
    then have iw: "\<forall>l \<in> set commands. in_window sources l" and d: "distinct (map ?n commands)"
      using C(1) unfolding fresh by auto
    note c2 = C(2) [OF r]
    have perm: "mset commands = mset (naturalPlan sources)" using P iw d len by blast
    then have "?n ` set commands = {..<window_size sources}"
      using naturalPlan_index(1) [OF w] by (metis atLeast_upt list.set_map set_mset_mset)
    then have "False \<notin> set seen'"
      using c2 by (auto simp: in_set_conv_nth)
    then show ?thesis
      using w len r c2 perm scans_spec [OF w iw]
      by (auto simp: validateMultiSourceReplayPermutation_def validateSources_iff)
  qed
qed

lemma validator_result:
  "validateMultiSourceReplayPermutation sources commands = MsvValid \<longleftrightarrow>
    valid_window sources \<and> mset commands = mset (naturalPlan sources) \<and>
    draws_only_overtake sources commands"
proof (cases "valid_window sources \<and> length commands = window_size sources")
  case True
  then show ?thesis using validator_cases by blast
next
  case False
  then have "validateMultiSourceReplayPermutation sources commands \<noteq> MsvValid"
    by (auto simp: validateMultiSourceReplayPermutation_def validateSources_iff)
  moreover have "\<not> (valid_window sources \<and> mset commands = mset (naturalPlan sources))"
    using False naturalPlan_permutation by blast
  ultimately show ?thesis by blast
qed

text \<open>
  C11: the multi-source replay validator is exact. It answers \<open>Valid\<close> precisely when the window is
  well formed (one to eight valid sources, fewer than 2^32 commands), the order is a permutation
  of the window's commands, and wherever two commands of different sources change places both
  are draw runs; the two linear scans miss nothing and reject nothing else.
\<close>

theorem replay_permutation_validator_exact:
  "validateMultiSourceReplayPermutation sources commands = MsvValid \<longleftrightarrow>
    valid_window sources \<and> mset commands = mset (naturalPlan sources) \<and>
    (\<forall>i j. i < j \<longrightarrow> j < length commands \<longrightarrow>
       lc_retainedSourceIndex (commands ! i) \<noteq> lc_retainedSourceIndex (commands ! j) \<longrightarrow>
       natural_index sources (commands ! j) < natural_index sources (commands ! i) \<longrightarrow>
       locatorKind sources (commands ! i) = CmdDrawRun \<and> locatorKind sources (commands ! j) = CmdDrawRun)"
  using validator_result [of sources commands] unfolding draws_only_overtake_def .

text \<open>Two sources of one draw each: the younger draw may go first; a clear may not.\<close>

definition one_draw :: SourcePayloadView where
  "one_draw = Some [empty_command]"

definition one_clear :: SourcePayloadView where
  "one_clear = Some [empty_command\<lparr>cmd_kind := CmdClear\<rparr>]"

definition swapped_pair :: "RetainedSourceCommandLocator list" where
  "swapped_pair = [\<lparr>lc_retainedSourceIndex = 1, lc_commandIndex = 0\<rparr>,
     \<lparr>lc_retainedSourceIndex = 0, lc_commandIndex = 0\<rparr>]"

theorem replay_permutation_validator_exact_witness:
  "validateMultiSourceReplayPermutation [one_draw, one_draw] swapped_pair = MsvValid \<and>
   validateMultiSourceReplayPermutation [one_draw, one_clear] swapped_pair \<noteq> MsvValid"
proof
  have perm: "mset swapped_pair = mset (naturalPlan [one_draw, w])" if "commandCount w = 1" for w
    using that by (simp add: naturalPlan_def swapped_pair_def one_draw_def add_mset_commute)
  have win: "valid_window [one_draw, one_draw]" by (simp add: valid_window_def one_draw_def)
  show "validateMultiSourceReplayPermutation [one_draw, one_draw] swapped_pair = MsvValid"
    unfolding replay_permutation_validator_exact
    using win perm [of one_draw]
    by (auto simp: swapped_pair_def one_draw_def locatorKind_def empty_command_def less_Suc_eq)
  show "validateMultiSourceReplayPermutation [one_draw, one_clear] swapped_pair \<noteq> MsvValid"
  proof
    assume "validateMultiSourceReplayPermutation [one_draw, one_clear] swapped_pair = MsvValid"
    then have "\<forall>i j. i < j \<longrightarrow> j < length swapped_pair \<longrightarrow>
       lc_retainedSourceIndex (swapped_pair ! i) \<noteq> lc_retainedSourceIndex (swapped_pair ! j) \<longrightarrow>
       natural_index [one_draw, one_clear] (swapped_pair ! j) <
         natural_index [one_draw, one_clear] (swapped_pair ! i) \<longrightarrow>
       locatorKind [one_draw, one_clear] (swapped_pair ! i) = CmdDrawRun \<and>
       locatorKind [one_draw, one_clear] (swapped_pair ! j) = CmdDrawRun"
      unfolding replay_permutation_validator_exact by blast
    from this [rule_format, of 0 1] show False
      by (simp add: swapped_pair_def natural_index_def locatorKind_def one_draw_def one_clear_def)
  qed
qed

section \<open>The natural plan\<close>

lemma naturalPlan_sorted:
  assumes "valid_window sources" and "i < j" and "j < length (naturalPlan sources)"
  shows "natural_index sources (naturalPlan sources ! i) < natural_index sources (naturalPlan sources ! j)"
proof -
  note N = naturalPlan_index(1) [OF assms(1)]
  have len: "length (naturalPlan sources) = window_size sources" using N by (metis diff_zero length_map length_upt)
  have "map (natural_index sources) (naturalPlan sources) ! k = k" if "k < window_size sources" for k
    using that by (simp add: N del: length_map nth_map)
  then have "natural_index sources (naturalPlan sources ! k) = k" if "k < window_size sources" for k
    using that len by simp
  then show ?thesis using assms(2,3) len by simp
qed

lemma natural_plan_valid:
  "valid_window sources \<Longrightarrow> validateMultiSourceReplayPermutation sources (naturalPlan sources) = MsvValid"
  unfolding validator_result draws_only_overtake_def
  by (auto dest: naturalPlan_sorted)

lemma naturalFallback_result:
  "naturalFallback sources = (if valid_window sources
     then invalid_plan\<lparr>ms_validation := MsvValid, ms_disposition := MsdNaturalFifo,
            ms_commands := naturalPlan sources\<rparr>
     else invalid_plan)"
  by (simp add: naturalFallback_def validateSources_iff natural_plan_valid)

end
