(* ===== verification/Fg_Multi_Combine.thy ===== *)
theory Fg_Multi_Combine
  imports Fg_Multi_Validate
begin

text \<open>
  The combined graph of a source window. Concatenating the local graphs and re-inferring the
  hazards gives a graph with every property of a graph built from the concatenated payload
  (\<open>built\<close>), so what holds of one frame's optimization holds of the whole window.
\<close>

section \<open>Hazards of a log, one access at a time\<close>

lemma drop_take_upt: "i \<le> length log \<Longrightarrow> drop s (take i log) = map ((!) log) [s..<i]"
  by (rule nth_equalityI) auto

lemma fold_if_map:
  "fold (\<lambda>x g. if P x then f (h x) g else g) xs g = fold f (map h (filter P xs)) g"
  by (induction xs arbitrary: g) auto

lemma inferAccess_step:
  assumes "i < length (r_accesses r)"
  defines "log \<equiv> r_accesses r"
  shows "inferAccess r i (lastWriteIndex (take i log), g) = (lastWriteIndex (take (Suc i) log),
    addDependencyEdges (take i log) (a_pass_index (log ! i)) (a_access_kind (log ! i)) (r_handle r) g)"
proof -
  let ?k = "a_access_kind (log ! i)" and ?p = "a_pass_index (log ! i)" and ?lw = "lastWriteIndex (take i log)"
  have i: "i < length log" using assms by simp
  have lw: "lastWriteIndex (take (Suc i) log) = (if accessWrites ?k then Some i else ?lw)"
    using i by (simp add: take_Suc_conv_app_nth lastWriteIndex_snoc)
  have at: "take i log ! w = log ! w" if "?lw = Some w" for w
    using lastWriteIndex_Some [OF that] by simp
  have war: "fold (\<lambda>read g. if accessReads (a_access_kind (log ! read))
        then addEdgeOnce (a_pass_index (log ! read)) ?p (r_handle r) g else g) [s..<i] g =
      fold (\<lambda>src. addEdgeOnce src ?p (r_handle r))
        (map a_pass_index (filter (\<lambda>a. accessReads (a_access_kind a)) (drop s (take i log)))) g" for s g
    using i by (simp add: drop_take_upt filter_map comp_def fold_if_map [of "\<lambda>read. accessReads (a_access_kind (log ! read))"
        "\<lambda>src. addEdgeOnce src ?p (r_handle r)" "\<lambda>read. a_pass_index (log ! read)"])
  show ?thesis
    unfolding inferAccess_def addDependencyEdges_def hazardSources_def lw
    using at war
    by (cases ?lw; cases "accessReads ?k"; cases "accessWrites ?k")
      (simp_all add: log_def [symmetric] del: upt_Suc)
qed

lemma inferAccess_fold:
  "n \<le> length (r_accesses r) \<Longrightarrow> fold (inferAccess r) [0..<n] (None, g) =
     (lastWriteIndex (take n (r_accesses r)), fold (\<lambda>i. addDependencyEdges (take i (r_accesses r))
        (a_pass_index (r_accesses r ! i)) (a_access_kind (r_accesses r ! i)) (r_handle r)) [0..<n] g)"
proof (induction n)
  case 0
  then show ?case by (simp add: lastWriteIndex_def)
next
  case (Suc n)
  then show ?case by (simp add: inferAccess_step)
qed

text \<open>What one resource contributes.\<close>

definition inferred :: "FrameGraph \<Rightarrow> FrameGraph \<Rightarrow> bool" where
  "inferred g g' = (g_passes g' = g_passes g \<and> g_resources g' = g_resources g \<and>
     g_draws g' = g_draws g \<and> g_commands g' = g_commands g \<and> set (g_edges g) \<subseteq> set (g_edges g') \<and>
     (distinct (g_edges g) \<longrightarrow> distinct (g_edges g')) \<and>
     ((\<forall>e \<in> set (g_edges g). edge_ok g e) \<longrightarrow> (\<forall>e \<in> set (g_edges g'). edge_ok g e)))"

lemma inferred_refl [simp]: "inferred g g"
  by (simp add: inferred_def)

lemma edge_ok_cong:
  "g_passes g' = g_passes g \<Longrightarrow> g_resources g' = g_resources g \<Longrightarrow> edge_ok g' e = edge_ok g e"
  by (simp add: edge_ok_def log_of_def)

lemma inferred_trans:
  assumes "inferred g h" and "inferred h k"
  shows "inferred g k"
proof -
  have same: "g_passes h = g_passes g" "g_resources h = g_resources g" "g_draws h = g_draws g"
    "g_commands h = g_commands g" using assms(1) by (simp_all add: inferred_def)
  have "edge_ok h = edge_ok g" by (rule ext) (rule edge_ok_cong [OF same(1,2)])
  note a = assms(1) [unfolded inferred_def] and b = assms(2) [unfolded inferred_def this same]
  from a b have "set (g_edges g) \<subseteq> set (g_edges k)" by (elim conjE) (rule subset_trans)
  moreover from a b have "distinct (g_edges g) \<longrightarrow> distinct (g_edges k)" by blast
  moreover from a b have "(\<forall>e \<in> set (g_edges g). edge_ok g e) \<longrightarrow> (\<forall>e \<in> set (g_edges k). edge_ok g e)"
    by blast
  ultimately show ?thesis using b unfolding inferred_def by blast
qed

lemma inferResource_upto:
  assumes log: "log_of g (r_handle r) = r_accesses r" and s: "sorted (map a_pass_index (r_accesses r))"
    and rng: "\<forall>a \<in> set (r_accesses r). a_pass_index a < length (g_passes g)"
    and n: "n \<le> length (r_accesses r)"
  defines "g' \<equiv> snd (fold (inferAccess r) [0..<n] (None, g))"
  shows "inferred g g' \<and> log_covered (edge_rel g') (take n (r_accesses r))"
  using n unfolding g'_def
proof (induction n)
  case 0
  then show ?case by simp
next
  case (Suc n)
  let ?log = "r_accesses r" and ?h = "r_handle r"
  let ?g = "snd (fold (inferAccess r) [0..<n] (None, g))"
  let ?a = "?log ! n" and ?t = "take n ?log"
  let ?g' = "addDependencyEdges ?t (a_pass_index ?a) (a_access_kind ?a) ?h ?g"
  have IH: "inferred g ?g" "log_covered (edge_rel ?g) ?t" using Suc by simp_all
  have nl: "n < length ?log" using Suc.prems by simp
  have step: "snd (fold (inferAccess r) [0..<Suc n] (None, g)) = ?g'"
    using Suc.prems by (simp add: inferAccess_fold inferAccess_step)
  have sub: "edge_rel ?g \<subseteq> edge_rel ?g'" by (auto simp: edge_rel_addDependencyEdges)
  have "log_covered (edge_rel ?g') (?t @ [?a])"
  proof (rule log_covered_snoc)
    show "log_covered (edge_rel ?g') ?t" using IH(2) sub by (rule log_covered_mono)
    show "(q, a_pass_index ?a) \<in> (edge_rel ?g')\<^sup>*"
      if "q \<in> set (hazardSources ?t (a_access_kind ?a))" for q
      using that by (cases "q = a_pass_index ?a") (auto simp: edge_rel_addDependencyEdges)
  qed
  then have cov: "log_covered (edge_rel ?g') (take (Suc n) ?log)"
    using nl by (simp add: take_Suc_conv_app_nth)
  have ok: "edge_ok g \<lparr>e_src_pass = q, e_dst_pass = a_pass_index ?a, e_resource = ?h\<rparr>"
    if q: "q \<in> set (hazardSources ?t (a_access_kind ?a))" "q \<noteq> a_pass_index ?a" for q
  proof -
    obtain i where i: "i < length ?t" "a_pass_index (?t ! i) = q"
      "conflicting (a_access_kind (?t ! i)) (a_access_kind ?a)"
      using hazardSources_justified [OF q(1)] by blast
    then have i': "i < n" "?log ! i \<in> set ?log" "?a \<in> set ?log" using nl by auto
    have "map a_pass_index ?log ! i \<le> map a_pass_index ?log ! n"
      using s i' nl by (intro sorted_nth_mono) simp_all
    then have "q < a_pass_index ?a" using i q(2) i' nl by simp
    then show ?thesis
      unfolding edge_ok_def using i i' rng log
      by (simp, intro bexI [of _ "?log ! i"] conjI bexI [of _ ?a]) simp_all
  qed
  have "inferred ?g ?g'"
  proof -
    have "edge_ok ?g e = edge_ok g e" for e using IH(1) by (intro edge_ok_cong) (simp_all add: inferred_def)
    then show ?thesis
      using ok by (auto simp: inferred_def addDependencyEdges_edges addDependencyEdges_distinct)
  qed
  then show ?case unfolding step using IH(1) cov inferred_trans by blast
qed

lemma inferCombined_fold:
  assumes "\<forall>r \<in> set rs. log_of g (r_handle r) = r_accesses r \<and> sorted (map a_pass_index (r_accesses r)) \<and>
      (\<forall>a \<in> set (r_accesses r). a_pass_index a < length (g_passes g))"
  shows "inferred g (fold inferResource rs g) \<and>
    (\<forall>r \<in> set rs. log_covered (edge_rel (fold inferResource rs g)) (r_accesses r))"
  using assms
proof (induction rs rule: rev_induct)
  case Nil
  then show ?case by simp
next
  case (snoc r rs)
  let ?g = "fold inferResource rs g"
  have IH: "inferred g ?g" "\<forall>r \<in> set rs. log_covered (edge_rel ?g) (r_accesses r)"
    using snoc by simp_all
  then have same: "g_passes ?g = g_passes g" "g_resources ?g = g_resources g"
    by (simp_all add: inferred_def)
  have "log_of ?g (r_handle r) = r_accesses r" using snoc.prems same by (simp add: log_of_def)
  then have U: "inferred ?g (inferResource r ?g) \<and> log_covered (edge_rel (inferResource r ?g)) (r_accesses r)"
    using inferResource_upto [of ?g r "length (r_accesses r)"] snoc.prems same
    by (simp add: inferResource_def)
  then have "edge_rel ?g \<subseteq> edge_rel (inferResource r ?g)"
    unfolding inferred_def edge_rel_alt by blast
  then show ?case using U IH inferred_trans log_covered_mono by auto
qed

lemma inferCombinedHazards_ok:
  assumes d: "distinct (map r_handle (g_resources g))" and nz: "\<forall>r \<in> set (g_resources g). r_handle r \<noteq> 0"
    and s: "\<forall>h. sorted (map a_pass_index (log_of g h))"
    and rng: "\<forall>h. \<forall>a \<in> set (log_of g h). a_pass_index a < length (g_passes g)"
  shows "graph_ok (inferCombinedHazards g) \<and> g_passes (inferCombinedHazards g) = g_passes g \<and>
    g_resources (inferCombinedHazards g) = g_resources g \<and> g_draws (inferCombinedHazards g) = g_draws g \<and>
    g_commands (inferCombinedHazards g) = g_commands g"
proof -
  let ?g0 = "g\<lparr>g_edges := []\<rparr>" and ?g' = "inferCombinedHazards g"
  have log: "log_of g (r_handle r) = r_accesses r" if r: "r \<in> set (g_resources g)" for r
  proof -
    obtain i where i: "i < length (g_resources g)" "r = g_resources g ! i"
      using r by (auto simp: in_set_conv_nth)
    then show ?thesis using find_index_from_distinct [OF d i(1), of 0] by (simp add: log_of_def log_in_def)
  qed
  have log0: "log_of ?g0 h = log_of g h" for h by (simp add: log_of_def)
  have F: "inferred ?g0 ?g'" "\<forall>r \<in> set (g_resources g). log_covered (edge_rel ?g') (r_accesses r)"
    using inferCombined_fold [of "g_resources g" ?g0] log s rng
    by (auto simp: inferCombinedHazards_def log0 [symmetric]) (metis log log0)+
  then have same: "g_passes ?g' = g_passes g" "g_resources ?g' = g_resources g" by (simp_all add: inferred_def)
  then have log': "log_of ?g' h = log_of g h" for h by (simp add: log_of_def)
  have "log_covered (edge_rel ?g') (log_of g h)" for h
  proof (cases "findResourceIndex g h < length (g_resources g)")
    case True
    then show ?thesis using F(2) by (simp add: log_of_def log_in_def findResourceIndex_def)
  next
    case False
    then show ?thesis by (simp add: log_of_def log_in_def findResourceIndex_def)
  qed
  moreover have "distinct (g_edges ?g')" "\<forall>e \<in> set (g_edges ?g'). edge_ok ?g' e"
  proof -
    have "edge_ok ?g' e = edge_ok ?g0 e" for e using same by (intro edge_ok_cong) simp_all
    then show "distinct (g_edges ?g')" "\<forall>e \<in> set (g_edges ?g'). edge_ok ?g' e"
      using F(1) by (auto simp: inferred_def)
  qed
  ultimately have "graph_ok ?g'"
    using d nz s rng by (simp add: graph_ok_def log_ok_def log' same)
  then show ?thesis using F(1) by (simp add: inferred_def)
qed

end
