(* ===== verification/Fg_Multi_Join.thy ===== *)
theory Fg_Multi_Join
  imports Fg_Multi_Combine
begin

text \<open>
  Concatenating local graphs. \<open>laid_out\<close> is what remains of \<open>built\<close> without the edges; appending
  the local graph of the next source keeps it for the concatenated payload, and the hazard
  re-inference completes it to \<open>built\<close>.
\<close>

section \<open>Logs of appended resources\<close>

lemma find_index_Suc: "find_index_from (Suc i) rs h = Suc (find_index_from i rs h)"
  by (induction i rs h rule: find_index_from.induct) auto

lemma log_in_Nil [simp]: "log_in [] h = []"
  by (simp add: log_in_def)

lemma log_in_Cons: "log_in (r # rs) h = (if r_handle r = h then r_accesses r else log_in rs h)"
  by (simp add: log_in_def find_index_Suc)

lemma log_in_absent: "h \<notin> r_handle ` set rs \<Longrightarrow> log_in rs h = []"
  by (induction rs) (auto simp: log_in_Cons)

definition same_vectors :: "FrameGraph \<Rightarrow> FrameGraph \<Rightarrow> bool" where
  "same_vectors g g' = (g_passes g' = g_passes g \<and> g_draws g' = g_draws g \<and> g_commands g' = g_commands g \<and>
     g_edges g' = g_edges g)"

lemma nonnull_cong:
  assumes "map r_handle rs = map r_handle rs'" and "\<forall>r \<in> set rs'. r_handle r \<noteq> 0"
  shows "\<forall>r \<in> set rs. r_handle r \<noteq> 0"
proof -
  have "r_handle ` set rs = r_handle ` set rs'" using assms(1) by (metis list.set_map)
  with assms(2) show ?thesis by (metis imageE imageI)
qed

lemma appendResource_result:
  assumes d: "distinct (map r_handle (g_resources g))" and nz: "\<forall>r \<in> set (g_resources g). r_handle r \<noteq> 0"
    and r: "r_handle r \<noteq> 0" and rng: "\<forall>a \<in> set (r_accesses r). a_pass_index a + base \<le> UINT32_MAX"
  obtains g' where "appendResource base r g = Some g'" and "same_vectors g g'"
    and "distinct (map r_handle (g_resources g'))" and "\<forall>r \<in> set (g_resources g'). r_handle r \<noteq> 0"
    and "\<And>h. log_of g' h = log_of g h @ (if h = r_handle r then map (rebaseAccess base) (r_accesses r) else [])"
proof -
  let ?rs = "g_resources g" and ?h = "r_handle r"
  let ?i = "find_index_from 0 ?rs ?h"
  let ?rs' = "if ?i = length ?rs then ?rs @ [default_resource ?h] else ?rs"
  let ?x = "(?rs' ! ?i)\<lparr>r_classifier_flags := mergeClassifier (r_classifier_flags (?rs' ! ?i)) (r_classifier_flags r),
      r_accesses := r_accesses (?rs' ! ?i) @ map (rebaseAccess base) (r_accesses r)\<rparr>"
  let ?g' = "g\<lparr>g_resources := ?rs'[?i := ?x]\<rparr>"
  have le: "?i \<le> length ?rs" using find_index_from_bounds [of 0 ?rs ?h] by simp
  have h0: "r_handle (default_resource ?h) = ?h" "r_accesses (default_resource ?h) = []"
    by (simp_all add: default_resource_def)
  have d': "distinct (map r_handle ?rs')" and nz': "\<forall>r \<in> set ?rs'. r_handle r \<noteq> 0"
    using d nz r find_index_from_absent [of 0 ?rs ?h] by (auto simp: h0)
  have lt: "?i < length ?rs'" using le by auto
  have at: "r_handle (?rs' ! ?i) = ?h"
    using find_index_from_found [of 0 ?rs ?h] le by (auto simp: h0)
  have fi: "find_index_from 0 ?rs' ?h = ?i"
    using find_index_from_absent [of 0 ?rs ?h] by (auto simp: find_index_append h0)
  have log: "log_in ?rs' h = log_of g h" for h by (simp add: log_of_def log_in_append h0)
  have old: "r_accesses (?rs' ! ?i) = log_of g ?h"
    using lt fi log [of ?h] by (simp add: log_in_def)
  have rng': "a_pass_index a \<le> UINT32_MAX - base" if "a \<in> set (r_accesses r)" for a
    using rng that by (metis add_le_imp_le_diff)
  show thesis
  proof
    show "appendResource base r g = Some ?g'"
      using rng' by (auto simp: appendResource_def findResourceIndex_def not_less)
    show "same_vectors g ?g'" by (simp add: same_vectors_def)
    have m: "map r_handle (?rs'[?i := ?x]) = map r_handle ?rs'" by (rule map_update_same) simp
    then show "distinct (map r_handle (g_resources ?g'))" using d' by (simp del: map_update)
    show "\<forall>r \<in> set (g_resources ?g'). r_handle r \<noteq> 0" using nonnull_cong [OF m nz'] by simp
    have "log_in (?rs'[?i := ?x]) h = (if h = ?h then r_accesses ?x else log_in ?rs' h)" for h
      by (rule log_in_update [OF fi lt]) (simp add: at)
    then show "log_of ?g' h = log_of g h @ (if h = ?h then map (rebaseAccess base) (r_accesses r) else [])" for h
      using old log by (simp add: log_of_def)
  qed
qed

lemma appendResources_result:
  assumes "distinct (map r_handle (g_resources g))" and "\<forall>r \<in> set (g_resources g). r_handle r \<noteq> 0"
    and "distinct (map r_handle rs)" and "\<forall>r \<in> set rs. r_handle r \<noteq> 0"
    and "\<forall>r \<in> set rs. \<forall>a \<in> set (r_accesses r). a_pass_index a + base \<le> UINT32_MAX"
  shows "\<exists>g'. appendResources base rs g = Some g' \<and> same_vectors g g' \<and>
    distinct (map r_handle (g_resources g')) \<and> (\<forall>r \<in> set (g_resources g'). r_handle r \<noteq> 0) \<and>
    (\<forall>h. log_of g' h = log_of g h @ map (rebaseAccess base) (log_in rs h))"
  using assms
proof (induction rs arbitrary: g)
  case Nil
  then show ?case by (simp add: same_vectors_def)
next
  case (Cons r rs)
  obtain g1 where g1: "appendResource base r g = Some g1" "same_vectors g g1"
    "distinct (map r_handle (g_resources g1))" "\<forall>r \<in> set (g_resources g1). r_handle r \<noteq> 0"
    "\<And>h. log_of g1 h = log_of g h @ (if h = r_handle r then map (rebaseAccess base) (r_accesses r) else [])"
    using appendResource_result [of g r base] Cons.prems by auto
  obtain g' where g': "appendResources base rs g1 = Some g'" "same_vectors g1 g'"
    "distinct (map r_handle (g_resources g'))" "\<forall>r \<in> set (g_resources g'). r_handle r \<noteq> 0"
    "\<forall>h. log_of g' h = log_of g1 h @ map (rebaseAccess base) (log_in rs h)"
    using Cons.IH [OF g1(3,4)] Cons.prems by auto
  have "log_of g' h = log_of g h @ map (rebaseAccess base) (log_in (r # rs) h)" for h
  proof (cases "h = r_handle r")
    case True
    then have "log_in rs h = []" using Cons.prems(3) by (intro log_in_absent) auto
    then show ?thesis using g'(5) g1(5) True by (simp add: log_in_Cons)
  next
    case False
    then show ?thesis using g'(5) g1(5) by (auto simp: log_in_Cons)
  qed
  then show ?case using g1 g' by (auto simp: same_vectors_def)
qed

section \<open>Appending vectors and ranges\<close>

definition shift_ref :: "nat \<Rightarrow> CommandRef \<Rightarrow> CommandRef" where
  "shift_ref n c = c\<lparr>cref_command_index := cref_command_index c + n\<rparr>"

lemma shift_ref_index [simp]: "cref_command_index (shift_ref n c) = cref_command_index c + n"
  by (simp add: shift_ref_def)

definition shift_draw :: "nat \<Rightarrow> DrawRef \<Rightarrow> DrawRef" where
  "shift_draw n d = d\<lparr>dref_command_index := dref_command_index d + n\<rparr>"

definition shift_range :: "nat \<Rightarrow> nat \<times> nat \<Rightarrow> nat \<times> nat" where
  "shift_range n r = (fst r + n, snd r)"

lemma tiles_from_shift: "tiles_from (s + n) (map (shift_range n) rs) (m + n) = tiles_from s rs m"
proof (induction s rs m rule: tiles_from.induct)
  case (2 s f c rs m)
  then show ?case by (auto simp: shift_range_def add.assoc add.commute add.left_commute)
qed (simp add: shift_range_def)

lemma tile_groups_join:
  assumes v: "tiles_from 0 rs (length v)" and w: "tiles_from 0 qs (length w)"
    and n: "length v + length w < u32_limit"
  shows "tiles_from 0 (rs @ map (shift_range (length v)) qs) (length v + length w)"
    and "tile_groups (v @ map f w) (rs @ map (shift_range (length v)) qs) =
      tile_groups v rs @ map (map f) (tile_groups w qs)"
proof -
  have "tiles_from (length v) (map (shift_range (length v)) qs) (length v + length w)"
    using w tiles_from_shift [of 0 "length v" qs "length w"] by (simp add: add.commute)
  then show "tiles_from 0 (rs @ map (shift_range (length v)) qs) (length v + length w)"
    using v by (auto simp: tiles_from_append)
  have "gather (v @ map f w) (i + length v) c = map f (gather w i c)" if "(i, c) \<in> set qs" for i c
  proof (rule nth_equalityI)
    fix k assume "k < length (gather (v @ map f w) (i + length v) c)"
    then have "k < c" "i + k < length w" using tiles_from_range [OF w that] by auto
    then show "gather (v @ map f w) (i + length v) c ! k = map f (gather w i c) ! k"
      using n by (simp add: gather_def nth_append)
  qed simp
  then have "tile_groups (v @ map f w) (map (shift_range (length v)) qs) = map (map f) (tile_groups w qs)"
    by (auto simp: tile_groups_def shift_range_def)
  moreover have "tile_groups (v @ map f w) rs = tile_groups v rs"
    using v n by (intro tile_groups_snoc) simp_all
  ultimately show "tile_groups (v @ map f w) (rs @ map (shift_range (length v)) qs) =
      tile_groups v rs @ map (map f) (tile_groups w qs)"
    by (simp add: tile_groups_def)
qed

section \<open>The concatenated payload\<close>

lemma commandAt_append:
  "commandAt (Some (cs @ ds)) i = (if i < length cs then cs ! i else
     if i < length cs + length ds then ds ! (i - length cs) else empty_command)"
  by (auto simp: commandAt_def payload_commands_def nth_append)

lemma accepted_refs_append:
  "accepted_refs (Some (cs @ ds)) (length cs + length ds) =
     accepted_refs (Some cs) (length cs) @ map (shift_ref (length cs)) (accepted_refs (Some ds) (length ds))"
proof -
  let ?n = "length cs" and ?m = "length ds"
  let ?A = "\<lambda>i. accepted (commandAt (Some (cs @ ds)) i)" and ?C = "\<lambda>i. command_ref i (commandAt (Some (cs @ ds)) i)"
  have "[0..<?n + ?m] = [0..<?n] @ map (\<lambda>i. i + ?n) [0..<?m]"
    by (metis add.commute map_add_upt upt_add_eq_append zero_le)
  then have "accepted_refs (Some (cs @ ds)) (?n + ?m) = map ?C (filter ?A [0..<?n]) @
      map ?C (filter ?A (map (\<lambda>i. i + ?n) [0..<?m]))"
    by (simp add: accepted_refs_def)
  moreover have "map ?C (filter ?A [0..<?n]) = accepted_refs (Some cs) ?n"
  proof -
    have "filter ?A [0..<?n] = filter (\<lambda>i. accepted (commandAt (Some cs) i)) [0..<?n]"
      by (rule filter_cong) (simp_all add: commandAt_append)
    then show ?thesis by (auto simp: accepted_refs_def commandAt_append)
  qed
  moreover have "map ?C (filter ?A (map (\<lambda>i. i + ?n) [0..<?m])) = map (shift_ref ?n) (accepted_refs (Some ds) ?m)"
  proof -
    have "filter (?A \<circ> (\<lambda>i. i + ?n)) [0..<?m] = filter (\<lambda>i. accepted (commandAt (Some ds) i)) [0..<?m]"
      by (rule filter_cong) (simp_all add: commandAt_append)
    then show ?thesis
      by (auto simp: accepted_refs_def filter_map commandAt_append command_ref_def shift_ref_def)
  qed
  ultimately show ?thesis by simp
qed

definition laid_out :: "ResourceAliasResolver \<Rightarrow> SourceCommandView list \<Rightarrow> FrameGraph \<Rightarrow> bool" where
  "laid_out ar cs g = (tiling g \<and> plain_flags g \<and> [] \<notin> set (groups g) \<and>
     g_commands g = accepted_refs (Some cs) (length cs) \<and>
     draw_groups g = map (draws_of (Some cs)) (groups g) \<and> length (g_draws g) \<le> length cs \<and>
     accounted (command_footprint ar (Some cs)) (groups g) (log_of g) \<and>
     distinct (map r_handle (g_resources g)) \<and> (\<forall>r \<in> set (g_resources g). r_handle r \<noteq> 0) \<and>
     (\<forall>h. sorted (map a_pass_index (log_of g h))))"

lemma built_laid_out: "built ar (Some cs) (length cs) b \<Longrightarrow> laid_out ar cs (b_graph b)"
  by (simp add: built_def laid_out_def graph_ok_def log_ok_def)

lemma laid_out_reset: "laid_out ar [] reset_graph"
  by (simp add: laid_out_def reset_graph_def tiling_def cmd_ranges_def draw_ranges_def plain_flags_def
      groups_def draw_groups_def accepted_refs_def accounted_def log_of_def)

lemma laid_out_bounds:
  assumes "laid_out ar cs g"
  shows "length (g_passes g) \<le> length cs" and "length (g_commands g) \<le> length cs"
    and "length (g_draws g) \<le> length cs"
    and "c \<in> set (concat (groups g)) \<Longrightarrow> cref_command_index c < length cs"
    and "c \<in> set (g_commands g) \<Longrightarrow> cref_command_index c < length cs"
    and "d \<in> set (g_draws g) \<Longrightarrow> dref_command_index d < length cs"
    and "a \<in> set (log_of g h) \<Longrightarrow> a_pass_index a < length (g_passes g)"
proof -
  have t: "tiling g" and ne: "[] \<notin> set (groups g)" and gc: "g_commands g = accepted_refs (Some cs) (length cs)"
    and dg: "draw_groups g = map (draws_of (Some cs)) (groups g)"
    and acc: "accounted (command_footprint ar (Some cs)) (groups g) (log_of g)"
    using assms by (simp_all add: laid_out_def)
  show "length (g_commands g) \<le> length cs" using gc length_accepted_refs by simp
  then show "length (g_passes g) \<le> length cs"
    using length_concat_ge [OF ne] groups_concat [OF t] by simp
  show "length (g_draws g) \<le> length cs" using assms by (simp add: laid_out_def)
  show c: "c \<in> set (g_commands g) \<Longrightarrow> cref_command_index c < length cs" for c
    by (simp add: gc accepted_refs_mem)
  then show g: "c \<in> set (concat (groups g)) \<Longrightarrow> cref_command_index c < length cs" for c
    by (simp only: groups_concat [OF t])
  have cd: "concat (draw_groups g) = g_draws g"
    using t by (simp add: draw_groups_alt tiling_def tile_groups_concat)
  show "dref_command_index d < length cs" if d: "d \<in> set (g_draws g)"
  proof -
    obtain grp where grp: "grp \<in> set (groups g)" "d \<in> set (draws_of (Some cs) grp)"
      using d unfolding cd [symmetric] dg by auto
    then obtain c where c: "c \<in> set grp" "dref_command_index d = cref_command_index c"
      by (auto simp: draws_of_def draw_refs_def split: if_splits)
    then show ?thesis using g [of c] grp(1) by auto
  qed
  show "a \<in> set (log_of g h) \<Longrightarrow> a_pass_index a < length (g_passes g)"
    using acc by (auto simp: accounted_def)
qed

lemma accounted_join:
  assumes A: "accounted F G L" and B: "accounted F2 G2 L2"
    and F: "\<forall>c \<in> set (concat G). F' (cref_command_index c) = F (cref_command_index c)"
    and F2: "\<forall>c \<in> set (concat G2). F' (cref_command_index c + n) = F2 (cref_command_index c)"
    and len: "length G < u32_limit"
  shows "accounted F' (G @ map (map (shift_ref n)) G2) (\<lambda>h. L h @ map (rebaseAccess (length G)) (L2 h))"
proof -
  let ?G = "G @ map (map (shift_ref n)) G2" and ?L = "\<lambda>h. L h @ map (rebaseAccess (length G)) (L2 h)"
  have cover: "\<exists>a \<in> set (?L h). a_pass_index a = p \<and> stands_for (a_access_kind a) k"
    if p: "p < length ?G" and c: "c \<in> set (?G ! p)" and hk: "(h, k) \<in> F' (cref_command_index c)" for p c h k
  proof (cases "p < length G")
    case True
    then have "c \<in> set (G ! p)" using c by (simp add: nth_append)
    moreover from this have "(h, k) \<in> F (cref_command_index c)" using F hk True by (metis UN_I nth_mem set_concat)
    ultimately show ?thesis using A True unfolding accounted_def by fastforce
  next
    case False
    then have q: "p - length G < length G2" using p by simp
    then obtain d where d: "d \<in> set (G2 ! (p - length G))" "c = shift_ref n d"
      using c False by (auto simp: nth_append)
    then have "d \<in> set (concat G2)" using q by auto
    from F2 [rule_format, OF this] have "(h, k) \<in> F2 (cref_command_index d)" using hk d(2) by simp
    then obtain a where "a \<in> set (L2 h)" "a_pass_index a = p - length G" "stands_for (a_access_kind a) k"
      using B q d(1) unfolding accounted_def by fastforce
    moreover from this have "rebaseAccess (length G) a \<in> set (?L h)" by simp
    ultimately show ?thesis
      using False len by (intro bexI [of _ "rebaseAccess (length G) a"]) (simp add: rebaseAccess_def)
  qed
  have prov: "a_pass_index a < length ?G \<and>
      (\<exists>c \<in> set (?G ! a_pass_index a). (h, a_access_kind a) \<in> F' (cref_command_index c))"
    if a: "a \<in> set (?L h)" for h a
  proof -
    consider "a \<in> set (L h)" | b where "b \<in> set (L2 h)" "a = rebaseAccess (length G) b" using a by auto
    then show ?thesis
    proof cases
      case 1
      then obtain c where c: "a_pass_index a < length G" "c \<in> set (G ! a_pass_index a)"
        "(h, a_access_kind a) \<in> F (cref_command_index c)"
        using A unfolding accounted_def by blast
      then have "(h, a_access_kind a) \<in> F' (cref_command_index c)" using F by (metis UN_I nth_mem set_concat)
      then show ?thesis using c by (auto simp: nth_append)
    next
      case 2
      then obtain c where c: "a_pass_index b < length G2" "c \<in> set (G2 ! a_pass_index b)"
        "(h, a_access_kind b) \<in> F2 (cref_command_index c)"
        using B unfolding accounted_def by blast
      then have "c \<in> set (concat G2)" by auto
      from F2 [rule_format, OF this] have "(h, a_access_kind b) \<in> F' (cref_command_index c + n)" using c(3) by simp
      then show ?thesis using c 2 len
        by (auto simp: rebaseAccess_def nth_append intro!: bexI [of _ c])
    qed
  qed
  show ?thesis unfolding accounted_def using cover prov by blast
qed

lemma draws_of_prefix:
  "\<forall>c \<in> set grp. cref_command_index c < length cs \<Longrightarrow> draws_of (Some (cs @ ds)) grp = draws_of (Some cs) grp"
  by (induction grp) (simp_all add: draws_of_def commandAt_append)

lemma commandAt_shift:
  "i < length ds \<Longrightarrow> commandAt (Some (cs @ ds)) (i + length cs) = commandAt (Some ds) i"
  by (simp add: commandAt_append)

lemma draw_refs_shift: "draw_refs (i + n) cmd = map (shift_draw n) (draw_refs i cmd)"
  by (simp add: draw_refs_def shift_draw_def)

lemma draws_of_shift:
  "\<forall>c \<in> set grp. cref_command_index c < length ds \<Longrightarrow>
     draws_of (Some (cs @ ds)) (map (shift_ref (length cs)) grp) =
     map (shift_draw (length cs)) (draws_of (Some ds) grp)"
  by (induction grp) (simp_all add: draws_of_def commandAt_shift draw_refs_shift nth_append)

lemma sorted_join:
  assumes "sorted (map a_pass_index l)" and "sorted (map a_pass_index m)"
    and "\<forall>a \<in> set l. a_pass_index a < base" and "base < u32_limit"
  shows "sorted (map a_pass_index (l @ map (rebaseAccess base) m))"
  using assms by (fastforce simp: sorted_append rebaseAccess_def comp_def sorted_map
      intro: sorted_wrt_mono_rel)

lemma laid_out_append:
  assumes g: "laid_out ar cs g" and l: "laid_out ar ds l" and n: "Suc (length cs + length ds) < u32_limit"
  obtains g' where "appendSourceGraph g l (length cs) = Some g'" and "laid_out ar (cs @ ds) g'"
proof -
  let ?n = "length cs" and ?m = "length ds" and ?pb = "length (g_passes g)"
  let ?db = "length (g_draws g)" and ?cb = "length (g_commands g)"
  note G = laid_out_bounds [OF g] and L = laid_out_bounds [OF l]
  have tg: "tiling g" and tl: "tiling l" using g l by (simp_all add: laid_out_def)
  let ?g0 = "g\<lparr>g_draws := g_draws g @ map (shift_draw ?n) (g_draws l),
      g_commands := g_commands g @ map (shift_ref ?n) (g_commands l),
      g_passes := g_passes g @ map (rebasePass ?db ?cb) (g_passes l)\<rparr>"
  have bounds: "?pb < u32_limit" "?db < u32_limit" "?cb < u32_limit" using G n by simp_all
  have first: "rg_first (p_draws p) + ?db \<le> UINT32_MAX \<and> rg_first (p_commands p) + ?cb \<le> UINT32_MAX"
    if p: "p \<in> set (g_passes l)" for p
  proof -
    have "(rg_first (p_draws p), rg_count (p_draws p)) \<in> set (draw_ranges l)"
      "(rg_first (p_commands p), rg_count (p_commands p)) \<in> set (cmd_ranges l)"
      using p by (auto simp: draw_ranges_def cmd_ranges_def)
    then have "rg_first (p_draws p) \<le> length (g_draws l)" "rg_first (p_commands p) \<le> length (g_commands l)"
      using tl tiles_from_range by (fastforce simp: tiling_def)+
    then show ?thesis using G(2,3) L(2,3) n by simp
  qed
  have rng: "\<forall>r \<in> set (g_resources l). \<forall>a \<in> set (r_accesses r). a_pass_index a + ?pb \<le> UINT32_MAX"
  proof (intro ballI)
    fix r a assume r: "r \<in> set (g_resources l)" and a: "a \<in> set (r_accesses r)"
    obtain i where "i < length (g_resources l)" "r = g_resources l ! i" using r by (auto simp: in_set_conv_nth)
    then have "log_of l (r_handle r) = r_accesses r"
      using l find_index_from_distinct [of "g_resources l" i 0] by (simp add: log_of_def log_in_def laid_out_def)
    then have "a_pass_index a < length (g_passes l)" using L(7) a by metis
    then show "a_pass_index a + ?pb \<le> UINT32_MAX" using G(1) L(1) n by simp
  qed
  obtain g1 where g1: "appendResources ?pb (g_resources l) ?g0 = Some g1" "same_vectors ?g0 g1"
    "distinct (map r_handle (g_resources g1))" "\<forall>r \<in> set (g_resources g1). r_handle r \<noteq> 0"
    "\<forall>h. log_of g1 h = log_of ?g0 h @ map (rebaseAccess ?pb) (log_in (g_resources l) h)"
    using appendResources_result [of ?g0 "g_resources l" ?pb] g l rng by (auto simp: laid_out_def)
  define g' where "g' = g1\<lparr>g_flush_boundary := g_flush_boundary g1 \<or> g_flush_boundary l\<rparr>"
  have log: "log_of g' = (\<lambda>h. log_of g h @ map (rebaseAccess ?pb) (log_of l h))"
    using g1(5) by (simp add: g'_def log_of_def fun_eq_iff)
  have vec: "g_passes g' = g_passes g @ map (rebasePass ?db ?cb) (g_passes l)"
    "g_commands g' = g_commands g @ map (shift_ref ?n) (g_commands l)"
    "g_draws g' = g_draws g @ map (shift_draw ?n) (g_draws l)"
    using g1(2) by (simp_all add: g'_def same_vectors_def)
  have rg: "cmd_ranges g' = cmd_ranges g @ map (shift_range ?cb) (cmd_ranges l)"
    "draw_ranges g' = draw_ranges g @ map (shift_range ?db) (draw_ranges l)"
    unfolding cmd_ranges_def draw_ranges_def vec(1)
    using bounds by (simp_all add: shift_range_def rebasePass_def)
  have size: "?cb + length (g_commands l) < u32_limit" "?db + length (g_draws l) < u32_limit"
    using G(2,3) L(2,3) n by simp_all
  note J = tile_groups_join(1) [OF _ _ size(1), of "cmd_ranges g" "cmd_ranges l"]
    tile_groups_join(1) [OF _ _ size(2), of "draw_ranges g" "draw_ranges l"]
  note JG = tile_groups_join(2) [OF _ _ size(1), of "cmd_ranges g" "cmd_ranges l"]
    tile_groups_join(2) [OF _ _ size(2), of "draw_ranges g" "draw_ranges l"]
  have groups: "groups g' = groups g @ map (map (shift_ref ?n)) (groups l)"
    "draw_groups g' = draw_groups g @ map (map (shift_draw ?n)) (draw_groups l)"
    unfolding groups_alt draw_groups_alt rg vec using JG tg tl by (simp_all add: tiling_def)
  have "tiling g'"
    unfolding tiling_def rg vec using J tg tl size by (simp add: tiling_def)
  moreover have "draw_groups g' = map (draws_of (Some (cs @ ds))) (groups g')"
  proof -
    have "map (draws_of (Some (cs @ ds))) (groups g) = map (draws_of (Some cs)) (groups g)"
      using G(4) by (intro map_cong refl draws_of_prefix) auto
    moreover have "map (draws_of (Some (cs @ ds)) \<circ> map (shift_ref ?n)) (groups l) =
        map (map (shift_draw ?n) \<circ> draws_of (Some ds)) (groups l)"
      using L(4) by (intro map_cong refl) (auto intro!: draws_of_shift)
    ultimately show ?thesis using g l by (simp add: groups laid_out_def)
  qed
  moreover have "accounted (command_footprint ar (Some (cs @ ds))) (groups g') (log_of g')"
    unfolding groups(1) log
  proof (rule accounted_join [of "command_footprint ar (Some cs)" "groups g" "log_of g"
        "command_footprint ar (Some ds)" "groups l" "log_of l", unfolded length_groups])
    show "\<forall>c \<in> set (concat (groups g)). command_footprint ar (Some (cs @ ds)) (cref_command_index c) =
        command_footprint ar (Some cs) (cref_command_index c)"
      using G(4) by (auto simp: command_footprint_def commandAt_append)
    show "\<forall>c \<in> set (concat (groups l)). command_footprint ar (Some (cs @ ds)) (cref_command_index c + ?n) =
        command_footprint ar (Some ds) (cref_command_index c)"
      using L(4) by (auto simp: command_footprint_def commandAt_append)
  qed (use g l bounds in \<open>simp_all add: laid_out_def\<close>)
  moreover have "plain_flags g'"
    using g l by (auto simp: laid_out_def plain_flags_def vec rebasePass_def)
  moreover have "\<forall>h. sorted (map a_pass_index (log_of g' h))"
    unfolding log using g l G(7) bounds(1) by (auto intro!: sorted_join simp: laid_out_def simp del: map_append)
  moreover have "g_commands g' = accepted_refs (Some (cs @ ds)) (length (cs @ ds))"
    using g l by (simp add: vec accepted_refs_append laid_out_def)
  moreover have "g_resources g' = g_resources g1" by (simp add: g'_def)
  moreover have "[] \<notin> set (groups g')" using g l by (auto simp: groups laid_out_def)
  moreover have "length (g_draws g') \<le> length (cs @ ds)" using G(3) L(3) by (simp add: vec)
  ultimately have "laid_out ar (cs @ ds) g'"
    unfolding laid_out_def using g1(3,4) by simp
  moreover have "appendSourceGraph g l ?n = Some g'"
  proof -
    have "dref_command_index d \<le> UINT32_MAX - ?n" if "d \<in> set (g_draws l)" for d
      using L(6) [OF that] n by simp
    moreover have "cref_command_index c \<le> UINT32_MAX - ?n" if "c \<in> set (g_commands l)" for c
      using L(5) [OF that] n by simp
    moreover have "rg_first (p_draws p) \<le> UINT32_MAX - ?db \<and> rg_first (p_commands p) \<le> UINT32_MAX - ?cb"
      if "p \<in> set (g_passes l)" for p using first [OF that] by (simp add: add_le_imp_le_diff)
    ultimately show ?thesis
      using bounds g1(1)
      by (auto simp: appendSourceGraph_def g'_def shift_ref_def [abs_def] shift_draw_def [abs_def] not_less)
  qed
  ultimately show thesis using that by blast
qed

section \<open>The whole window\<close>

definition joined_commands :: "MultiSourcePlanningSource list \<Rightarrow> SourceCommandView list" where
  "joined_commands sources = concat (map payload_commands sources)"

lemma length_joined: "length (joined_commands sources) = window_size sources"
  by (simp add: joined_commands_def window_size_def length_concat commandCount_def [abs_def] comp_def)

lemma append_one_source:
  assumes g: "laid_out ar cs g" and n: "Suc (length cs + length ds) < u32_limit"
  obtains g' where "appendSourceGraph g (buildFrameGraph (Some ds) frame_id ar) (length cs) = Some g'"
    and "laid_out ar (cs @ ds) g'"
proof -
  have "Suc (commandCount (Some ds)) < u32_limit" using n by simp
  then obtain b where b: "built ar (Some ds) (commandCount (Some ds)) b"
    "buildFrameGraph (Some ds) frame_id ar = b_graph b" using built_buildFrameGraph by metis
  then have "laid_out ar ds (b_graph b)" using built_laid_out by simp
  from laid_out_append [OF g this n] show thesis using that b(2) by metis
qed

lemma combineSources_result:
  assumes "laid_out ar cs g" and "None \<notin> set sources"
    and "Suc (length cs + window_size sources) < u32_limit"
  shows "\<exists>g'. combineSources ar sources i g (length cs) = Some (g', length cs + window_size sources) \<and>
    laid_out ar (cs @ joined_commands sources) g'"
  using assms
proof (induction sources arbitrary: cs g i)
  case Nil
  then show ?case by (simp add: joined_commands_def)
next
  case (Cons source sources)
  obtain ds where ds: "source = Some ds" using Cons.prems(2) by (cases source) auto
  have n: "Suc (length cs + length ds) < u32_limit" using Cons.prems(3) ds by simp
  obtain g1 where g1: "appendSourceGraph g (buildFrameGraph (Some ds) i ar) (length cs) = Some g1"
    "laid_out ar (cs @ ds) g1" using append_one_source [OF Cons.prems(1) n] by blast
  have "\<exists>g'. combineSources ar sources (Suc i) g1 (length (cs @ ds)) =
      Some (g', length (cs @ ds) + window_size sources) \<and>
      laid_out ar ((cs @ ds) @ joined_commands sources) g'"
    by (rule Cons.IH [OF g1(2)]) (use Cons.prems ds in simp_all)
  then show ?case
    using g1(1) n by (auto simp: ds joined_commands_def payload_commands_def add.assoc)
qed

lemma appendSources_result:
  assumes "laid_out no_alias cs g" and "None \<notin> set sources"
    and "Suc (length cs + window_size sources) < u32_limit"
  shows "\<exists>g'. appendSources (\<lambda>p base. buildFrameGraph p base no_alias) sources g (length cs) = Some g' \<and>
    laid_out no_alias (cs @ joined_commands sources) g'"
  using assms
proof (induction sources arbitrary: cs g)
  case Nil
  then show ?case by (simp add: joined_commands_def)
next
  case (Cons source sources)
  obtain ds where ds: "source = Some ds" using Cons.prems(2) by (cases source) auto
  have n: "Suc (length cs + length ds) < u32_limit" using Cons.prems(3) ds by simp
  obtain g1 where g1: "appendSourceGraph g (buildFrameGraph (Some ds) (length cs) no_alias) (length cs) = Some g1"
    "laid_out no_alias (cs @ ds) g1" using append_one_source [OF Cons.prems(1) n] by blast
  have "\<exists>g'. appendSources (\<lambda>p base. buildFrameGraph p base no_alias) sources g1 (length (cs @ ds)) = Some g' \<and>
      laid_out no_alias ((cs @ ds) @ joined_commands sources) g'"
    by (rule Cons.IH [OF g1(2)]) (use Cons.prems ds in simp_all)
  then show ?case
    using g1(1) n by (auto simp: ds joined_commands_def payload_commands_def)
qed

text \<open>With its hazards re-inferred the combined graph is a built graph of the joined payload.\<close>

lemma laid_out_inferred:
  assumes "laid_out ar cs g"
  shows "\<exists>b. built ar (Some cs) (length cs) b \<and> b_graph b = inferCombinedHazards g"
proof -
  let ?g = "inferCombinedHazards g" and ?b = "\<lparr>b_graph = inferCombinedHazards g, b_currentPass = 0,
      b_openRenderPass = False\<rparr>"
  note L = assms [unfolded laid_out_def]
  have I: "graph_ok ?g" "g_passes ?g = g_passes g" "g_resources ?g = g_resources g"
    "g_draws ?g = g_draws g" "g_commands ?g = g_commands g"
    using inferCombinedHazards_ok [of g] L laid_out_bounds(7) [OF assms] by blast+
  then have "groups ?g = groups g" "draw_groups ?g = draw_groups g" "log_of ?g = log_of g" "tiling ?g = tiling g"
    "plain_flags ?g = plain_flags g"
    by (simp_all add: groups_def draw_groups_def cmd_ranges_def draw_ranges_def pass_commands_def
        pass_draws_def log_of_def fun_eq_iff tiling_def plain_flags_def)
  then have "built ar (Some cs) (length cs) ?b"
    using L I by (simp add: built_def open_ok_def)
  then show ?thesis by force
qed

text \<open>
  The combined graph of a source window. For a valid window of fewer than 2^32 - 1 commands
  the construction succeeds; the passes hold the accepted commands of all sources in window
  order, with their indices rebased; every two conflicting commands of the window, also of
  different sources, are ordered by the edges or share a pass in order; and every edge points
  forward, is stored once and joins conflicting accesses. Without memory the result is the empty
  graph and \<^verbatim>\<open>false\<close>.
\<close>

theorem combined_graph_orders_window:
  assumes "valid_window sources" and "Suc (window_size sources) < u32_limit"
  defines "payload \<equiv> Some (joined_commands sources)"
    and "g \<equiv> fst (buildMultiSourceFrameGraph True sources)"
  shows "snd (buildMultiSourceFrameGraph True sources) \<and>
    linear_commands g = accepted_refs payload (window_size sources) \<and>
    hazard_ok (must_precede (command_footprint no_alias payload)) g \<and>
    distinct (g_edges g) \<and> (\<forall>e \<in> set (g_edges g). edge_ok g e) \<and>
    buildMultiSourceFrameGraph False sources = (reset_graph, False)"
proof -
  have "laid_out no_alias [] reset_graph" by (rule laid_out_reset)
  then obtain g0 where g0: "appendSources (\<lambda>p base. buildFrameGraph p base no_alias) sources reset_graph 0 = Some g0"
    "laid_out no_alias (joined_commands sources) g0"
    using appendSources_result [of "[]" reset_graph sources] assms by (auto simp: valid_window_def)
  have g: "buildMultiSourceFrameGraph True sources = (inferCombinedHazards g0, True)"
    using assms(1) g0(1) by (simp add: buildMultiSourceFrameGraph_def validateSources_iff)
  obtain b where b: "built no_alias payload (window_size sources) b" "b_graph b = inferCombinedHazards g0"
    using laid_out_inferred [OF g0(2)] by (auto simp: payload_def length_joined)
  have "linear_commands (b_graph b) = accepted_refs payload (window_size sources)"
    using b(1) by (simp add: built_def linear_commands_groups groups_concat)
  moreover have "graph_ok (b_graph b)" using b(1) by (simp add: built_def)
  moreover have "buildMultiSourceFrameGraph False sources = (reset_graph, False)"
    using assms(1) by (simp add: buildMultiSourceFrameGraph_def validateSources_iff)
  ultimately show ?thesis
    using built_planned(3) [OF b(1) assms(2)] by (simp add: g_def g b(2) [symmetric] graph_ok_def)
qed

text \<open>Two one-command sources that share resource 7: the copies are joined by one edge.\<close>

definition copy_window :: "MultiSourcePlanningSource list" where
  "copy_window = [Some [copy_command 5 7], Some [copy_command 7 9]]"

theorem combined_graph_orders_window_witness:
  "snd (buildMultiSourceFrameGraph True copy_window) \<and>
   map cref_command_index (linear_commands (fst (buildMultiSourceFrameGraph True copy_window))) = [0, 1]"
proof -
  have "valid_window copy_window" "Suc (window_size copy_window) < u32_limit"
    by (simp_all add: valid_window_def copy_window_def)
  from combined_graph_orders_window [OF this] show ?thesis
    by (simp add: copy_window_def joined_commands_def accepted_refs_def command_ref_def copy_command_def
        accepted_def empty_command_def payload_commands_def commandAt_def)
qed

end
