(* ===== verification/Fg_Multi_Plan.thy ===== *)
theory Fg_Multi_Plan
  imports Fg_Dce_Limits Fg_Multi_Join
begin

text \<open>
  The multi-source planner. Whatever the window, the seed and the diagnostics, the planner returns
  a complete valid replay order or refuses a malformed window; the order computes the same
  memory as the first-in first-out order.
\<close>

section \<open>Locating flattened commands\<close>

lemma locateCommand_from:
  assumes "i < window_size ss" and "window_size ss < u32_limit"
  shows "\<exists>d l. locateCommand ss k i = (k + d, l) \<and> d < length ss \<and> l < commandCount (ss ! d) \<and>
    window_size (take d ss) + l = i"
  using assms
proof (induction ss k i rule: locateCommand.induct)
  case (1 k i)
  then show ?case by simp
next
  case (2 s ss k i)
  have c: "as_u32 (commandCount s) = commandCount s" using 2(3) by simp
  show ?case
  proof (cases "i < commandCount s")
    case True
    then show ?thesis using c by (intro exI [of _ 0] exI [of _ i]) simp
  next
    case False
    then have "\<exists>d l. locateCommand ss (Suc k) (i - commandCount s) = (Suc k + d, l) \<and> d < length ss \<and>
        l < commandCount (ss ! d) \<and> window_size (take d ss) + l = i - commandCount s"
      using 2 c by simp
    then obtain d l where "locateCommand ss (Suc k) (i - commandCount s) = (Suc k + d, l)" "d < length ss"
      "l < commandCount (ss ! d)" "window_size (take d ss) + l = i - commandCount s" by blast
    then show ?thesis using False c by (intro exI [of _ "Suc d"] exI [of _ l]) simp
  qed
qed

definition locator_of :: "MultiSourcePlanningSource list \<Rightarrow> nat \<Rightarrow> RetainedSourceCommandLocator" where
  "locator_of sources i = (let (s, l) = locateCommand sources 0 i in
     \<lparr>lc_retainedSourceIndex = s, lc_commandIndex = l\<rparr>)"

lemma locator_of_index:
  assumes "valid_window sources" and "i < window_size sources"
  shows "natural_index sources (locator_of sources i) = i" and "in_window sources (locator_of sources i)"
  using locateCommand_from [of i sources 0] assms
  by (auto simp: valid_window_def locator_of_def natural_index_def in_window_def)

section \<open>Reading the plan off the graph\<close>

text \<open>\<open>marked n is seen seen'\<close>: from \<open>seen\<close>, the fresh distinct indices \<open>is\<close> were marked.\<close>

definition marked :: "nat \<Rightarrow> nat list \<Rightarrow> bool list \<Rightarrow> bool list \<Rightarrow> bool" where
  "marked n is seen seen' = ((\<forall>i \<in> set is. i < n \<and> \<not> seen ! i) \<and> distinct is \<and>
     length seen' = length seen \<and> (\<forall>i < length seen. seen' ! i = (seen ! i \<or> i \<in> set is)))"

lemma marked_Nil: "marked n [] seen seen"
  by (simp add: marked_def)

lemma marked_one: "i < n \<Longrightarrow> n \<le> length seen \<Longrightarrow> \<not> seen ! i \<Longrightarrow> marked n [i] seen (seen[i := True])"
  by (simp add: marked_def nth_list_update)

lemma marked_append:
  assumes a: "marked n is s1 s2" and b: "marked n js s2 s3" and n: "n \<le> length s1"
  shows "marked n (is @ js) s1 s3"
proof -
  have fresh: "\<not> s1 ! j \<and> j \<notin> set is" if "j \<in> set js" for j
  proof -
    have "j < length s1" "\<not> s2 ! j" using that b n by (auto simp: marked_def)
    then show ?thesis using a by (simp add: marked_def)
  qed
  then have "set is \<inter> set js = {}" by blast
  then show ?thesis using a b fresh by (simp add: marked_def) blast
qed

lemma extractRefs_result:
  "extractRefs sources n cs (seen, out) = Some (seen', out') \<Longrightarrow> n \<le> length seen \<Longrightarrow>
     marked n (map cref_command_index cs) seen seen' \<and>
     out' = out @ map (locator_of sources \<circ> cref_command_index) cs"
proof (induction cs arbitrary: seen out)
  case Nil
  then show ?case by (simp add: marked_Nil)
next
  case (Cons c cs)
  let ?i = "cref_command_index c"
  obtain s l where sl: "locateCommand sources 0 ?i = (s, l)" by (cases "locateCommand sources 0 ?i")
  have i: "?i < n" "\<not> seen ! ?i"
    and rest: "extractRefs sources n cs (seen[?i := True],
        out @ [\<lparr>lc_retainedSourceIndex = s, lc_commandIndex = l\<rparr>]) = Some (seen', out')"
    using Cons.prems(1) sl by (auto split: if_splits)
  note marked_append [OF marked_one [OF i(1) Cons.prems(2) i(2)], of "map cref_command_index cs" seen']
  then show ?case
    using Cons.IH [OF rest] Cons.prems(2) sl by (simp add: locator_of_def)
qed

lemma extractPasses_result:
  "extractPasses sources n g ps (seen, out) = Some (seen', out') \<Longrightarrow> n \<le> length seen \<Longrightarrow>
     marked n (map cref_command_index (concat (map (pass_commands g) ps))) seen seen' \<and>
     out' = out @ map (locator_of sources \<circ> cref_command_index) (concat (map (pass_commands g) ps))"
proof (induction ps arbitrary: seen out)
  case Nil
  then show ?case by (simp add: marked_Nil)
next
  case (Cons p ps)
  obtain seen1 out1 where 1: "extractRefs sources n (pass_commands g p) (seen, out) = Some (seen1, out1)"
    and 2: "extractPasses sources n g ps (seen1, out1) = Some (seen', out')"
    using Cons.prems(1) by (auto split: if_splits option.splits)
  note E = extractRefs_result [OF 1 Cons.prems(2)]
  then have "length seen1 = length seen" by (simp add: marked_def)
  then show ?case
    using Cons.IH [OF 2] E Cons.prems(2) marked_append [of n _ seen seen1] by simp
qed

lemma extracted_order:
  assumes w: "valid_window sources"
    and e: "extractPasses sources (window_size sources) g (g_passes g)
      (replicate (window_size sources) False, []) = Some (seen, commands)"
    and all: "False \<notin> set seen"
  shows "map (natural_index sources) commands = map cref_command_index (linear_commands g)"
    and "mset (map cref_command_index (linear_commands g)) = mset [0..<window_size sources]"
proof -
  let ?cs = "linear_commands g" and ?n = "window_size sources"
  have R: "\<forall>c \<in> set ?cs. cref_command_index c < ?n" "distinct (map cref_command_index ?cs)" "length seen = ?n"
    "\<forall>i < ?n. seen ! i = (i \<in> cref_command_index ` set ?cs)"
    "commands = map (locator_of sources \<circ> cref_command_index) ?cs"
    using extractPasses_result [OF e] by (simp_all add: linear_commands_def marked_def)
  show "map (natural_index sources) commands = map cref_command_index ?cs"
    using R(1,5) locator_of_index(1) [OF w] by simp
  have "\<forall>i < ?n. i \<in> cref_command_index ` set ?cs"
    using R(3,4) all by (metis (full_types) nth_mem)
  then have "cref_command_index ` set ?cs = {..<?n}" using R(1) by auto
  then have "set (map cref_command_index ?cs) = set [0..<?n]" by (simp add: atLeast_upt)
  then show "mset (map cref_command_index ?cs) = mset [0..<?n]"
    using R(2) set_eq_iff_mset_eq_distinct [of "map cref_command_index ?cs" "[0..<?n]"] by simp
qed

section \<open>The cases of the planner\<close>

text \<open>Either the natural plan with some outcome, or a plan read off a coalesced combined graph.\<close>

definition keeps_window :: "ResourceAliasResolver \<Rightarrow> MultiSourcePlanningSource list \<Rightarrow> FrameGraph \<Rightarrow> bool" where
  "keeps_window ar sources g = (\<exists>cs. carried (must_precede (command_footprint ar
     (Some (joined_commands sources)))) cs g)"

definition planned_from ::
  "MultiSourcePlanningSource list \<Rightarrow> bool \<Rightarrow> FrameGraph \<Rightarrow> MultiSourceReplayPlan \<Rightarrow> bool" where
  "planned_from sources seeded g plan = (\<exists>seen.
     extractPasses sources (window_size sources) g (g_passes g)
       (replicate (window_size sources) False, []) = Some (seen, ms_commands plan) \<and> False \<notin> set seen \<and>
     validateMultiSourceReplayPermutation sources (ms_commands plan) = MsvValid \<and>
     ms_commands plan \<noteq> naturalPlan sources \<and> ms_disposition plan = MsdPlanned \<and>
     ms_validation plan = MsvValid \<and> dg_outcome (ms_diagnostics plan) = OutPlanned \<and>
     (seeded \<longrightarrow> hd (ms_commands plan) \<noteq> hd (naturalPlan sources) \<longrightarrow>
        activeRenderPlanningSeedProvesReplayHead g (flattenHead sources (hd (ms_commands plan)))))"

definition natural_with :: "MultiSourcePlanningSource list \<Rightarrow> MultiSourceReplayPlan \<Rightarrow> bool" where
  "natural_with sources plan = (\<exists>diagnostics outcome. outcome \<noteq> OutPlanned \<and> outcome \<noteq> OutInvalidInput \<and>
     plan = withOutcome (naturalFallback sources) diagnostics outcome)"

lemma selectPlan_cases:
  assumes "valid_window sources"
  shows "natural_with sources (selectPlan sources (window_size sources) g seeded (naturalFallback sources) d) \<or>
    planned_from sources seeded g (selectPlan sources (window_size sources) g seeded (naturalFallback sources) d)"
proof -
  have "ms_commands (naturalFallback sources) = naturalPlan sources"
    using assms by (simp add: naturalFallback_result)
  then show ?thesis
    unfolding selectPlan_def
    by (auto simp: natural_with_def planned_from_def withOutcome_def split: option.splits)
qed

lemma coalesceAndSelect_cases:
  assumes w: "valid_window sources" and g: "planned g" "undead g"
    "hazard_ok (must_precede (command_footprint ar (Some (joined_commands sources)))) g"
    and pl: "plan = coalesceAndSelect alloc_ok sources (window_size sources) seeded collect
    (naturalFallback sources) g d"
  shows "natural_with sources plan \<or> (\<exists>g'. keeps_window ar sources g' \<and> planned_from sources seeded g' plan)"
proof -
  let ?options = "default_options\<lparr>oo_passcoalesce := True\<rparr>"
  let ?sink = "if collect \<and> seeded then Some \<lparr>sk_capacity = length (g_passes g) - 1, sk_entries = [],
      sk_attempted = 0, sk_overflow = False\<rparr> else None"
  obtain g' stats sink where run: "runOptimizer alloc_ok g ?options None (Some no_stats) [] ?sink = (g', stats, sink)"
    by (metis prod_cases3)
  have keeps: "keeps_window ar sources g'"
    using runOptimizer_carried(1) [OF g(1,3,2) run] by (auto simp: keeps_window_def)
  let ?d = "classifyMerge g' (the stats) (case sink of
      None \<Rightarrow> recordMergeCounters (the stats) d
    | Some sk \<Rightarrow> publishWitnesses sources sk (os_active_seed_merge_count (the stats))
        (recordMergeCounters (the stats) d))"
  have plan: "plan = (if os_pass_coalesced_count (the stats) = 0
      then withOutcome (naturalFallback sources) ?d
        (if dg_activeTargetMatch ?d = AtmAbsent then OutNoActiveTargetMatch else OutNoMerge)
      else selectPlan sources (window_size sources) g' seeded (naturalFallback sources) ?d)"
    using run by (simp add: pl coalesceAndSelect_def)
  show ?thesis
  proof (cases "os_pass_coalesced_count (the stats) = 0")
    case True
    then have "natural_with sources plan"
      unfolding natural_with_def
      by (intro exI [of _ ?d] exI [of _ "if dg_activeTargetMatch ?d = AtmAbsent then OutNoActiveTargetMatch else OutNoMerge"])
        (simp add: plan)
    then show ?thesis ..
  next
    case False
    then show ?thesis using selectPlan_cases [OF w, of g' seeded ?d] keeps plan by auto
  qed
qed

lemma natural_fallback_valid: "valid_window sources \<Longrightarrow> ms_valid (naturalFallback sources)"
  by (simp add: naturalFallback_result ms_valid_def)

lemma planner_cases:
  assumes w: "valid_window sources" and n: "window_size sources + 2 < u32_limit"
    and pl: "plan = planMultiSourcePassCoalesceReplay alloc_ok sources seed ar collect"
  shows "natural_with sources plan \<or>
    (\<exists>g'. keeps_window ar sources g' \<and> planned_from sources (seed \<noteq> None) g' plan)"
proof -
  let ?P = "Some (joined_commands sources)" and ?N = "window_size sources"
  let ?R = "must_precede (command_footprint ar ?P)"
  have n1: "Suc ?N < u32_limit" using n by simp
  obtain g0 where g0: "combineSources ar sources 0 reset_graph 0 = Some (g0, ?N)"
    "laid_out ar (joined_commands sources) g0"
    using combineSources_result [OF laid_out_reset, of sources ar 0] w n1 by (auto simp: valid_window_def)
  let ?g = "inferCombinedHazards g0"
  obtain b where b: "built ar ?P ?N b" "b_graph b = ?g"
    using laid_out_inferred [OF g0(2)] by (auto simp: length_joined)
  note B = built_planned [OF b(1) n1, unfolded b(2)]
  have ok: "graph_ok ?g" and t: "tiling ?g" using b by (simp_all add: built_def)
  show ?thesis
  proof (cases seed)
    case None
    have "plan = coalesceAndSelect alloc_ok sources ?N False collect (naturalFallback sources) ?g
        (ms_diagnostics (naturalFallback sources))"
      using g0(1) natural_fallback_valid [OF w]
      by (simp add: pl planMultiSourcePassCoalesceReplay_def None)
    from coalesceAndSelect_cases [OF w B this] show ?thesis by (simp add: None)
  next
    case (Some sd)
    obtain g1 r where a: "applyActiveRenderPlanningSeed ?g sd ar = (g1, r)" by force
    let ?d0 = "(ms_diagnostics (naturalFallback sources))\<lparr>dg_seedApply := seedApplyDiagnostic r\<rparr>"
    have plan: "plan = (if r \<noteq> SeedApplied then withOutcome (naturalFallback sources) ?d0 OutSeedRejected
        else coalesceAndSelect alloc_ok sources ?N True collect (naturalFallback sources) g1
          (inspectActiveTargetMatch g1 ?d0))"
      using g0(1) natural_fallback_valid [OF w] a
      by (simp add: pl planMultiSourcePassCoalesceReplay_def Some)
    note F = seed_facts [OF ok t a]
    show ?thesis
    proof (cases "r = SeedApplied")
      case False
      then have "natural_with sources plan"
        unfolding natural_with_def plan
        by (intro exI [of _ ?d0] exI [of _ OutSeedRejected]) simp
      then show ?thesis ..
    next
      case True
      then have F: "g_passes g1 = g_passes (prependVirtualPass (sd_targets sd) ?g)" "tiling g1"
        "forward (edge_rel g1) (length (g_passes g1))" "hazard_ok ?R g1"
        using F B(3) by blast+
      then have len: "length (g_passes g1) = Suc (length (g_passes ?g))" by (simp add: prependVirtualPass_def)
      have "length (g_passes ?g) \<le> ?N"
        using b length_concat_ge [of "groups ?g"] length_accepted_refs [of ?P ?N]
        by (auto simp: built_def groups_concat)
      moreover have "length (g_passes ?g) < u32_limit - 1" using B(1) by (simp add: planned_def)
      ultimately have p: "planned g1" using F n len by (simp add: planned_def)
      have u: "undead g1"
        using B(2) F(1) by (simp add: undead_def prependVirtualPass_def default_pass_def no_flags_def)
      have "plan = coalesceAndSelect alloc_ok sources ?N True collect (naturalFallback sources) g1
          (inspectActiveTargetMatch g1 ?d0)" using plan True by simp
      from coalesceAndSelect_cases [OF w p u F(4) this] show ?thesis by (simp add: Some)
    qed
  qed
qed

text \<open>What a plan of the second case guarantees.\<close>

lemma planned_from_order:
  assumes w: "valid_window sources" and k: "keeps_window ar sources g" and p: "planned_from sources seeded g plan"
  defines "is \<equiv> map (natural_index sources) (ms_commands plan)"
  shows "mset is = mset [0..<window_size sources]"
    and "keeps_order (command_footprint ar (Some (joined_commands sources))) is"
proof -
  let ?F = "command_footprint ar (Some (joined_commands sources))"
  obtain seen where e: "extractPasses sources (window_size sources) g (g_passes g)
      (replicate (window_size sources) False, []) = Some (seen, ms_commands plan)" "False \<notin> set seen"
    using p by (auto simp: planned_from_def)
  note E = extracted_order [OF w e]
  have is_eq: "is = map cref_command_index (linear_commands g)" using E(1) by (simp add: is_def)
  show "mset is = mset [0..<window_size sources]" using E(2) is_eq by simp
  show "keeps_order ?F is"
    unfolding keeps_order_def
  proof (intro ballI impI)
    fix i j assume ij: "i \<in> set is" "j \<in> set is" "i < j" "depends ?F i j"
    then obtain c d where cd: "c \<in> set (linear_commands g)" "d \<in> set (linear_commands g)"
      "cref_command_index c = i" "cref_command_index d = j" unfolding is_eq by auto
    moreover have "must_precede ?F c d" using cd ij by (simp add: must_precede_def)
    ultimately have "precedes (linear_commands g) c d"
      using k unfolding linear_commands_groups
      by (intro ordered_linear [of "edge_rel g" "groups g" "must_precede ?F" c d])
        (auto simp: keeps_window_def carried_def hazard_ok_def)
    then show "precedes is i j" unfolding is_eq using precedes_map cd(3,4) by metis
  qed
qed

section \<open>The properties\<close>

text \<open>
  C1: planning over a source window never changes what the window computes. For a valid window of
  fewer than 2^32 - 2 commands, with or without an active-render seed, whatever the planner
  returns is a valid plan, and replaying it leaves the same memory as replaying the sources one
  after the other, whatever the commands compute from the resources they touch.
\<close>

theorem multi_source_plan_preserves_results:
  assumes "valid_window sources" and "window_size sources + 2 < u32_limit"
    and "plan = planMultiSourcePassCoalesceReplay alloc_ok sources seed ar collect"
  shows "ms_valid plan \<and>
    fold (run_command (command_footprint ar (Some (joined_commands sources))) body)
      (map (natural_index sources) (ms_commands plan)) m =
    fold (run_command (command_footprint ar (Some (joined_commands sources))) body)
      [0..<window_size sources] m"
  using planner_cases [OF assms]
proof
  assume "natural_with sources plan"
  then have "ms_commands plan = naturalPlan sources" "ms_valid plan"
    using assms(1) by (auto simp: natural_with_def withOutcome_def naturalFallback_result ms_valid_def)
  then show ?thesis using naturalPlan_index(1) [OF assms(1)] by simp
next
  assume "\<exists>g'. keeps_window ar sources g' \<and> planned_from sources (seed \<noteq> None) g' plan"
  then obtain g' where g': "keeps_window ar sources g'" "planned_from sources (seed \<noteq> None) g' plan" by blast
  then have "ms_valid plan" by (auto simp: planned_from_def ms_valid_def)
  then show ?thesis
    using keeps_order_same_result [OF planned_from_order(2,1) [OF assms(1) g']] by blast
qed

text \<open>A window that draws to target 3, then to target 4, then to target 3 again from a second source.\<close>

definition return_window :: "MultiSourcePlanningSource list" where
  "return_window = [Some [draw_command [3] 0, draw_command [4] 0], Some [draw_command [3] 0]]"

lemma return_window_valid: "valid_window return_window" "window_size return_window = 3"
  by (simp_all add: return_window_def valid_window_def)

theorem multi_source_plan_preserves_results_witness:
  "ms_valid (planMultiSourcePassCoalesceReplay True return_window None no_alias False) \<and>
   fold (run_command (command_footprint no_alias (Some (joined_commands return_window))) depth_body)
     (map (natural_index return_window)
       (ms_commands (planMultiSourcePassCoalesceReplay True return_window None no_alias False))) (\<lambda>_. 0) =
   fold (run_command (command_footprint no_alias (Some (joined_commands return_window))) depth_body)
     [0..<3] (\<lambda>_. 0)"
  using multi_source_plan_preserves_results
    [OF return_window_valid(1) _ refl, where alloc_ok = True and seed = None and ar = no_alias
      and collect = False and body = depth_body and m = "\<lambda>_. 0"]
  by (simp add: return_window_valid(2))

text \<open>
  C12: what the planner returns. A malformed window gives the empty plan marked invalid. A valid one
  always gives a complete permutation that the validator accepts: either the natural
  first-in first-out order with an outcome that says why, or an order that differs from it,
  marked planned; and when a seed is given and the head moved, the coalesced graph proves that
  the head belongs to the live pass of the seed.
\<close>

theorem multi_source_plan_complete:
  assumes "plan = planMultiSourcePassCoalesceReplay alloc_ok sources seed ar collect"
  shows "(\<not> valid_window sources \<longrightarrow> plan = invalid_plan) \<and>
    (valid_window sources \<longrightarrow> window_size sources + 2 < u32_limit \<longrightarrow>
      ms_validation plan = MsvValid \<and> mset (ms_commands plan) = mset (naturalPlan sources) \<and>
      validateMultiSourceReplayPermutation sources (ms_commands plan) = MsvValid \<and>
      (ms_disposition plan = MsdNaturalFifo \<and> ms_commands plan = naturalPlan sources \<and>
         dg_outcome (ms_diagnostics plan) \<notin> {OutPlanned, OutInvalidInput} \<or>
       ms_disposition plan = MsdPlanned \<and> ms_commands plan \<noteq> naturalPlan sources \<and>
         dg_outcome (ms_diagnostics plan) = OutPlanned \<and>
         (seed \<noteq> None \<longrightarrow> hd (ms_commands plan) \<noteq> hd (naturalPlan sources) \<longrightarrow>
           (\<exists>g. keeps_window ar sources g \<and> activeRenderPlanningSeedProvesReplayHead g
              (flattenHead sources (hd (ms_commands plan)))))))"
proof (cases "valid_window sources")
  case False
  then show ?thesis
    by (simp add: assms planMultiSourcePassCoalesceReplay_def naturalFallback_result ms_valid_def invalid_plan_def)
next
  case True
  show ?thesis
  proof (intro conjI impI)
    assume n: "window_size sources + 2 < u32_limit"
    from planner_cases [OF True n assms] have perm: "ms_validation plan = MsvValid"
      "validateMultiSourceReplayPermutation sources (ms_commands plan) = MsvValid"
      using natural_plan_valid [OF True] True
      by (auto simp: natural_with_def withOutcome_def naturalFallback_result planned_from_def)
    then show "ms_validation plan = MsvValid"
      "validateMultiSourceReplayPermutation sources (ms_commands plan) = MsvValid" by blast+
    show "mset (ms_commands plan) = mset (naturalPlan sources)" using perm(2) validator_result by blast
    show "ms_disposition plan = MsdNaturalFifo \<and> ms_commands plan = naturalPlan sources \<and>
         dg_outcome (ms_diagnostics plan) \<notin> {OutPlanned, OutInvalidInput} \<or>
       ms_disposition plan = MsdPlanned \<and> ms_commands plan \<noteq> naturalPlan sources \<and>
         dg_outcome (ms_diagnostics plan) = OutPlanned \<and>
         (seed \<noteq> None \<longrightarrow> hd (ms_commands plan) \<noteq> hd (naturalPlan sources) \<longrightarrow>
           (\<exists>g. keeps_window ar sources g \<and> activeRenderPlanningSeedProvesReplayHead g
              (flattenHead sources (hd (ms_commands plan)))))"
      using planner_cases [OF True n assms]
    proof
      assume "natural_with sources plan"
      then show ?thesis using True by (auto simp: natural_with_def withOutcome_def naturalFallback_result)
    next
      assume "\<exists>g'. keeps_window ar sources g' \<and> planned_from sources (seed \<noteq> None) g' plan"
      then show ?thesis unfolding planned_from_def by blast
    qed
  qed (use True in simp)
qed

theorem multi_source_plan_complete_witness:
  "mset (ms_commands (planMultiSourcePassCoalesceReplay True return_window None no_alias False)) =
     mset (naturalPlan return_window) \<and>
   planMultiSourcePassCoalesceReplay True [None] None no_alias False = invalid_plan"
  using multi_source_plan_complete [OF refl, where alloc_ok = True and sources = return_window and seed = None and ar = no_alias
      and collect = False]
    multi_source_plan_complete [OF refl, where alloc_ok = True and sources = "[None]" and seed = None and ar = no_alias
      and collect = False]
    return_window_valid
  by (simp add: valid_window_def)

end
