(* ===== verification/Fg_Multi_Runs.thy ===== *)
theory Fg_Multi_Runs
  imports Fg_Multi_Plan
begin

text \<open>
  The source-local runs of a validated replay plan: expanding the runs gives the plan back, no two
  neighbouring runs could be one, and the fragment numbers of the runs identify the first and the
  last visit of every source, so that setup and teardown of a source happen exactly once.
\<close>

definition run_commands :: "MultiSourceReplayRun \<Rightarrow> RetainedSourceCommandLocator list" where
  "run_commands run = map (\<lambda>c. \<lparr>lc_retainedSourceIndex = rn_retainedSourceIndex run,
     lc_commandIndex = rn_commandBegin run + c\<rparr>) [0..<rn_commandCount run]"

definition continues :: "MultiSourceReplayRun \<Rightarrow> MultiSourceReplayRun \<Rightarrow> bool" where
  "continues r r' = (rn_retainedSourceIndex r = rn_retainedSourceIndex r' \<and>
     rn_commandBegin r + rn_commandCount r = rn_commandBegin r')"

definition maximal_runs :: "MultiSourceReplayRun list \<Rightarrow> bool" where
  "maximal_runs runs = (\<forall>i. Suc i < length runs \<longrightarrow> \<not> continues (runs ! i) (runs ! Suc i))"

definition visits :: "nat \<Rightarrow> MultiSourceReplayRun list \<Rightarrow> nat" where
  "visits s runs = length (filter (\<lambda>r. rn_retainedSourceIndex r = s) runs)"

lemma visits_simps [simp]:
  "visits s [] = 0"
  "visits s (r # rs) = (if rn_retainedSourceIndex r = s then Suc (visits s rs) else visits s rs)"
  "visits s (xs @ ys) = visits s xs + visits s ys"
  by (simp_all add: visits_def)

lemma visits_le: "visits s runs \<le> length runs"
  by (simp add: visits_def)

lemma visits_sources:
  assumes "map rn_retainedSourceIndex xs = map rn_retainedSourceIndex ys"
  shows "visits s (take k xs) = visits s (take k ys)"
proof -
  have "visits s zs = length (filter ((=) s) (map rn_retainedSourceIndex zs))" for zs
    by (induction zs) auto
  then show ?thesis using assms by (metis take_map)
qed

section \<open>Building the runs\<close>

lemma maximal_runs_snoc:
  "maximal_runs (xs @ [r]) \<longleftrightarrow> maximal_runs xs \<and> (xs \<noteq> [] \<longrightarrow> \<not> continues (last xs) r)"
proof (cases xs rule: rev_cases)
  case (snoc ys y)
  show ?thesis
    unfolding maximal_runs_def snoc
    by (auto simp: nth_append less_Suc_eq)
qed (simp add: maximal_runs_def)

lemma maximal_runs_grow:
  assumes "maximal_runs (xs @ [r])"
  shows "maximal_runs (xs @ [r\<lparr>rn_commandCount := k\<rparr>])"
  using assms by (simp add: maximal_runs_snoc continues_def)

definition runs_of :: "RetainedSourceCommandLocator list \<Rightarrow> MultiSourceReplayRun list \<Rightarrow> bool" where
  "runs_of commands runs = (concat (map run_commands runs) = commands \<and> maximal_runs runs \<and>
     (\<forall>run \<in> set runs. rn_commandCount run \<noteq> 0))"

lemma run_commands_grow:
  "run_commands (r\<lparr>rn_commandCount := Suc (rn_commandCount r)\<rparr>) =
   run_commands r @ [\<lparr>lc_retainedSourceIndex = rn_retainedSourceIndex r,
     lc_commandIndex = rn_commandBegin r + rn_commandCount r\<rparr>]"
  by (simp add: run_commands_def)

lemma runs_of_length:
  assumes "runs_of commands runs"
  shows "length runs \<le> length commands"
proof -
  have "\<forall>run \<in> set runs. 1 \<le> rn_commandCount run" using assms by (auto simp: runs_of_def)
  then have "length runs \<le> sum_list (map rn_commandCount runs)" by (induction runs) auto
  also have "\<dots> = length (concat (map run_commands runs))"
    by (simp add: length_concat comp_def run_commands_def)
  finally show ?thesis using assms by (simp add: runs_of_def)
qed

lemma appendToRuns_runs_of:
  assumes "runs_of commands runs" and "Suc (length commands) < u32_limit"
  shows "runs_of (commands @ [command]) (appendToRuns command runs)"
proof (cases "runs \<noteq> [] \<and> rn_retainedSourceIndex (last runs) = lc_retainedSourceIndex command \<and>
    rn_commandBegin (last runs) + rn_commandCount (last runs) = lc_commandIndex command")
  case True
  then obtain rs r where runs: "runs = rs @ [r]" by (cases runs rule: rev_cases) auto
  have "rn_commandCount r \<le> length commands"
    using assms(1) by (auto simp: runs_of_def runs run_commands_def)
  then have "as_u32 (Suc (rn_commandCount r)) = Suc (rn_commandCount r)"
    using assms(2) by simp
  then have e: "appendToRuns command runs = rs @ [r\<lparr>rn_commandCount := Suc (rn_commandCount r)\<rparr>]"
    using True by (simp add: appendToRuns_def runs)
  show ?thesis
    unfolding e using assms(1) True
    by (simp add: runs_of_def runs run_commands_grow maximal_runs_grow)
next
  case False
  then have e: "appendToRuns command runs = runs @ [\<lparr>rn_retainedSourceIndex = lc_retainedSourceIndex command,
      rn_commandBegin = lc_commandIndex command, rn_commandCount = 1,
      rn_sourceFragmentOrdinal = 0, rn_sourceFragmentCount = 1,
      rn_transactionFragmentOrdinal = 0, rn_transactionFragmentCount = 1\<rparr>]"
    unfolding appendToRuns_def by (rule if_not_P)
  show ?thesis
    using assms(1) False
    by (auto simp: e runs_of_def run_commands_def maximal_runs_snoc continues_def)
qed

lemma fold_appendToRuns:
  "length commands < u32_limit \<Longrightarrow> runs_of commands (fold appendToRuns commands [])"
proof (induction commands rule: rev_induct)
  case Nil
  then show ?case by (simp add: runs_of_def maximal_runs_def)
next
  case (snoc command commands)
  then show ?case using appendToRuns_runs_of by simp
qed

section \<open>Numbering the runs\<close>

lemma fold_counts:
  assumes "\<forall>run \<in> set runs. rn_retainedSourceIndex run < length counts"
    and "s < length counts" and "counts ! s + visits s runs < u32_limit"
  shows "fold (\<lambda>run counts. counts[rn_retainedSourceIndex run :=
      as_u32 (counts ! rn_retainedSourceIndex run + 1)]) runs counts ! s = counts ! s + visits s runs"
  using assms
proof (induction runs arbitrary: counts)
  case (Cons r runs)
  let ?c = "counts[rn_retainedSourceIndex r := as_u32 (counts ! rn_retainedSourceIndex r + 1)]"
  have "?c ! s = counts ! s + (if rn_retainedSourceIndex r = s then 1 else 0)"
    using Cons.prems by (auto simp: nth_list_update)
  then show ?case using Cons.IH [of ?c] Cons.prems by (auto split: if_splits)
qed simp

lemma countFragments_visits:
  assumes "\<forall>run \<in> set runs. rn_retainedSourceIndex run < 8" and "length runs < u32_limit" and "s < 8"
  shows "countFragments runs ! s = visits s runs"
  using fold_counts [of runs "replicate 8 0" s] assms visits_le [of s runs]
  by (simp add: countFragments_def)

lemma numberRuns_nth:
  assumes "\<forall>run \<in> set runs. rn_retainedSourceIndex run < length ordinals"
    and "\<forall>s < length ordinals. ordinals ! s + visits s runs < u32_limit"
    and "k + length runs < u32_limit" and "total_runs < u32_limit" and "i < length runs"
  shows "numberRuns counts total_runs ordinals k runs ! i = (runs ! i)
    \<lparr>rn_sourceFragmentOrdinal := ordinals ! rn_retainedSourceIndex (runs ! i) +
         visits (rn_retainedSourceIndex (runs ! i)) (take i runs),
     rn_sourceFragmentCount := counts ! rn_retainedSourceIndex (runs ! i),
     rn_transactionFragmentOrdinal := k + i, rn_transactionFragmentCount := total_runs\<rparr>"
  using assms
proof (induction runs arbitrary: ordinals k i)
  case (Cons r runs)
  let ?s = "rn_retainedSourceIndex r"
  let ?o = "ordinals[?s := as_u32 (ordinals ! ?s + 1)]"
  have s: "?s < length ordinals" using Cons.prems(1) by simp
  have up: "?o ! t = ordinals ! t + (if t = ?s then 1 else 0)" if "t < length ordinals" for t
    using that s Cons.prems(2) by (auto simp: nth_list_update)
  show ?case
  proof (cases i)
    case 0
    then show ?thesis using Cons.prems by simp
  next
    case (Suc j)
    have "rn_retainedSourceIndex (runs ! j) < length ordinals" using Cons.prems Suc by simp
    moreover have "\<forall>t < length ?o. ?o ! t + visits t runs < u32_limit"
    proof (intro allI impI)
      fix t assume "t < length ?o"
      then have t: "t < length ordinals" by simp
      then have "ordinals ! t + visits t (r # runs) < u32_limit" using Cons.prems(2) by blast
      then show "?o ! t + visits t runs < u32_limit" using s by (auto simp: nth_list_update split: if_splits)
    qed
    ultimately show ?thesis
      using Cons.IH [of ?o "Suc k" j] Cons.prems Suc up by simp
  qed
qed simp

lemma length_numberRuns [simp]: "length (numberRuns counts n ordinals k runs) = length runs"
  by (induction runs arbitrary: ordinals k) simp_all

text \<open>Numbering leaves the ranges of the runs alone.\<close>

lemma numberRuns_ranges:
  "map rn_retainedSourceIndex (numberRuns counts n ordinals k runs) = map rn_retainedSourceIndex runs"
  "map run_commands (numberRuns counts n ordinals k runs) = map run_commands runs"
  "runs_of commands (numberRuns counts n ordinals k runs) = runs_of commands runs"
proof -
  have step: "map rn_retainedSourceIndex (numberRuns counts n ordinals k runs) = map rn_retainedSourceIndex runs \<and>
    map rn_commandBegin (numberRuns counts n ordinals k runs) = map rn_commandBegin runs \<and>
    map rn_commandCount (numberRuns counts n ordinals k runs) = map rn_commandCount runs \<and>
    map run_commands (numberRuns counts n ordinals k runs) = map run_commands runs"
    by (induction runs arbitrary: ordinals k) (simp_all add: run_commands_def)
  then show "map rn_retainedSourceIndex (numberRuns counts n ordinals k runs) = map rn_retainedSourceIndex runs"
    "map run_commands (numberRuns counts n ordinals k runs) = map run_commands runs" by blast+
  have field: "i < length runs \<Longrightarrow> rn_retainedSourceIndex (numberRuns counts n ordinals k runs ! i) = rn_retainedSourceIndex (runs ! i) \<and>
     rn_commandBegin (numberRuns counts n ordinals k runs ! i) = rn_commandBegin (runs ! i) \<and>
     rn_commandCount (numberRuns counts n ordinals k runs ! i) = rn_commandCount (runs ! i)" for i
    using step by (metis length_map nth_map)
  have "maximal_runs (numberRuns counts n ordinals k runs) = maximal_runs runs"
    using field by (simp add: maximal_runs_def continues_def)
  moreover have "(\<forall>run \<in> set (numberRuns counts n ordinals k runs). rn_commandCount run \<noteq> 0) =
      (\<forall>run \<in> set runs. rn_commandCount run \<noteq> 0)"
    using step by (metis (mono_tags, opaque_lifting) image_iff list.set_map)
  ultimately show "runs_of commands (numberRuns counts n ordinals k runs) = runs_of commands runs"
    using step by (simp add: runs_of_def)
qed

section \<open>The properties\<close>

text \<open>The runs of a valid plan: built from its commands, then numbered.\<close>

lemma built_runs:
  assumes "ms_valid plan" and "validateMultiSourceReplayPermutation sources (ms_commands plan) = MsvValid"
  defines "runs \<equiv> mr_runs (buildMultiSourceReplayRuns sources plan)"
  shows "mr_validation (buildMultiSourceReplayRuns sources plan) = MrvValid"
    and "runs_of (ms_commands plan) runs"
    and "i < length runs \<Longrightarrow> rn_transactionFragmentOrdinal (runs ! i) = i \<and>
      rn_transactionFragmentCount (runs ! i) = length runs \<and>
      rn_sourceFragmentOrdinal (runs ! i) = visits (rn_retainedSourceIndex (runs ! i)) (take i runs) \<and>
      rn_sourceFragmentCount (runs ! i) = visits (rn_retainedSourceIndex (runs ! i)) runs"
proof -
  let ?rs = "fold appendToRuns (ms_commands plan) []"
  have runs: "runs = numberRuns (countFragments ?rs) (length ?rs) (replicate 8 0) 0 ?rs"
    using assms by (simp add: buildMultiSourceReplayRuns_def)
  show "mr_validation (buildMultiSourceReplayRuns sources plan) = MrvValid"
    using assms by (simp add: buildMultiSourceReplayRuns_def)
  from assms(2) have w: "valid_window sources" and m: "mset (ms_commands plan) = mset (naturalPlan sources)"
    by (simp_all add: validator_result)
  then have len: "length (ms_commands plan) < u32_limit" and iw: "\<forall>l \<in> set (ms_commands plan). in_window sources l"
    using naturalPlan_permutation [OF w, of "ms_commands plan"] by (auto simp: valid_window_def)
  have R: "runs_of (ms_commands plan) ?rs" by (rule fold_appendToRuns [OF len])
  then show "runs_of (ms_commands plan) runs" unfolding runs by (simp only: numberRuns_ranges(3))
  have rl: "length ?rs < u32_limit" using runs_of_length [OF R] len by simp
  have src: "\<forall>run \<in> set ?rs. rn_retainedSourceIndex run < 8"
  proof
    fix run assume run: "run \<in> set ?rs"
    then have "rn_commandCount run \<noteq> 0" using R by (simp add: runs_of_def)
    then have "\<lparr>lc_retainedSourceIndex = rn_retainedSourceIndex run, lc_commandIndex = rn_commandBegin run + 0\<rparr>
        \<in> set (run_commands run)" by (force simp: run_commands_def)
    then have "\<lparr>lc_retainedSourceIndex = rn_retainedSourceIndex run, lc_commandIndex = rn_commandBegin run + 0\<rparr>
        \<in> set (concat (map run_commands ?rs))" using run by auto
    moreover have "concat (map run_commands ?rs) = ms_commands plan" using R by (simp only: runs_of_def)
    ultimately have "\<lparr>lc_retainedSourceIndex = rn_retainedSourceIndex run, lc_commandIndex = rn_commandBegin run + 0\<rparr>
        \<in> set (ms_commands plan)" by (simp only:)
    then show "rn_retainedSourceIndex run < 8" using iw w by (auto simp: in_window_def valid_window_def)
  qed
  show "i < length runs \<Longrightarrow> rn_transactionFragmentOrdinal (runs ! i) = i \<and>
      rn_transactionFragmentCount (runs ! i) = length runs \<and>
      rn_sourceFragmentOrdinal (runs ! i) = visits (rn_retainedSourceIndex (runs ! i)) (take i runs) \<and>
      rn_sourceFragmentCount (runs ! i) = visits (rn_retainedSourceIndex (runs ! i)) runs"
  proof -
    assume "i < length runs"
    then have i: "i < length ?rs" by (simp add: runs)
    have vis: "visits s (take k runs) = visits s (take k ?rs)" for s k
      unfolding runs by (rule visits_sources) (rule numberRuns_ranges(1))
    have bound: "visits s ?rs < u32_limit" for s using visits_le [of s ?rs] rl by simp
    have e: "runs ! i = (?rs ! i)
      \<lparr>rn_sourceFragmentOrdinal := replicate 8 0 ! rn_retainedSourceIndex (?rs ! i) +
           visits (rn_retainedSourceIndex (?rs ! i)) (take i ?rs),
       rn_sourceFragmentCount := countFragments ?rs ! rn_retainedSourceIndex (?rs ! i),
       rn_transactionFragmentOrdinal := 0 + i, rn_transactionFragmentCount := length ?rs\<rparr>"
      unfolding runs by (rule numberRuns_nth) (use src rl i bound in simp_all)
    have "?rs ! i \<in> set ?rs" using i by simp
    then have s: "rn_retainedSourceIndex (?rs ! i) < 8" using src by blast
    show ?thesis
      using s vis [of _ i] vis [of _ "length ?rs"]
      by (simp add: e countFragments_visits [OF src rl s]) (simp add: runs)
  qed
qed

text \<open>
  C13: the runs of a replay plan. A plan that is not valid for the window gives no run at all. For
  a valid plan the runs expand back to exactly the planned commands in order, no run is empty, no
  two neighbouring runs could be one, and the transaction numbers count the runs.
\<close>

theorem replay_runs_roundtrip:
  "if ms_valid plan \<and> validateMultiSourceReplayPermutation sources (ms_commands plan) = MsvValid
   then mr_validation (buildMultiSourceReplayRuns sources plan) = MrvValid \<and>
     concat (map run_commands (mr_runs (buildMultiSourceReplayRuns sources plan))) = ms_commands plan \<and>
     maximal_runs (mr_runs (buildMultiSourceReplayRuns sources plan)) \<and>
     0 \<notin> rn_commandCount ` set (mr_runs (buildMultiSourceReplayRuns sources plan)) \<and>
     map rn_transactionFragmentOrdinal (mr_runs (buildMultiSourceReplayRuns sources plan)) =
       [0..<length (mr_runs (buildMultiSourceReplayRuns sources plan))]
   else buildMultiSourceReplayRuns sources plan = \<lparr>mr_runs = [], mr_validation = MrvInvalidPlan\<rparr>"
proof (cases "ms_valid plan \<and> validateMultiSourceReplayPermutation sources (ms_commands plan) = MsvValid")
  case True
  then have v: "ms_valid plan" "validateMultiSourceReplayPermutation sources (ms_commands plan) = MsvValid"
    by blast+
  let ?runs = "mr_runs (buildMultiSourceReplayRuns sources plan)"
  have "map rn_transactionFragmentOrdinal ?runs = [0..<length ?runs]"
    by (rule nth_equalityI) (use built_runs(3) [OF v] in simp_all)
  then show ?thesis using True built_runs(1,2) [OF v] by (auto simp: runs_of_def)
next
  case False
  then show ?thesis by (auto simp: buildMultiSourceReplayRuns_def)
qed

text \<open>
  A source that a plan revisits is set up once and torn down once. In the runs of any plan, a
  run is marked as the first fragment of its source exactly when no earlier run visits the
  source, and as the last fragment exactly when no later run does.
\<close>

theorem replay_runs_visit_once:
  assumes "runs = mr_runs (buildMultiSourceReplayRuns sources plan)" and "i < length runs"
  shows "(firstSourceFragment (runs ! i) \<longleftrightarrow>
      rn_retainedSourceIndex (runs ! i) \<notin> rn_retainedSourceIndex ` set (take i runs)) \<and>
    (lastSourceFragment (runs ! i) \<longleftrightarrow>
      rn_retainedSourceIndex (runs ! i) \<notin> rn_retainedSourceIndex ` set (drop (Suc i) runs))"
proof -
  have v: "ms_valid plan" "validateMultiSourceReplayPermutation sources (ms_commands plan) = MsvValid"
    using assms by (auto simp: buildMultiSourceReplayRuns_def split: if_splits)
  note B = built_runs [OF v, folded assms(1)]
  let ?s = "rn_retainedSourceIndex (runs ! i)"
  have z: "visits s xs = 0 \<longleftrightarrow> s \<notin> rn_retainedSourceIndex ` set xs" for s xs
    by (auto simp: visits_def filter_empty_conv)
  have "runs = take i runs @ runs ! i # drop (Suc i) runs" using assms(2) by (rule id_take_nth_drop)
  then have split: "visits ?s runs = Suc (visits ?s (take i runs) + visits ?s (drop (Suc i) runs))"
    by (metis add_Suc_right visits_simps(2,3))
  have "length (ms_commands plan) < u32_limit"
    using v(2) naturalPlan_permutation [of sources "ms_commands plan"] by (auto simp: validator_result valid_window_def)
  then have "visits ?s runs < u32_limit"
    using visits_le [of ?s runs] runs_of_length [OF B(2)] by simp
  then have "as_u32 (visits ?s (take i runs) + 1) = Suc (visits ?s (take i runs))" using split by simp
  then show ?thesis
    using B(3) [OF assms(2)] split z [of ?s]
    by (simp add: firstSourceFragment_def lastSourceFragment_def)
qed

text \<open>Draws to A and B in one source, then to A in the next, replayed as A, A, B.\<close>

definition two_one_window :: "MultiSourcePlanningSource list" where
  "two_one_window = [Some [empty_command, empty_command], Some [empty_command]]"

definition returning_plan :: MultiSourceReplayPlan where
  "returning_plan = invalid_plan\<lparr>ms_commands := [
      \<lparr>lc_retainedSourceIndex = 0, lc_commandIndex = 0\<rparr>,
      \<lparr>lc_retainedSourceIndex = 1, lc_commandIndex = 0\<rparr>,
      \<lparr>lc_retainedSourceIndex = 0, lc_commandIndex = 1\<rparr>],
    ms_disposition := MsdPlanned, ms_validation := MsvValid\<rparr>"

lemma returning_runs:
  "map (\<lambda>r. (rn_retainedSourceIndex r, rn_commandBegin r))
     (mr_runs (buildMultiSourceReplayRuns two_one_window returning_plan)) = [(0, 0), (1, 0), (0, 1)]"
proof -
  have "validateMultiSourceReplayPermutation two_one_window (ms_commands returning_plan) = MsvValid"
    unfolding validator_result
    by (auto simp: valid_window_def naturalPlan_def two_one_window_def returning_plan_def locatorKind_def
        empty_command_def draws_only_overtake_def less_Suc_eq nth_Cons' numeral_2_eq_2)
  then show ?thesis
    by (simp add: buildMultiSourceReplayRuns_def ms_valid_def returning_plan_def appendToRuns_def)
qed

theorem replay_runs_visit_once_witness:
  "map firstSourceFragment (mr_runs (buildMultiSourceReplayRuns two_one_window returning_plan)) = [True, True, False] \<and>
   map lastSourceFragment (mr_runs (buildMultiSourceReplayRuns two_one_window returning_plan)) = [False, True, True]"
proof -
  define runs where "runs = mr_runs (buildMultiSourceReplayRuns two_one_window returning_plan)"
  have src: "map rn_retainedSourceIndex runs = [0, 1, 0]"
    using arg_cong [OF returning_runs, of "map fst"] by (simp add: runs_def comp_def)
  then obtain a b c where r: "runs = [a, b, c]" by auto
  note V = replay_runs_visit_once [OF runs_def]
  show ?thesis
    using V [of 0] V [of 1] V [of 2] src by (simp add: runs_def [symmetric] r numeral_2_eq_2)
qed

end
