(* ===== verification/Fg_Deferred_Suffix.thy ===== *)
theory Fg_Deferred_Suffix
  imports Fg_Multi_Plan
begin

text \<open>
  The deferred terminal suffix (\<^verbatim>\<open>framegraph/fg_multi_source_planner.cpp\<close>): the shape
  A, Clear(B), Draw(B) | Draw(A) of two successive sources, in which the younger draw that returns
  to the open targets A may run before the older terminal suffix. The classifier proves the
  movement from resource sets alone, without a graph; the validator accepts only that proof.
\<close>

section \<open>Identities, ranges and proofs\<close>

record CpuReadySourceId =
  sid_index :: u32
  sid_generation :: u64

record CpuReadyStorageRef =
  sto_firstPage :: u32
  sto_pageCount :: u32
  sto_generation :: u64

record SourceRef =
  ref_id :: CpuReadySourceId
  ref_storage :: CpuReadyStorageRef

definition validSourceId :: "CpuReadySourceId \<Rightarrow> bool" where
  "validSourceId i = (sid_generation i \<noteq> 0 \<and> sid_index i \<noteq> - 1)"

definition validStorageRef :: "CpuReadyStorageRef \<Rightarrow> bool" where
  "validStorageRef s = (sto_generation s \<noteq> 0 \<and> sto_pageCount s \<noteq> 0 \<and> sto_firstPage s \<noteq> - 1)"

definition validSourceRef :: "SourceRef \<Rightarrow> bool" where
  "validSourceRef r = (validSourceId (ref_id r) \<and> validStorageRef (ref_storage r))"

definition no_source :: SourceRef where
  "no_source = \<lparr>ref_id = \<lparr>sid_index = - 1, sid_generation = 0\<rparr>,
     ref_storage = \<lparr>sto_firstPage = - 1, sto_pageCount = 0, sto_generation = 0\<rparr>\<rparr>"

record DeferredTerminalSuffixPlanningSourceView =
  dv_payload :: SourcePayloadView
  dv_source :: SourceRef
  dv_sourceOrdinal :: u64
  dv_seqId :: u64

record SourceCommandRange =
  cr_source :: SourceRef
  cr_sourceOrdinal :: u64
  cr_seqId :: u64
  cr_commandBegin :: nat
  cr_commandCount :: nat

definition validRange :: "SourceCommandRange \<Rightarrow> bool" where
  "validRange r = (validSourceRef (cr_source r) \<and> cr_sourceOrdinal r \<noteq> 0 \<and> cr_seqId r \<noteq> 0 \<and>
     cr_commandCount r \<noteq> 0 \<and> cr_commandBegin r \<le> UINT32_MAX - cr_commandCount r)"

definition no_range :: SourceCommandRange where
  "no_range = \<lparr>cr_source = no_source, cr_sourceOrdinal = 0, cr_seqId = 0, cr_commandBegin = 0,
     cr_commandCount = 0\<rparr>"

record DeferredTerminalSuffixProof =
  pf_currentPrefix :: SourceCommandRange
  pf_currentSuffix :: SourceCommandRange
  pf_successorHead :: SourceCommandRange
  pf_activeRender :: ActiveRenderPlanningSeed
  pf_currentAttachmentA :: AttachmentSet
  pf_clearAttachmentB :: AttachmentSet
  pf_naturalReplay :: "RetainedSourceCommandLocator list"
  pf_joinedReplay :: "RetainedSourceCommandLocator list"

datatype DeferredTerminalSuffixDisposition =
    DsInvalidInput | DsStaleIdentity | DsUnsupportedShape | DsUnsupportedBoundary
  | DsMalformedRange | DsAttachmentMismatch | DsDependencyWedged | DsIncompleteCoverage
  | DsQualified

record DeferredTerminalSuffixPlan =
  dp_proof :: DeferredTerminalSuffixProof
  dp_disposition :: DeferredTerminalSuffixDisposition

definition planQualified :: "DeferredTerminalSuffixPlan \<Rightarrow> bool" where
  "planQualified p = (dp_disposition p = DsQualified)"

datatype DeferredTerminalSuffixReplayValidation =
    DrvValid | DrvInvalidProof | DrvStaleIdentity | DrvInvalidSource | DrvInvalidCommand
  | DrvDuplicate | DrvMissing | DrvUnsupportedMovement

text \<open>The value-initialised proof of a plan that is not qualified.\<close>

definition empty_seed :: ActiveRenderPlanningSeed where
  "empty_seed = \<lparr>sd_targets = empty_targets, sd_write_dependencies = replicate 5 0,
     sd_dependency_count = 0, sd_complete = False\<rparr>"

definition empty_proof :: DeferredTerminalSuffixProof where
  "empty_proof = (let z = replicate 4 \<lparr>lc_retainedSourceIndex = 0, lc_commandIndex = 0\<rparr> in
     \<lparr>pf_currentPrefix = no_range, pf_currentSuffix = no_range, pf_successorHead = no_range,
      pf_activeRender = empty_seed, pf_currentAttachmentA = empty_targets,
      pf_clearAttachmentB = empty_targets, pf_naturalReplay = z, pf_joinedReplay = z\<rparr>)"

section \<open>Attachments of the four commands\<close>

abbreviation kMaxRenderTargets :: nat where
  "kMaxRenderTargets \<equiv> 4"

text \<open>
  The texture loop: \<open>None\<close> is the early return for a masked slot without a texture, otherwise the
  mask bits that no slot consumed.
\<close>

fun remainingTextures :: "TextureHandle list \<Rightarrow> nat \<Rightarrow> u32 \<Rightarrow> u32 option" where
  "remainingTextures [] i remainingTextureMask = Some remainingTextureMask"
| "remainingTextures (t # ts) i remainingTextureMask =
     (let bit = push_bit i 1 in
      if remainingTextureMask AND bit = 0 then remainingTextures ts (Suc i) remainingTextureMask
      else if t = 0 then None
      else remainingTextures ts (Suc i) (remainingTextureMask AND NOT bit))"

text \<open>\<open>None\<close> stands for \<^verbatim>\<open>valid == false\<close>; the caller reads the set only when it is valid.\<close>

definition drawAttachmentSet :: "SourceCommandView \<Rightarrow> AttachmentSet option" where
  "drawAttachmentSet cmd =
     (case (cmd_kind cmd, cmd_drawRunRecord cmd, cmd_hot cmd) of
        (CmdDrawRun, Some r, Some hot) \<Rightarrow>
          if run_paramCount r = 0 \<or> cmd_drawParamCount cmd \<noteq> run_paramCount r then None
          else if remainingTextures (hot_textures hot) 0 (hot_textureMask hot) \<noteq> Some 0 then None
          else
            (let (tset, cnt) = collectColors 0 (hot_colorAttachments hot) (empty_targets, 0);
                 result = tset\<lparr>t_color_count := cnt, t_depth := att_handle (hot_depthStencil hot),
                   t_sample_count := max (t_sample_count tset) (att_sampleCount (hot_depthStencil hot))\<rparr>
             in if t_sample_count result \<noteq> 0 \<and> (t_color_count result \<noteq> 0 \<or> t_depth result \<noteq> 0)
                then Some result else None)
      | _ \<Rightarrow> None)"

definition clearAttachmentSet :: "ResourceAliasResolver \<Rightarrow> SourceCommandView \<Rightarrow> AttachmentSet option" where
  "clearAttachmentSet ar cmd =
     (case (cmd_kind cmd, cmd_clear cmd) of
        (CmdClear, Some clear) \<Rightarrow>
          if clr_rectCount clear \<noteq> 0 \<or>
             \<not> (clr_clearColor clear \<or> clr_clearDepth clear \<or> clr_clearStencil clear) then None
          else if (clr_clearDepth clear \<or> clr_clearStencil clear) \<and>
             \<not> depthStencilClearCoversResource ar (att_handle (clr_depthStencil clear))
                 (clr_clearDepth clear) (clr_clearStencil clear) then None
          else
            (let (tset, cnt) = (if clr_clearColor clear
                   then collectColors 0 (clr_colorAttachments clear) (empty_targets, 0)
                   else (empty_targets, 0));
                 tset = tset\<lparr>t_color_count := cnt\<rparr>;
                 result = (if clr_clearDepth clear \<or> clr_clearStencil clear
                   then tset\<lparr>t_depth := att_handle (clr_depthStencil clear),
                     t_sample_count := max (t_sample_count tset) (att_sampleCount (clr_depthStencil clear))\<rparr>
                   else tset)
             in if t_sample_count result \<noteq> 0 \<and> (t_color_count result \<noteq> 0 \<or> t_depth result \<noteq> 0)
                then Some result else None)
      | _ \<Rightarrow> None)"

section \<open>Source identity\<close>

definition validSourceIdentity :: "DeferredTerminalSuffixPlanningSourceView \<Rightarrow> bool" where
  "validSourceIdentity v = (dv_payload v \<noteq> None \<and> validSourceRef (dv_source v) \<and>
     dv_sourceOrdinal v \<noteq> 0 \<and> dv_seqId v \<noteq> 0 \<and> commandCount (dv_payload v) \<le> UINT32_MAX)"

definition exactSuccessorIdentity ::
  "DeferredTerminalSuffixPlanningSourceView \<Rightarrow> DeferredTerminalSuffixPlanningSourceView \<Rightarrow> bool" where
  "exactSuccessorIdentity current successor =
     (validSourceIdentity current \<and> validSourceIdentity successor \<and>
      sid_index (ref_id (dv_source current)) \<noteq> sid_index (ref_id (dv_source successor)) \<and>
      dv_sourceOrdinal current \<noteq> - 1 \<and> dv_seqId current \<noteq> - 1 \<and>
      dv_sourceOrdinal successor = dv_sourceOrdinal current + 1 \<and>
      dv_seqId successor = dv_seqId current + 1)"

section \<open>Attachment resources\<close>

abbreviation kDeferredAttachmentResourceCapacity :: nat where
  "kDeferredAttachmentResourceCapacity \<equiv> kMaxRenderTargets + 1"

text \<open>The used prefix of \<^verbatim>\<open>DeferredAttachmentResources::values\<close>; \<open>None\<close> is the result \<^verbatim>\<open>false\<close>.\<close>

type_synonym DeferredAttachmentResources = "ResourceHandle list"

definition appendCanonicalResource ::
  "ResourceAliasResolver \<Rightarrow> DeferredAttachmentResources \<Rightarrow> ResourceHandle \<Rightarrow>
   DeferredAttachmentResources option" where
  "appendCanonicalResource ar resources raw =
     (if raw = 0 then Some resources
      else let canonical = resolveAlias ar raw in
        if canonical = 0 then None
        else if canonical \<in> set resources then Some resources
        else if length resources = kDeferredAttachmentResourceCapacity then None
        else Some (resources @ [canonical]))"

fun appendCanonicalResources ::
  "ResourceAliasResolver \<Rightarrow> DeferredAttachmentResources \<Rightarrow> ResourceHandle list \<Rightarrow>
   DeferredAttachmentResources option" where
  "appendCanonicalResources ar resources [] = Some resources"
| "appendCanonicalResources ar resources (raw # raws) =
     (case appendCanonicalResource ar resources raw of None \<Rightarrow> None
      | Some resources \<Rightarrow> appendCanonicalResources ar resources raws)"

definition collectAttachmentResources ::
  "ResourceAliasResolver \<Rightarrow> AttachmentSet \<Rightarrow> DeferredAttachmentResources option" where
  "collectAttachmentResources ar attachments =
     (if t_color_count attachments > kMaxRenderTargets \<or>
         t_color_count attachments > length (t_color attachments) then None
      else case appendCanonicalResources ar []
              (map (\<lambda>i. t_color attachments ! i) [0..<t_color_count attachments]) of
             None \<Rightarrow> None
           | Some resources \<Rightarrow> appendCanonicalResource ar resources (t_depth attachments))"

definition attachmentResourcesIntersect ::
  "DeferredAttachmentResources \<Rightarrow> DeferredAttachmentResources \<Rightarrow> bool" where
  "attachmentResourcesIntersect left right = (\<exists>h \<in> set left. h \<in> set right)"

definition drawReadsAttachmentResources ::
  "SourceCommandView \<Rightarrow> DeferredAttachmentResources \<Rightarrow> bool" where
  "drawReadsAttachmentResources draw resources =
     (let hot = the (cmd_hot draw) in
      \<exists>i \<in> set [0..<length (hot_textures hot)].
        hot_textureMask hot AND push_bit i 1 \<noteq> 0 \<and> hot_textures hot ! i \<in> set resources)"

definition activeRenderSeedCoversAttachments ::
  "ResourceAliasResolver \<Rightarrow> ActiveRenderPlanningSeed \<Rightarrow> AttachmentSet \<Rightarrow> bool" where
  "activeRenderSeedCoversAttachments ar seed attachments =
     (if \<not> sd_complete seed \<or> sd_targets seed \<noteq> attachments \<or> sd_dependency_count seed = 0 \<or>
         sd_dependency_count seed > length (sd_write_dependencies seed) then False
      else let raws = take (sd_dependency_count seed) (sd_write_dependencies seed) in
        if 0 \<in> set raws then False
        else case appendCanonicalResources ar [] raws of None \<Rightarrow> False
          | Some dependencies \<Rightarrow>
              (case collectAttachmentResources ar attachments of None \<Rightarrow> False
               | Some targets \<Rightarrow> targets \<noteq> [] \<and> (\<forall>t \<in> set targets. t \<in> set dependencies)))"

section \<open>The classifier and the validator\<close>

definition natural_replay :: "RetainedSourceCommandLocator list" where
  "natural_replay = [\<lparr>lc_retainedSourceIndex = 0, lc_commandIndex = 0\<rparr>,
     \<lparr>lc_retainedSourceIndex = 0, lc_commandIndex = 1\<rparr>,
     \<lparr>lc_retainedSourceIndex = 0, lc_commandIndex = 2\<rparr>,
     \<lparr>lc_retainedSourceIndex = 1, lc_commandIndex = 0\<rparr>]"

definition joined_replay :: "RetainedSourceCommandLocator list" where
  "joined_replay = [\<lparr>lc_retainedSourceIndex = 0, lc_commandIndex = 0\<rparr>,
     \<lparr>lc_retainedSourceIndex = 1, lc_commandIndex = 0\<rparr>,
     \<lparr>lc_retainedSourceIndex = 0, lc_commandIndex = 1\<rparr>,
     \<lparr>lc_retainedSourceIndex = 0, lc_commandIndex = 2\<rparr>]"

definition range_of :: "DeferredTerminalSuffixPlanningSourceView \<Rightarrow> nat \<Rightarrow> nat \<Rightarrow> SourceCommandRange" where
  "range_of v commandBegin n = \<lparr>cr_source = dv_source v, cr_sourceOrdinal = dv_sourceOrdinal v,
     cr_seqId = dv_seqId v, cr_commandBegin = commandBegin, cr_commandCount = n\<rparr>"

definition rejected :: "DeferredTerminalSuffixDisposition \<Rightarrow> DeferredTerminalSuffixPlan" where
  "rejected d = \<lparr>dp_proof = empty_proof, dp_disposition = d\<rparr>"

definition classifyDeferredTerminalSuffixReplay ::
  "DeferredTerminalSuffixPlanningSourceView \<Rightarrow> DeferredTerminalSuffixPlanningSourceView \<Rightarrow>
   ActiveRenderPlanningSeed \<Rightarrow> ResourceAliasResolver \<Rightarrow> DeferredTerminalSuffixPlan" where
  "classifyDeferredTerminalSuffixReplay current successor activeRender ar =
     (if dv_payload current = None \<or> dv_payload successor = None then rejected DsInvalidInput
      else if \<not> exactSuccessorIdentity current successor then rejected DsStaleIdentity
      else if commandCount (dv_payload current) \<noteq> 3 \<or> commandCount (dv_payload successor) \<noteq> 1
      then rejected DsUnsupportedShape
      else let currentA = commandAt (dv_payload current) 0; clearB = commandAt (dv_payload current) 1;
               currentB = commandAt (dv_payload current) 2;
               successorA = commandAt (dv_payload successor) 0 in
        if cmd_kind currentA \<noteq> CmdDrawRun \<or> cmd_kind clearB \<noteq> CmdClear \<or>
           cmd_kind currentB \<noteq> CmdDrawRun \<or> cmd_kind successorA \<noteq> CmdDrawRun
        then rejected DsUnsupportedBoundary
        else case (drawAttachmentSet currentA, drawAttachmentSet currentB,
                   drawAttachmentSet successorA, clearAttachmentSet ar clearB) of
          (Some currentATargets, Some currentBTargets, Some successorATargets, Some clearBTargets) \<Rightarrow>
            if sd_targets activeRender \<noteq> currentATargets \<or> successorATargets \<noteq> currentATargets \<or>
               clearBTargets \<noteq> currentBTargets \<or> currentATargets = currentBTargets
            then rejected DsAttachmentMismatch
            else if \<not> activeRenderSeedCoversAttachments ar activeRender currentATargets
            then rejected DsIncompleteCoverage
            else (case (collectAttachmentResources ar currentATargets,
                        collectAttachmentResources ar currentBTargets) of
              (Some resourcesA, Some resourcesB) \<Rightarrow>
                if attachmentResourcesIntersect resourcesA resourcesB \<or>
                   drawReadsAttachmentResources currentB resourcesA \<or>
                   drawReadsAttachmentResources successorA resourcesB
                then rejected DsDependencyWedged
                else \<lparr>dp_proof = \<lparr>pf_currentPrefix = range_of current 0 1,
                    pf_currentSuffix = range_of current 1 2,
                    pf_successorHead = range_of successor 0 1, pf_activeRender = activeRender,
                    pf_currentAttachmentA = currentATargets, pf_clearAttachmentB = clearBTargets,
                    pf_naturalReplay = natural_replay, pf_joinedReplay = joined_replay\<rparr>,
                  dp_disposition = DsQualified\<rparr>
            | _ \<Rightarrow> rejected DsIncompleteCoverage)
        | _ \<Rightarrow> rejected DsMalformedRange)"

definition planDeferredTerminalSuffixReplay ::
  "DeferredTerminalSuffixPlanningSourceView \<Rightarrow> DeferredTerminalSuffixPlanningSourceView \<Rightarrow>
   ActiveRenderPlanningSeed \<Rightarrow> ResourceAliasResolver \<Rightarrow> DeferredTerminalSuffixPlan" where
  "planDeferredTerminalSuffixReplay current successor activeRender ar =
     classifyDeferredTerminalSuffixReplay current successor activeRender ar"

text \<open>The loop over the commands; \<open>Inl\<close> is an early return.\<close>

fun checkSuffixCommands ::
  "RetainedSourceCommandLocator list \<Rightarrow> bool list \<Rightarrow>
   DeferredTerminalSuffixReplayValidation + bool list" where
  "checkSuffixCommands [] seen = Inr seen"
| "checkSuffixCommands (command # commands) seen =
     (let s = lc_retainedSourceIndex command; c = lc_commandIndex command in
      if s \<ge> 2 then Inl DrvInvalidSource
      else if c \<ge> (if s = 0 then 3 else 1) then Inl DrvInvalidCommand
      else let flattened = (if s = 0 then c else 3 + c) in
        if seen ! flattened then Inl DrvDuplicate
        else checkSuffixCommands commands (seen[flattened := True]))"

definition sameRangeIdentity :: "SourceCommandRange \<Rightarrow> DeferredTerminalSuffixPlanningSourceView \<Rightarrow> bool" where
  "sameRangeIdentity r v = (cr_source r = dv_source v \<and> cr_sourceOrdinal r = dv_sourceOrdinal v \<and>
     cr_seqId r = dv_seqId v)"

definition proofsEqual :: "DeferredTerminalSuffixProof \<Rightarrow> DeferredTerminalSuffixProof \<Rightarrow> bool" where
  "proofsEqual left right =
     (pf_currentPrefix left = pf_currentPrefix right \<and> pf_currentSuffix left = pf_currentSuffix right \<and>
      pf_successorHead left = pf_successorHead right \<and>
      (let l = pf_activeRender left; r = pf_activeRender right in
         sd_targets l = sd_targets r \<and> sd_write_dependencies l = sd_write_dependencies r \<and>
         sd_dependency_count l = sd_dependency_count r \<and> sd_complete l = sd_complete r) \<and>
      pf_currentAttachmentA left = pf_currentAttachmentA right \<and>
      pf_clearAttachmentB left = pf_clearAttachmentB right \<and>
      pf_naturalReplay left = pf_naturalReplay right \<and> pf_joinedReplay left = pf_joinedReplay right)"

definition validateDeferredTerminalSuffixReplay ::
  "DeferredTerminalSuffixPlanningSourceView \<Rightarrow> DeferredTerminalSuffixPlanningSourceView \<Rightarrow>
   ActiveRenderPlanningSeed \<Rightarrow> DeferredTerminalSuffixProof \<Rightarrow> RetainedSourceCommandLocator list \<Rightarrow>
   ResourceAliasResolver \<Rightarrow> DeferredTerminalSuffixReplayValidation" where
  "validateDeferredTerminalSuffixReplay current successor activeRender pf commands ar =
     (if \<not> sameRangeIdentity (pf_currentPrefix pf) current \<or>
         \<not> sameRangeIdentity (pf_currentSuffix pf) current \<or>
         \<not> sameRangeIdentity (pf_successorHead pf) successor then DrvStaleIdentity
      else let fresh = classifyDeferredTerminalSuffixReplay current successor activeRender ar in
        if dp_disposition fresh = DsStaleIdentity then DrvStaleIdentity
        else if \<not> planQualified fresh \<or> \<not> proofsEqual (dp_proof fresh) pf then DrvInvalidProof
        else if length commands < 4 then DrvMissing
        else if length commands > 4 then DrvDuplicate
        else case checkSuffixCommands commands (replicate 4 False) of
               Inl v \<Rightarrow> v
             | Inr seen \<Rightarrow>
               if False \<in> set seen then DrvMissing
               else if commands \<noteq> pf_joinedReplay pf then DrvUnsupportedMovement
               else DrvValid)"

end
