(* ===== verification/Fg_Deferred_Correct.thy ===== *)
theory Fg_Deferred_Correct
  imports Fg_Dce_Limits Fg_Deferred_Suffix
begin

text \<open>
  The deferred terminal suffix is sound: for a qualified plan the returning draw has no conflicting
  access with the clear and the draw it overtakes, so replaying the joined order computes what
  the natural order computes. The validator accepts the joined order of that proof and nothing else.
\<close>

section \<open>What the resource lists hold\<close>

lemma appendCanonicalResource_mem:
  "appendCanonicalResource ar rs raw = Some rs' \<Longrightarrow>
     set rs \<subseteq> set rs' \<and> (raw \<noteq> 0 \<longrightarrow> resolveAlias ar raw \<in> set rs')"
  by (auto simp: appendCanonicalResource_def split: if_splits)

lemma appendCanonicalResources_mem:
  "appendCanonicalResources ar rs raws = Some rs' \<Longrightarrow>
     set rs \<subseteq> set rs' \<and> (\<forall>raw \<in> set raws. raw \<noteq> 0 \<longrightarrow> resolveAlias ar raw \<in> set rs')"
proof (induction ar rs raws rule: appendCanonicalResources.induct)
  case (2 ar rs raw raws)
  then show ?case
    by (auto split: option.splits dest!: appendCanonicalResource_mem)
qed simp

text \<open>The handles of an attachment set, canonical, are the resources collected for it.\<close>

lemma attach_keys_collected:
  assumes "collectAttachmentResources ar t = Some rs" and "(h, k) \<in> attach_keys ar t kc kd"
  shows "h \<in> set rs"
proof -
  obtain ds where ds: "appendCanonicalResources ar [] (map (\<lambda>i. t_color t ! i) [0..<t_color_count t]) = Some ds"
    "appendCanonicalResource ar ds (t_depth t) = Some rs"
    using assms(1) by (auto simp: collectAttachmentResources_def split: if_splits option.splits)
  note C = appendCanonicalResources_mem [OF ds(1)] and D = appendCanonicalResource_mem [OF ds(2)]
  show ?thesis
    using assms(2) C D by (auto simp: attach_keys_def access_keys_def split: if_splits)
qed

text \<open>The validating functions return the builder's attachment sets.\<close>

lemma drawAttachmentSet_result:
  assumes "drawAttachmentSet cmd = Some t"
  obtains hot where "cmd_kind cmd = CmdDrawRun" "cmd_hot cmd = Some hot" "t = attachmentSetFromHot hot"
  using assms
  by (auto simp: drawAttachmentSet_def attachmentSetFromHot_def split: MetalCommandKind.splits option.splits
      if_splits prod.splits)

lemma clearAttachmentSet_result:
  assumes "clearAttachmentSet ar cmd = Some t"
  obtains c where "cmd_kind cmd = CmdClear" "cmd_clear cmd = Some c" "t = attachmentSetFromClear c"
proof -
  obtain c where c: "cmd_kind cmd = CmdClear" "cmd_clear cmd = Some c"
    using assms by (auto simp: clearAttachmentSet_def split: MetalCommandKind.splits option.splits)
  moreover have "t = attachmentSetFromClear c"
    using assms c by (auto simp: clearAttachmentSet_def attachmentSetFromClear_def split: if_splits prod.splits)
  ultimately show thesis by (rule that)
qed

lemma draw_footprint_cases:
  assumes "drawAttachmentSet cmd = Some t" and "(h, k) \<in> footprint ar cmd"
  shows "(h, k) \<in> attach_keys ar t AccWrite AccWrite \<or>
    k = AccRead \<and> (\<forall>rs. h \<in> set rs \<longrightarrow> drawReadsAttachmentResources cmd rs)"
proof -
  obtain hot where hot: "cmd_kind cmd = CmdDrawRun" "cmd_hot cmd = Some hot" "t = attachmentSetFromHot hot"
    using assms(1) by (rule drawAttachmentSet_result)
  then have "(h, k) \<in> attach_keys ar t AccWrite AccWrite \<or> (h, k) \<in> texture_keys ar hot"
    using assms(2) by (auto simp: footprint_def)
  then show ?thesis
    by (auto simp: texture_keys_def access_keys_def drawReadsAttachmentResources_def hot split: if_splits)
qed

text \<open>The hazards of the exact shape.\<close>

lemma suffix_independent:
  assumes a: "drawAttachmentSet a = Some ta" "collectAttachmentResources ar ta = Some ra"
    and b: "drawAttachmentSet b = Some tb" "clearAttachmentSet ar clear = Some tb"
      "collectAttachmentResources ar tb = Some rb"
    and no: "\<not> attachmentResourcesIntersect ra rb" "\<not> drawReadsAttachmentResources b ra"
      "\<not> drawReadsAttachmentResources a rb"
    and k: "(h, k) \<in> footprint ar a" and l: "(h, l) \<in> footprint ar clear \<or> (h, l) \<in> footprint ar b"
  shows "\<not> conflicting k l"
proof -
  note A = draw_footprint_cases [OF a(1) k]
  have clear: "h \<in> set rb" if "(h, l) \<in> footprint ar clear"
  proof -
    obtain c where "cmd_kind clear = CmdClear" "cmd_clear clear = Some c" "tb = attachmentSetFromClear c"
      using b(2) by (rule clearAttachmentSet_result)
    then show ?thesis using that attach_keys_collected [OF b(3)] by (simp add: footprint_def)
  qed
  have draw: "(h, l) \<in> footprint ar b \<Longrightarrow> h \<in> set rb \<or>
      l = AccRead \<and> (\<forall>rs. h \<in> set rs \<longrightarrow> drawReadsAttachmentResources b rs)"
    using draw_footprint_cases [OF b(1)] attach_keys_collected [OF b(3)] by blast
  have "h \<in> set ra \<or> k = AccRead \<and> h \<notin> set rb" using A attach_keys_collected [OF a(2)] no(3) by blast
  moreover have "h \<in> set rb \<or> l = AccRead \<and> h \<notin> set ra" using l clear draw no(2) by blast
  ultimately consider "h \<in> set ra" "h \<in> set rb" | "k = AccRead" "l = AccRead"
    by blast
  then show ?thesis
    using no(1) by cases (auto simp: attachmentResourcesIntersect_def conflicting_def accessWrites_def)
qed

section \<open>Qualified plans\<close>

lemma qualified_facts:
  assumes "plan = classifyDeferredTerminalSuffixReplay current successor seed ar" and "planQualified plan"
  obtains a clear b a' ta tb ra rb where
    "dv_payload current = Some [a, clear, b]" "dv_payload successor = Some [a']"
    "exactSuccessorIdentity current successor"
    "drawAttachmentSet a = Some ta" "drawAttachmentSet b = Some tb" "drawAttachmentSet a' = Some ta"
    "clearAttachmentSet ar clear = Some tb" "collectAttachmentResources ar ta = Some ra"
    "collectAttachmentResources ar tb = Some rb" "\<not> attachmentResourcesIntersect ra rb"
    "\<not> drawReadsAttachmentResources b ra" "\<not> drawReadsAttachmentResources a' rb"
    "activeRenderSeedCoversAttachments ar seed ta" "ta \<noteq> tb"
    "dp_proof plan = \<lparr>pf_currentPrefix = range_of current 0 1, pf_currentSuffix = range_of current 1 2,
      pf_successorHead = range_of successor 0 1, pf_activeRender = seed, pf_currentAttachmentA = ta,
      pf_clearAttachmentB = tb, pf_naturalReplay = natural_replay, pf_joinedReplay = joined_replay\<rparr>"
proof -
  let ?r = "classifyDeferredTerminalSuffixReplay current successor seed ar"
  have D: "dp_disposition ?r = DsQualified" using assms by (simp add: planQualified_def)
  note defs = classifyDeferredTerminalSuffixReplay_def rejected_def
  have F: "dv_payload current \<noteq> None" "dv_payload successor \<noteq> None"
    "commandCount (dv_payload current) = 3" "commandCount (dv_payload successor) = 1"
    "exactSuccessorIdentity current successor"
    using D by (simp_all add: defs split: if_splits)
  from F(1,3) obtain a clear b where cur: "dv_payload current = Some [a, clear, b]"
    by (auto simp: numeral_3_eq_3 length_Suc_conv)
  from F(2,4) obtain a' where suc: "dv_payload successor = Some [a']"
    by (auto simp: length_Suc_conv)
  note defs = defs cur suc
  have "drawAttachmentSet a \<noteq> None" "drawAttachmentSet b \<noteq> None" "drawAttachmentSet a' \<noteq> None"
    "clearAttachmentSet ar clear \<noteq> None"
    by (use D in \<open>simp add: defs split: if_splits option.splits\<close>)+
  then obtain ta tb ta' tc where t: "drawAttachmentSet a = Some ta" "drawAttachmentSet b = Some tb"
    "drawAttachmentSet a' = Some ta'" "clearAttachmentSet ar clear = Some tc" by blast
  have e: "sd_targets seed = ta" "ta' = ta" "tc = tb" "ta \<noteq> tb"
    "activeRenderSeedCoversAttachments ar seed ta"
    using D by (simp_all add: defs t split: if_splits)
  have "collectAttachmentResources ar ta \<noteq> None" "collectAttachmentResources ar tb \<noteq> None"
    by (use D in \<open>simp add: defs t split: if_splits option.splits\<close>)+
  then obtain ra rb where r: "collectAttachmentResources ar ta = Some ra"
    "collectAttachmentResources ar tb = Some rb" by blast
  have w: "\<not> attachmentResourcesIntersect ra rb" "\<not> drawReadsAttachmentResources b ra"
    "\<not> drawReadsAttachmentResources a' rb"
    using D by (simp_all add: defs t e(1,2,3,5) r split: if_splits)
  have pr: "dp_proof plan = \<lparr>pf_currentPrefix = range_of current 0 1, pf_currentSuffix = range_of current 1 2,
      pf_successorHead = range_of successor 0 1, pf_activeRender = seed, pf_currentAttachmentA = ta,
      pf_clearAttachmentB = tb, pf_naturalReplay = natural_replay, pf_joinedReplay = joined_replay\<rparr>"
    using D unfolding assms(1) by (simp add: defs t e(1,2,3,5) r split: if_splits)
  show thesis
    using that [OF cur suc F(5) t(1,2) _ _ r w e(5,4) pr] t(3,4) e(2,3) by simp
qed

text \<open>The commands of a range, and their locators in a window that holds the source at position \<open>i\<close>.\<close>

definition range_commands :: "SourceCommandRange \<Rightarrow> nat list" where
  "range_commands r = [cr_commandBegin r..<cr_commandBegin r + cr_commandCount r]"

definition range_locators :: "nat \<Rightarrow> SourceCommandRange \<Rightarrow> RetainedSourceCommandLocator list" where
  "range_locators i r = map (\<lambda>c. \<lparr>lc_retainedSourceIndex = i, lc_commandIndex = c\<rparr>) (range_commands r)"

lemma range_of_identity [simp]: "sameRangeIdentity (range_of v b n) v"
  by (simp add: sameRangeIdentity_def range_of_def)

lemma range_of_commands [simp]: "range_commands (range_of v b n) = [b..<b + n]"
  by (simp add: range_commands_def range_of_def)

text \<open>
  C3: a qualified deferred suffix may run in the joined order. Whenever the classifier qualifies two
  sources, the three ranges of its proof are valid; prefix and suffix carry the identity of the
  current source and together are exactly its three commands, the head carries the identity of the
  successor and is exactly its one command. The two replay orders of the proof are these ranges,
  the natural one prefix, suffix, head and the joined one prefix, head, suffix; and replaying the
  joined order leaves the same memory as the natural order, whatever the commands compute.
\<close>

theorem deferred_suffix_preserves_results:
  assumes "plan = planDeferredTerminalSuffixReplay current successor seed ar" and "planQualified plan"
  shows "validRange (pf_currentPrefix (dp_proof plan)) \<and> validRange (pf_currentSuffix (dp_proof plan)) \<and>
    validRange (pf_successorHead (dp_proof plan)) \<and>
    sameRangeIdentity (pf_currentPrefix (dp_proof plan)) current \<and>
    sameRangeIdentity (pf_currentSuffix (dp_proof plan)) current \<and>
    sameRangeIdentity (pf_successorHead (dp_proof plan)) successor \<and>
    range_commands (pf_currentPrefix (dp_proof plan)) @ range_commands (pf_currentSuffix (dp_proof plan)) =
      [0..<commandCount (dv_payload current)] \<and>
    range_commands (pf_successorHead (dp_proof plan)) = [0..<commandCount (dv_payload successor)] \<and>
    commandCount (dv_payload current) = 3 \<and> commandCount (dv_payload successor) = 1 \<and>
    pf_naturalReplay (dp_proof plan) = range_locators 0 (pf_currentPrefix (dp_proof plan)) @
      range_locators 0 (pf_currentSuffix (dp_proof plan)) @ range_locators 1 (pf_successorHead (dp_proof plan)) \<and>
    pf_joinedReplay (dp_proof plan) = range_locators 0 (pf_currentPrefix (dp_proof plan)) @
      range_locators 1 (pf_successorHead (dp_proof plan)) @ range_locators 0 (pf_currentSuffix (dp_proof plan)) \<and>
    pf_naturalReplay (dp_proof plan) = naturalPlan [dv_payload current, dv_payload successor] \<and>
    fold (run_command (command_footprint ar (Some (joined_commands [dv_payload current, dv_payload successor]))) body)
      (map (natural_index [dv_payload current, dv_payload successor]) (pf_joinedReplay (dp_proof plan))) m =
    fold (run_command (command_footprint ar (Some (joined_commands [dv_payload current, dv_payload successor]))) body)
      (map (natural_index [dv_payload current, dv_payload successor]) (pf_naturalReplay (dp_proof plan))) m"
proof -
  from assms have pl: "plan = classifyDeferredTerminalSuffixReplay current successor seed ar"
    by (simp add: planDeferredTerminalSuffixReplay_def)
  from qualified_facts [OF pl assms(2)] obtain a clear b a' ta tb ra rb where Q:
    "dv_payload current = Some [a, clear, b]" "dv_payload successor = Some [a']"
    "exactSuccessorIdentity current successor"
    "drawAttachmentSet b = Some tb" "drawAttachmentSet a' = Some ta"
    "clearAttachmentSet ar clear = Some tb" "collectAttachmentResources ar ta = Some ra"
    "collectAttachmentResources ar tb = Some rb" "\<not> attachmentResourcesIntersect ra rb"
    "\<not> drawReadsAttachmentResources b ra" "\<not> drawReadsAttachmentResources a' rb"
    and proof_eq: "dp_proof plan = \<lparr>pf_currentPrefix = range_of current 0 1,
      pf_currentSuffix = range_of current 1 2, pf_successorHead = range_of successor 0 1,
      pf_activeRender = seed, pf_currentAttachmentA = ta, pf_clearAttachmentB = tb,
      pf_naturalReplay = natural_replay, pf_joinedReplay = joined_replay\<rparr>" .
  let ?F = "command_footprint ar (Some (joined_commands [dv_payload current, dv_payload successor]))"
  have F: "?F 0 = footprint ar a" "?F (Suc 0) = footprint ar clear" "?F 2 = footprint ar b" "?F 3 = footprint ar a'"
    by (simp_all add: Q(1,2) command_footprint_def joined_commands_def payload_commands_def)
  have ind: "\<not> conflicting k l"
    if "(h, k) \<in> footprint ar a'" "(h, l) \<in> footprint ar clear \<or> (h, l) \<in> footprint ar b" for h k l
    using suffix_independent [OF Q(5,7,4,6,8,9,10,11) that] .
  have no: "\<not> depends ?F i 3" if "i = 1 \<or> i = 2" for i
    using that ind unfolding depends_def by (auto simp: F conflicting_sym [of _ AccRead]) (metis conflicting_sym)+
  have idx: "map (natural_index [dv_payload current, dv_payload successor]) joined_replay = [0, 3, 1, 2]"
    "map (natural_index [dv_payload current, dv_payload successor]) natural_replay = [0, 1, 2, 3]"
    by (simp_all add: Q(1,2) joined_replay_def natural_replay_def natural_index_def)
  have pr: "precedes [0, 3, 1, 2] x y" if "(x, y) \<in> {(0, 1), (0, 2), (0, 3), (1, 2 :: nat)}" for x y
    using that by (auto simp: precedes_subseq)
  have "keeps_order ?F [0, 3, 1, 2]"
    using no pr by (auto simp: keeps_order_def)
  moreover have "mset [0, 3, 1, 2] = mset [0..<4 :: nat]" by (simp add: eval_nat_numeral)
  ultimately have "fold (run_command ?F body) [0, 3, 1, 2] m = fold (run_command ?F body) [0..<4] m"
    by (rule keeps_order_same_result)
  moreover have "[0..<4] = [0, 1, 2, 3 :: nat]" by (simp add: upt_rec)
  moreover have "naturalPlan [dv_payload current, dv_payload successor] = natural_replay"
    by (simp add: naturalPlan_def Q(1,2) natural_replay_def upt_rec)
  moreover have identity: "validSourceIdentity current" "validSourceIdentity successor"
    using Q(3) by (simp_all only: exactSuccessorIdentity_def)
  moreover have "validRange (range_of current 0 1)" "validRange (range_of current 1 2)"
    "validRange (range_of successor 0 1)"
    using identity by (simp_all add: validRange_def range_of_def validSourceIdentity_def)
  moreover have "commandCount (dv_payload current) = 3" "commandCount (dv_payload successor) = 1"
    by (simp_all add: Q(1,2) payload_commands_def)
  moreover have "natural_replay = range_locators 0 (range_of current 0 1) @ range_locators 0 (range_of current 1 2) @
      range_locators 1 (range_of successor 0 1)"
    "joined_replay = range_locators 0 (range_of current 0 1) @ range_locators 1 (range_of successor 0 1) @
      range_locators 0 (range_of current 1 2)"
    by (simp_all add: range_locators_def natural_replay_def joined_replay_def upt_rec)
  moreover have "[0..<1] @ [1..<1 + 2] = [0..<3 :: nat]" by (simp add: upt_rec)
  ultimately show ?thesis by (simp add: proof_eq idx del: upt_Suc upt_rec_numeral)
qed

section \<open>The validator\<close>

lemma proofsEqual_iff: "proofsEqual p q \<longleftrightarrow> p = q"
  by (cases p; cases q; simp add: proofsEqual_def) (auto intro: ActiveRenderPlanningSeed.equality)

lemma joined_replay_covers: "checkSuffixCommands joined_replay (replicate 4 False) = Inr [True, True, True, True]"
  by (simp add: joined_replay_def eval_nat_numeral)

lemma checkSuffixCommands_Inl: "checkSuffixCommands commands seen = Inl v \<Longrightarrow> v \<noteq> DrvValid"
  by (induction commands seen rule: checkSuffixCommands.induct) (auto split: if_splits)

text \<open>
  The validator of the deferred suffix is exact. It answers \<open>Valid\<close> precisely when the
  sources still qualify, the given proof equals the freshly computed one field by field and the
  commands are the joined order of that proof; any other order, even one with the same results,
  any stale identity and any altered proof is refused.
\<close>

theorem deferred_validator_exact:
  "validateDeferredTerminalSuffixReplay current successor seed pf commands ar = DrvValid \<longleftrightarrow>
     planQualified (planDeferredTerminalSuffixReplay current successor seed ar) \<and>
     pf = dp_proof (planDeferredTerminalSuffixReplay current successor seed ar) \<and>
     commands = [\<lparr>lc_retainedSourceIndex = 0, lc_commandIndex = 0\<rparr>,
       \<lparr>lc_retainedSourceIndex = 1, lc_commandIndex = 0\<rparr>,
       \<lparr>lc_retainedSourceIndex = 0, lc_commandIndex = 1\<rparr>,
       \<lparr>lc_retainedSourceIndex = 0, lc_commandIndex = 2\<rparr>]"
  (is "?valid \<longleftrightarrow> ?q \<and> ?p \<and> ?c")
proof -
  let ?fresh = "classifyDeferredTerminalSuffixReplay current successor seed ar"
  have c: "?c \<longleftrightarrow> commands = joined_replay" by (simp add: joined_replay_def)
  show ?thesis
  proof
    assume v: ?valid
    then have q: "planQualified ?fresh" and p: "pf = dp_proof ?fresh"
      by (auto simp: validateDeferredTerminalSuffixReplay_def proofsEqual_iff split: if_splits)
    have "commands = pf_joinedReplay pf"
      using v by (auto simp: validateDeferredTerminalSuffixReplay_def split: if_splits sum.splits dest: checkSuffixCommands_Inl)
    moreover have "pf_joinedReplay (dp_proof ?fresh) = joined_replay"
      by (rule qualified_facts [OF refl q]) simp
    ultimately show "?q \<and> ?p \<and> ?c"
      using q p unfolding c by (simp add: planDeferredTerminalSuffixReplay_def)
  next
    assume a: "?q \<and> ?p \<and> ?c"
    then have q: "planQualified ?fresh" and p: "pf = dp_proof ?fresh" and j: "commands = joined_replay"
      unfolding c by (simp_all add: planDeferredTerminalSuffixReplay_def)
    have same: "sameRangeIdentity (pf_currentPrefix pf) current" "sameRangeIdentity (pf_currentSuffix pf) current"
      "sameRangeIdentity (pf_successorHead pf) successor" "pf_joinedReplay pf = joined_replay"
      unfolding p by (rule qualified_facts [OF refl q]; simp add: sameRangeIdentity_def range_of_def)+
    have four: "length joined_replay = 4" by (simp add: joined_replay_def)
    have d: "dp_disposition ?fresh = DsQualified" using q by (simp add: planQualified_def)
    show ?valid
      unfolding validateDeferredTerminalSuffixReplay_def proofsEqual_iff p [symmetric] j Let_def
      by (simp add: same four q d joined_replay_covers)
  qed
qed

section \<open>A qualified pair of sources\<close>

definition run_record :: DrawRunCommandRecord where
  "run_record = \<lparr>run_firstParam = 0, run_paramCount = 1, run_runStableBindingHash = 0\<rparr>"

definition draw_to :: "ResourceHandle \<Rightarrow> SourceCommandView" where
  "draw_to h = (draw_command [h] 0)\<lparr>cmd_drawRunRecord := Some run_record, cmd_drawParamCount := 1\<rparr>"

definition clear_of :: "ResourceHandle \<Rightarrow> SourceCommandView" where
  "clear_of h = empty_command\<lparr>cmd_kind := CmdClear, cmd_clear := Some \<lparr>
     clr_colorAttachments = [\<lparr>att_handle = h, att_sampleCount = 1\<rparr>],
     clr_depthStencil = \<lparr>att_handle = 0, att_sampleCount = 1\<rparr>,
     clr_clearColor = True, clr_clearDepth = False, clr_clearStencil = False, clr_rectCount = 0\<rparr>\<rparr>"

definition source_at :: "SourcePayloadView \<Rightarrow> nat \<Rightarrow> DeferredTerminalSuffixPlanningSourceView" where
  "source_at payload i = \<lparr>dv_payload = payload,
     dv_source = \<lparr>ref_id = \<lparr>sid_index = of_nat i, sid_generation = 1\<rparr>,
       ref_storage = \<lparr>sto_firstPage = of_nat i, sto_pageCount = 1, sto_generation = 1\<rparr>\<rparr>,
     dv_sourceOrdinal = of_nat i, dv_seqId = of_nat i\<rparr>"

definition suffix_current :: DeferredTerminalSuffixPlanningSourceView where
  "suffix_current = source_at (Some [draw_to 3, clear_of 4, draw_to 4]) 1"

definition suffix_successor :: DeferredTerminalSuffixPlanningSourceView where
  "suffix_successor = source_at (Some [draw_to 3]) 2"

definition suffix_seed :: ActiveRenderPlanningSeed where
  "suffix_seed = \<lparr>sd_targets = attachmentSetFromHot (the (cmd_hot (draw_to 3))),
     sd_write_dependencies = [3, 0, 0, 0, 0], sd_dependency_count = 1, sd_complete = True\<rparr>"

lemma suffix_qualified:
  "planQualified (planDeferredTerminalSuffixReplay suffix_current suffix_successor suffix_seed no_alias)"
  by (simp add: planDeferredTerminalSuffixReplay_def classifyDeferredTerminalSuffixReplay_def planQualified_def
      suffix_current_def suffix_successor_def suffix_seed_def source_at_def exactSuccessorIdentity_def
      validSourceIdentity_def validSourceRef_def validSourceId_def validStorageRef_def drawAttachmentSet_def
      clearAttachmentSet_def draw_to_def clear_of_def draw_command_def empty_command_def run_record_def
      attachmentSetFromHot_def empty_targets_def eight activeRenderSeedCoversAttachments_def
      collectAttachmentResources_def appendCanonicalResource_def attachmentResourcesIntersect_def
      drawReadsAttachmentResources_def no_alias_def resolveAlias_def
      cong: let_weak_cong del: upt_rec)

theorem deferred_suffix_preserves_results_witness:
  "fold (run_command (command_footprint no_alias (Some (joined_commands
       [dv_payload suffix_current, dv_payload suffix_successor]))) depth_body) [0, 3, 1, 2] (\<lambda>_. 0) =
   fold (run_command (command_footprint no_alias (Some (joined_commands
       [dv_payload suffix_current, dv_payload suffix_successor]))) depth_body) [0, 1, 2, 3] (\<lambda>_. 0)"
proof -
  let ?p = "planDeferredTerminalSuffixReplay suffix_current suffix_successor suffix_seed no_alias"
  have q: "planQualified (classifyDeferredTerminalSuffixReplay suffix_current suffix_successor suffix_seed no_alias)"
    using suffix_qualified by (simp add: planDeferredTerminalSuffixReplay_def)
  have "pf_joinedReplay (dp_proof ?p) = joined_replay \<and> pf_naturalReplay (dp_proof ?p) = natural_replay"
    unfolding planDeferredTerminalSuffixReplay_def by (rule qualified_facts [OF refl q]) simp
  moreover have "map (natural_index [dv_payload suffix_current, dv_payload suffix_successor]) joined_replay = [0, 3, 1, 2]"
    "map (natural_index [dv_payload suffix_current, dv_payload suffix_successor]) natural_replay = [0, 1, 2, 3]"
    by (simp_all add: joined_replay_def natural_replay_def natural_index_def suffix_current_def
        suffix_successor_def source_at_def)
  ultimately show ?thesis
    using deferred_suffix_preserves_results [OF refl suffix_qualified, of depth_body "\<lambda>_. 0"] by presburger
qed

end
