(* ===== verification/Fg_Coalesce_Example.thy ===== *)
theory Fg_Coalesce_Example
  imports Fg_Coalesce_Correct "HOL-Library.Code_Target_Nat"
begin

text \<open>
  Pass coalescing on a graph with edges: two passes on one target with a pass between them that
  feeds the second, where the second pass also depends on the first.
\<close>

definition feeding_graph :: FrameGraph where
  "feeding_graph = return_graph\<lparr>g_edges :=
     [\<lparr>e_src_pass = 0, e_dst_pass = 2, e_resource = 3\<rparr>, \<lparr>e_src_pass = 1, e_dst_pass = 2, e_resource = 4\<rparr>]\<rparr>"

definition coalesced_feeding :: FrameGraph where
  "coalesced_feeding = fst (runPassCoalesce True feeding_graph None False None)"

text \<open>The last command depends on the other two.\<close>

definition feeding :: "CommandRef \<Rightarrow> CommandRef \<Rightarrow> bool" where
  "feeding c d \<longleftrightarrow> cref_command_index c < 2 \<and> cref_command_index d = 2"

lemma feeding_edges: "edge_rel feeding_graph = {(0, 2), (1, 2)}"
  by (simp add: edge_rel_alt feeding_graph_def)

lemma planned_feeding_graph: "planned feeding_graph"
  by (simp add: planned_def tiling_def cmd_ranges_def draw_ranges_def forward_def feeding_edges)
    (simp add: feeding_graph_def return_graph_def target_pass_def reset_graph_def default_pass_def)

lemma feeding_groups:
  "groups feeding_graph = [[\<lparr>cref_command_index = 0, cref_kind = CmdDrawRun\<rparr>],
     [\<lparr>cref_command_index = 1, cref_kind = CmdDrawRun\<rparr>], [\<lparr>cref_command_index = 2, cref_kind = CmdDrawRun\<rparr>]]"
  by (simp add: groups_def pass_commands_def gather_def feeding_graph_def return_graph_def target_pass_def
      reset_graph_def default_pass_def)

lemma feeding_ordered: "hazard_ok feeding feeding_graph"
proof -
  have "(0, 2) \<in> (edge_rel feeding_graph)\<^sup>*" "(1, 2) \<in> (edge_rel feeding_graph)\<^sup>*"
    by (auto simp: feeding_edges)
  moreover have "length (g_passes feeding_graph) = 3" by (simp add: feeding_graph_def return_graph_def)
  ultimately show ?thesis
    by (auto simp: hazard_ok_def ordered_def forward_def feeding_groups feeding_def feeding_edges less_Suc_eq
        numeral_3_eq_3 numeral_2_eq_2)
qed

lemma coalesced_groups:
  "map (map cref_command_index) (groups coalesced_feeding) = [[1], [0, 2]] \<and>
   map (\<lambda>e. (e_src_pass e, e_dst_pass e)) (g_edges coalesced_feeding) = [(0, 1)]"
  by code_simp

text \<open>
  The two passes are merged behind the pass between them; the coalesced graph still orders both
  dependencies, one along its edge and one inside the merged pass.
\<close>

theorem coalesce_keeps_dependencies_witness:
  "hazard_ok feeding feeding_graph \<and> hazard_ok feeding coalesced_feeding \<and>
   map (map cref_command_index) (groups feeding_graph) = [[0], [1], [2]] \<and>
   map (map cref_command_index) (groups coalesced_feeding) = [[1], [0, 2]] \<and>
   map (\<lambda>e. (e_src_pass e, e_dst_pass e)) (g_edges coalesced_feeding) = [(0, 1)]"
proof -
  obtain stats sink where r: "runPassCoalesce True feeding_graph None False None = (coalesced_feeding, stats, sink)"
    unfolding coalesced_feeding_def by (metis prod_cases3 fst_conv)
  from coalesce_keeps_dependencies [OF planned_feeding_graph feeding_ordered r]
  show ?thesis using feeding_ordered coalesced_groups by (simp add: feeding_groups)
qed

end
