(* ===== verification/Dx_Words.thy ===== *)
theory Dx_Words
  imports Dx_Prelude
begin

text \<open>Reading 64-bit words as natural numbers, away from the wrap-around.\<close>

lemma unat_of_nat64: "n < 2 ^ 64 \<Longrightarrow> unat (of_nat n :: u64) = n"
  by (simp add: unsigned_of_nat take_bit_nat_eq_self)

lemma unat_pow2:
  assumes "k < 64"
  shows "unat (2 ^ k :: u64) = 2 ^ k"
proof -
  have "(2 :: nat) ^ k < 2 ^ 64" by (rule power_strict_increasing [OF assms]) simp
  then have "unat (of_nat (2 ^ k) :: u64) = 2 ^ k" by (rule unat_of_nat64)
  then show ?thesis by simp
qed

lemma unat_add64: "unat x + unat y < 2 ^ 64 \<Longrightarrow> unat (x + y :: u64) = unat x + unat y"
  using unat_of_nat64 [of "unat x + unat y"] by simp

text \<open>A counter that has not reached its last value.\<close>

lemma unat_next:
  assumes "(x :: u64) \<noteq> - 1"
  shows "unat (x + 1) = Suc (unat x)" and "x + 1 \<noteq> 0"
proof -
  have "unat x \<noteq> unat (- 1 :: u64)" using assms by (simp only: word_unat_eq_iff [symmetric]) simp
  moreover have "unat (- 1 :: u64) = 2 ^ 64 - 1" by (simp add: unsigned_minus_1_eq_mask mask_eq_exp_minus_1)
  moreover have "unat x < 2 ^ 64" using unsigned_less [of x] by simp
  ultimately have "unat x + unat (1 :: u64) < 2 ^ 64" by simp
  from unat_add64 [OF this] show e: "unat (x + 1) = Suc (unat x)" by simp
  show "x + 1 \<noteq> 0"
  proof
    assume "x + 1 = 0"
    then show False using e by simp
  qed
qed

lemma unat_pos: "(x :: u64) \<noteq> 0 \<Longrightarrow> 0 < unat x"
  by (metis bot_nat_0.not_eq_extremum unsigned_0 word_unat_eq_iff)

end
