(* ===== verification/Q_Ring_Arena.thy ===== *)
theory Q_Ring_Arena
  imports Dx_Words
begin

text \<open>
  The per-frame scratch allocator (\<^verbatim>\<open>dxmt9_ring_arena.hpp\<close>): a ring of live allocations, each tagged
  with the sequence that owns it, and the watermark that frees them. Sizes and offsets are
  \<^verbatim>\<open>std::size_t\<close>, 64-bit words here; addresses are offsets into the storage.
\<close>

section \<open>The code\<close>

record Allocation =
  al_offset :: u64
  al_size :: u64
  al_seqId :: u64

record RingArena =
  ra_capacity :: u64
  ra_cursor :: u64
  ra_allocations :: "Allocation list"

definition newArena :: "u64 \<Rightarrow> RingArena" where
  "newArena capacity = \<lparr>ra_capacity = capacity, ra_cursor = 0, ra_allocations = []\<rparr>"

definition alignUp :: "u64 \<Rightarrow> u64 \<Rightarrow> u64" where
  "alignUp v alignment =
     (if alignment \<le> 1 then v else (v + alignment - 1) AND NOT (alignment - 1))"

text \<open>The \<^verbatim>\<open>while\<close> loop of \<^verbatim>\<open>reclaim\<close>, on the cursor and the deque.\<close>

fun reclaimFront :: "u64 \<Rightarrow> u64 \<Rightarrow> Allocation list \<Rightarrow> u64 \<times> Allocation list" where
  "reclaimFront completedSeqId cursor [] = (cursor, [])"
| "reclaimFront completedSeqId cursor (a # as) =
     (if al_seqId a \<le> completedSeqId
      then reclaimFront completedSeqId (max cursor (al_offset a + al_size a)) as
      else (cursor, a # as))"

definition arenaReclaim :: "u64 \<Rightarrow> RingArena \<Rightarrow> RingArena" where
  "arenaReclaim completedSeqId arena =
     (let (cursor, allocations) = reclaimFront completedSeqId (ra_cursor arena) (ra_allocations arena)
      in arena\<lparr>ra_cursor := (if allocations = [] then 0 else cursor), ra_allocations := allocations\<rparr>)"

definition canPlace :: "RingArena \<Rightarrow> u64 \<Rightarrow> u64 \<Rightarrow> bool" where
  "canPlace arena alignedSize offset =
     (\<not> (offset + alignedSize > ra_capacity arena) \<and>
      (\<forall>a \<in> set (ra_allocations arena).
         offset + alignedSize \<le> al_offset a \<or> offset \<ge> al_offset a + al_size a))"

definition allocateBytes :: "u64 \<Rightarrow> u64 \<Rightarrow> u64 \<Rightarrow> RingArena \<Rightarrow> u64 option \<times> RingArena" where
  "allocateBytes sz alignment seqId arena =
     (if sz = 0 \<or> ra_capacity arena = 0 then (None, arena)
      else let alignedSize = alignUp sz alignment in
        if alignedSize > ra_capacity arena then (None, arena)
        else let atCursor = alignUp (ra_cursor arena) alignment;
                 place = (\<lambda>offset. (Some offset, arena
                   \<lparr>ra_allocations := ra_allocations arena @
                      [\<lparr>al_offset = offset, al_size = alignedSize, al_seqId = seqId\<rparr>],
                    ra_cursor := offset + alignedSize\<rparr>))
             in if canPlace arena alignedSize atCursor then place atCursor
                else if canPlace arena alignedSize 0 then place 0
                else (None, arena))"

text \<open>\<^verbatim>\<open>allocate<T>\<close>: \<open>sizeof_T\<close> and \<open>alignof_T\<close> are the C++ operators.\<close>

definition allocateObjects :: "u64 \<Rightarrow> u64 \<Rightarrow> u64 \<Rightarrow> u64 \<Rightarrow> RingArena \<Rightarrow> u64 option \<times> RingArena" where
  "allocateObjects sizeof_T alignof_T seqId n arena = allocateBytes (sizeof_T * n) alignof_T seqId arena"

record FrameAllocators =
  fa_argbuf :: RingArena
  fa_lambdaStore :: RingArena
  fa_staging :: RingArena
  fa_copyTemp :: RingArena

definition newFrameAllocators :: FrameAllocators where
  "newFrameAllocators = \<lparr>fa_argbuf = newArena (push_bit 20 1), fa_lambdaStore = newArena (push_bit 18 1),
     fa_staging = newArena (push_bit 20 1), fa_copyTemp = newArena (push_bit 20 1)\<rparr>"

definition frameReclaim :: "u64 \<Rightarrow> FrameAllocators \<Rightarrow> FrameAllocators" where
  "frameReclaim completedSeqId fa = fa
     \<lparr>fa_argbuf := arenaReclaim completedSeqId (fa_argbuf fa),
      fa_lambdaStore := arenaReclaim completedSeqId (fa_lambdaStore fa),
      fa_staging := arenaReclaim completedSeqId (fa_staging fa),
      fa_copyTemp := arenaReclaim completedSeqId (fa_copyTemp fa)\<rparr>"

section \<open>Aligning\<close>

lemma clear_low_bits:
  fixes x :: u64
  assumes "k < 64"
  shows "unat (x AND NOT (push_bit k 1 - 1)) = unat x div 2 ^ k * 2 ^ k"
proof -
  have "push_bit k 1 - 1 = (mask k :: u64)" by (simp add: mask_eq_exp_minus_1 push_bit_eq_mult)
  moreover have "x AND NOT (mask k) = push_bit k (drop_bit k x)"
    by (rule bit_word_eqI) (auto simp: bit_simps)
  moreover have "unat (push_bit k (drop_bit k x)) = unat x div 2 ^ k * 2 ^ k"
  proof -
    have "unat x div 2 ^ k * 2 ^ k \<le> unat x" by simp
    also have "\<dots> < 2 ^ 64" using unsigned_less [of x] by simp
    finally have "take_bit 64 (unat x div 2 ^ k * 2 ^ k) = unat x div 2 ^ k * 2 ^ k"
      by (simp add: take_bit_nat_eq_self)
    moreover have "unat (push_bit k (drop_bit k x)) = take_bit 64 (push_bit k (drop_bit k (unat x)))"
      using unsigned_less [of x, where 'a = nat]
      by (simp only: unsigned_push_bit_eq unsigned_drop_bit_eq) (simp add: take_bit_nat_eq_self)
    ultimately show ?thesis by (simp only: push_bit_eq_mult drop_bit_eq_div)
  qed
  ultimately show ?thesis by simp
qed

lemma alignUp_spec:
  assumes "k < 64" and "unat v + 2 ^ k \<le> 2 ^ 64"
  shows "2 ^ k dvd unat (alignUp v (push_bit k 1))"
    and "unat v \<le> unat (alignUp v (push_bit k 1))"
    and "unat (alignUp v (push_bit k 1)) < unat v + 2 ^ k"
proof -
  let ?n = "unat (alignUp v (push_bit k 1))"
  have p: "unat (push_bit k (1 :: u64)) = 2 ^ k"
    using assms(1) by (simp add: push_bit_eq_mult unat_pow2)
  have "?n = (unat v + 2 ^ k - 1) div 2 ^ k * 2 ^ k"
  proof (cases "k = 0")
    case True
    then show ?thesis by (simp add: alignUp_def)
  next
    case False
    have "unat (v + push_bit k 1 - 1) = unat v + 2 ^ k - 1"
    proof -
      have "v + push_bit k 1 - 1 = of_nat (unat v + 2 ^ k - 1)"
        using one_le_power [of "2 :: nat" k] by (simp add: push_bit_eq_mult of_nat_diff trans_le_add2)
      then show ?thesis using assms by (simp add: unat_of_nat64)
    qed
    moreover have "\<not> push_bit k (1 :: u64) \<le> 1"
    proof
      assume "push_bit k (1 :: u64) \<le> 1"
      then have "(2 :: nat) ^ k \<le> 1" using p by (simp add: word_le_nat_alt)
      then show False using False one_less_power [of "2 :: nat" k] by simp
    qed
    ultimately show ?thesis using assms(1) by (simp add: alignUp_def clear_low_bits del: push_bit_of_1)
  qed
  then have e: "?n = (unat v + 2 ^ k - 1) div 2 ^ k * 2 ^ k" .
  then show "2 ^ k dvd ?n" by simp
  have d: "(unat v + 2 ^ k - 1) div 2 ^ k * 2 ^ k + (unat v + 2 ^ k - 1) mod 2 ^ k = unat v + 2 ^ k - 1"
    by (rule div_mult_mod_eq)
  have m: "(unat v + 2 ^ k - 1) mod 2 ^ k < (2 :: nat) ^ k" by simp
  have pos: "(1 :: nat) \<le> 2 ^ k" by simp
  show "unat v \<le> ?n" "?n < unat v + 2 ^ k" using d m pos unfolding e by linarith+
qed

section \<open>Live regions\<close>

definition al_begin :: "Allocation \<Rightarrow> nat" where
  "al_begin a = unat (al_offset a)"

definition al_end :: "Allocation \<Rightarrow> nat" where
  "al_end a = unat (al_offset a) + unat (al_size a)"

definition apart :: "Allocation \<Rightarrow> Allocation \<Rightarrow> bool" where
  "apart a b = (al_end a \<le> al_begin b \<or> al_end b \<le> al_begin a)"

text \<open>
  The invariant: live regions lie in the storage and do not overlap. The storage is at most 2^62
  bytes, so that no offset computed from a cursor inside it can wrap.
\<close>

definition arena_ok :: "RingArena \<Rightarrow> bool" where
  "arena_ok arena = (unat (ra_capacity arena) \<le> 2 ^ 62 \<and> ra_cursor arena \<le> ra_capacity arena \<and>
     (\<forall>a \<in> set (ra_allocations arena). al_end a \<le> unat (ra_capacity arena)) \<and>
     sorted_wrt apart (ra_allocations arena))"

lemma al_end_word:
  assumes "al_end a \<le> unat (ra_capacity arena)" and "unat (ra_capacity arena) \<le> 2 ^ 62"
  shows "unat (al_offset a + al_size a) = al_end a"
  using assms unat_add64 [of "al_offset a" "al_size a"] by (simp add: al_end_def)

lemma canPlace_spec:
  assumes "arena_ok arena" and "unat offset < 3 * 2 ^ 62" and "unat alignedSize \<le> 2 ^ 62"
  shows "canPlace arena alignedSize offset \<longleftrightarrow>
    unat offset + unat alignedSize \<le> unat (ra_capacity arena) \<and>
    (\<forall>a \<in> set (ra_allocations arena). unat offset + unat alignedSize \<le> al_begin a \<or> al_end a \<le> unat offset)"
proof -
  have "unat (offset + alignedSize) = unat offset + unat alignedSize"
    using assms(2,3) by (intro unat_add64) simp
  moreover have "unat (al_offset a + al_size a) = al_end a" if "a \<in> set (ra_allocations arena)" for a
    using that assms(1) by (intro al_end_word) (auto simp: arena_ok_def)
  ultimately show ?thesis
    unfolding canPlace_def by (simp add: word_le_nat_alt word_less_nat_alt not_less al_begin_def)
qed

lemma reclaimFront_split:
  "reclaimFront w cursor as = (cursor', as') \<Longrightarrow>
    \<exists>freed. as = freed @ as' \<and> (\<forall>a \<in> set freed. al_seqId a \<le> w) \<and>
      (as' \<noteq> [] \<longrightarrow> \<not> al_seqId (hd as') \<le> w) \<and>
      (\<forall>c. cursor \<le> c \<and> (\<forall>a \<in> set freed. al_offset a + al_size a \<le> c) \<longrightarrow> cursor' \<le> c)"
proof (induction w cursor as rule: reclaimFront.induct)
  case (2 w cursor a as)
  show ?case
  proof (cases "al_seqId a \<le> w")
    case True
    with 2 obtain freed where F: "as = freed @ as'" "\<forall>a \<in> set freed. al_seqId a \<le> w"
      "as' \<noteq> [] \<longrightarrow> \<not> al_seqId (hd as') \<le> w"
      "\<forall>c. max cursor (al_offset a + al_size a) \<le> c \<and> (\<forall>a \<in> set freed. al_offset a + al_size a \<le> c) \<longrightarrow> cursor' \<le> c"
      by auto
    then show ?thesis using True by (intro exI [of _ "a # freed"]) auto
  next
    case False
    then show ?thesis using 2 by (intro exI [of _ "[]"]) auto
  qed
qed simp

lemma arenaReclaim_spec:
  assumes "arena_ok arena"
  shows "arena_ok (arenaReclaim w arena)"
    and "ra_capacity (arenaReclaim w arena) = ra_capacity arena"
    and "\<exists>freed. ra_allocations arena = freed @ ra_allocations (arenaReclaim w arena) \<and>
      (\<forall>a \<in> set freed. al_seqId a \<le> w) \<and>
      (ra_allocations (arenaReclaim w arena) \<noteq> [] \<longrightarrow> \<not> al_seqId (hd (ra_allocations (arenaReclaim w arena))) \<le> w)"
proof -
  obtain cursor as' where r: "reclaimFront w (ra_cursor arena) (ra_allocations arena) = (cursor, as')"
    by fastforce
  from reclaimFront_split [OF r] obtain freed where F: "ra_allocations arena = freed @ as'"
    "\<forall>a \<in> set freed. al_seqId a \<le> w" "as' \<noteq> [] \<longrightarrow> \<not> al_seqId (hd as') \<le> w"
    "ra_cursor arena \<le> ra_capacity arena \<Longrightarrow>
      \<forall>a \<in> set freed. al_offset a + al_size a \<le> ra_capacity arena \<Longrightarrow> cursor \<le> ra_capacity arena" by blast
  have e: "arenaReclaim w arena = arena\<lparr>ra_cursor := (if as' = [] then 0 else cursor), ra_allocations := as'\<rparr>"
    by (simp add: arenaReclaim_def r)
  have "\<forall>a \<in> set freed. al_offset a + al_size a \<le> ra_capacity arena"
    using assms F(1) al_end_word [of _ arena] by (auto simp: arena_ok_def word_le_nat_alt)
  then have "cursor \<le> ra_capacity arena" using F(4) assms by (simp add: arena_ok_def)
  then show "arena_ok (arenaReclaim w arena)"
    using assms F(1) by (auto simp: e arena_ok_def sorted_wrt_append)
  show "ra_capacity (arenaReclaim w arena) = ra_capacity arena" by (simp add: e)
  show "\<exists>freed. ra_allocations arena = freed @ ra_allocations (arenaReclaim w arena) \<and>
      (\<forall>a \<in> set freed. al_seqId a \<le> w) \<and>
      (ra_allocations (arenaReclaim w arena) \<noteq> [] \<longrightarrow> \<not> al_seqId (hd (ra_allocations (arenaReclaim w arena))) \<le> w)"
    using F by (intro exI [of _ freed]) (simp add: e)
qed

text \<open>
  Whatever the alignment, the position computed from a small cursor leaves room for an aligned size:
  it either exceeds the cursor by less than a small alignment, or lacks one of the two top bits.
\<close>

lemma alignUp_position:
  assumes "unat v \<le> 2 ^ 62"
  shows "unat (alignUp v alignment) < 3 * 2 ^ 62"
proof (cases "unat (alignment - 1) < 2 ^ 62")
  case True
  have "unat (v + (alignment - 1)) = unat v + unat (alignment - 1)" using True assms by (intro unat_add64) simp
  then have "unat (v + alignment - 1) < 2 ^ 63" using True assms by (simp add: add_diff_eq [symmetric])
  moreover have "(v + alignment - 1) AND NOT (alignment - 1) \<le> v + alignment - 1" by (rule word_and_le2)
  ultimately show ?thesis using assms by (auto simp: alignUp_def word_le_nat_alt)
next
  case False
  have "(v + alignment - 1) AND NOT (alignment - 1) \<le> NOT (alignment - 1)" by (rule word_and_le1)
  moreover have "unat (NOT (alignment - 1)) = 2 ^ 64 - 1 - unat (alignment - 1)"
  proof -
    have "NOT (alignment - 1) = - 1 - (alignment - 1)" by (simp add: not_eq_complement)
    moreover have "unat (- 1 - (alignment - 1)) = unat (- 1 :: u64) - unat (alignment - 1)"
      by (rule unat_sub) (rule word_n1_ge)
    ultimately show ?thesis by (simp add: unsigned_minus_1_eq_mask mask_eq_exp_minus_1)
  qed
  ultimately show ?thesis using False assms by (auto simp: alignUp_def word_le_nat_alt)
qed

text \<open>The two outcomes of a request, whether or not its aligned size wraps.\<close>

lemma allocate_cases:
  assumes ok: "arena_ok arena" and r: "allocateBytes sz alignment s arena = (res, arena')"
  obtains "res = None" "arena' = arena"
  | offset where "res = Some offset" "offset = 0 \<or> offset = alignUp (ra_cursor arena) alignment"
      "unat offset + unat (alignUp sz alignment) \<le> unat (ra_capacity arena)"
      "\<forall>a \<in> set (ra_allocations arena).
         unat offset + unat (alignUp sz alignment) \<le> al_begin a \<or> al_end a \<le> unat offset"
      "arena' = arena\<lparr>ra_allocations := ra_allocations arena @
          [\<lparr>al_offset = offset, al_size = alignUp sz alignment, al_seqId = s\<rparr>],
        ra_cursor := offset + alignUp sz alignment\<rparr>"
proof -
  let ?asz = "alignUp sz alignment" and ?at = "alignUp (ra_cursor arena) alignment"
  have cap: "unat (ra_capacity arena) \<le> 2 ^ 62" "unat (ra_cursor arena) \<le> unat (ra_capacity arena)"
    using ok by (simp_all add: arena_ok_def word_le_nat_alt)
  show thesis
  proof (cases "sz = 0 \<or> ra_capacity arena = 0 \<or> ?asz > ra_capacity arena \<or>
      \<not> canPlace arena ?asz ?at \<and> \<not> canPlace arena ?asz 0")
    case True
    then have "res = None \<and> arena' = arena" using r by (auto simp: allocateBytes_def split: if_splits)
    then show thesis using that(1) by blast
  next
    case False
    define offset where "offset = (if canPlace arena ?asz ?at then ?at else 0)"
    have place: "canPlace arena ?asz offset" and o: "offset = 0 \<or> offset = ?at"
      using False by (auto simp: offset_def)
    have small: "unat ?asz \<le> 2 ^ 62" using False cap(1) by (simp add: not_less word_le_nat_alt)
    have "unat ?at < 3 * 2 ^ 62" using cap by (intro alignUp_position) simp
    then have "unat offset < 3 * 2 ^ 62" using o by auto
    then have P: "unat offset + unat ?asz \<le> unat (ra_capacity arena)"
      "\<forall>a \<in> set (ra_allocations arena). unat offset + unat ?asz \<le> al_begin a \<or> al_end a \<le> unat offset"
      using canPlace_spec [OF ok _ small, of offset] place by blast+
    have "res = Some offset" "arena' = arena\<lparr>ra_allocations := ra_allocations arena @
          [\<lparr>al_offset = offset, al_size = ?asz, al_seqId = s\<rparr>], ra_cursor := offset + ?asz\<rparr>"
      using r False by (auto simp: allocateBytes_def offset_def split: if_splits)
    then show thesis using that(2) o P by blast
  qed
qed

lemma allocate_Some:
  assumes "arena_ok arena" and "k \<le> 62" and "unat sz + 2 ^ k \<le> 2 ^ 64"
    and "allocateBytes sz (push_bit k 1) s arena = (Some offset, arena')"
  shows "\<exists>asz. unat sz \<le> unat asz \<and> 2 ^ k dvd unat offset \<and>
      unat offset + unat asz \<le> unat (ra_capacity arena) \<and>
      (\<forall>a \<in> set (ra_allocations arena). unat offset + unat asz \<le> al_begin a \<or> al_end a \<le> unat offset) \<and>
      ra_capacity arena' = ra_capacity arena \<and>
      \<lparr>al_offset = offset, al_size = asz, al_seqId = s\<rparr> \<in> set (ra_allocations arena')"
proof (rule allocate_cases [OF assms(1,4)], goal_cases)
  case (2 offset')
  have k64: "k < 64" using assms(2) by simp
  have "unat (ra_cursor arena) \<le> 2 ^ 62" "(2 :: nat) ^ k \<le> 2 ^ 62"
    using assms(1) power_increasing [OF assms(2), of "2 :: nat"] by (auto simp: arena_ok_def word_le_nat_alt)
  then have "2 ^ k dvd unat (alignUp (ra_cursor arena) (push_bit k 1))" by (intro alignUp_spec(1) k64) simp
  then have "2 ^ k dvd unat offset'" using 2(2) by auto
  then show ?case
    using 2 alignUp_spec(2) [OF k64 assms(3)] by (intro exI [of _ "alignUp sz (push_bit k 1)"]) simp
qed simp

lemma allocate_ok:
  assumes "arena_ok arena" and "allocateBytes sz alignment s arena = (res, arena')"
  shows "arena_ok arena'"
  using assms
proof (cases rule: allocate_cases)
  case (2 offset)
  have "unat (offset + alignUp sz alignment) = unat offset + unat (alignUp sz alignment)"
    using 2(3) assms(1) by (intro unat_add64) (simp add: arena_ok_def)
  then show ?thesis
    using 2 assms(1)
    by (auto simp: arena_ok_def sorted_wrt_append apart_def al_begin_def al_end_def word_le_nat_alt)
qed (simp add: assms(1))

section \<open>Runs of the allocator\<close>

datatype ArenaEvent = Allocate u64 u64 u64 | Reclaim u64

text \<open>One call: a request for some bytes with any alignment, or a new watermark.\<close>

definition arenaStep :: "ArenaEvent \<Rightarrow> RingArena \<Rightarrow> RingArena" where
  "arenaStep e arena = (case e of
     Allocate sz alignment s \<Rightarrow> snd (allocateBytes sz alignment s arena)
   | Reclaim w \<Rightarrow> arenaReclaim w arena)"

definition watermark_below :: "u64 \<Rightarrow> ArenaEvent \<Rightarrow> bool" where
  "watermark_below s e = (case e of Allocate _ _ _ \<Rightarrow> True | Reclaim w \<Rightarrow> w < s)"

lemma arenaStep_ok: "arena_ok arena \<Longrightarrow> arena_ok (arenaStep e arena)"
  using allocate_ok arenaReclaim_spec(1)
  by (auto simp: arenaStep_def split: ArenaEvent.splits) (metis prod.collapse)

lemma arenaStep_keeps:
  assumes "arena_ok arena" and "watermark_below (al_seqId a) e" and "a \<in> set (ra_allocations arena)"
  shows "a \<in> set (ra_allocations (arenaStep e arena))"
proof (cases e)
  case (Allocate sz alignment s)
  obtain res arena' where r: "allocateBytes sz alignment s arena = (res, arena')" by force
  from assms(1) this show ?thesis
    using assms(3) by (cases rule: allocate_cases) (simp_all add: arenaStep_def Allocate r)
next
  case (Reclaim w)
  then have "\<not> al_seqId a \<le> w" using assms(2) by (simp add: watermark_below_def)
  then show ?thesis
    using arenaReclaim_spec(3) [OF assms(1), of w] assms(3) by (auto simp: arenaStep_def Reclaim)
qed

lemma arena_run_ok: "arena_ok arena \<Longrightarrow> arena_ok (fold arenaStep es arena)"
  by (induction es arbitrary: arena) (auto simp: arenaStep_ok)

lemma arena_run_keeps:
  assumes "arena_ok arena" and "\<forall>e \<in> set es. watermark_below (al_seqId a) e" and "a \<in> set (ra_allocations arena)"
  shows "a \<in> set (ra_allocations (fold arenaStep es arena))"
  using assms by (induction es arbitrary: arena) (auto simp: arenaStep_ok arenaStep_keeps)

lemma arena_run_capacity: "ra_capacity (fold arenaStep es arena) = ra_capacity arena"
proof (induction es arbitrary: arena)
  case (Cons e es)
  have "ra_capacity (arenaStep e arena) = ra_capacity arena"
    by (auto simp: arenaStep_def allocateBytes_def arenaReclaim_def split: ArenaEvent.splits prod.splits)
  then show ?case using Cons by simp
qed simp

lemma newArena_ok: "unat capacity \<le> 2 ^ 62 \<Longrightarrow> arena_ok (newArena capacity)"
  by (simp add: arena_ok_def newArena_def)

section \<open>The properties\<close>

text \<open>
  C28: scratch memory is never handed out twice while it is in use. Take any state reached from a fresh
  arena of at most 2^62 bytes, an allocation for sequence \<open>s\<close> that succeeds there, and any later
  allocation that succeeds before the watermark has reached \<open>s\<close>. When these two requests are
  aligned to powers of two up to 2^62 and their sizes do not wrap around when they are aligned, both
  regions are aligned as requested, lie inside the storage and do not overlap. Every other request,
  before and in between, may have any size and any alignment, wrapping ones included.
\<close>

theorem ring_regions_exclusive:
  assumes "unat capacity \<le> 2 ^ 62"
    and "k \<le> 62" and "unat sz + 2 ^ k \<le> 2 ^ 64" and "k' \<le> 62" and "unat sz' + 2 ^ k' \<le> 2 ^ 64"
    and "\<forall>e \<in> set between. watermark_below s e"
    and "allocateBytes sz (push_bit k 1) s (fold arenaStep before (newArena capacity)) = (Some o1, arena1)"
    and "allocateBytes sz' (push_bit k' 1) s' (fold arenaStep between arena1) = (Some o2, arena2)"
  shows "2 ^ k dvd unat o1 \<and> 2 ^ k' dvd unat o2 \<and>
    unat o1 + unat sz \<le> unat capacity \<and> unat o2 + unat sz' \<le> unat capacity \<and>
    (unat o1 + unat sz \<le> unat o2 \<or> unat o2 + unat sz' \<le> unat o1)"
proof -
  let ?A = "fold arenaStep before (newArena capacity)" and ?B = "fold arenaStep between arena1"
  have ok: "arena_ok ?A" using assms(1) by (intro arena_run_ok newArena_ok)
  obtain asz where one: "unat sz \<le> unat asz" "2 ^ k dvd unat o1"
    "unat o1 + unat asz \<le> unat (ra_capacity ?A)" "ra_capacity arena1 = ra_capacity ?A"
    "\<lparr>al_offset = o1, al_size = asz, al_seqId = s\<rparr> \<in> set (ra_allocations arena1)"
    using allocate_Some [OF ok assms(2,3,7)] by blast
  have ok1: "arena_ok arena1" by (rule allocate_ok [OF ok assms(7)])
  have B: "\<lparr>al_offset = o1, al_size = asz, al_seqId = s\<rparr> \<in> set (ra_allocations ?B)"
    using assms(6) by (intro arena_run_keeps [OF ok1 _ one(5)]) simp
  obtain asz' :: u64 where two: "unat sz' \<le> unat asz'" "2 ^ k' dvd unat o2"
    "unat o2 + unat asz' \<le> unat (ra_capacity ?B)"
    "\<forall>a \<in> set (ra_allocations ?B). unat o2 + unat asz' \<le> al_begin a \<or> al_end a \<le> unat o2"
    using allocate_Some [OF arena_run_ok [OF ok1] assms(4,5,8)] by blast
  have "ra_capacity ?A = capacity" "ra_capacity ?B = ra_capacity ?A"
    using one(4) by (simp_all add: arena_run_capacity newArena_def)
  moreover from two(4) B have "unat o2 + unat asz' \<le> unat o1 \<or> unat o1 + unat asz \<le> unat o2"
    by (force simp: al_begin_def al_end_def)
  ultimately show ?thesis using one two by auto
qed

lemma first_request:
  "allocateBytes 100 16 1 (newArena 1024) = (Some 0, \<lparr>ra_capacity = 1024, ra_cursor = 112,
     ra_allocations = [\<lparr>al_offset = 0, al_size = 112, al_seqId = 1\<rparr>]\<rparr>)"
  by code_simp

lemma wrapping_request:
  "arenaStep (Allocate (- 1) 16 7) \<lparr>ra_capacity = 1024, ra_cursor = 112,
     ra_allocations = [\<lparr>al_offset = 0, al_size = 112, al_seqId = 1\<rparr>]\<rparr> =
   \<lparr>ra_capacity = 1024, ra_cursor = 112, ra_allocations =
     [\<lparr>al_offset = 0, al_size = 112, al_seqId = 1\<rparr>, \<lparr>al_offset = 112, al_size = 0, al_seqId = 7\<rparr>]\<rparr>"
  "allocateBytes 100 16 2 \<lparr>ra_capacity = 1024, ra_cursor = 112, ra_allocations =
     [\<lparr>al_offset = 0, al_size = 112, al_seqId = 1\<rparr>, \<lparr>al_offset = 112, al_size = 0, al_seqId = 7\<rparr>]\<rparr> =
   (Some 112, \<lparr>ra_capacity = 1024, ra_cursor = 224, ra_allocations =
     [\<lparr>al_offset = 0, al_size = 112, al_seqId = 1\<rparr>, \<lparr>al_offset = 112, al_size = 0, al_seqId = 7\<rparr>,
      \<lparr>al_offset = 112, al_size = 112, al_seqId = 2\<rparr>]\<rparr>)"
  by code_simp+

theorem ring_regions_exclusive_witness:
  "fst (allocateBytes 100 16 1 (newArena 1024)) = Some 0 \<and>
   fst (allocateBytes 100 16 2 (fold arenaStep [Allocate (- 1) 16 7, Reclaim 0]
     (snd (allocateBytes 100 16 1 (newArena 1024))))) = Some 112 \<and>
   2 ^ 4 dvd unat (112 :: u64) \<and> (unat (0 :: u64) + 100 \<le> unat (112 :: u64) \<or> unat (112 :: u64) + 100 \<le> unat (0 :: u64))"
proof -
  have p: "push_bit 4 1 = (16 :: u64)" by (simp add: push_bit_eq_mult)
  have w: "\<forall>e \<in> set [Allocate (- 1) 16 7, Reclaim 0]. watermark_below 1 e"
    by (simp add: watermark_below_def)
  have r: "arenaStep (Reclaim 0) \<lparr>ra_capacity = 1024, ra_cursor = 112, ra_allocations =
       [\<lparr>al_offset = 0, al_size = 112, al_seqId = 1\<rparr>, \<lparr>al_offset = 112, al_size = 0, al_seqId = 7\<rparr>]\<rparr> =
     \<lparr>ra_capacity = 1024, ra_cursor = 112, ra_allocations =
       [\<lparr>al_offset = 0, al_size = 112, al_seqId = 1\<rparr>, \<lparr>al_offset = 112, al_size = 0, al_seqId = 7\<rparr>]\<rparr>"
    by code_simp
  show ?thesis
    using ring_regions_exclusive [of 1024 4 100 4 100 "[Allocate (- 1) 16 7, Reclaim 0]" 1 "[]" 0
        "snd (allocateBytes 100 16 1 (newArena 1024))" 2 112, OF _ _ _ _ _ w]
    by (simp add: p first_request wrapping_request r)
qed

text \<open>
  The watermark frees exactly what has completed. When the live allocations are in the order of
  their sequences, reclaiming up to \<open>w\<close> keeps precisely the allocations of later sequences; once
  nothing is live the whole storage is available again, to any request whose aligned size fits.
\<close>

theorem ring_reclaim_exact:
  assumes "arena_ok arena" and "sorted (map al_seqId (ra_allocations arena))"
  shows "ra_allocations (arenaReclaim w arena) = filter (\<lambda>a. w < al_seqId a) (ra_allocations arena) \<and>
    (ra_allocations (arenaReclaim w arena) = [] \<longrightarrow>
      (\<forall>sz alignment s. sz \<noteq> 0 \<longrightarrow> alignUp sz alignment \<le> ra_capacity arena \<longrightarrow> ra_capacity arena \<noteq> 0 \<longrightarrow>
        fst (allocateBytes sz alignment s (arenaReclaim w arena)) \<noteq> None))"
proof -
  let ?A = "arenaReclaim w arena"
  note R = arenaReclaim_spec [OF assms(1), of w]
  obtain freed where f: "ra_allocations arena = freed @ ra_allocations ?A" "\<forall>a \<in> set freed. al_seqId a \<le> w"
    "ra_allocations ?A \<noteq> [] \<longrightarrow> \<not> al_seqId (hd (ra_allocations ?A)) \<le> w"
    using R(3) by blast
  have "\<forall>a \<in> set (ra_allocations ?A). w < al_seqId a"
  proof (cases "ra_allocations ?A")
    case (Cons b bs)
    then have "\<forall>a \<in> set bs. al_seqId b \<le> al_seqId a"
      using assms(2) f(1) by (auto simp: sorted_append)
    then show ?thesis using f(3) Cons by auto
  qed simp
  moreover have "filter (\<lambda>a. w < al_seqId a) freed = []"
    using f(2) by (auto simp: filter_empty_conv not_less)
  ultimately have "filter (\<lambda>a. w < al_seqId a) (ra_allocations arena) = ra_allocations ?A"
    unfolding f(1) filter_append by simp
  moreover have "fst (allocateBytes sz alignment s ?A) \<noteq> None"
    if "ra_allocations ?A = []" "sz \<noteq> 0" "alignUp sz alignment \<le> ra_capacity arena" "ra_capacity arena \<noteq> 0"
    for sz alignment s
    using that R(2) by (auto simp: allocateBytes_def canPlace_def)
  ultimately show ?thesis by simp
qed

theorem ring_reclaim_exact_witness:
  "ra_allocations (arenaReclaim 1 (snd (allocateBytes 8 8 2 (snd (allocateBytes 8 8 1 (newArena 64)))))) =
     [\<lparr>al_offset = 8, al_size = 8, al_seqId = 2\<rparr>]"
proof -
  let ?A = "snd (allocateBytes 8 8 2 (snd (allocateBytes 8 8 1 (newArena 64))))"
  have A: "?A = \<lparr>ra_capacity = 64, ra_cursor = 16, ra_allocations =
      [\<lparr>al_offset = 0, al_size = 8, al_seqId = 1\<rparr>, \<lparr>al_offset = 8, al_size = 8, al_seqId = 2\<rparr>]\<rparr>"
    by code_simp
  have "arena_ok ?A" "sorted (map al_seqId (ra_allocations ?A))"
    unfolding A by (simp_all add: arena_ok_def apart_def al_begin_def al_end_def)
  from ring_reclaim_exact [OF this, of 1] show ?thesis unfolding A by simp
qed

text \<open>
  C40: the limit of the guard against oversize requests. A request of 2^64 - 1 bytes with 16-byte
  alignment wraps to an aligned size of zero and is granted, on any non-empty fresh arena, with a
  region of no bytes, while every request above the capacity whose size does not wrap is refused.
\<close>

theorem ring_oversize_wraps:
  "(capacity \<noteq> 0 \<longrightarrow> allocateBytes (- 1) 16 s (newArena capacity) =
     (Some 0, \<lparr>ra_capacity = capacity, ra_cursor = 0,
        ra_allocations = [\<lparr>al_offset = 0, al_size = 0, al_seqId = s\<rparr>]\<rparr>)) \<and>
   (k < 64 \<longrightarrow> unat sz + 2 ^ k \<le> 2 ^ 64 \<longrightarrow> sz > ra_capacity arena \<longrightarrow>
     allocateBytes sz (push_bit k 1) s arena = (None, arena))"
proof -
  have "ra_capacity arena < alignUp sz (push_bit k 1)"
    if "k < 64" "unat sz + 2 ^ k \<le> 2 ^ 64" "sz > ra_capacity arena"
    using alignUp_spec(2) [OF that(1,2)] that(3) by (simp add: word_less_nat_alt)
  moreover have "alignUp (- 1) 16 = 0" "alignUp 0 16 = 0" by code_simp+
  ultimately show ?thesis
    by (auto simp: allocateBytes_def newArena_def canPlace_def simp del: push_bit_of_1)
qed

theorem ring_oversize_wraps_witness:
  "fst (allocateBytes (- 1) 16 1 (newArena 1024)) = Some 0 \<and>
   fst (allocateBytes 2000 16 1 (newArena 1024)) = None"
proof -
  have p: "push_bit 4 1 = (16 :: u64)" by (simp add: push_bit_eq_mult)
  show ?thesis
    using ring_oversize_wraps [of 1024 1 4 2000 "newArena 1024"]
    by (simp add: p) (simp add: newArena_def)
qed

end
