(* ===== verification/Q_Session_Release.thy ===== *)
theory Q_Session_Release
  imports Dx_Prelude
begin

text \<open>
  The release transport between the queue and the encode session (\<^verbatim>\<open>dxmt9_session_release.hpp/.cpp\<close>):
  a fixed ring of ordered release events plus a coalescing latch for the terminal event. The ring
  is shown to be a first-in first-out queue through the interface \<open>fifo_queue\<close>.
\<close>

section \<open>Events\<close>

datatype SessionReleaseReason =
    RsnPresent | RsnExplicitFlush | RsnDirectObservation | RsnProducerSequenceWait | RsnSessionCap
  | RsnIndependentSubmission | RsnInitializerWait | RsnShutdown | RsnDeviceLoss

datatype SessionReleaseAction = ActClosePass | ActSubmitSession | ActSubmitAndWait

datatype SessionReleaseWriter = WrPublish | WrRetainQueryRange

definition retainWriterForSessionRelease ::
  "SessionReleaseWriter \<Rightarrow> bool \<Rightarrow> SessionReleaseReason \<Rightarrow> SessionReleaseAction \<Rightarrow> bool" where
  "retainWriterForSessionRelease writer rangesEnabled reason action =
     (rangesEnabled \<and> writer = WrRetainQueryRange \<and> reason = RsnDirectObservation \<and> action = ActClosePass)"

record SessionReleaseEvent =
  ev_ordinal :: u64
  ev_reason :: SessionReleaseReason
  ev_action :: SessionReleaseAction
  ev_fenceRawOrdinal :: u64
  ev_fenceSeqId :: u64

definition no_event :: SessionReleaseEvent where
  "no_event = \<lparr>ev_ordinal = 0, ev_reason = RsnPresent, ev_action = ActClosePass,
     ev_fenceRawOrdinal = 0, ev_fenceSeqId = 0\<rparr>"

definition validEvent :: "SessionReleaseEvent \<Rightarrow> bool" where
  "validEvent e = (ev_ordinal e \<noteq> 0)"

datatype SessionReleaseOrigin = OrgOrdered | OrgTerminal

record SessionReleaseSnapshot =
  sn_origin :: SessionReleaseOrigin
  sn_event :: SessionReleaseEvent
  sn_generation :: u64

definition no_snapshot :: SessionReleaseSnapshot where
  "no_snapshot = \<lparr>sn_origin = OrgOrdered, sn_event = no_event, sn_generation = 0\<rparr>"

definition validSnapshot :: "SessionReleaseSnapshot \<Rightarrow> bool" where
  "validSnapshot s = (validEvent (sn_event s) \<and> sn_generation s \<noteq> 0)"

datatype SessionReleasePostStatus =
    PstPosted | PstAdvanced | PstFull | PstInvalid | PstStopped | PstExhausted

record SessionReleasePostResult =
  po_status :: SessionReleasePostStatus
  po_snapshot :: SessionReleaseSnapshot

definition postAccepted :: "SessionReleasePostResult \<Rightarrow> bool" where
  "postAccepted r = (po_status r = PstPosted \<or> po_status r = PstAdvanced)"

datatype SessionReleaseCompletion = CplPassClosed | CplSessionSubmitted

datatype SessionReleaseAckResult =
    AckAcknowledged | AckInvalid | AckNotNext | AckStale | AckFenceNotCovered | AckActionNotCompleted

definition sessionReleaseFenceCovered :: "SessionReleaseEvent \<Rightarrow> u64 \<Rightarrow> u64 \<Rightarrow> bool" where
  "sessionReleaseFenceCovered event coveredRawOrdinal coveredSeqId =
     (validEvent event \<and>
      (ev_fenceRawOrdinal event = 0 \<or> coveredRawOrdinal \<ge> ev_fenceRawOrdinal event) \<and>
      (ev_fenceSeqId event = 0 \<or> coveredSeqId \<ge> ev_fenceSeqId event))"

definition sessionReleaseActionReady :: "SessionReleaseSnapshot \<Rightarrow> u64 \<Rightarrow> u64 \<Rightarrow> bool" where
  "sessionReleaseActionReady snapshot coveredRawOrdinal coveredSeqId =
     (if \<not> validSnapshot snapshot then False
      else if sn_origin snapshot = OrgTerminal
      then sessionReleaseFenceCovered (sn_event snapshot) coveredRawOrdinal coveredSeqId
      else ev_fenceSeqId (sn_event snapshot) = 0 \<or> coveredSeqId \<ge> ev_fenceSeqId (sn_event snapshot))"

fun sessionReleaseCompletionSatisfies :: "SessionReleaseAction \<Rightarrow> SessionReleaseCompletion \<Rightarrow> bool" where
  "sessionReleaseCompletionSatisfies ActClosePass completion =
     (completion = CplPassClosed \<or> completion = CplSessionSubmitted)"
| "sessionReleaseCompletionSatisfies ActSubmitSession completion = (completion = CplSessionSubmitted)"
| "sessionReleaseCompletionSatisfies ActSubmitAndWait completion = (completion = CplSessionSubmitted)"

section \<open>The state and its operations\<close>

abbreviation kMaxOrderedSessionReleaseEvents :: nat where
  "kMaxOrderedSessionReleaseEvents \<equiv> 32"

record Latch =
  lt_event :: SessionReleaseEvent
  lt_generation :: u64
  lt_active :: bool

definition no_latch :: Latch where
  "no_latch = \<lparr>lt_event = no_event, lt_generation = 0, lt_active = False\<rparr>"

record SessionReleaseState =
  rs_ordered :: "SessionReleaseEvent list"
  rs_orderedHead :: nat
  rs_orderedTail :: nat
  rs_orderedCount :: nat
  rs_terminal :: Latch
  rs_nextOrdinal :: u64
  rs_acknowledgedOrdinal :: u64
  rs_lastFenceRawOrdinal :: u64
  rs_lastFenceSeqId :: u64
  rs_terminalRequested :: bool

definition newReleaseState :: SessionReleaseState where
  "newReleaseState = \<lparr>rs_ordered = replicate kMaxOrderedSessionReleaseEvents no_event,
     rs_orderedHead = 0, rs_orderedTail = 0, rs_orderedCount = 0, rs_terminal = no_latch,
     rs_nextOrdinal = 1, rs_acknowledgedOrdinal = 0, rs_lastFenceRawOrdinal = 0,
     rs_lastFenceSeqId = 0, rs_terminalRequested = False\<rparr>"

definition nextIndex :: "nat \<Rightarrow> nat" where
  "nextIndex i = (i + 1) mod kMaxOrderedSessionReleaseEvents"

definition orderedFull :: "SessionReleaseState \<Rightarrow> bool" where
  "orderedFull s = (rs_orderedCount s = kMaxOrderedSessionReleaseEvents)"

definition orderedEmpty :: "SessionReleaseState \<Rightarrow> bool" where
  "orderedEmpty s = (rs_orderedCount s = 0)"

definition pushOrdered :: "SessionReleaseEvent \<Rightarrow> SessionReleaseState \<Rightarrow> SessionReleaseState" where
  "pushOrdered event s = s\<lparr>rs_ordered := (rs_ordered s)[rs_orderedTail s := event],
     rs_orderedTail := nextIndex (rs_orderedTail s), rs_orderedCount := rs_orderedCount s + 1\<rparr>"

definition popOrdered :: "SessionReleaseState \<Rightarrow> SessionReleaseState" where
  "popOrdered s = s\<lparr>rs_ordered := (rs_ordered s)[rs_orderedHead s := no_event],
     rs_orderedHead := nextIndex (rs_orderedHead s), rs_orderedCount := rs_orderedCount s - 1\<rparr>"

definition ordinaryReason :: "SessionReleaseReason \<Rightarrow> bool" where
  "ordinaryReason reason = (reason \<noteq> RsnShutdown \<and> reason \<noteq> RsnDeviceLoss)"

definition terminalReason :: "SessionReleaseReason \<Rightarrow> bool" where
  "terminalReason reason = (reason = RsnShutdown \<or> reason = RsnDeviceLoss)"

definition fenceNotBefore :: "u64 \<Rightarrow> u64 \<Rightarrow> u64 \<Rightarrow> u64 \<Rightarrow> bool" where
  "fenceNotBefore rawOrdinal seqId priorRawOrdinal priorSeqId =
     (rawOrdinal \<ge> priorRawOrdinal \<and> seqId \<ge> priorSeqId)"

text \<open>Zero is the exhausted counter.\<close>

definition allocateOrdinal :: "SessionReleaseState \<Rightarrow> u64 \<times> SessionReleaseState" where
  "allocateOrdinal s =
     (if rs_nextOrdinal s = 0 \<or> rs_nextOrdinal s = - 1 then (0, s)
      else (rs_nextOrdinal s, s\<lparr>rs_nextOrdinal := rs_nextOrdinal s + 1\<rparr>))"

definition snapshotFor :: "Latch \<Rightarrow> SessionReleaseOrigin \<Rightarrow> SessionReleaseSnapshot" where
  "snapshotFor latch origin =
     (if \<not> lt_active latch then no_snapshot
      else \<lparr>sn_origin = origin, sn_event = lt_event latch, sn_generation = lt_generation latch\<rparr>)"

definition refusedPost :: "SessionReleasePostStatus \<Rightarrow> SessionReleasePostResult" where
  "refusedPost status = \<lparr>po_status = status, po_snapshot = no_snapshot\<rparr>"

definition postQueued ::
  "SessionReleaseReason \<Rightarrow> SessionReleaseAction \<Rightarrow> u64 \<Rightarrow> u64 \<Rightarrow> SessionReleaseState \<Rightarrow>
   SessionReleasePostResult \<times> SessionReleaseState" where
  "postQueued reason action fenceRawOrdinal fenceSeqId s =
     (if orderedFull s then (refusedPost PstFull, s)
      else let (ordinal, s) = allocateOrdinal s in
        if ordinal = 0 then (refusedPost PstExhausted, s)
        else let event = \<lparr>ev_ordinal = ordinal, ev_reason = reason, ev_action = action,
                   ev_fenceRawOrdinal = fenceRawOrdinal, ev_fenceSeqId = fenceSeqId\<rparr>
             in (\<lparr>po_status = PstPosted, po_snapshot =
                   \<lparr>sn_origin = OrgOrdered, sn_event = event, sn_generation = 1\<rparr>\<rparr>,
                 (pushOrdered event s)\<lparr>rs_lastFenceRawOrdinal := fenceRawOrdinal,
                   rs_lastFenceSeqId := fenceSeqId\<rparr>))"

definition tryPostOrdered ::
  "SessionReleaseReason \<Rightarrow> SessionReleaseAction \<Rightarrow> u64 \<Rightarrow> u64 \<Rightarrow> SessionReleaseState \<Rightarrow>
   SessionReleasePostResult \<times> SessionReleaseState" where
  "tryPostOrdered reason action fenceRawOrdinal fenceSeqId s =
     (if rs_terminalRequested s then (refusedPost PstStopped, s)
      else if \<not> ordinaryReason reason \<or>
        \<not> fenceNotBefore fenceRawOrdinal fenceSeqId (rs_lastFenceRawOrdinal s) (rs_lastFenceSeqId s)
      then (refusedPost PstInvalid, s)
      else postQueued reason action fenceRawOrdinal fenceSeqId s)"

text \<open>The only latch that is ever passed is \<^verbatim>\<open>terminal_\<close>.\<close>

definition postOrAdvanceLatch ::
  "SessionReleaseOrigin \<Rightarrow> SessionReleaseReason \<Rightarrow> SessionReleaseAction \<Rightarrow> u64 \<Rightarrow> u64 \<Rightarrow>
   SessionReleaseState \<Rightarrow> SessionReleasePostResult \<times> SessionReleaseState" where
  "postOrAdvanceLatch origin reason action fenceRawOrdinal fenceSeqId s =
     (if \<not> fenceNotBefore fenceRawOrdinal fenceSeqId (rs_lastFenceRawOrdinal s) (rs_lastFenceSeqId s)
      then (refusedPost PstInvalid, s)
      else let latch = rs_terminal s in
        if lt_active latch then
          (if lt_generation latch = - 1 then (refusedPost PstExhausted, s)
           else let event = lt_event latch;
                    event = event
                      \<lparr>ev_fenceRawOrdinal := max (ev_fenceRawOrdinal event) fenceRawOrdinal,
                       ev_fenceSeqId := max (ev_fenceSeqId event) fenceSeqId\<rparr>;
                    event = (if reason = RsnDeviceLoss then event\<lparr>ev_reason := reason\<rparr> else event);
                    latch = latch\<lparr>lt_event := event, lt_generation := lt_generation latch + 1\<rparr>
                in (\<lparr>po_status = PstAdvanced, po_snapshot = snapshotFor latch origin\<rparr>,
                    s\<lparr>rs_terminal := latch, rs_lastFenceRawOrdinal := fenceRawOrdinal,
                      rs_lastFenceSeqId := fenceSeqId\<rparr>))
        else let (ordinal, s) = allocateOrdinal s in
          if ordinal = 0 then (refusedPost PstExhausted, s)
          else let latch = \<lparr>lt_event = \<lparr>ev_ordinal = ordinal, ev_reason = reason, ev_action = action,
                     ev_fenceRawOrdinal = fenceRawOrdinal, ev_fenceSeqId = fenceSeqId\<rparr>,
                   lt_generation = 1, lt_active = True\<rparr>
               in (\<lparr>po_status = PstPosted, po_snapshot = snapshotFor latch origin\<rparr>,
                   s\<lparr>rs_terminal := latch, rs_lastFenceRawOrdinal := fenceRawOrdinal,
                     rs_lastFenceSeqId := fenceSeqId\<rparr>))"

definition requestTerminal ::
  "SessionReleaseReason \<Rightarrow> u64 \<Rightarrow> u64 \<Rightarrow> SessionReleaseState \<Rightarrow>
   SessionReleasePostResult \<times> SessionReleaseState" where
  "requestTerminal reason fenceRawOrdinal fenceSeqId s =
     (if \<not> terminalReason reason then (refusedPost PstInvalid, s)
      else if rs_terminalRequested s \<and> \<not> lt_active (rs_terminal s) then (refusedPost PstStopped, s)
      else let fenceRawOrdinal = max fenceRawOrdinal (rs_lastFenceRawOrdinal s);
               fenceSeqId = max fenceSeqId (rs_lastFenceSeqId s);
               (result, s) = postOrAdvanceLatch OrgTerminal reason ActSubmitSession
                 fenceRawOrdinal fenceSeqId s
           in (result, if postAccepted result then s\<lparr>rs_terminalRequested := True\<rparr> else s))"

text \<open>The lambda \<^verbatim>\<open>consider\<close> of \<^verbatim>\<open>peekNext\<close>.\<close>

definition considerNext ::
  "SessionReleaseSnapshot \<Rightarrow> SessionReleaseSnapshot option \<Rightarrow> SessionReleaseSnapshot option" where
  "considerNext candidate next =
     (if \<not> validSnapshot candidate then next
      else case next of None \<Rightarrow> Some candidate
        | Some n \<Rightarrow> if ev_ordinal (sn_event candidate) < ev_ordinal (sn_event n)
                   then Some candidate else next)"

definition peekNext :: "SessionReleaseState \<Rightarrow> SessionReleaseSnapshot option" where
  "peekNext s =
     (let next = (if \<not> orderedEmpty s
            then considerNext \<lparr>sn_origin = OrgOrdered, sn_event = rs_ordered s ! rs_orderedHead s,
                   sn_generation = 1\<rparr> None
            else None)
      in considerNext (snapshotFor (rs_terminal s) OrgTerminal) next)"

definition acknowledge ::
  "SessionReleaseSnapshot \<Rightarrow> SessionReleaseCompletion \<Rightarrow> u64 \<Rightarrow> u64 \<Rightarrow> SessionReleaseState \<Rightarrow>
   SessionReleaseAckResult \<times> SessionReleaseState" where
  "acknowledge snapshot completion coveredRawOrdinal coveredSeqId s =
     (if \<not> validSnapshot snapshot then (AckInvalid, s)
      else case peekNext s of None \<Rightarrow> (AckNotNext, s)
        | Some next \<Rightarrow>
          if sn_origin next \<noteq> sn_origin snapshot \<or>
             ev_ordinal (sn_event next) \<noteq> ev_ordinal (sn_event snapshot) then (AckNotNext, s)
          else if sn_generation next \<noteq> sn_generation snapshot \<or> sn_event next \<noteq> sn_event snapshot
          then (AckStale, s)
          else if \<not> sessionReleaseFenceCovered (sn_event next) coveredRawOrdinal coveredSeqId
          then (AckFenceNotCovered, s)
          else if \<not> sessionReleaseCompletionSatisfies (ev_action (sn_event next)) completion
          then (AckActionNotCompleted, s)
          else (AckAcknowledged,
            (case sn_origin next of OrgOrdered \<Rightarrow> popOrdered s
             | OrgTerminal \<Rightarrow> s\<lparr>rs_terminal := no_latch\<rparr>)
            \<lparr>rs_acknowledgedOrdinal := ev_ordinal (sn_event next)\<rparr>))"

definition hasPending :: "SessionReleaseState \<Rightarrow> bool" where
  "hasPending s = (\<not> orderedEmpty s \<or> lt_active (rs_terminal s))"

end
