(* ===== verification/Q_Fifo.thy ===== *)
theory Q_Fifo
  imports Dx_Prelude
begin

text \<open>
  First-in first-out transports: the interface that the queue's fixed rings implement, what any
  client may rely on, and the arithmetic of a ring buffer with head and count.
\<close>

section \<open>The interface\<close>

locale fifo_queue =
  fixes ok :: "'s \<Rightarrow> bool"
    and items :: "'s \<Rightarrow> 'a list"
    and is_full :: "'s \<Rightarrow> bool"
    and push :: "'a \<Rightarrow> 's \<Rightarrow> 's"
    and pop :: "'s \<Rightarrow> 's"
  assumes push_law: "ok s \<Longrightarrow> \<not> is_full s \<Longrightarrow> ok (push x s) \<and> items (push x s) = items s @ [x]"
    and pop_law: "ok s \<Longrightarrow> items s \<noteq> [] \<Longrightarrow> ok (pop s) \<and> items (pop s) = tl (items s)"
begin

text \<open>A service run: \<open>Some x\<close> posts \<open>x\<close>, \<open>None\<close> takes the front. It collects what was taken.\<close>

fun serve :: "'a option list \<Rightarrow> 's \<Rightarrow> 'a list \<Rightarrow> ('a list \<times> 's) option" where
  "serve [] s out = Some (out, s)"
| "serve (Some x # ops) s out = (if is_full s then None else serve ops (push x s) out)"
| "serve (None # ops) s out =
     (if items s = [] then None else serve ops (pop s) (out @ [hd (items s)]))"

lemma serve_in_order:
  "ok s \<Longrightarrow> serve ops s out = Some (out', s') \<Longrightarrow>
    ok s' \<and> out @ items s @ map the (filter (\<lambda>op. op \<noteq> None) ops) = out' @ items s'"
proof (induction ops s out rule: serve.induct)
  case (2 x ops s out)
  then show ?case using push_law [of s x] by (auto split: if_splits)
next
  case (3 ops s out)
  then have "items s \<noteq> []" and s: "serve ops (pop s) (out @ [hd (items s)]) = Some (out', s')"
    by (auto split: if_splits)
  then obtain x xs where "items s = x # xs" by (cases "items s") auto
  then show ?case using 3 s pop_law [OF 3(2)] by simp
qed simp

lemma front_stays: "ok s \<Longrightarrow> \<not> is_full s \<Longrightarrow> items s \<noteq> [] \<Longrightarrow> hd (items (push x s)) = hd (items s)"
  using push_law by simp

end

section \<open>Rings\<close>

definition ring_items :: "'a list \<Rightarrow> nat \<Rightarrow> nat \<Rightarrow> 'a list" where
  "ring_items buf first n = map (\<lambda>i. buf ! ((first + i) mod length buf)) [0..<n]"

lemma length_ring_items [simp]: "length (ring_items buf first n) = n"
  by (simp add: ring_items_def)

lemma ring_items_Nil [simp]: "ring_items buf first n = [] \<longleftrightarrow> n = 0"
  by (simp add: ring_items_def)

lemma ring_items_hd: "0 < n \<Longrightarrow> first < length buf \<Longrightarrow> hd (ring_items buf first n) = buf ! first"
  by (simp add: ring_items_def hd_map)

lemma ring_slot_differs:
  assumes "i < (n :: nat)" and "n < m"
  shows "(first + i) mod m \<noteq> (first + n) mod m"
proof
  assume "(first + i) mod m = (first + n) mod m"
  then have "m dvd (first + n) - (first + i)" using assms by (metis mod_eq_dvd_iff_nat nat_add_left_cancel_le less_imp_le)
  then have "m dvd n - i" by simp
  then show False using assms by (auto dest: dvd_imp_le)
qed

lemma ring_push:
  assumes "n < length buf"
  shows "ring_items (buf[(first + n) mod length buf := x]) first (Suc n) = ring_items buf first n @ [x]"
proof -
  have "buf[(first + n) mod length buf := x] ! ((first + i) mod length buf) = buf ! ((first + i) mod length buf)"
    if "i < n" for i
    using ring_slot_differs [OF that assms, of first] by (simp add: nth_list_update_neq)
  moreover have "(first + n) mod length buf < length buf" using assms by (intro mod_less_divisor) linarith
  ultimately show ?thesis by (simp add: ring_items_def)
qed

lemma ring_pop:
  assumes "0 < n" and "n \<le> length buf" and "first < length buf"
  shows "ring_items (buf[first := x]) ((first + 1) mod length buf) (n - 1) = tl (ring_items buf first n)"
proof (rule nth_equalityI)
  fix i assume "i < length (ring_items (buf[first := x]) ((first + 1) mod length buf) (n - 1))"
  then have i: "i < n - 1" by simp
  have "((first + 1) mod length buf + i) mod length buf = (first + Suc i) mod length buf"
    by (simp add: mod_simps)
  moreover have "(first + Suc i) mod length buf \<noteq> first"
    using ring_slot_differs [of 0 "Suc i" "length buf" first] assms i by fastforce
  moreover have "Suc i < n" using i by linarith
  then have "[0..<n] ! Suc i = Suc i" by simp
  ultimately show "ring_items (buf[first := x]) ((first + 1) mod length buf) (n - 1) ! i =
      tl (ring_items buf first n) ! i"
    using i by (simp add: ring_items_def nth_tl nth_list_update_neq)
qed simp

end
