(* ===== verification/Q_Release_Correct.thy ===== *)
theory Q_Release_Correct
  imports Dx_Words Q_Session_Release Q_Fifo
begin

text \<open>
  The release transport loses nothing, invents nothing and reorders nothing: at any time the ordinals
  still pending are exactly those between the last acknowledged one and the next free one.
\<close>

section \<open>The ring\<close>

definition ordered_items :: "SessionReleaseState \<Rightarrow> SessionReleaseEvent list" where
  "ordered_items s = ring_items (rs_ordered s) (rs_orderedHead s) (rs_orderedCount s)"

definition ring_ok :: "SessionReleaseState \<Rightarrow> bool" where
  "ring_ok s = (length (rs_ordered s) = 32 \<and> rs_orderedHead s < 32 \<and> rs_orderedCount s \<le> 32 \<and>
     rs_orderedTail s = (rs_orderedHead s + rs_orderedCount s) mod 32)"

interpretation ordered: fifo_queue ring_ok ordered_items orderedFull pushOrdered popOrdered
proof unfold_locales
  fix s x assume ok: "ring_ok s" and full: "\<not> orderedFull s"
  then have "rs_orderedCount s < length (rs_ordered s)" by (simp add: ring_ok_def orderedFull_def)
  from ring_push [OF this] ok have "ordered_items (pushOrdered x s) = ordered_items s @ [x]"
    by (simp add: ordered_items_def pushOrdered_def ring_ok_def)
  moreover have "ring_ok (pushOrdered x s)"
    using ok full by (simp add: ring_ok_def pushOrdered_def nextIndex_def orderedFull_def mod_simps)
  ultimately show "ring_ok (pushOrdered x s) \<and> ordered_items (pushOrdered x s) = ordered_items s @ [x]" by simp
next
  fix s assume ok: "ring_ok s" and "ordered_items s \<noteq> []"
  then have c: "0 < rs_orderedCount s" by (simp add: ordered_items_def)
  then have "ordered_items (popOrdered s) = tl (ordered_items s)"
    using ring_pop [OF c, of "rs_ordered s" "rs_orderedHead s" no_event] ok
    by (simp add: ordered_items_def popOrdered_def ring_ok_def nextIndex_def)
  moreover have "((rs_orderedHead s + 1) mod 32 + (rs_orderedCount s - 1)) mod 32 =
      (rs_orderedHead s + rs_orderedCount s) mod 32"
    using c by (cases "rs_orderedCount s") (simp_all add: mod_simps)
  then have "ring_ok (popOrdered s)"
    using ok c by (auto simp: ring_ok_def popOrdered_def nextIndex_def)
  ultimately show "ring_ok (popOrdered s) \<and> ordered_items (popOrdered s) = tl (ordered_items s)" by simp
qed

section \<open>The invariant\<close>

text \<open>What is still to be acknowledged, oldest first.\<close>

definition pending :: "SessionReleaseState \<Rightarrow> SessionReleaseEvent list" where
  "pending s = ordered_items s @ (if lt_active (rs_terminal s) then [lt_event (rs_terminal s)] else [])"

definition fence_before :: "SessionReleaseEvent \<Rightarrow> SessionReleaseEvent \<Rightarrow> bool" where
  "fence_before e f = (ev_fenceRawOrdinal e \<le> ev_fenceRawOrdinal f \<and> ev_fenceSeqId e \<le> ev_fenceSeqId f)"

definition release_ok :: "SessionReleaseState \<Rightarrow> bool" where
  "release_ok s = (ring_ok s \<and> rs_nextOrdinal s \<noteq> 0 \<and>
     rs_acknowledgedOrdinal s < rs_nextOrdinal s \<and>
     map (unat \<circ> ev_ordinal) (pending s) = [unat (rs_acknowledgedOrdinal s) + 1..<unat (rs_nextOrdinal s)] \<and>
     sorted_wrt fence_before (pending s) \<and>
     (\<forall>e \<in> set (pending s). ev_fenceRawOrdinal e \<le> rs_lastFenceRawOrdinal s \<and>
        ev_fenceSeqId e \<le> rs_lastFenceSeqId s) \<and>
     (\<forall>e \<in> set (ordered_items s). ordinaryReason (ev_reason e)) \<and>
     (lt_active (rs_terminal s) \<longrightarrow> rs_terminalRequested s \<and> lt_generation (rs_terminal s) \<noteq> 0 \<and>
        terminalReason (ev_reason (lt_event (rs_terminal s))) \<and>
        ev_action (lt_event (rs_terminal s)) = ActSubmitSession) \<and>
     (rs_terminalRequested s \<longrightarrow> lt_active (rs_terminal s) \<or> ordered_items s = []))"

lemma release_okD:
  assumes "release_ok s"
  shows "ring_ok s" and "rs_nextOrdinal s \<noteq> 0" and "rs_acknowledgedOrdinal s < rs_nextOrdinal s"
    and "map (unat \<circ> ev_ordinal) (pending s) = [unat (rs_acknowledgedOrdinal s) + 1..<unat (rs_nextOrdinal s)]"
    and "sorted_wrt fence_before (pending s)"
    and "\<forall>e \<in> set (pending s). ev_fenceRawOrdinal e \<le> rs_lastFenceRawOrdinal s \<and>
        ev_fenceSeqId e \<le> rs_lastFenceSeqId s"
    and "\<forall>e \<in> set (ordered_items s). ordinaryReason (ev_reason e)"
    and "lt_active (rs_terminal s) \<Longrightarrow> rs_terminalRequested s \<and> lt_generation (rs_terminal s) \<noteq> 0 \<and>
        terminalReason (ev_reason (lt_event (rs_terminal s))) \<and>
        ev_action (lt_event (rs_terminal s)) = ActSubmitSession"
    and "rs_terminalRequested s \<Longrightarrow> lt_active (rs_terminal s) \<or> ordered_items s = []"
  using assms unfolding release_ok_def by blast+

lemma newReleaseState_ok: "release_ok newReleaseState"
  by (simp add: release_ok_def newReleaseState_def ring_ok_def pending_def ordered_items_def ring_items_def no_latch_def)

lemma pending_ordinal:
  assumes "release_ok s" and "e \<in> set (pending s)"
  shows "ev_ordinal e \<noteq> 0" and "ev_ordinal e < rs_nextOrdinal s" and "rs_acknowledgedOrdinal s < ev_ordinal e"
proof -
  have "unat (ev_ordinal e) \<in> set (map (unat \<circ> ev_ordinal) (pending s))" using assms(2) by force
  then have "unat (rs_acknowledgedOrdinal s) < unat (ev_ordinal e)" "unat (ev_ordinal e) < unat (rs_nextOrdinal s)"
    unfolding release_okD(4) [OF assms(1)] by simp_all
  then show "ev_ordinal e < rs_nextOrdinal s" "rs_acknowledgedOrdinal s < ev_ordinal e"
    by (simp_all add: word_less_nat_alt)
  then show "ev_ordinal e \<noteq> 0" by auto
qed

text \<open>The snapshot of the oldest pending event.\<close>

definition front :: "SessionReleaseState \<Rightarrow> SessionReleaseSnapshot option" where
  "front s = (if ordered_items s \<noteq> []
     then Some \<lparr>sn_origin = OrgOrdered, sn_event = hd (ordered_items s), sn_generation = 1\<rparr>
     else if lt_active (rs_terminal s) then Some (snapshotFor (rs_terminal s) OrgTerminal) else None)"

lemma peekNext_front:
  assumes "release_ok s"
  shows "peekNext s = front s"
proof -
  have empty: "orderedEmpty s \<longleftrightarrow> ordered_items s = []" by (simp add: orderedEmpty_def ordered_items_def)
  have hd: "ordered_items s \<noteq> [] \<Longrightarrow> rs_ordered s ! rs_orderedHead s = hd (ordered_items s)"
    using assms by (simp add: ordered_items_def release_ok_def ring_ok_def ring_items_hd)
  have ordinal: "ordered_items s \<noteq> [] \<Longrightarrow> ev_ordinal (hd (ordered_items s)) \<noteq> 0"
    using pending_ordinal(1) [OF assms] by (simp add: pending_def)
  have latch: "lt_active (rs_terminal s) \<Longrightarrow> ev_ordinal (lt_event (rs_terminal s)) \<noteq> 0 \<and> lt_generation (rs_terminal s) \<noteq> 0"
    using pending_ordinal(1) [OF assms] assms by (simp add: pending_def release_ok_def)
  have less: "ev_ordinal (hd (ordered_items s)) < ev_ordinal (lt_event (rs_terminal s))"
    if "ordered_items s \<noteq> []" "lt_active (rs_terminal s)"
  proof -
    have "sorted_wrt (<) (map (unat \<circ> ev_ordinal) (pending s))"
      using assms by (simp add: release_ok_def)
    then show ?thesis
      using that by (cases "ordered_items s") (auto simp: pending_def sorted_wrt_append word_less_nat_alt)
  qed
  show ?thesis
    using less ordinal latch less_asym
    by (auto 4 3 simp: peekNext_def front_def considerNext_def empty hd snapshotFor_def no_snapshot_def
        validSnapshot_def validEvent_def no_event_def)
qed

section \<open>The operations keep the invariant\<close>

lemma tryPostOrdered_result:
  assumes ok: "release_ok s" and r: "tryPostOrdered reason action raw seq s = (res, s')"
  shows "release_ok s' \<and>
    (if po_status res = PstPosted
     then \<exists>e. po_snapshot res = \<lparr>sn_origin = OrgOrdered, sn_event = e, sn_generation = 1\<rparr> \<and>
       ev_ordinal e = rs_nextOrdinal s \<and> ev_reason e = reason \<and> ev_action e = action \<and>
       ev_fenceRawOrdinal e = raw \<and> ev_fenceSeqId e = seq \<and> pending s' = pending s @ [e] \<and>
       rs_terminal s' = rs_terminal s \<and> rs_acknowledgedOrdinal s' = rs_acknowledgedOrdinal s
     else s' = s)"
proof (cases "po_status res = PstPosted")
  case False
  then have "s' = s"
    using r by (auto simp: tryPostOrdered_def postQueued_def allocateOrdinal_def refusedPost_def split: if_splits)
  then show ?thesis using ok False by simp
next
  case True
  let ?e = "\<lparr>ev_ordinal = rs_nextOrdinal s, ev_reason = reason, ev_action = action,
    ev_fenceRawOrdinal = raw, ev_fenceSeqId = seq\<rparr>"
  have c: "\<not> rs_terminalRequested s" "ordinaryReason reason" "\<not> orderedFull s" "rs_nextOrdinal s \<noteq> - 1"
    "rs_lastFenceRawOrdinal s \<le> raw" "rs_lastFenceSeqId s \<le> seq"
    using r True by (auto simp: tryPostOrdered_def postQueued_def allocateOrdinal_def refusedPost_def
        fenceNotBefore_def split: if_splits)
  have s': "s' = (pushOrdered ?e (s\<lparr>rs_nextOrdinal := rs_nextOrdinal s + 1\<rparr>))
      \<lparr>rs_lastFenceRawOrdinal := raw, rs_lastFenceSeqId := seq\<rparr>"
    and res: "po_snapshot res = \<lparr>sn_origin = OrgOrdered, sn_event = ?e, sn_generation = 1\<rparr>"
    using r c ok by (auto simp: tryPostOrdered_def postQueued_def allocateOrdinal_def fenceNotBefore_def release_ok_def)
  have nolatch: "\<not> lt_active (rs_terminal s)" using ok c(1) by (auto simp: release_ok_def)
  have ring: "ring_ok s" using ok by (simp add: release_ok_def)
  have items: "ordered_items s' = ordered_items s @ [?e]" and ring': "ring_ok s'"
    using ordered.push_law [OF ring c(3), of ?e]
    by (simp_all add: s' pushOrdered_def ordered_items_def ring_ok_def)
  have fields: "rs_terminal s' = rs_terminal s" "rs_nextOrdinal s' = rs_nextOrdinal s + 1"
    "rs_acknowledgedOrdinal s' = rs_acknowledgedOrdinal s" "rs_lastFenceRawOrdinal s' = raw"
    "rs_lastFenceSeqId s' = seq" "rs_terminalRequested s' = rs_terminalRequested s"
    by (simp_all add: s' pushOrdered_def)
  have pend: "pending s = ordered_items s" "pending s' = ordered_items s @ [?e]"
    using nolatch by (simp_all add: pending_def fields items)
  note D = release_okD [OF ok]
  have "map (unat \<circ> ev_ordinal) (ordered_items s @ [?e]) =
      [unat (rs_acknowledgedOrdinal s) + 1..<unat (rs_nextOrdinal s + 1)]"
    using D(3,4) unat_next(1) [OF c(4)] by (simp add: pend(1) word_less_nat_alt)
  moreover have "sorted_wrt fence_before (ordered_items s @ [?e])"
    using D(5,6) c(5,6) by (auto simp: pend(1) sorted_wrt_append fence_before_def)
  moreover have "\<forall>e \<in> set (ordered_items s @ [?e]). ev_fenceRawOrdinal e \<le> raw \<and> ev_fenceSeqId e \<le> seq"
    using D(6) c(5,6) by (auto simp: pend(1))
  moreover have "rs_acknowledgedOrdinal s < rs_nextOrdinal s + 1"
    using D(3) unat_next(1) [OF c(4)] by (simp add: word_less_nat_alt)
  ultimately have "release_ok s'"
    unfolding release_ok_def fields pend(2) items
    using ring' D(7) c(1,2) nolatch unat_next(2) [OF c(4)] by auto
  then show ?thesis using True res by (simp add: pend fields)
qed

lemma requestTerminal_result:
  assumes ok: "release_ok s" and r: "requestTerminal reason raw seq s = (res, s')"
  shows "release_ok s' \<and>
    (if po_status res = PstPosted then \<exists>e. pending s' = pending s @ [e] \<and> ev_ordinal e = rs_nextOrdinal s \<and>
       \<not> lt_active (rs_terminal s)
     else if po_status res = PstAdvanced then \<exists>e e'. pending s = ordered_items s @ [e] \<and>
       pending s' = ordered_items s @ [e'] \<and> ev_ordinal e' = ev_ordinal e
     else s' = s) \<and> rs_acknowledgedOrdinal s' = rs_acknowledgedOrdinal s \<and>
    (postAccepted res \<longrightarrow> rs_terminalRequested s')"
proof -
  note D = release_okD [OF ok]
  let ?raw = "max raw (rs_lastFenceRawOrdinal s)" and ?seq = "max seq (rs_lastFenceSeqId s)"
  have fence: "fenceNotBefore ?raw ?seq (rs_lastFenceRawOrdinal s) (rs_lastFenceSeqId s)"
    by (simp add: fenceNotBefore_def)
  show ?thesis
  proof (cases "postAccepted res")
    case False
    then have "s' = s" using r
      by (auto simp: requestTerminal_def postOrAdvanceLatch_def fence allocateOrdinal_def refusedPost_def
          postAccepted_def split: if_splits)
    then show ?thesis using ok False by (simp add: postAccepted_def)
  next
    case True
    then have t: "terminalReason reason" and nstop: "\<not> (rs_terminalRequested s \<and> \<not> lt_active (rs_terminal s))"
      using r by (auto simp: requestTerminal_def refusedPost_def postAccepted_def split: if_splits)
    show ?thesis
    proof (cases "lt_active (rs_terminal s)")
      case active: True
      then have gen: "lt_generation (rs_terminal s) \<noteq> - 1"
        using r True t by (auto simp: requestTerminal_def postOrAdvanceLatch_def fence refusedPost_def
            postAccepted_def split: if_splits)
      let ?e = "lt_event (rs_terminal s)"
      define e' where "e' = (let e = ?e\<lparr>ev_fenceRawOrdinal := max (ev_fenceRawOrdinal ?e) ?raw,
          ev_fenceSeqId := max (ev_fenceSeqId ?e) ?seq\<rparr>
        in if reason = RsnDeviceLoss then e\<lparr>ev_reason := reason\<rparr> else e)"
      have s': "s' = s\<lparr>rs_terminal := \<lparr>lt_event = e', lt_generation = lt_generation (rs_terminal s) + 1,
            lt_active = True\<rparr>, rs_lastFenceRawOrdinal := ?raw, rs_lastFenceSeqId := ?seq,
          rs_terminalRequested := True\<rparr>" and st: "po_status res = PstAdvanced"
        using r t active gen
        by (auto simp: requestTerminal_def postOrAdvanceLatch_def fence postAccepted_def e'_def split: if_splits)
      have e': "ev_ordinal e' = ev_ordinal ?e" "ev_fenceRawOrdinal e' = ?raw" "ev_fenceSeqId e' = ?seq"
        "terminalReason (ev_reason e')" "ev_action e' = ActSubmitSession"
      proof -
        have "ev_fenceRawOrdinal ?e \<le> rs_lastFenceRawOrdinal s" "ev_fenceSeqId ?e \<le> rs_lastFenceSeqId s"
          using D(6) active by (simp_all add: pending_def)
        then show "ev_ordinal e' = ev_ordinal ?e" "ev_fenceRawOrdinal e' = ?raw" "ev_fenceSeqId e' = ?seq"
          "terminalReason (ev_reason e')" "ev_action e' = ActSubmitSession"
          using D(8) [OF active] t by (auto simp: e'_def max_def terminalReason_def)
      qed
      have pend: "pending s = ordered_items s @ [?e]" "pending s' = ordered_items s @ [e']"
        using active by (simp_all add: pending_def s' ordered_items_def)
      have "release_ok s'"
        unfolding release_ok_def pend(2)
        using D active unat_next(2) [OF gen]
        by (auto simp: s' pend(1) e' ring_ok_def ordered_items_def sorted_wrt_append fence_before_def le_max_iff_disj)
      then show ?thesis using st pend e'(1) by (auto simp: s')
    next
      case inactive: False
      then have nreq: "\<not> rs_terminalRequested s" using nstop by blast
      have nextOrd: "rs_nextOrdinal s \<noteq> - 1"
        using r True t nreq inactive by (auto simp: requestTerminal_def postOrAdvanceLatch_def fence
            allocateOrdinal_def refusedPost_def postAccepted_def split: if_splits)
      let ?e = "\<lparr>ev_ordinal = rs_nextOrdinal s, ev_reason = reason, ev_action = ActSubmitSession,
        ev_fenceRawOrdinal = ?raw, ev_fenceSeqId = ?seq\<rparr>"
      have s': "s' = s\<lparr>rs_nextOrdinal := rs_nextOrdinal s + 1,
          rs_terminal := \<lparr>lt_event = ?e, lt_generation = 1, lt_active = True\<rparr>,
          rs_lastFenceRawOrdinal := ?raw, rs_lastFenceSeqId := ?seq, rs_terminalRequested := True\<rparr>"
        and st: "po_status res = PstPosted"
        using r t nreq inactive nextOrd D(2)
        by (auto simp: requestTerminal_def postOrAdvanceLatch_def fence allocateOrdinal_def postAccepted_def)
      have pend: "pending s = ordered_items s" "pending s' = ordered_items s @ [?e]"
        using inactive by (simp_all add: pending_def s' ordered_items_def)
      have "map (unat \<circ> ev_ordinal) (ordered_items s @ [?e]) =
          [unat (rs_acknowledgedOrdinal s) + 1..<unat (rs_nextOrdinal s + 1)]"
        using D(3,4) unat_next(1) [OF nextOrd] by (simp add: pend(1) word_less_nat_alt)
      moreover have "rs_acknowledgedOrdinal s < rs_nextOrdinal s + 1"
        using D(3) unat_next(1) [OF nextOrd] by (simp add: word_less_nat_alt)
      ultimately have "release_ok s'"
        unfolding release_ok_def pend(2)
        using D t unat_next(2) [OF nextOrd]
        by (auto simp: s' pend(1) ring_ok_def ordered_items_def sorted_wrt_append fence_before_def le_max_iff_disj)
      then show ?thesis using st pend inactive by (auto simp: s')
    qed
  qed
qed

lemma front_pending:
  assumes "front s = Some snap"
  shows "pending s \<noteq> [] \<and> sn_event snap = hd (pending s)"
  using assms by (auto simp: front_def pending_def snapshotFor_def split: if_splits)

lemma acknowledge_result:
  assumes ok: "release_ok s" and r: "acknowledge snap completion raw seq s = (res, s')"
  shows "release_ok s' \<and>
    (res = AckAcknowledged \<longleftrightarrow> front s = Some snap \<and> sessionReleaseFenceCovered (sn_event snap) raw seq \<and>
      sessionReleaseCompletionSatisfies (ev_action (sn_event snap)) completion) \<and>
    (res = AckAcknowledged \<longrightarrow> pending s' = tl (pending s) \<and>
      rs_acknowledgedOrdinal s' = ev_ordinal (sn_event snap)) \<and>
    (res \<noteq> AckAcknowledged \<longrightarrow> s' = s)"
proof -
  note D = release_okD [OF ok]
  have valid: "validSnapshot snap" if "front s = Some snap"
  proof -
    have "ev_ordinal (sn_event snap) \<noteq> 0"
      using front_pending [OF that] pending_ordinal(1) [OF ok] by simp
    moreover have "sn_generation snap \<noteq> 0" using that D(8) by (auto simp: front_def snapshotFor_def split: if_splits)
    ultimately show ?thesis by (simp add: validSnapshot_def validEvent_def)
  qed
  have iff: "res = AckAcknowledged \<longleftrightarrow> front s = Some snap \<and> sessionReleaseFenceCovered (sn_event snap) raw seq \<and>
      sessionReleaseCompletionSatisfies (ev_action (sn_event snap)) completion"
    using r valid by (auto simp: acknowledge_def peekNext_front [OF ok] split: if_splits option.splits)
  show ?thesis
  proof (cases "res = AckAcknowledged")
    case False
    then have "s' = s" using r
      by (auto simp: acknowledge_def split: if_splits option.splits)
    then show ?thesis using ok iff False by simp
  next
    case True
    then have f: "front s = Some snap" using iff by blast
    have s': "s' = (case sn_origin snap of OrgOrdered \<Rightarrow> popOrdered s | OrgTerminal \<Rightarrow> s\<lparr>rs_terminal := no_latch\<rparr>)
        \<lparr>rs_acknowledgedOrdinal := ev_ordinal (sn_event snap)\<rparr>"
      using r True f by (auto simp: acknowledge_def peekNext_front [OF ok] split: if_splits)
    obtain e es where pend: "pending s = e # es" "sn_event snap = e"
      using front_pending [OF f] by (cases "pending s") auto
    have "pending s' = es \<and> ring_ok s' \<and> set (ordered_items s') \<subseteq> set (ordered_items s) \<and>
        (rs_terminal s' = rs_terminal s \<and> ordered_items s \<noteq> [] \<or>
         \<not> lt_active (rs_terminal s') \<and> ordered_items s' = [])"
    proof (cases "ordered_items s")
      case Nil
      then have o: "sn_origin snap = OrgTerminal" "lt_active (rs_terminal s)"
        using f by (auto simp: front_def snapshotFor_def split: if_splits)
      have "ordered_items s' = ordered_items s" "\<not> lt_active (rs_terminal s')" "ring_ok s'"
        using o D(1) by (simp_all add: s' ordered_items_def no_latch_def ring_ok_def)
      then show ?thesis using Nil pend o by (auto simp: pending_def)
    next
      case (Cons x xs)
      then have o: "sn_origin snap = OrgOrdered" using f by (auto simp: front_def)
      have P: "ring_ok (popOrdered s)" "ordered_items (popOrdered s) = xs"
        using ordered.pop_law [OF D(1)] Cons by simp_all
      have S: "ordered_items s' = xs" "rs_terminal s' = rs_terminal s" "ring_ok s'"
        using P by (simp_all add: s' o ordered_items_def ring_ok_def popOrdered_def)
      then show ?thesis using Cons pend by (auto simp: pending_def)
    qed
    then have pend': "pending s' = es" and ring': "ring_ok s'"
      and sub: "set (ordered_items s') \<subseteq> set (ordered_items s)"
      and latch: "rs_terminal s' = rs_terminal s \<and> ordered_items s \<noteq> [] \<or>
        \<not> lt_active (rs_terminal s') \<and> ordered_items s' = []" by blast+
    have ord: "unat (ev_ordinal e) = Suc (unat (rs_acknowledgedOrdinal s))"
      "map (unat \<circ> ev_ordinal) es = [Suc (unat (ev_ordinal e))..<unat (rs_nextOrdinal s)]"
      using D(4) [symmetric] unfolding pend(1) by (auto simp: upt_eq_Cons_conv)
    have fields: "rs_nextOrdinal s' = rs_nextOrdinal s" "rs_acknowledgedOrdinal s' = ev_ordinal e"
      "rs_lastFenceRawOrdinal s' = rs_lastFenceRawOrdinal s" "rs_lastFenceSeqId s' = rs_lastFenceSeqId s"
      "rs_terminalRequested s' = rs_terminalRequested s"
      by (auto simp: s' popOrdered_def pend(2) split: SessionReleaseOrigin.splits)
    have "release_ok s'"
      unfolding release_ok_def fields pend'
      using D(2,5,6,7,8,9) ring' ord sub latch pending_ordinal(2) [OF ok, of e]
      by (auto simp: pend(1) split: if_splits)
    then show ?thesis using iff True pend pend' fields by simp
  qed
qed

section \<open>Runs\<close>

text \<open>
  The transport together with the ordinals handed out by successful posts and the ordinals of the
  successful acknowledgements, in order. Every call may fail; a failed call leaves the logs alone.
\<close>

inductive release_run :: "u64 list \<Rightarrow> u64 list \<Rightarrow> SessionReleaseState \<Rightarrow> bool" where
  start: "release_run [] [] newReleaseState"
| post: "release_run posted acked s \<Longrightarrow> tryPostOrdered reason action raw seq s = (res, s') \<Longrightarrow>
    release_run (posted @ (if po_status res = PstPosted then [ev_ordinal (sn_event (po_snapshot res))] else []))
      acked s'"
| terminate: "release_run posted acked s \<Longrightarrow> requestTerminal reason raw seq s = (res, s') \<Longrightarrow>
    release_run (posted @ (if po_status res = PstPosted then [ev_ordinal (sn_event (po_snapshot res))] else []))
      acked s'"
| acknowledge: "release_run posted acked s \<Longrightarrow> acknowledge snap completion raw seq s = (res, s') \<Longrightarrow>
    release_run posted (acked @ (if res = AckAcknowledged then [ev_ordinal (sn_event snap)] else [])) s'"

lemma posted_terminal_snapshot:
  assumes "requestTerminal reason raw seq s = (res, s')" and "po_status res = PstPosted" and "rs_nextOrdinal s \<noteq> 0"
  shows "ev_ordinal (sn_event (po_snapshot res)) = rs_nextOrdinal s"
  using assms by (auto simp: requestTerminal_def postOrAdvanceLatch_def allocateOrdinal_def refusedPost_def
      snapshotFor_def fenceNotBefore_def split: if_splits)

lemma upt_snoc: "xs @ [x] = [a..<b] \<Longrightarrow> b = Suc x"
  by (cases b) (auto split: if_splits)

lemma release_run_facts:
  "release_run posted acked s \<Longrightarrow> release_ok s \<and> posted = acked @ map ev_ordinal (pending s) \<and>
     map unat posted = [1..<unat (rs_nextOrdinal s)]"
proof (induction rule: release_run.induct)
  case start
  show ?case
    using newReleaseState_ok by (simp add: pending_def newReleaseState_def ordered_items_def ring_items_def no_latch_def)
next
  case (post posted acked s reason action raw seq res s')
  then have ok: "release_ok s" and p: "posted = acked @ map ev_ordinal (pending s)"
    and m: "map unat posted = [1..<unat (rs_nextOrdinal s)]" by blast+
  note T = tryPostOrdered_result [OF ok post(2)] and T' = release_okD [OF ok]
  show ?case
  proof (cases "po_status res = PstPosted")
    case True
    then obtain e where e: "sn_event (po_snapshot res) = e" "ev_ordinal e = rs_nextOrdinal s"
      "pending s' = pending s @ [e]" "rs_acknowledgedOrdinal s' = rs_acknowledgedOrdinal s"
      using T by auto
    have "map (unat \<circ> ev_ordinal) (pending s') = [unat (rs_acknowledgedOrdinal s) + 1..<unat (rs_nextOrdinal s')]"
      using release_okD(4) [of s'] T e(4) by simp
    then have "unat (rs_nextOrdinal s') = Suc (unat (rs_nextOrdinal s))"
      using e(2,3) by (auto dest: upt_snoc)
    moreover have "1 \<le> unat (rs_nextOrdinal s)" using T'(2) by (simp add: unat_pos Suc_le_eq)
    ultimately show ?thesis using p m True T e by simp
  next
    case False
    then show ?thesis using p m ok T by simp
  qed
next
  case (terminate posted acked s reason raw seq res s')
  then have ok: "release_ok s" and p: "posted = acked @ map ev_ordinal (pending s)"
    and m: "map unat posted = [1..<unat (rs_nextOrdinal s)]" by blast+
  note T = requestTerminal_result [OF ok terminate(2)] and T' = release_okD [OF ok]
  show ?case
  proof (cases "po_status res = PstPosted")
    case True
    then obtain e where e: "pending s' = pending s @ [e]" "ev_ordinal e = rs_nextOrdinal s" using T by auto
    have "map (unat \<circ> ev_ordinal) (pending s') = [unat (rs_acknowledgedOrdinal s) + 1..<unat (rs_nextOrdinal s')]"
      using release_okD(4) [of s'] T by simp
    then have "unat (rs_nextOrdinal s') = Suc (unat (rs_nextOrdinal s))"
      using e by (auto dest: upt_snoc)
    moreover have "1 \<le> unat (rs_nextOrdinal s)" using T'(2) by (simp add: unat_pos Suc_le_eq)
    ultimately show ?thesis
      using p m True T e posted_terminal_snapshot [OF terminate(2) True T'(2)] by simp
  next
    case False
    have same: "map ev_ordinal (pending s') = map ev_ordinal (pending s)" using T False by (auto split: if_splits)
    then have "map (unat \<circ> ev_ordinal) (pending s') = map (unat \<circ> ev_ordinal) (pending s)"
      by (metis map_map)
    moreover have "rs_nextOrdinal s' = rs_nextOrdinal s"
      using terminate(2) False by (auto simp: requestTerminal_def postOrAdvanceLatch_def allocateOrdinal_def
          refusedPost_def split: if_splits)
    ultimately show ?thesis using p m False T same by simp
  qed
next
  case (acknowledge posted acked s snap completion raw seq res s')
  then have ok: "release_ok s" and p: "posted = acked @ map ev_ordinal (pending s)"
    and m: "map unat posted = [1..<unat (rs_nextOrdinal s)]" by blast+
  note A = acknowledge_result [OF ok acknowledge(2)]
  show ?case
  proof (cases "res = AckAcknowledged")
    case True
    then have "pending s \<noteq> []" "sn_event snap = hd (pending s)" "pending s' = tl (pending s)"
      using A front_pending by blast+
    moreover have "rs_nextOrdinal s' = rs_nextOrdinal s"
      using acknowledge(2) by (auto simp: acknowledge_def popOrdered_def split: if_splits option.splits SessionReleaseOrigin.splits)
    ultimately show ?thesis using p m A True by (cases "pending s") auto
  next
    case False
    then show ?thesis using ok p m A by simp
  qed
qed

section \<open>The properties\<close>

text \<open>
  C26: releases are acknowledged exactly once and in the order they were posted. In every run of the
  transport from its initial state, the acknowledged ordinals are a prefix of the posted ones, those are
  1, 2, 3 and so on, at most 33 are outstanding, and the next event offered is the oldest one that
  has been posted and not acknowledged; nothing is offered only when everything is acknowledged.
\<close>

theorem releases_exactly_once:
  assumes "release_run posted acked s"
  shows "acked = take (length acked) posted \<and> map unat posted = [1..<length posted + 1] \<and>
    length posted \<le> length acked + 33 \<and>
    (case peekNext s of None \<Rightarrow> acked = posted \<and> \<not> hasPending s
     | Some snap \<Rightarrow> length acked < length posted \<and> ev_ordinal (sn_event snap) = posted ! length acked \<and> hasPending s)"
proof -
  note F = release_run_facts [OF assms]
  then have ok: "release_ok s" and p: "posted = acked @ map ev_ordinal (pending s)"
    and n: "map unat posted = [1..<unat (rs_nextOrdinal s)]" by blast+
  have "length posted = unat (rs_nextOrdinal s) - 1" using n by (metis length_map length_upt)
  moreover have "unat (rs_nextOrdinal s) \<noteq> 0" using release_okD(2) [OF ok] by (simp add: unat_pos)
  ultimately have m: "map unat posted = [1..<length posted + 1]" using n by simp
  have c: "length (pending s) \<le> 33"
    using release_okD(1) [OF ok] by (simp add: pending_def ordered_items_def ring_ok_def)
  have hp: "hasPending s \<longleftrightarrow> pending s \<noteq> []"
    by (simp add: hasPending_def orderedEmpty_def pending_def ordered_items_def)
  have "front s = None \<longleftrightarrow> pending s = []" by (simp add: front_def pending_def)
  moreover have "front s = Some snap \<Longrightarrow> ev_ordinal (sn_event snap) = posted ! length acked" for snap
    using front_pending [of s snap] p by (simp add: nth_append hd_conv_nth)
  ultimately show ?thesis
    using p m c hp by (auto simp: peekNext_front [OF ok] split: option.splits)
qed

definition first_post :: "SessionReleasePostResult \<times> SessionReleaseState" where
  "first_post = tryPostOrdered RsnPresent ActSubmitSession 3 2 newReleaseState"

lemma first_run: "release_run [1] [] (snd first_post)"
proof -
  have e: "po_status (fst first_post) = PstPosted" "ev_ordinal (sn_event (po_snapshot (fst first_post))) = 1"
    by code_simp+
  have "release_run ([] @ (if po_status (fst first_post) = PstPosted
      then [ev_ordinal (sn_event (po_snapshot (fst first_post)))] else [])) [] (snd first_post)"
    by (rule release_run.post [OF release_run.start]) (simp add: first_post_def)
  then show ?thesis by (simp add: e)
qed

theorem releases_exactly_once_witness:
  "release_run [1] [] (snd first_post) \<and> length [1 :: u64] \<le> length ([] :: u64 list) + 33 \<and>
   peekNext (snd first_post) = Some (po_snapshot (fst first_post)) \<and>
   ev_ordinal (sn_event (po_snapshot (fst first_post))) = [1] ! 0 \<and> hasPending (snd first_post)"
proof -
  have "peekNext (snd first_post) = Some (po_snapshot (fst first_post))" by code_simp
  then show ?thesis using releases_exactly_once [OF first_run] first_run by simp
qed

text \<open>Acknowledging whatever is offered, at most \<open>n\<close> times, with full coverage.\<close>

fun drain :: "nat \<Rightarrow> SessionReleaseState \<Rightarrow> SessionReleaseState" where
  "drain 0 s = s"
| "drain (Suc n) s = (case peekNext s of None \<Rightarrow> s
     | Some snap \<Rightarrow> drain n (snd (acknowledge snap CplSessionSubmitted (- 1) (- 1) s)))"

lemma full_coverage_acknowledges:
  assumes ok: "release_ok s" and f: "front s = Some snap"
  shows "fst (acknowledge snap CplSessionSubmitted (- 1) (- 1) s) = AckAcknowledged"
proof -
  obtain res s' where r: "acknowledge snap CplSessionSubmitted (- 1) (- 1) s = (res, s')" by force
  have "ev_ordinal (sn_event snap) \<noteq> 0"
    using front_pending [OF f] pending_ordinal(1) [OF ok] by simp
  then have "sessionReleaseFenceCovered (sn_event snap) (- 1) (- 1)"
    by (simp add: sessionReleaseFenceCovered_def validEvent_def)
  moreover have "sessionReleaseCompletionSatisfies (ev_action (sn_event snap)) CplSessionSubmitted"
    by (cases "ev_action (sn_event snap)") simp_all
  ultimately show ?thesis using acknowledge_result [OF ok r] f r by simp
qed

lemma drain_run:
  "release_run posted acked s \<Longrightarrow> length (pending s) \<le> n \<Longrightarrow>
    \<exists>acked'. release_run posted acked' (drain n s) \<and> pending (drain n s) = []"
proof (induction n arbitrary: acked s)
  case 0
  then show ?case by auto
next
  case (Suc n)
  have ok: "release_ok s" using release_run_facts [OF Suc.prems(1)] by blast
  show ?case
  proof (cases "front s")
    case None
    then have "pending s = []" by (simp add: front_def pending_def split: if_splits)
    then show ?thesis using Suc.prems(1) None by (auto simp: peekNext_front [OF ok])
  next
    case (Some snap)
    obtain res s' where r: "acknowledge snap CplSessionSubmitted (- 1) (- 1) s = (res, s')" by force
    then have a: "res = AckAcknowledged" using full_coverage_acknowledges [OF ok Some] by simp
    have "pending s' = tl (pending s)" using acknowledge_result [OF ok r] a by blast
    then have "length (pending s') \<le> n" using Suc.prems(2) by simp
    moreover have "release_run posted (acked @ [ev_ordinal (sn_event snap)]) s'"
      using release_run.acknowledge [OF Suc.prems(1) r] a by simp
    ultimately show ?thesis using Suc.IH by (auto simp: peekNext_front [OF ok] Some r)
  qed
qed

text \<open>
  An acknowledgement succeeds exactly when it names the very snapshot the transport offers (same
  origin, ordinal, generation and fences), the coverage reaches the fences of the event and the reported
  completion satisfies its action. Every other acknowledgement leaves the transport as it was.
\<close>

theorem acknowledge_exact:
  assumes "release_run posted acked s"
  shows "(fst (acknowledge snap completion raw seq s) = AckAcknowledged \<longleftrightarrow>
      peekNext s = Some snap \<and> sessionReleaseFenceCovered (sn_event snap) raw seq \<and>
      sessionReleaseCompletionSatisfies (ev_action (sn_event snap)) completion) \<and>
    (fst (acknowledge snap completion raw seq s) \<noteq> AckAcknowledged \<longrightarrow> snd (acknowledge snap completion raw seq s) = s)"
proof -
  have ok: "release_ok s" using release_run_facts [OF assms] by blast
  obtain res s' where "acknowledge snap completion raw seq s = (res, s')" by force
  with acknowledge_result [OF ok this] show ?thesis by (simp add: peekNext_front [OF ok])
qed

theorem acknowledge_exact_witness:
  "fst (acknowledge no_snapshot CplSessionSubmitted 9 9 newReleaseState) \<noteq> AckAcknowledged \<and>
   snd (acknowledge no_snapshot CplSessionSubmitted 9 9 newReleaseState) = newReleaseState"
proof -
  have "peekNext newReleaseState = None" by code_simp
  then show ?thesis using acknowledge_exact [OF release_run.start] by (metis option.distinct(1))
qed

text \<open>
  The terminal request cannot be lost. With a terminal reason it is never refused as full or
  invalid; it is stopped only when an earlier terminal request has been acknowledged and nothing is
  pending. Once one is accepted, no ordered post is accepted any more, and its fences cover every
  fence posted before, so that whoever completes it has completed everything.
\<close>

theorem terminal_request_sticky:
  assumes "release_run posted acked s" and "terminalReason reason"
    and "requestTerminal reason raw seq s = (res, s')"
  shows "po_status res \<notin> {PstFull, PstInvalid} \<and>
    (po_status res = PstStopped \<longrightarrow> \<not> hasPending s) \<and>
    (postAccepted res \<longrightarrow>
      (\<forall>r a raw' seq'. tryPostOrdered r a raw' seq' s' = (refusedPost PstStopped, s')) \<and>
      sn_origin (po_snapshot res) = OrgTerminal \<and>
      rs_lastFenceRawOrdinal s \<le> ev_fenceRawOrdinal (sn_event (po_snapshot res)) \<and>
      rs_lastFenceSeqId s \<le> ev_fenceSeqId (sn_event (po_snapshot res)))"
proof -
  have ok: "release_ok s" using release_run_facts [OF assms(1)] by blast
  note D = release_okD [OF ok] and T = requestTerminal_result [OF ok assms(3)]
  have fence: "fenceNotBefore (max raw (rs_lastFenceRawOrdinal s)) (max seq (rs_lastFenceSeqId s))
      (rs_lastFenceRawOrdinal s) (rs_lastFenceSeqId s)" by (simp add: fenceNotBefore_def)
  have "po_status res \<notin> {PstFull, PstInvalid}"
    using assms(2,3) by (auto simp: requestTerminal_def postOrAdvanceLatch_def fence allocateOrdinal_def
        refusedPost_def split: if_splits)
  moreover have "\<not> hasPending s" if "po_status res = PstStopped"
  proof -
    have "rs_terminalRequested s \<and> \<not> lt_active (rs_terminal s)"
      using that assms(2,3) by (auto simp: requestTerminal_def postOrAdvanceLatch_def fence allocateOrdinal_def
          refusedPost_def split: if_splits)
    then show ?thesis using D(9) by (auto simp: hasPending_def orderedEmpty_def ordered_items_def)
  qed
  moreover have "tryPostOrdered r a raw' seq' s' = (refusedPost PstStopped, s')" if "postAccepted res" for r a raw' seq'
    using T that by (simp add: tryPostOrdered_def)
  moreover have "sn_origin (po_snapshot res) = OrgTerminal \<and>
      rs_lastFenceRawOrdinal s \<le> ev_fenceRawOrdinal (sn_event (po_snapshot res)) \<and>
      rs_lastFenceSeqId s \<le> ev_fenceSeqId (sn_event (po_snapshot res))" if "postAccepted res"
    using that assms(2,3) by (auto simp: requestTerminal_def postOrAdvanceLatch_def fence allocateOrdinal_def
        refusedPost_def postAccepted_def snapshotFor_def le_max_iff_disj split: if_splits)
  ultimately show ?thesis by blast
qed

theorem terminal_request_sticky_witness:
  "tryPostOrdered RsnPresent ActSubmitSession 5 5 (snd (requestTerminal RsnShutdown 0 0 (snd first_post))) =
     (refusedPost PstStopped, snd (requestTerminal RsnShutdown 0 0 (snd first_post)))"
proof -
  obtain res s' where r: "requestTerminal RsnShutdown 0 0 (snd first_post) = (res, s')" by force
  have "postAccepted (fst (requestTerminal RsnShutdown 0 0 (snd first_post)))" by code_simp
  then show ?thesis
    using terminal_request_sticky [OF first_run _ r] by (simp add: r terminalReason_def)
qed

text \<open>
  The transport always drains. From every reachable state, acknowledging the offered events one
  after the other with sufficient coverage and a submitted session empties it in at most 33
  steps, and then every posted event has been acknowledged.
\<close>

theorem releases_drain:
  assumes "release_run posted acked s"
  shows "\<not> hasPending (drain 33 s) \<and> peekNext (drain 33 s) = None \<and> release_run posted posted (drain 33 s)"
proof -
  have ok: "release_ok s" using release_run_facts [OF assms] by blast
  have "length (pending s) \<le> 33"
    using release_okD(1) [OF ok] by (simp add: pending_def ordered_items_def ring_ok_def)
  then obtain acked' where d: "release_run posted acked' (drain 33 s)" "pending (drain 33 s) = []"
    using drain_run [OF assms] by blast
  note F = release_run_facts [OF d(1)]
  then have e: "acked' = posted" and ok': "release_ok (drain 33 s)" using d(2) by simp_all
  have none: "front (drain 33 s) = None" using d(2) by (simp add: front_def pending_def split: if_splits)
  have "\<not> hasPending (drain 33 s)"
    using d(2) by (simp add: hasPending_def orderedEmpty_def pending_def ordered_items_def split: if_splits)
  then show ?thesis using d(1) none unfolding peekNext_front [OF ok'] e by blast
qed

theorem releases_drain_witness:
  "hasPending (snd first_post) \<and> \<not> hasPending (drain 33 (snd first_post))"
proof -
  have "hasPending (snd first_post)" by code_simp
  then show ?thesis using releases_drain [OF first_run] by blast
qed

end
