(* ===== verification/Q_Closed_Prefix.thy ===== *)
theory Q_Closed_Prefix
  imports Q_Release_Correct
begin

text \<open>
  The closed-prefix authority (\<^verbatim>\<open>dxmt9_closed_prefix.hpp\<close>): a receipt that the encoder has closed its
  pass, under which the next release of the same kind may be acknowledged without asking the
  encoder again. It sits on the release transport: it never changes what the transport does, and
  a receipt never outlives a mutation of the encoder.
\<close>

section \<open>The code\<close>

record ClosedPrefixContext =
  cx_queue :: u64
  cx_epoch :: u64
  cx_encoderWorkGeneration :: u64
  cx_publishedSequence :: u64
  cx_encoderQuiescent :: bool
  cx_stopped :: bool

definition validContext :: "ClosedPrefixContext \<Rightarrow> bool" where
  "validContext c = (cx_queue c \<noteq> 0 \<and> cx_epoch c \<noteq> 0 \<and> cx_encoderWorkGeneration c \<noteq> 0 \<and>
     cx_encoderQuiescent c \<and> \<not> cx_stopped c)"

datatype ClosedPrefixOutcome = CpNoActivePass | CpClosed | CpInvalid

record ClosedPrefixWitness =
  cw_context :: ClosedPrefixContext
  cw_acknowledged :: SessionReleaseEvent

definition eligible :: "SessionReleaseSnapshot \<Rightarrow> bool" where
  "eligible snapshot = (validSnapshot snapshot \<and> sn_origin snapshot = OrgOrdered \<and>
     sn_generation snapshot = 1 \<and> ev_reason (sn_event snapshot) = RsnDirectObservation \<and>
     ev_action (sn_event snapshot) = ActClosePass)"

definition acknowledgeAndCertify ::
  "SessionReleaseState \<Rightarrow> SessionReleaseSnapshot \<Rightarrow> ClosedPrefixContext \<Rightarrow> ClosedPrefixOutcome \<Rightarrow>
   u64 \<Rightarrow> u64 \<Rightarrow> ClosedPrefixWitness option \<times> SessionReleaseState" where
  "acknowledgeAndCertify transport acknowledged context outcome coveredRawOrdinal coveredSequence =
     (if \<not> validContext context \<or> \<not> eligible acknowledged \<or>
         (outcome \<noteq> CpClosed \<and> outcome \<noteq> CpNoActivePass) \<or>
         rs_terminalRequested transport \<or> rs_orderedCount transport \<noteq> 1 \<or>
         peekNext transport \<noteq> Some acknowledged \<or>
         cx_publishedSequence context \<noteq> coveredSequence \<or>
         ev_fenceSeqId (sn_event acknowledged) \<noteq> coveredSequence
      then (None, transport)
      else case acknowledge acknowledged CplPassClosed coveredRawOrdinal coveredSequence transport of
             (result, transport') \<Rightarrow>
               if result \<noteq> AckAcknowledged then (None, transport')
               else (Some \<lparr>cw_context = context, cw_acknowledged = sn_event acknowledged\<rparr>, transport'))"

definition permits ::
  "ClosedPrefixWitness \<Rightarrow> SessionReleaseState \<Rightarrow> SessionReleaseSnapshot \<Rightarrow> ClosedPrefixContext \<Rightarrow>
   SessionReleaseWriter \<Rightarrow> bool \<Rightarrow> bool" where
  "permits w transport next context writer rangesEnabled =
     (let own = cw_context w; acked = cw_acknowledged w; event = sn_event next in
      validContext context \<and> cx_queue context = cx_queue own \<and> cx_epoch context = cx_epoch own \<and>
      cx_encoderWorkGeneration context = cx_encoderWorkGeneration own \<and>
      cx_publishedSequence context = cx_publishedSequence own \<and>
      retainWriterForSessionRelease writer rangesEnabled (ev_reason event) (ev_action event) \<and>
      eligible next \<and> \<not> rs_terminalRequested transport \<and> rs_orderedCount transport = 1 \<and>
      peekNext transport = Some next \<and> rs_acknowledgedOrdinal transport = ev_ordinal acked \<and>
      ev_ordinal event > ev_ordinal acked \<and> ev_ordinal event - ev_ordinal acked = 1 \<and>
      ev_fenceRawOrdinal event \<ge> ev_fenceRawOrdinal acked \<and>
      ev_fenceSeqId event = cx_publishedSequence own)"

record ClosedPrefixCoordinator =
  cc_context :: ClosedPrefixContext
  cc_witness :: "ClosedPrefixWitness option"

definition newCoordinator :: "u64 \<Rightarrow> ClosedPrefixCoordinator" where
  "newCoordinator queue = \<lparr>cc_context = \<lparr>cx_queue = queue, cx_epoch = 1, cx_encoderWorkGeneration = 1,
     cx_publishedSequence = 0, cx_encoderQuiescent = False, cx_stopped = False\<rparr>, cc_witness = None\<rparr>"

definition beginMutation :: "ClosedPrefixCoordinator \<Rightarrow> ClosedPrefixCoordinator" where
  "beginMutation c =
     (let x = (cc_context c)\<lparr>cx_encoderQuiescent := False\<rparr>;
          x = (if cx_encoderWorkGeneration x = - 1 then x\<lparr>cx_stopped := True\<rparr>
               else x\<lparr>cx_encoderWorkGeneration := cx_encoderWorkGeneration x + 1\<rparr>)
      in \<lparr>cc_context = x, cc_witness = None\<rparr>)"

definition stopCoordinator :: "ClosedPrefixCoordinator \<Rightarrow> ClosedPrefixCoordinator" where
  "stopCoordinator c =
     (let c = beginMutation c; x = (cc_context c)\<lparr>cx_stopped := True\<rparr>;
          x = (if cx_epoch x \<noteq> - 1 then x\<lparr>cx_epoch := cx_epoch x + 1\<rparr> else x)
      in c\<lparr>cc_context := x\<rparr>)"

definition acknowledgeClose ::
  "ClosedPrefixCoordinator \<Rightarrow> SessionReleaseState \<Rightarrow> SessionReleaseSnapshot \<Rightarrow> ClosedPrefixOutcome \<Rightarrow>
   u64 \<Rightarrow> u64 \<Rightarrow> u64 \<Rightarrow> SessionReleaseAckResult \<times> ClosedPrefixCoordinator \<times> SessionReleaseState" where
  "acknowledgeClose c transport snapshot outcome rawCoverage sequenceCoverage publishedSequence =
     (let x = (cc_context c)\<lparr>cx_publishedSequence := publishedSequence,
                 cx_encoderQuiescent := \<not> cx_stopped (cc_context c)\<rparr>;
          (w, transport) = acknowledgeAndCertify transport snapshot x outcome rawCoverage sequenceCoverage
      in if w \<noteq> None then (AckAcknowledged, \<lparr>cc_context = x, cc_witness = w\<rparr>, transport)
         else let x = x\<lparr>cx_encoderQuiescent := False\<rparr>;
                  (result, transport) = acknowledge snapshot CplPassClosed rawCoverage sequenceCoverage transport
              in (result, \<lparr>cc_context = x, cc_witness = w\<rparr>, transport))"

definition hasReceiptFor :: "ClosedPrefixCoordinator \<Rightarrow> u64 \<Rightarrow> bool" where
  "hasReceiptFor c publishedSequence = (cc_witness c \<noteq> None \<and> validContext (cc_context c) \<and>
     cx_publishedSequence (cc_context c) = publishedSequence)"

definition tryAcknowledgeReuse ::
  "ClosedPrefixCoordinator \<Rightarrow> SessionReleaseState \<Rightarrow> SessionReleaseSnapshot \<Rightarrow> SessionReleaseWriter \<Rightarrow>
   bool \<Rightarrow> u64 \<Rightarrow> u64 \<Rightarrow> bool \<Rightarrow> u64 \<Rightarrow>
   bool \<times> ClosedPrefixCoordinator \<times> SessionReleaseState \<times> u64" where
  "tryAcknowledgeReuse c transport snapshot writer rangesEnabled publishedSequence sequenceCoverage
     contextSideEffectsAbsent rawCoverage =
     (case cc_witness c of None \<Rightarrow> (False, c, transport, rawCoverage)
      | Some w \<Rightarrow>
        if \<not> contextSideEffectsAbsent \<or> publishedSequence \<noteq> cx_publishedSequence (cc_context c) \<or>
           sequenceCoverage \<noteq> cx_publishedSequence (cc_context c) \<or>
           \<not> permits w transport snapshot (cc_context c) writer rangesEnabled
        then (False, c, transport, rawCoverage)
        else let nextRawCoverage = max rawCoverage (ev_fenceRawOrdinal (sn_event snapshot));
                 (renewed, transport) = acknowledgeAndCertify transport snapshot (cc_context c)
                   CpNoActivePass nextRawCoverage sequenceCoverage
             in if renewed = None then (False, c, transport, rawCoverage)
                else (True, c\<lparr>cc_witness := renewed\<rparr>, transport, nextRawCoverage))"

section \<open>Certification and the transport\<close>

lemma acknowledge_refused:
  "fst (acknowledge snap completion raw seq s) \<noteq> AckAcknowledged \<Longrightarrow>
    acknowledge snap completion raw seq s = (fst (acknowledge snap completion raw seq s), s)"
  by (auto simp: acknowledge_def split: if_splits option.splits)

lemma certify_cases:
  obtains "acknowledgeAndCertify s snap x outcome raw seq = (None, s)"
  | s' where "acknowledgeAndCertify s snap x outcome raw seq =
      (Some \<lparr>cw_context = x, cw_acknowledged = sn_event snap\<rparr>, s')"
    "acknowledge snap CplPassClosed raw seq s = (AckAcknowledged, s')"
    "validContext x" "eligible snap" "peekNext s = Some snap" "rs_orderedCount s = 1"
    "\<not> rs_terminalRequested s" "outcome \<noteq> CpInvalid"
    "cx_publishedSequence x = seq" "ev_fenceSeqId (sn_event snap) = seq"
proof -
  let ?refused = "\<not> validContext x \<or> \<not> eligible snap \<or> (outcome \<noteq> CpClosed \<and> outcome \<noteq> CpNoActivePass) \<or>
    rs_terminalRequested s \<or> rs_orderedCount s \<noteq> 1 \<or> peekNext s \<noteq> Some snap \<or>
    cx_publishedSequence x \<noteq> seq \<or> ev_fenceSeqId (sn_event snap) \<noteq> seq"
  obtain res s' where r: "acknowledge snap CplPassClosed raw seq s = (res, s')" by force
  have same: "res \<noteq> AckAcknowledged \<Longrightarrow> s' = s" using acknowledge_refused [of snap CplPassClosed raw seq s] r by simp
  show thesis
  proof (cases "?refused \<or> res \<noteq> AckAcknowledged")
    case True
    then have "acknowledgeAndCertify s snap x outcome raw seq = (None, s)"
      using r same unfolding acknowledgeAndCertify_def by auto
    then show thesis by (rule that(1))
  next
    case False
    then have g: "\<not> ?refused" and a: "res = AckAcknowledged" by blast+
    have "acknowledgeAndCertify s snap x outcome raw seq =
        (Some \<lparr>cw_context = x, cw_acknowledged = sn_event snap\<rparr>, s')"
      unfolding acknowledgeAndCertify_def if_not_P [OF g] by (simp add: r a)
    then show thesis using that(2) r a g by auto
  qed
qed

section \<open>Runs\<close>

text \<open>Anything the queue may do with the transport on its own.\<close>

inductive transport_step :: "SessionReleaseState \<Rightarrow> SessionReleaseState \<Rightarrow> bool" where
  "transport_step s (snd (tryPostOrdered reason action raw seq s))"
| "transport_step s (snd (requestTerminal reason raw seq s))"
| "transport_step s (snd (acknowledge snap completion raw seq s))"

text \<open>
  The coordinator with the truth about the encoder: \<open>quiet\<close> says that the encoder has reported its pass
  closed and has not been touched since, \<open>halted\<close> that the coordinator has been stopped.
\<close>

inductive prefix_run ::
  "bool \<Rightarrow> bool \<Rightarrow> ClosedPrefixCoordinator \<Rightarrow> SessionReleaseState \<Rightarrow> bool" where
  start: "prefix_run False False (newCoordinator queue) newReleaseState"
| transport: "prefix_run quiet halted c s \<Longrightarrow> transport_step s s' \<Longrightarrow> prefix_run quiet halted c s'"
| mutate: "prefix_run quiet halted c s \<Longrightarrow> prefix_run False halted (beginMutation c) s"
| stop: "prefix_run quiet halted c s \<Longrightarrow> prefix_run False True (stopCoordinator c) s"
| close: "prefix_run quiet halted c s \<Longrightarrow> acknowledgeClose c s snap outcome raw seq published = (res, c', s') \<Longrightarrow>
    prefix_run (outcome \<noteq> CpInvalid) halted c' s'"
| reuse: "prefix_run quiet halted c s \<Longrightarrow>
    tryAcknowledgeReuse c s snap wr ranges published seq sideEffectsAbsent raw = (accepted, c', s', raw') \<Longrightarrow>
    prefix_run quiet halted c' s'"

definition receipt_ok :: "bool \<Rightarrow> bool \<Rightarrow> ClosedPrefixCoordinator \<Rightarrow> bool" where
  "receipt_ok quiet halted c = ((halted \<longrightarrow> cx_stopped (cc_context c)) \<and>
     (\<forall>w. cc_witness c = Some w \<longrightarrow> quiet \<and> cw_context w = cc_context c \<and> validContext (cc_context c)))"

text \<open>What a reuse does, in both outcomes.\<close>

lemma reuse_cases:
  assumes "tryAcknowledgeReuse c s snap wr ranges published seq absent raw = (accepted, c', s', raw')"
  obtains "\<not> accepted" "c' = c" "s' = s" "raw' = raw"
  | w where "accepted" "cc_witness c = Some w" "absent" "permits w s snap (cc_context c) wr ranges"
    "raw' = max raw (ev_fenceRawOrdinal (sn_event snap))"
    "acknowledge snap CplPassClosed raw' seq s = (AckAcknowledged, s')"
    "c' = c\<lparr>cc_witness := Some \<lparr>cw_context = cc_context c, cw_acknowledged = sn_event snap\<rparr>\<rparr>"
proof -
  let ?raw = "max raw (ev_fenceRawOrdinal (sn_event snap))"
  show thesis
  proof (cases rule: certify_cases [of s snap "cc_context c" CpNoActivePass ?raw seq])
    case 1
    then have "\<not> accepted \<and> c' = c \<and> s' = s \<and> raw' = raw"
      using assms by (auto simp: tryAcknowledgeReuse_def split: option.splits if_splits)
    then show thesis using that(1) by blast
  next
    case (2 t)
    show thesis
    proof (cases accepted)
      case True
      then obtain w where "cc_witness c = Some w" "absent" "permits w s snap (cc_context c) wr ranges"
        "raw' = ?raw" "s' = t"
        "c' = c\<lparr>cc_witness := Some \<lparr>cw_context = cc_context c, cw_acknowledged = sn_event snap\<rparr>\<rparr>"
        using assms 2(1) by (auto simp: tryAcknowledgeReuse_def split: option.splits if_splits)
      then show thesis using that(2) True 2(2) by blast
    next
      case False
      then have "c' = c \<and> s' = s \<and> raw' = raw"
        using assms 2(1) by (auto simp: tryAcknowledgeReuse_def split: option.splits if_splits)
      then show thesis using that(1) False by blast
    qed
  qed
qed

lemma close_cases:
  assumes "acknowledgeClose c s snap outcome raw seq published = (res, c', s')"
  shows "acknowledge snap CplPassClosed raw seq s = (res, s') \<and>
    cx_stopped (cc_context c') = cx_stopped (cc_context c) \<and>
    (\<forall>w. cc_witness c' = Some w \<longrightarrow> res = AckAcknowledged \<and> outcome \<noteq> CpInvalid \<and>
      cw_context w = cc_context c' \<and> validContext (cc_context c'))"
proof -
  let ?x = "(cc_context c)\<lparr>cx_publishedSequence := published, cx_encoderQuiescent := \<not> cx_stopped (cc_context c)\<rparr>"
  show ?thesis
  proof (cases rule: certify_cases [of s snap ?x outcome raw seq])
    case 1
    obtain r0 s0 where a: "acknowledge snap CplPassClosed raw seq s = (r0, s0)" by force
    have "acknowledgeClose c s snap outcome raw seq published =
        (r0, \<lparr>cc_context = ?x\<lparr>cx_encoderQuiescent := False\<rparr>, cc_witness = None\<rparr>, s0)"
      by (simp add: acknowledgeClose_def 1 a)
    with assms have "r0 = res" "s0 = s'" "c' = \<lparr>cc_context = ?x\<lparr>cx_encoderQuiescent := False\<rparr>, cc_witness = None\<rparr>"
      by simp_all
    then show ?thesis using a by simp
  next
    case (2 t)
    have "acknowledgeClose c s snap outcome raw seq published = (AckAcknowledged, \<lparr>cc_context = ?x,
        cc_witness = Some \<lparr>cw_context = ?x, cw_acknowledged = sn_event snap\<rparr>\<rparr>, t)"
      by (simp add: acknowledgeClose_def 2(1))
    with assms have "res = AckAcknowledged" "s' = t"
      "c' = \<lparr>cc_context = ?x, cc_witness = Some \<lparr>cw_context = ?x, cw_acknowledged = sn_event snap\<rparr>\<rparr>"
      by simp_all
    then show ?thesis using 2(2,3,8) by simp
  qed
qed

lemma prefix_run_receipt: "prefix_run quiet halted c s \<Longrightarrow> receipt_ok quiet halted c"
proof (induction rule: prefix_run.induct)
  case (start queue)
  show ?case by (simp add: receipt_ok_def newCoordinator_def)
next
  case (mutate quiet halted c s)
  then show ?case by (simp add: receipt_ok_def beginMutation_def)
next
  case (stop quiet halted c s)
  define d where "d = beginMutation c"
  have "cc_witness d = None" by (simp add: d_def beginMutation_def)
  moreover have "stopCoordinator c = d\<lparr>cc_context := (let x = (cc_context d)\<lparr>cx_stopped := True\<rparr>
      in if cx_epoch x \<noteq> - 1 then x\<lparr>cx_epoch := cx_epoch x + 1\<rparr> else x)\<rparr>"
    unfolding stopCoordinator_def d_def Let_def ..
  moreover have "cx_stopped (let x = y\<lparr>cx_stopped := True\<rparr>
      in if cx_epoch x \<noteq> - 1 then x\<lparr>cx_epoch := cx_epoch x + 1\<rparr> else x)" for y by simp
  ultimately show ?case unfolding receipt_ok_def by simp
next
  case (close quiet halted c s snap outcome raw seq published res c' s')
  then show ?case using close_cases [OF close(2)] unfolding receipt_ok_def by metis
next
  case (reuse quiet halted c s snap wr ranges published seq absent raw accepted c' s' raw')
  from reuse(2) show ?case
  proof (cases rule: reuse_cases)
    case 1
    then show ?thesis using reuse(3) by simp
  next
    case (2 w)
    have "quiet" "validContext (cc_context c)" "halted \<longrightarrow> cx_stopped (cc_context c)"
      using reuse(3) 2(2) unfolding receipt_ok_def by blast+
    then show ?thesis unfolding receipt_ok_def 2(7) by simp
  qed
qed

section \<open>The properties\<close>

text \<open>
  C27: a receipt never outlives the closed pass. In every run of the coordinator with its transport, when a
  release is acknowledged by reuse, the encoder has reported its pass closed and has not been
  mutated or stopped since, the caller vouched for the absence of side effects, and the release
  acknowledged is the one the transport offers, a direct observation that only closes the pass,
  and the immediate successor of the last acknowledged ordinal.
\<close>

theorem closed_prefix_reuse_safe:
  assumes "prefix_run quiet halted c s"
    and "tryAcknowledgeReuse c s snap wr ranges published seq absent raw = (True, c', s', raw')"
  shows "quiet \<and> \<not> halted \<and> absent \<and> peekNext s = Some snap \<and>
    ev_reason (sn_event snap) = RsnDirectObservation \<and> ev_action (sn_event snap) = ActClosePass \<and>
    ev_ordinal (sn_event snap) = rs_acknowledgedOrdinal s + 1 \<and>
    acknowledge snap CplPassClosed raw' seq s = (AckAcknowledged, s') \<and>
    raw' = max raw (ev_fenceRawOrdinal (sn_event snap))"
  using assms(2)
proof (cases rule: reuse_cases)
  case (2 w)
  have R: "quiet" "validContext (cc_context c)" "halted \<longrightarrow> cx_stopped (cc_context c)"
    using prefix_run_receipt [OF assms(1)] 2(2) by (auto simp: receipt_ok_def)
  then have "\<not> halted" by (auto simp: validContext_def)
  moreover have "eligible snap" "peekNext s = Some snap" "rs_acknowledgedOrdinal s = ev_ordinal (cw_acknowledged w)"
    "ev_ordinal (sn_event snap) - ev_ordinal (cw_acknowledged w) = 1"
    using 2(4) by (auto simp: permits_def)
  moreover from this have "ev_ordinal (sn_event snap) = rs_acknowledgedOrdinal s + 1"
    by (metis add.commute diff_add_cancel)
  ultimately show ?thesis using R(1) 2 by (simp add: eligible_def)
qed simp

definition close_snapshot :: "u64 \<Rightarrow> u64 \<Rightarrow> SessionReleaseSnapshot" where
  "close_snapshot ordinal raw = \<lparr>sn_origin = OrgOrdered, sn_event = \<lparr>ev_ordinal = ordinal,
     ev_reason = RsnDirectObservation, ev_action = ActClosePass, ev_fenceRawOrdinal = raw, ev_fenceSeqId = 5\<rparr>,
     sn_generation = 1\<rparr>"

definition posted_state :: "u64 \<Rightarrow> SessionReleaseState \<Rightarrow> SessionReleaseState" where
  "posted_state raw s = snd (tryPostOrdered RsnDirectObservation ActClosePass raw 5 s)"

definition closed_once :: "SessionReleaseAckResult \<times> ClosedPrefixCoordinator \<times> SessionReleaseState" where
  "closed_once = acknowledgeClose (newCoordinator 7) (posted_state 1 newReleaseState) (close_snapshot 1 1) CpClosed 1 5 5"

definition reused_once :: "bool \<times> ClosedPrefixCoordinator \<times> SessionReleaseState \<times> u64" where
  "reused_once = tryAcknowledgeReuse (fst (snd closed_once)) (posted_state 2 (snd (snd closed_once)))
     (close_snapshot 2 2) WrRetainQueryRange True 5 5 True 1"

theorem closed_prefix_reuse_safe_witness:
  "fst reused_once \<and>
   ev_ordinal (sn_event (close_snapshot 2 2)) = rs_acknowledgedOrdinal (posted_state 2 (snd (snd closed_once))) + 1"
proof -
  obtain r1 c1 s1 where o: "closed_once = (r1, c1, s1)" by (cases closed_once) auto
  obtain b c2 s2 raw2 where u: "reused_once = (b, c2, s2, raw2)" by (cases reused_once) auto
  have accepted: "fst reused_once" by code_simp
  have "prefix_run False False (newCoordinator 7) (posted_state 1 newReleaseState)"
    unfolding posted_state_def by (rule prefix_run.transport [OF prefix_run.start transport_step.intros(1)])
  then have "prefix_run (CpClosed \<noteq> CpInvalid) False c1 s1"
    by (rule prefix_run.close) (use o in \<open>simp add: closed_once_def\<close>)
  then have "prefix_run (CpClosed \<noteq> CpInvalid) False c1 (posted_state 2 s1)"
    unfolding posted_state_def by (rule prefix_run.transport [OF _ transport_step.intros(1)])
  note safe = closed_prefix_reuse_safe [OF this, of "close_snapshot 2 2" WrRetainQueryRange True 5 5 True 1 c2 s2 raw2]
  have e: "fst (snd closed_once) = c1" "snd (snd closed_once) = s1" by (simp_all add: o)
  have "tryAcknowledgeReuse c1 (posted_state 2 s1) (close_snapshot 2 2) WrRetainQueryRange True 5 5 True 1 =
      (True, c2, s2, raw2)" using accepted u by (simp add: reused_once_def e)
  from safe [OF this] show ?thesis using accepted by (simp add: e)
qed

text \<open>
  The receipt machinery is invisible to the transport. Acknowledging a close through the coordinator
  returns the same answer and leaves the same transport as the plain acknowledgement, whether or not a
  receipt is issued; a refused reuse changes neither the coordinator nor the transport nor the
  coverage, so that the ordinary release path can follow.
\<close>

theorem closed_prefix_transparent:
  "(case acknowledgeClose c s snap outcome raw seq published of
      (res, c', s') \<Rightarrow> (res, s') = acknowledge snap CplPassClosed raw seq s) \<and>
   (case tryAcknowledgeReuse c s snap wr ranges published' seq' absent raw of
      (accepted, c', s', raw') \<Rightarrow> if accepted
        then acknowledge snap CplPassClosed raw' seq' s = (AckAcknowledged, s')
        else (c', s', raw') = (c, s, raw))"
proof -
  obtain res c1 s1 where one: "acknowledgeClose c s snap outcome raw seq published = (res, c1, s1)"
    by (cases "acknowledgeClose c s snap outcome raw seq published") auto
  obtain b c2 s2 raw2 where two: "tryAcknowledgeReuse c s snap wr ranges published' seq' absent raw = (b, c2, s2, raw2)"
    by (cases "tryAcknowledgeReuse c s snap wr ranges published' seq' absent raw") auto
  have "if b then acknowledge snap CplPassClosed raw2 seq' s = (AckAcknowledged, s2) else (c2, s2, raw2) = (c, s, raw)"
    using two by (cases rule: reuse_cases) simp_all
  then show ?thesis using close_cases [OF one] by (simp add: one two)
qed

end
