(* ===== verification/Q_Direct_Ledger.thy ===== *)
theory Q_Direct_Ledger
  imports Dx_Words
begin

text \<open>
  The reducer that follows every admitted Direct source from its admission to the reclamation of
  its storage (\<^verbatim>\<open>dxmt9_direct_source_lifecycle.hpp\<close>). The state is an array of 256 rows, of which the first
  \<^verbatim>\<open>recordCount\<close> are in use, and three frontiers (imported, published, reclaimed); a reference to a row
  is an index, and an operation that may refuse returns the state it leaves with the error.
\<close>

section \<open>Phases, actions, errors\<close>

datatype DirectSourcePhase =
    PhEmpty | PhRawOwned | PhPlanned | PhAdmitted | PhEffected | PhReceiptOwned | PhPublished
  | PhEncoded | PhCompleted | PhDetached | PhRestored | PhPoisonAbandoned | PhReclaimed | PhFailStopped

datatype DirectSourceAction =
    DaImportRaw | DaPlan | DaAdmitWitness | DaEffectCut | DaDestinationReceipt | DaPublish | DaEncode
  | DaComplete | DaDetach | DaRestore | DaPoisonAbandon | DaRollbackPreEffect | DaReclaim | DaFailStop

datatype DirectSourceControlMode = CmOrdinary | CmSeparator | CmOrderedControl

datatype DirectSourceCreditKind = CkQualitative | CkRetainedBytes

datatype DirectSourceLifecycleError =
    LeNone | LeInvalidIdentity | LeBoundedOverflow | LeStaleOrDuplicateWitness | LeInvalidTransition
  | LeSourceReordered | LeDuplicateEmission | LeFallbackAfterEffect | LeCompletionRequired
  | LeCreditMismatch | LeMissingRestore | LePartialAdoption

section \<open>Identities, events, rows\<close>

record DirectSourceIdentity =
  di_rawOrdinal :: u64
  di_spanOrdinal :: u32
  di_sourceOrdinal :: u64
  di_seqId :: u64
  di_sourceGeneration :: u64
  di_storageGeneration :: u64
  di_destinationSlot :: u32
  di_sourceIndex :: u32
  di_firstPage :: u32
  di_pageCount :: u32

abbreviation no_index :: u32 where
  "no_index \<equiv> 0xFFFFFFFF"

definition validDirectIdentity :: "DirectSourceIdentity \<Rightarrow> bool" where
  "validDirectIdentity i = (di_rawOrdinal i \<noteq> 0 \<and> di_sourceOrdinal i \<noteq> 0 \<and> di_seqId i \<noteq> 0 \<and>
     di_sourceGeneration i \<noteq> 0 \<and> di_storageGeneration i \<noteq> 0 \<and>
     di_destinationSlot i \<noteq> no_index \<and> di_sourceIndex i \<noteq> no_index \<and> di_firstPage i \<noteq> no_index \<and>
     di_pageCount i \<noteq> 0)"

definition no_identity :: DirectSourceIdentity where
  "no_identity = \<lparr>di_rawOrdinal = 0, di_spanOrdinal = 0, di_sourceOrdinal = 0, di_seqId = 0,
     di_sourceGeneration = 0, di_storageGeneration = 0, di_destinationSlot = no_index,
     di_sourceIndex = no_index, di_firstPage = no_index, di_pageCount = 0\<rparr>"

record DirectSourceLifecycleEvent =
  de_identity :: DirectSourceIdentity
  de_action :: DirectSourceAction
  de_controlMode :: DirectSourceControlMode
  de_creditKind :: DirectSourceCreditKind
  de_schemaRevision :: u32
  de_witnessGeneration :: u64
  de_retainedCredit :: u64
  de_stagedCredit :: u64
  de_detachedCredit :: u64
  de_physicalCreditOwner :: bool
  de_hasPresent :: bool
  de_partialAdoption :: bool

record DirectSourceLifecycleRecord =
  dr_identity :: DirectSourceIdentity
  dr_phase :: DirectSourcePhase
  dr_controlMode :: DirectSourceControlMode
  dr_creditKind :: DirectSourceCreditKind
  dr_schemaRevision :: u32
  dr_witnessGeneration :: u64
  dr_retainedCredit :: u64
  dr_stagedCredit :: u64
  dr_detachedCredit :: u64
  dr_aggregateCredit :: u64
  dr_physicalCreditOwner :: bool
  dr_transitionCount :: u32
  dr_publicationCount :: u32
  dr_hasPresent :: bool
  dr_effectStarted :: bool
  dr_witnessConsumed :: bool
  dr_completed :: bool
  dr_poisoned :: bool

definition empty_row :: DirectSourceLifecycleRecord where
  "empty_row = \<lparr>dr_identity = no_identity, dr_phase = PhEmpty, dr_controlMode = CmOrdinary,
     dr_creditKind = CkQualitative, dr_schemaRevision = 0, dr_witnessGeneration = 0,
     dr_retainedCredit = 0, dr_stagedCredit = 0, dr_detachedCredit = 0, dr_aggregateCredit = 0,
     dr_physicalCreditOwner = False, dr_transitionCount = 0, dr_publicationCount = 0,
     dr_hasPresent = False, dr_effectStarted = False, dr_witnessConsumed = False,
     dr_completed = False, dr_poisoned = False\<rparr>"

abbreviation kMaxObservedDirectSources :: nat where
  "kMaxObservedDirectSources \<equiv> 256"

record DirectSourceLifecycleState =
  dl_records :: "DirectSourceLifecycleRecord list"
  dl_recordCount :: nat
  dl_lastImportedRawOrdinal :: u64
  dl_lastImportedSpanOrdinal :: u32
  dl_lastImportedSourceOrdinal :: u64
  dl_lastPublishedRawOrdinal :: u64
  dl_lastPublishedSpanOrdinal :: u32
  dl_lastPublishedSourceOrdinal :: u64
  dl_lastReclaimedRawOrdinal :: u64
  dl_lastReclaimedSpanOrdinal :: u32
  dl_lastReclaimedSourceOrdinal :: u64

definition newLifecycleState :: DirectSourceLifecycleState where
  "newLifecycleState = \<lparr>dl_records = replicate kMaxObservedDirectSources empty_row, dl_recordCount = 0,
     dl_lastImportedRawOrdinal = 0, dl_lastImportedSpanOrdinal = 0, dl_lastImportedSourceOrdinal = 0,
     dl_lastPublishedRawOrdinal = 0, dl_lastPublishedSpanOrdinal = 0, dl_lastPublishedSourceOrdinal = 0,
     dl_lastReclaimedRawOrdinal = 0, dl_lastReclaimedSpanOrdinal = 0, dl_lastReclaimedSourceOrdinal = 0\<rparr>"

text \<open>The rows in use: the range the loops of the code scan.\<close>

definition rows :: "DirectSourceLifecycleState \<Rightarrow> DirectSourceLifecycleRecord list" where
  "rows s = take (dl_recordCount s) (dl_records s)"

section \<open>The helpers of the reducer\<close>

fun scanSource :: "DirectSourceIdentity \<Rightarrow> DirectSourceLifecycleRecord list \<Rightarrow> nat \<Rightarrow> nat option" where
  "scanSource i [] k = None"
| "scanSource i (r # rs) k = (if dr_identity r = i then Some k else scanSource i rs (k + 1))"

definition findDirectSource :: "DirectSourceLifecycleState \<Rightarrow> DirectSourceIdentity \<Rightarrow> nat option" where
  "findDirectSource s i = scanSource i (rows s) 0"

definition directCreditConserved :: "DirectSourceLifecycleRecord \<Rightarrow> bool" where
  "directCreditConserved r =
     (dr_retainedCredit r \<le> - 1 - dr_stagedCredit r \<and>
      dr_retainedCredit r + dr_stagedCredit r \<le> - 1 - dr_detachedCredit r \<and>
      dr_retainedCredit r + dr_stagedCredit r + dr_detachedCredit r = dr_aggregateCredit r)"

definition directPhysicalCreditKeyEqual :: "DirectSourceIdentity \<Rightarrow> DirectSourceIdentity \<Rightarrow> bool" where
  "directPhysicalCreditKeyEqual lhs rhs =
     (di_seqId lhs = di_seqId rhs \<and> di_sourceGeneration lhs = di_sourceGeneration rhs \<and>
      di_storageGeneration lhs = di_storageGeneration rhs \<and>
      di_destinationSlot lhs = di_destinationSlot rhs \<and> di_sourceIndex lhs = di_sourceIndex rhs \<and>
      di_firstPage lhs = di_firstPage rhs \<and> di_pageCount lhs = di_pageCount rhs)"

definition directEventCreditValid :: "DirectSourceLifecycleEvent \<Rightarrow> bool" where
  "directEventCreditValid e =
     (de_retainedCredit e \<le> - 1 - de_stagedCredit e \<and>
      de_retainedCredit e + de_stagedCredit e \<le> - 1 - de_detachedCredit e)"

definition directLogicalOrdinalAfter :: "u64 \<Rightarrow> u32 \<Rightarrow> u64 \<Rightarrow> u64 \<Rightarrow> u32 \<Rightarrow> u64 \<Rightarrow> bool" where
  "directLogicalOrdinalAfter raw span source priorRaw priorSpan priorSource =
     (if priorRaw = 0 then raw \<noteq> 0 \<and> span = 0 \<and> source \<noteq> 0
      else if raw = priorRaw then priorSpan \<noteq> - 1 \<and> span = priorSpan + 1 \<and> source \<ge> priorSource
      else raw > priorRaw \<and> span = 0 \<and> source \<ge> priorSource)"

text \<open>The three uses of that test, against the imported, published and reclaimed frontier.\<close>

definition afterImported :: "DirectSourceLifecycleState \<Rightarrow> DirectSourceIdentity \<Rightarrow> bool" where
  "afterImported s i = directLogicalOrdinalAfter (di_rawOrdinal i) (di_spanOrdinal i) (di_sourceOrdinal i)
     (dl_lastImportedRawOrdinal s) (dl_lastImportedSpanOrdinal s) (dl_lastImportedSourceOrdinal s)"

definition afterPublished :: "DirectSourceLifecycleState \<Rightarrow> DirectSourceIdentity \<Rightarrow> bool" where
  "afterPublished s i = directLogicalOrdinalAfter (di_rawOrdinal i) (di_spanOrdinal i) (di_sourceOrdinal i)
     (dl_lastPublishedRawOrdinal s) (dl_lastPublishedSpanOrdinal s) (dl_lastPublishedSourceOrdinal s)"

definition afterReclaimed :: "DirectSourceLifecycleState \<Rightarrow> DirectSourceIdentity \<Rightarrow> bool" where
  "afterReclaimed s i = directLogicalOrdinalAfter (di_rawOrdinal i) (di_spanOrdinal i) (di_sourceOrdinal i)
     (dl_lastReclaimedRawOrdinal s) (dl_lastReclaimedSpanOrdinal s) (dl_lastReclaimedSourceOrdinal s)"

definition carriesCredit :: "DirectSourceLifecycleEvent \<Rightarrow> bool" where
  "carriesCredit e = (de_retainedCredit e \<noteq> 0 \<or> de_stagedCredit e \<noteq> 0 \<or> de_detachedCredit e \<noteq> 0)"

section \<open>Opening a row\<close>

text \<open>
  The row at the end of the ledger takes the event's identity, modes and credit; what the code does
  not assign keeps the value the slot had.
\<close>

definition openRow :: "DirectSourceLifecycleState \<Rightarrow> DirectSourceLifecycleEvent \<Rightarrow> DirectSourcePhase \<Rightarrow>
    DirectSourceLifecycleRecord" where
  "openRow s e phase =
     (dl_records s ! dl_recordCount s)\<lparr>dr_identity := de_identity e, dr_phase := phase,
        dr_controlMode := de_controlMode e, dr_creditKind := de_creditKind e,
        dr_schemaRevision := de_schemaRevision e, dr_retainedCredit := de_retainedCredit e,
        dr_stagedCredit := de_stagedCredit e, dr_detachedCredit := de_detachedCredit e,
        dr_aggregateCredit := de_retainedCredit e + de_stagedCredit e + de_detachedCredit e,
        dr_physicalCreditOwner := de_physicalCreditOwner e, dr_hasPresent := de_hasPresent e,
        dr_transitionCount := 1\<rparr>"

definition appendRow :: "DirectSourceLifecycleState \<Rightarrow> DirectSourceIdentity \<Rightarrow> DirectSourceLifecycleRecord \<Rightarrow>
    DirectSourceLifecycleState" where
  "appendRow s i r = s\<lparr>dl_records := (dl_records s)[dl_recordCount s := r],
     dl_recordCount := dl_recordCount s + 1, dl_lastImportedRawOrdinal := di_rawOrdinal i,
     dl_lastImportedSpanOrdinal := di_spanOrdinal i, dl_lastImportedSourceOrdinal := di_sourceOrdinal i\<rparr>"

text \<open>The loop over the earlier rows at an admission: \<open>None\<close> is its early return.\<close>

fun admitOwnerScan :: "DirectSourceLifecycleEvent \<Rightarrow> DirectSourceLifecycleRecord list \<Rightarrow> bool \<Rightarrow> bool option" where
  "admitOwnerScan e [] found = Some found"
| "admitOwnerScan e (prior # rs) found =
     (if \<not> directPhysicalCreditKeyEqual (dr_identity prior) (de_identity e) then admitOwnerScan e rs found
      else if de_physicalCreditOwner e \<and> dr_physicalCreditOwner prior then None
      else admitOwnerScan e rs (found \<or> dr_physicalCreditOwner prior))"

definition admitNew :: "DirectSourceLifecycleState \<Rightarrow> DirectSourceLifecycleEvent \<Rightarrow>
    DirectSourceLifecycleState \<times> DirectSourceLifecycleError" where
  "admitNew s e =
     (if de_witnessGeneration e = 0 \<or> dl_recordCount s = length (dl_records s)
      then (s, if de_witnessGeneration e = 0 then LeStaleOrDuplicateWitness else LeBoundedOverflow)
      else if \<not> afterImported s (de_identity e) then (s, LeSourceReordered)
      else if \<not> de_physicalCreditOwner e \<and> carriesCredit e then (s, LeCreditMismatch)
      else case admitOwnerScan e (rows s) False of
        None \<Rightarrow> (s, LeDuplicateEmission)
      | Some physicalOwnerFound \<Rightarrow>
          if \<not> de_physicalCreditOwner e \<and> \<not> physicalOwnerFound then (s, LeInvalidIdentity)
          else let r = (openRow s e PhAdmitted)\<lparr>dr_witnessGeneration := de_witnessGeneration e\<rparr>
               in (appendRow s (de_identity e) r,
                   if directCreditConserved r then LeNone else LeCreditMismatch))"

definition priorOwner :: "DirectSourceLifecycleState \<Rightarrow> DirectSourceIdentity \<Rightarrow> bool" where
  "priorOwner s i = list_ex (\<lambda>prior. dr_physicalCreditOwner prior \<and>
     directPhysicalCreditKeyEqual (dr_identity prior) i) (rows s)"

definition importRaw :: "DirectSourceLifecycleState \<Rightarrow> DirectSourceLifecycleEvent \<Rightarrow>
    DirectSourceLifecycleState \<times> DirectSourceLifecycleError" where
  "importRaw s e =
     (if \<not> afterImported s (de_identity e) then (s, LeSourceReordered)
      else if dl_recordCount s = length (dl_records s) then (s, LeBoundedOverflow)
      else if \<not> de_physicalCreditOwner e \<and> carriesCredit e then (s, LeCreditMismatch)
      else if de_physicalCreditOwner e \<and> priorOwner s (de_identity e) then (s, LeDuplicateEmission)
      else if \<not> de_physicalCreditOwner e \<and> \<not> priorOwner s (de_identity e) then (s, LeInvalidIdentity)
      else (appendRow s (de_identity e) (openRow s e PhRawOwned), LeNone))"

section \<open>Advancing a row\<close>

definition requireCredit :: "DirectSourceLifecycleRecord \<Rightarrow> DirectSourceLifecycleEvent \<Rightarrow> bool" where
  "requireCredit r e = (dr_retainedCredit r = de_retainedCredit e \<and>
     dr_stagedCredit r = de_stagedCredit e \<and> dr_detachedCredit r = de_detachedCredit e)"

definition creditReturned :: "DirectSourceLifecycleRecord \<Rightarrow> DirectSourceLifecycleEvent \<Rightarrow> bool" where
  "creditReturned r e = (de_detachedCredit e = 0 \<and> de_stagedCredit e = 0 \<and>
     (if dr_physicalCreditOwner r then de_retainedCredit e = dr_aggregateCredit r
      else de_retainedCredit e = 0))"

definition creditDetached :: "DirectSourceLifecycleRecord \<Rightarrow> DirectSourceLifecycleEvent \<Rightarrow> bool" where
  "creditDetached r e = (de_stagedCredit e = 0 \<and>
     (if dr_physicalCreditOwner r
      then de_detachedCredit e \<noteq> 0 \<and> de_retainedCredit e + de_detachedCredit e = dr_aggregateCredit r
      else de_retainedCredit e = 0 \<and> de_detachedCredit e = 0))"

text \<open>
  The switch over the action: the error of its early return, or the row with its new phase. The two
  actions that also move a frontier, and the two that open and remove rows, are treated below.
\<close>

definition stepRow :: "DirectSourceLifecycleState \<Rightarrow> DirectSourceLifecycleRecord \<Rightarrow>
    DirectSourceLifecycleEvent \<Rightarrow> DirectSourceLifecycleError + DirectSourceLifecycleRecord" where
  "stepRow s r e = (case de_action e of
     DaPlan \<Rightarrow>
       if dr_phase r \<noteq> PhRawOwned \<or> \<not> requireCredit r e then Inl LeInvalidTransition
       else Inr (r\<lparr>dr_phase := PhPlanned\<rparr>)
   | DaAdmitWitness \<Rightarrow>
       if dr_phase r \<noteq> PhPlanned \<or> de_witnessGeneration e = 0 \<or> dr_witnessGeneration r \<noteq> 0
       then Inl LeStaleOrDuplicateWitness
       else if \<not> requireCredit r e then Inl LeCreditMismatch
       else Inr (r\<lparr>dr_witnessGeneration := de_witnessGeneration e, dr_phase := PhAdmitted\<rparr>)
   | DaEffectCut \<Rightarrow>
       if dr_phase r \<noteq> PhAdmitted \<or> de_witnessGeneration e \<noteq> dr_witnessGeneration r \<or> dr_witnessConsumed r
       then Inl LeStaleOrDuplicateWitness
       else if \<not> requireCredit r e then Inl LeCreditMismatch
       else Inr (r\<lparr>dr_witnessConsumed := True, dr_effectStarted := True, dr_phase := PhEffected\<rparr>)
   | DaDestinationReceipt \<Rightarrow>
       if dr_phase r \<noteq> PhEffected \<or> \<not> requireCredit r e then Inl LeInvalidTransition
       else Inr (r\<lparr>dr_phase := PhReceiptOwned\<rparr>)
   | DaPublish \<Rightarrow>
       if dr_phase r \<noteq> PhReceiptOwned \<or> \<not> requireCredit r e \<or> \<not> afterPublished s (de_identity e)
       then Inl (if \<not> afterPublished s (de_identity e) then LeSourceReordered else LeInvalidTransition)
       else Inr (r\<lparr>dr_hasPresent := de_hasPresent e, dr_phase := PhPublished,
                   dr_publicationCount := dr_publicationCount r + 1\<rparr>)
   | DaEncode \<Rightarrow>
       if dr_phase r \<noteq> PhPublished \<or> \<not> requireCredit r e then Inl LeInvalidTransition
       else Inr (r\<lparr>dr_phase := PhEncoded\<rparr>)
   | DaComplete \<Rightarrow>
       if dr_phase r \<noteq> PhEncoded \<or> \<not> requireCredit r e then Inl LeInvalidTransition
       else Inr (r\<lparr>dr_completed := True, dr_phase := PhCompleted\<rparr>)
   | DaDetach \<Rightarrow>
       if \<not> dr_completed r \<or> dr_phase r \<noteq> PhCompleted \<or> \<not> creditDetached r e
       then Inl (if \<not> dr_completed r then LeCompletionRequired else LeCreditMismatch)
       else Inr (r\<lparr>dr_retainedCredit := de_retainedCredit e, dr_stagedCredit := 0,
                   dr_detachedCredit := de_detachedCredit e, dr_phase := PhDetached\<rparr>)
   | DaRestore \<Rightarrow>
       if dr_phase r \<noteq> PhDetached \<or> \<not> creditReturned r e then Inl LeCreditMismatch
       else Inr (r\<lparr>dr_retainedCredit := de_retainedCredit e, dr_detachedCredit := 0, dr_phase := PhRestored\<rparr>)
   | DaPoisonAbandon \<Rightarrow>
       if dr_phase r \<noteq> PhDetached \<or> \<not> creditReturned r e then Inl LeCreditMismatch
       else Inr (r\<lparr>dr_retainedCredit := de_retainedCredit e, dr_detachedCredit := 0, dr_poisoned := True,
                   dr_phase := PhPoisonAbandoned\<rparr>)
   | DaReclaim \<Rightarrow>
       if \<not> dr_completed r then Inl LeCompletionRequired
       else if dr_phase r \<noteq> PhRestored then Inl LeMissingRestore
       else if \<not> requireCredit r e \<or> \<not> afterReclaimed s (de_identity e)
       then Inl (if \<not> requireCredit r e then LeCreditMismatch else LeSourceReordered)
       else Inr (r\<lparr>dr_phase := PhReclaimed\<rparr>)
   | DaFailStop \<Rightarrow> Inr (r\<lparr>dr_poisoned := True, dr_phase := PhFailStopped\<rparr>)
   | DaRollbackPreEffect \<Rightarrow> Inl LeFallbackAfterEffect
   | DaImportRaw \<Rightarrow> Inl LeDuplicateEmission)"

definition moveFrontier :: "DirectSourceLifecycleState \<Rightarrow> DirectSourceLifecycleEvent \<Rightarrow>
    DirectSourceLifecycleState" where
  "moveFrontier s e = (case de_action e of
     DaPublish \<Rightarrow> s\<lparr>dl_lastPublishedRawOrdinal := di_rawOrdinal (de_identity e),
        dl_lastPublishedSpanOrdinal := di_spanOrdinal (de_identity e),
        dl_lastPublishedSourceOrdinal := di_sourceOrdinal (de_identity e)\<rparr>
   | DaReclaim \<Rightarrow> s\<lparr>dl_lastReclaimedRawOrdinal := di_rawOrdinal (de_identity e),
        dl_lastReclaimedSpanOrdinal := di_spanOrdinal (de_identity e),
        dl_lastReclaimedSourceOrdinal := di_sourceOrdinal (de_identity e)\<rparr>
   | _ \<Rightarrow> s)"

definition advanceRow :: "DirectSourceLifecycleState \<Rightarrow> nat \<Rightarrow> DirectSourceLifecycleEvent \<Rightarrow>
    DirectSourceLifecycleState \<times> DirectSourceLifecycleError" where
  "advanceRow s k e = (case stepRow s (dl_records s ! k) e of
     Inl err \<Rightarrow> (s, err)
   | Inr r \<Rightarrow>
       let r' = r\<lparr>dr_transitionCount := dr_transitionCount r + 1\<rparr>
       in ((moveFrontier s e)\<lparr>dl_records := (dl_records s)[k := r']\<rparr>,
           if directCreditConserved r' then LeNone else LeCreditMismatch))"

definition restoreImported :: "DirectSourceLifecycleState \<Rightarrow> DirectSourceLifecycleState" where
  "restoreImported s =
     (if dl_recordCount s = 0
      then s\<lparr>dl_lastImportedRawOrdinal := 0, dl_lastImportedSpanOrdinal := 0, dl_lastImportedSourceOrdinal := 0\<rparr>
      else let prior = dr_identity (dl_records s ! (dl_recordCount s - 1))
           in s\<lparr>dl_lastImportedRawOrdinal := di_rawOrdinal prior,
                dl_lastImportedSpanOrdinal := di_spanOrdinal prior,
                dl_lastImportedSourceOrdinal := di_sourceOrdinal prior\<rparr>)"

definition rollbackRow :: "DirectSourceLifecycleState \<Rightarrow> nat \<Rightarrow>
    DirectSourceLifecycleState \<times> DirectSourceLifecycleError" where
  "rollbackRow s k =
     (let r = dl_records s ! k in
      if dr_effectStarted r \<or> dr_witnessConsumed r \<or> (dr_phase r \<noteq> PhPlanned \<and> dr_phase r \<noteq> PhAdmitted)
      then (s, LeFallbackAfterEffect)
      else if k + 1 \<noteq> dl_recordCount s then (s, LeSourceReordered)
      else (restoreImported (s\<lparr>dl_records := (dl_records s)[dl_recordCount s - 1 := empty_row],
                               dl_recordCount := dl_recordCount s - 1\<rparr>), LeNone))"

section \<open>The reducer\<close>

definition rowMatches :: "DirectSourceLifecycleRecord \<Rightarrow> DirectSourceLifecycleEvent \<Rightarrow> bool" where
  "rowMatches r e = (dr_schemaRevision r = de_schemaRevision e \<and> dr_controlMode r = de_controlMode e \<and>
     dr_creditKind r = de_creditKind e \<and> dr_physicalCreditOwner r = de_physicalCreditOwner e)"

definition reduceDirectSourceLifecycle :: "DirectSourceLifecycleState \<Rightarrow> DirectSourceLifecycleEvent \<Rightarrow>
    DirectSourceLifecycleState \<times> DirectSourceLifecycleError" where
  "reduceDirectSourceLifecycle s e =
     (if \<not> validDirectIdentity (de_identity e) \<or> de_schemaRevision e = 0 \<or> \<not> directEventCreditValid e
      then (s, LeInvalidIdentity)
      else case findDirectSource s (de_identity e) of
        None \<Rightarrow>
          if de_action e = DaAdmitWitness then admitNew s e
          else if de_action e = DaImportRaw then importRaw s e
          else (s, if de_partialAdoption e then LePartialAdoption else LeInvalidIdentity)
      | Some k \<Rightarrow>
          if de_action e = DaImportRaw then (s, LeDuplicateEmission)
          else if \<not> rowMatches (dl_records s ! k) e \<or> de_partialAdoption e
          then (s, if de_partialAdoption e then LePartialAdoption else LeInvalidIdentity)
          else if de_action e = DaRollbackPreEffect then rollbackRow s k
          else advanceRow s k e)"

section \<open>Batches\<close>

fun batchOwners :: "DirectSourceIdentity \<Rightarrow> DirectSourceLifecycleEvent list \<Rightarrow> nat \<Rightarrow> nat option" where
  "batchOwners front [] ownerCount = Some ownerCount"
| "batchOwners front (e # es) ownerCount =
     (let ownerCount' = ownerCount + (if de_physicalCreditOwner e then 1 else 0)
      in if \<not> directPhysicalCreditKeyEqual front (de_identity e) then None
         else batchOwners front es ownerCount')"

fun applyAll :: "DirectSourceLifecycleState \<Rightarrow> DirectSourceLifecycleEvent list \<Rightarrow>
    DirectSourceLifecycleError + DirectSourceLifecycleState" where
  "applyAll s [] = Inr s"
| "applyAll s (e # es) =
     (case reduceDirectSourceLifecycle s e of
        (s', err) \<Rightarrow> if err \<noteq> LeNone then Inl err else applyAll s' es)"

definition applyBatch :: "DirectSourceLifecycleState \<Rightarrow> DirectSourceLifecycleEvent list \<Rightarrow>
    DirectSourceLifecycleState \<times> DirectSourceLifecycleError" where
  "applyBatch s events = (case applyAll s events of
     Inl err \<Rightarrow> (s, err)
   | Inr scratch \<Rightarrow> (scratch, LeNone))"

definition reduceDirectSourceLifecycleBatch :: "DirectSourceLifecycleState \<Rightarrow>
    DirectSourceLifecycleEvent list \<Rightarrow> bool \<Rightarrow> DirectSourceLifecycleState \<times> DirectSourceLifecycleError" where
  "reduceDirectSourceLifecycleBatch s events requireSinglePhysicalCreditOwner =
     (if requireSinglePhysicalCreditOwner then
        case batchOwners (if events = [] then no_identity else de_identity (hd events)) events 0 of
          None \<Rightarrow> (s, LeInvalidIdentity)
        | Some ownerCount \<Rightarrow>
            if events = [] \<or> ownerCount \<noteq> 1 then (s, LeCreditMismatch) else applyBatch s events
      else applyBatch s events)"

end
