(* ===== verification/Q_Direct_Correct.thy ===== *)
theory Q_Direct_Correct
  imports Q_Direct_Ledger
begin

text \<open>
  The lifecycle ledger is sound: a refused event leaves no trace, every row follows the abstract
  protocol of a source, credit is conserved and has one owner per storage, and sources are
  published and reclaimed in order, each once.
\<close>

section \<open>Prefix properties of a list\<close>

text \<open>Every element satisfies a condition that may look at the elements before it.\<close>

definition prefix_all :: "('a list \<Rightarrow> 'a \<Rightarrow> bool) \<Rightarrow> 'a list \<Rightarrow> bool" where
  "prefix_all P xs = (\<forall>n < length xs. P (take n xs) (xs ! n))"

lemma prefix_all_Nil [simp]: "prefix_all P []"
  by (simp add: prefix_all_def)

lemma prefix_all_snoc [simp]: "prefix_all P (xs @ [x]) = (prefix_all P xs \<and> P xs x)"
  by (auto simp: prefix_all_def nth_append less_Suc_eq)

lemma prefix_all_butlast: "prefix_all P xs \<Longrightarrow> prefix_all P (butlast xs)"
  by (cases xs rule: rev_cases) simp_all

section \<open>Logical order\<close>

definition ordinals :: "DirectSourceIdentity \<Rightarrow> u64 \<times> u32 \<times> u64" where
  "ordinals i = (di_rawOrdinal i, di_spanOrdinal i, di_sourceOrdinal i)"

definition front :: "DirectSourceIdentity list \<Rightarrow> u64 \<times> u32 \<times> u64" where
  "front is = (if is = [] then (0, 0, 0) else ordinals (List.last is))"

lemma front_simps [simp]: "front [] = (0, 0, 0)" "front (is @ [i]) = ordinals i"
  by (simp_all add: front_def)

text \<open>The next source in logical order after a frontier, and lists that advance so at every step.\<close>

definition follows :: "u64 \<times> u32 \<times> u64 \<Rightarrow> DirectSourceIdentity \<Rightarrow> bool" where
  "follows f i = directLogicalOrdinalAfter (di_rawOrdinal i) (di_spanOrdinal i) (di_sourceOrdinal i)
     (fst f) (fst (snd f)) (snd (snd f))"

abbreviation in_order :: "DirectSourceIdentity list \<Rightarrow> bool" where
  "in_order \<equiv> prefix_all (\<lambda>before i. follows (front before) i)"

definition earlier :: "DirectSourceIdentity \<Rightarrow> DirectSourceIdentity \<Rightarrow> bool" where
  "earlier i j = (di_rawOrdinal i < di_rawOrdinal j \<or>
     di_rawOrdinal i = di_rawOrdinal j \<and> di_spanOrdinal i < di_spanOrdinal j)"

lemma earlier_trans: "earlier i j \<Longrightarrow> earlier j k \<Longrightarrow> earlier i k"
  by (auto simp: earlier_def)

lemma earlier_irrefl: "\<not> earlier i i"
  by (simp add: earlier_def)

lemma word_less_next:
  assumes "(x :: 'a :: len word) \<noteq> - 1"
  shows "x < x + 1"
proof -
  have "unat x \<noteq> unat (- 1 :: 'a word)" using assms by (simp only: word_unat_eq_iff [symmetric]) simp
  moreover have "unat (- 1 :: 'a word) = 2 ^ LENGTH('a) - 1"
    by (simp add: unsigned_minus_1_eq_mask mask_eq_exp_minus_1)
  moreover have "unat x < 2 ^ LENGTH('a)" by (rule unsigned_less)
  ultimately have "Suc (unat x) < 2 ^ LENGTH('a)" by linarith
  then have "unat (x + 1) = Suc (unat x)" by (simp add: unat_word_ariths unsigned_1)
  then show ?thesis by (simp add: word_less_nat_alt)
qed

lemma follows_earlier:
  assumes "follows (ordinals i) j" and "di_rawOrdinal i \<noteq> 0"
  shows "earlier i j"
  using assms
  by (auto simp: follows_def ordinals_def directLogicalOrdinalAfter_def earlier_def word_less_next
      split: if_splits)

lemma follows_raw: "follows f i \<Longrightarrow> di_rawOrdinal i \<noteq> 0"
  by (auto simp: follows_def directLogicalOrdinalAfter_def split: if_splits)

lemma in_order_sorted:
  "in_order is \<Longrightarrow> sorted_wrt earlier is \<and> (\<forall>i \<in> set is. di_rawOrdinal i \<noteq> 0)"
proof (induction "is" rule: rev_induct)
  case (snoc j js)
  then have o: "sorted_wrt earlier js" "\<forall>i \<in> set js. di_rawOrdinal i \<noteq> 0" and f: "follows (front js) j"
    by simp_all
  have "earlier i j" if i: "i \<in> set js" for i
  proof -
    obtain ks k where js: "js = ks @ [k]" using i by (cases js rule: rev_cases) auto
    have k: "earlier k j" using f o(2) by (intro follows_earlier) (simp_all add: js)
    show ?thesis
    proof (cases "i = k")
      case False
      then have "earlier i k" using i o(1) by (auto simp: js sorted_wrt_append)
      then show ?thesis using k by (rule earlier_trans)
    qed (simp add: k)
  qed
  then show ?case using o follows_raw [OF f] by (auto simp: sorted_wrt_append)
qed simp

lemma in_order_distinct: "in_order is \<Longrightarrow> distinct is"
proof -
  have "sorted_wrt earlier is \<Longrightarrow> distinct is"
    by (induction "is") (auto simp: earlier_irrefl)
  then show "in_order is \<Longrightarrow> distinct is" using in_order_sorted by blast
qed

section \<open>The rows in use\<close>

definition shape_ok :: "DirectSourceLifecycleState \<Rightarrow> bool" where
  "shape_ok s = (length (dl_records s) = 256 \<and> dl_recordCount s \<le> 256 \<and>
     drop (dl_recordCount s) (dl_records s) = replicate (256 - dl_recordCount s) empty_row)"

lemma length_rows [simp]: "shape_ok s \<Longrightarrow> length (rows s) = dl_recordCount s"
  by (simp add: rows_def shape_ok_def)

lemma rows_nth [simp]: "k < dl_recordCount s \<Longrightarrow> rows s ! k = dl_records s ! k"
  by (simp add: rows_def)

lemma spare_slot:
  assumes "shape_ok s" "dl_recordCount s \<noteq> 256"
  shows "dl_records s ! dl_recordCount s = empty_row"
proof -
  have "drop (dl_recordCount s) (dl_records s) ! 0 = empty_row" using assms by (simp add: shape_ok_def)
  moreover have "dl_recordCount s < length (dl_records s)" using assms by (simp add: shape_ok_def)
  ultimately show ?thesis by simp
qed

lemma appendRow_rows:
  assumes "shape_ok s" "dl_recordCount s \<noteq> 256"
  shows "rows (appendRow s i r) = rows s @ [r]" and "shape_ok (appendRow s i r)"
proof -
  have n: "dl_recordCount s < length (dl_records s)" using assms by (simp add: shape_ok_def)
  then show "rows (appendRow s i r) = rows s @ [r]"
    by (simp add: rows_def appendRow_def take_Suc_conv_app_nth)
  have "drop (Suc (dl_recordCount s)) (dl_records s) = tl (drop (dl_recordCount s) (dl_records s))"
    by (simp add: drop_Suc tl_drop)
  also have "\<dots> = replicate (256 - Suc (dl_recordCount s)) empty_row"
    using assms by (cases "256 - dl_recordCount s") (simp_all add: shape_ok_def)
  finally show "shape_ok (appendRow s i r)"
    using assms n by (simp add: shape_ok_def appendRow_def)
qed

lemma updateRow_rows:
  assumes "shape_ok s" "k < dl_recordCount s"
  shows "rows (s\<lparr>dl_records := (dl_records s)[k := r]\<rparr>) = (rows s)[k := r]"
    and "shape_ok (s\<lparr>dl_records := (dl_records s)[k := r]\<rparr>)"
  using assms by (simp_all add: rows_def shape_ok_def take_update_swap)

lemma removeRow_rows:
  assumes "shape_ok s" "dl_recordCount s \<noteq> 0"
  defines "s' \<equiv> restoreImported (s\<lparr>dl_records := (dl_records s)[dl_recordCount s - 1 := empty_row],
      dl_recordCount := dl_recordCount s - 1\<rparr>)"
  shows "rows s' = butlast (rows s)" and "shape_ok s'"
proof -
  obtain n where n: "dl_recordCount s = Suc n" using assms(2) by (cases "dl_recordCount s") auto
  have l: "n < length (dl_records s)" using assms(1) n by (simp add: shape_ok_def)
  have r: "dl_records s' = (dl_records s)[n := empty_row]" "dl_recordCount s' = n"
    by (simp_all add: s'_def restoreImported_def n)
  show "rows s' = butlast (rows s)"
    using l by (simp add: rows_def r n butlast_take take_update_swap list_update_beyond)
  have "drop n ((dl_records s)[n := empty_row]) = empty_row # drop (Suc n) (dl_records s)"
    using l by (simp add: drop_update_swap Cons_nth_drop_Suc [symmetric])
  also have "\<dots> = replicate (256 - n) empty_row"
  proof -
    have "drop (Suc n) (dl_records s) = replicate (256 - Suc n) empty_row" "256 - n = Suc (256 - Suc n)"
      using assms(1) by (auto simp: shape_ok_def n)
    then show ?thesis by simp
  qed
  finally show "shape_ok s'" using assms(1) l by (simp add: shape_ok_def r n)
qed

lemma scanSource_Some:
  "scanSource i rs k = Some j \<Longrightarrow> k \<le> j \<and> j - k < length rs \<and> dr_identity (rs ! (j - k)) = i"
proof (induction rs arbitrary: k)
  case (Cons r rs)
  show ?case
  proof (cases "dr_identity r = i")
    case False
    then have "Suc k \<le> j \<and> j - Suc k < length rs \<and> dr_identity (rs ! (j - Suc k)) = i"
      using Cons by simp
    moreover from this have "j - k = Suc (j - Suc k)" by linarith
    ultimately show ?thesis by simp
  qed (use Cons in simp)
qed simp

lemma scanSource_None: "scanSource i rs k = None \<longleftrightarrow> i \<notin> dr_identity ` set rs"
  by (induction rs arbitrary: k) auto

lemma findDirectSource_Some:
  assumes "shape_ok s" "findDirectSource s i = Some k"
  shows "k < dl_recordCount s" "dr_identity (dl_records s ! k) = i" "dl_records s ! k \<in> set (rows s)"
proof -
  from scanSource_Some [OF assms(2) [unfolded findDirectSource_def]] assms(1)
  show k: "k < dl_recordCount s" and "dr_identity (dl_records s ! k) = i" by auto
  show "dl_records s ! k \<in> set (rows s)" using k assms(1) by (metis length_rows nth_mem rows_nth)
qed

lemma findDirectSource_None: "findDirectSource s i = None \<longleftrightarrow> i \<notin> dr_identity ` set (rows s)"
  by (simp add: findDirectSource_def scanSource_None)

section \<open>The protocol of a source\<close>

text \<open>What the life of one source may look like, without any of the reducer's bookkeeping.\<close>

definition from_phase :: "DirectSourcePhase set \<Rightarrow> DirectSourcePhase \<Rightarrow> DirectSourcePhase \<Rightarrow> DirectSourcePhase option" where
  "from_phase froms target ph = (if ph \<in> froms then Some target else None)"

definition protocol :: "DirectSourcePhase \<Rightarrow> DirectSourceAction \<Rightarrow> DirectSourcePhase option" where
  "protocol ph a = (case a of
     DaImportRaw \<Rightarrow> from_phase {PhEmpty} PhRawOwned ph
   | DaPlan \<Rightarrow> from_phase {PhRawOwned} PhPlanned ph
   | DaAdmitWitness \<Rightarrow> from_phase {PhEmpty, PhPlanned} PhAdmitted ph
   | DaEffectCut \<Rightarrow> from_phase {PhAdmitted} PhEffected ph
   | DaDestinationReceipt \<Rightarrow> from_phase {PhEffected} PhReceiptOwned ph
   | DaPublish \<Rightarrow> from_phase {PhReceiptOwned} PhPublished ph
   | DaEncode \<Rightarrow> from_phase {PhPublished} PhEncoded ph
   | DaComplete \<Rightarrow> from_phase {PhEncoded} PhCompleted ph
   | DaDetach \<Rightarrow> from_phase {PhCompleted} PhDetached ph
   | DaRestore \<Rightarrow> from_phase {PhDetached} PhRestored ph
   | DaPoisonAbandon \<Rightarrow> from_phase {PhDetached} PhPoisonAbandoned ph
   | DaRollbackPreEffect \<Rightarrow> from_phase {PhPlanned, PhAdmitted} PhEmpty ph
   | DaReclaim \<Rightarrow> from_phase {PhRestored} PhReclaimed ph
   | DaFailStop \<Rightarrow> from_phase (- {PhEmpty}) PhFailStopped ph)"

section \<open>The invariant\<close>

definition noEffect :: "DirectSourceLifecycleRecord \<Rightarrow> bool" where
  "noEffect r = (\<not> dr_witnessConsumed r \<and> dr_publicationCount r = 0 \<and> \<not> dr_completed r \<and> \<not> dr_poisoned r)"

definition settled :: "DirectSourceLifecycleRecord \<Rightarrow> bool" where
  "settled r = (dr_witnessConsumed r \<and> dr_publicationCount r = 1 \<and> dr_completed r \<and>
     dr_stagedCredit r = 0 \<and> dr_detachedCredit r = 0)"

text \<open>What the flags and counters of a row say in each phase.\<close>

definition phase_ok :: "DirectSourceLifecycleRecord \<Rightarrow> bool" where
  "phase_ok r = (dr_effectStarted r = dr_witnessConsumed r \<and> (case dr_phase r of
     PhEmpty \<Rightarrow> False
   | PhRawOwned \<Rightarrow> noEffect r \<and> dr_witnessGeneration r = 0
   | PhPlanned \<Rightarrow> noEffect r \<and> dr_witnessGeneration r = 0
   | PhAdmitted \<Rightarrow> noEffect r \<and> dr_witnessGeneration r \<noteq> 0
   | PhEffected \<Rightarrow> dr_witnessConsumed r \<and> dr_publicationCount r = 0 \<and> \<not> dr_completed r \<and> \<not> dr_poisoned r
   | PhReceiptOwned \<Rightarrow> dr_witnessConsumed r \<and> dr_publicationCount r = 0 \<and> \<not> dr_completed r \<and> \<not> dr_poisoned r
   | PhPublished \<Rightarrow> dr_witnessConsumed r \<and> dr_publicationCount r = 1 \<and> \<not> dr_completed r \<and> \<not> dr_poisoned r
   | PhEncoded \<Rightarrow> dr_witnessConsumed r \<and> dr_publicationCount r = 1 \<and> \<not> dr_completed r \<and> \<not> dr_poisoned r
   | PhCompleted \<Rightarrow> dr_witnessConsumed r \<and> dr_publicationCount r = 1 \<and> dr_completed r \<and> \<not> dr_poisoned r
   | PhDetached \<Rightarrow> dr_witnessConsumed r \<and> dr_publicationCount r = 1 \<and> dr_completed r \<and> \<not> dr_poisoned r \<and>
       dr_stagedCredit r = 0
   | PhRestored \<Rightarrow> settled r \<and> \<not> dr_poisoned r
   | PhReclaimed \<Rightarrow> settled r \<and> \<not> dr_poisoned r
   | PhPoisonAbandoned \<Rightarrow> settled r \<and> dr_poisoned r
   | PhFailStopped \<Rightarrow> dr_poisoned r \<and> dr_publicationCount r \<le> 1))"

definition row_ok :: "DirectSourceLifecycleRecord \<Rightarrow> bool" where
  "row_ok r = (validDirectIdentity (dr_identity r) \<and> dr_schemaRevision r \<noteq> 0 \<and>
     directCreditConserved r \<and> (\<not> dr_physicalCreditOwner r \<longrightarrow> dr_aggregateCredit r = 0) \<and> phase_ok r)"

definition key_of :: "DirectSourceLifecycleRecord \<Rightarrow> DirectSourceIdentity \<times> bool" where
  "key_of r = (dr_identity r, dr_physicalCreditOwner r)"

definition owned_before :: "(DirectSourceIdentity \<times> bool) list \<Rightarrow> DirectSourceIdentity \<Rightarrow> bool" where
  "owned_before ks i = (\<exists>k \<in> set ks. snd k \<and> directPhysicalCreditKeyEqual (fst k) i)"

text \<open>A row carries the credit of its storage exactly when no earlier row does.\<close>

abbreviation one_owner :: "(DirectSourceIdentity \<times> bool) list \<Rightarrow> bool" where
  "one_owner \<equiv> prefix_all (\<lambda>before k. snd k \<longleftrightarrow> \<not> owned_before before (fst k))"

definition ledger_ok :: "DirectSourceLifecycleState \<Rightarrow> bool" where
  "ledger_ok s = (shape_ok s \<and> (\<forall>r \<in> set (rows s). row_ok r) \<and>
     one_owner (map key_of (rows s)) \<and> in_order (map dr_identity (rows s)) \<and>
     (dl_lastImportedRawOrdinal s, dl_lastImportedSpanOrdinal s, dl_lastImportedSourceOrdinal s) =
       front (map dr_identity (rows s)))"

lemma newLifecycleState_ok: "ledger_ok newLifecycleState"
  by (simp add: ledger_ok_def shape_ok_def newLifecycleState_def rows_def)

lemma unat_sum:
  assumes "(x :: u64) \<le> - 1 - y"
  shows "unat (x + y) = unat x + unat y"
proof (rule unat_add64)
  have "unat (- 1 - y) = unat (- 1 :: u64) - unat y" by (rule unat_sub) simp
  moreover have "unat (- 1 :: u64) = 2 ^ 64 - 1" by (simp add: unsigned_minus_1_eq_mask mask_eq_exp_minus_1)
  moreover have "unat x \<le> unat (- 1 - y)" using assms by (simp add: word_le_nat_alt)
  moreover have "unat y < 2 ^ 64" using unsigned_less [of y] by simp
  ultimately show "unat x + unat y < 2 ^ 64" by linarith
qed

lemma zero_sum: "(x :: u64) \<le> - 1 - y \<Longrightarrow> x + y = 0 \<Longrightarrow> x = 0 \<and> y = 0"
  using unat_sum [of x y] by (simp add: unat_eq_zero)

lemma conserved_zero:
  assumes "directCreditConserved r" "dr_aggregateCredit r = 0"
  shows "dr_retainedCredit r = 0 \<and> dr_stagedCredit r = 0 \<and> dr_detachedCredit r = 0"
  using assms zero_sum [of "dr_retainedCredit r + dr_stagedCredit r" "dr_detachedCredit r"]
    zero_sum [of "dr_retainedCredit r" "dr_stagedCredit r"]
  by (simp add: directCreditConserved_def)

lemma conserved_event:
  "directEventCreditValid e \<Longrightarrow> dr_retainedCredit r = de_retainedCredit e \<Longrightarrow>
   dr_stagedCredit r = de_stagedCredit e \<Longrightarrow> dr_detachedCredit r = de_detachedCredit e \<Longrightarrow>
   dr_aggregateCredit r = de_retainedCredit e + de_stagedCredit e + de_detachedCredit e \<Longrightarrow>
   directCreditConserved r"
  by (simp add: directCreditConserved_def directEventCreditValid_def)

section \<open>One step of the switch\<close>

lemma conserved_owner:
  assumes "row_ok r" and "directEventCreditValid e" and "de_stagedCredit e = 0"
    and "if dr_physicalCreditOwner r then de_retainedCredit e + de_detachedCredit e = dr_aggregateCredit r
         else de_retainedCredit e = 0 \<and> de_detachedCredit e = 0"
  shows "directCreditConserved (r\<lparr>dr_retainedCredit := de_retainedCredit e, dr_stagedCredit := 0,
    dr_detachedCredit := de_detachedCredit e\<rparr>)"
  using assms by (auto simp: row_ok_def directCreditConserved_def directEventCreditValid_def split: if_splits)

lemmas step_defs = stepRow_def phase_ok_def noEffect_def settled_def protocol_def from_phase_def
  creditReturned_def creditDetached_def

lemma stepRow_same:
  "stepRow s r e = Inr r' \<Longrightarrow> dr_identity r' = dr_identity r \<and>
     dr_physicalCreditOwner r' = dr_physicalCreditOwner r \<and> dr_aggregateCredit r' = dr_aggregateCredit r \<and>
     dr_schemaRevision r' = dr_schemaRevision r \<and> dr_controlMode r' = dr_controlMode r \<and>
     dr_creditKind r' = dr_creditKind r \<and> dr_transitionCount r' = dr_transitionCount r"
  by (cases "de_action e") (auto simp: stepRow_def split: if_splits)

lemma stepRow_credit:
  assumes "row_ok r" "directEventCreditValid e" "stepRow s r e = Inr r'"
  shows "directCreditConserved r'"
proof -
  have c: "directCreditConserved r" "phase_ok r" using assms(1) by (simp_all add: row_ok_def)
  have d: "directCreditConserved (r\<lparr>dr_retainedCredit := de_retainedCredit e, dr_stagedCredit := 0,
      dr_detachedCredit := de_detachedCredit e\<rparr>)"
    if "creditDetached r e \<or> creditReturned r e"
    using that by (intro conserved_owner [OF assms(1,2)]) (auto simp: creditDetached_def creditReturned_def split: if_splits)
  show ?thesis
  proof (cases "de_action e \<in> {DaDetach, DaRestore, DaPoisonAbandon}")
    case True
    then have "creditDetached r e \<or> creditReturned r e"
      using assms(3) by (cases "de_action e") (simp_all add: stepRow_def split: if_splits)
    with d have d': "directCreditConserved (r\<lparr>dr_retainedCredit := de_retainedCredit e, dr_stagedCredit := 0,
      dr_detachedCredit := de_detachedCredit e\<rparr>)" by blast
    have "dr_stagedCredit r = 0" if "dr_phase r = PhDetached" using c(2) that by (simp add: phase_ok_def)
    then have "dr_retainedCredit r' = de_retainedCredit e \<and> dr_stagedCredit r' = 0 \<and>
        dr_detachedCredit r' = de_detachedCredit e \<and> dr_aggregateCredit r' = dr_aggregateCredit r"
      using True assms(3) by (cases "de_action e") (auto simp: stepRow_def creditReturned_def split: if_splits)
    with d' show ?thesis by (simp add: directCreditConserved_def)
  next
    case False
    then have "dr_retainedCredit r' = dr_retainedCredit r" "dr_stagedCredit r' = dr_stagedCredit r"
      "dr_detachedCredit r' = dr_detachedCredit r" "dr_aggregateCredit r' = dr_aggregateCredit r"
      using assms(3) by (cases "de_action e"; auto simp: stepRow_def split: if_splits)+
    with c(1) show ?thesis by (simp add: directCreditConserved_def)
  qed
qed

lemma stepRow_phase:
  assumes "row_ok r" "stepRow s r e = Inr r'"
  shows "phase_ok r'" and "protocol (dr_phase r) (de_action e) = Some (dr_phase r')"
proof -
  have p: "phase_ok r" using assms(1) by (simp add: row_ok_def)
  have z: "dr_retainedCredit r = 0 \<and> dr_stagedCredit r = 0 \<and> dr_detachedCredit r = 0"
    if "\<not> dr_physicalCreditOwner r"
    using assms(1) that by (intro conserved_zero) (simp_all add: row_ok_def)
  show "phase_ok r'" and "protocol (dr_phase r) (de_action e) = Some (dr_phase r')"
    using assms(2) p by (cases "de_action e"; cases "dr_phase r"; auto simp: step_defs split: if_splits)+
qed

lemma stepRow_row_ok:
  "row_ok r \<Longrightarrow> directEventCreditValid e \<Longrightarrow> stepRow s r e = Inr r' \<Longrightarrow> row_ok r'"
  using stepRow_credit [of r e s r'] stepRow_phase(1) [of r s e r'] stepRow_same [of s r e r']
  by (simp add: row_ok_def)

section \<open>What the reducer does\<close>

lemma admitOwnerScan_result:
  "admitOwnerScan e rs found =
     (let prior = list_ex (\<lambda>r. dr_physicalCreditOwner r \<and>
            directPhysicalCreditKeyEqual (dr_identity r) (de_identity e)) rs
      in if de_physicalCreditOwner e \<and> prior then None else Some (found \<or> prior))"
  by (induction rs arbitrary: found) auto

lemma priorOwner_owned: "priorOwner s i = owned_before (map key_of (rows s)) i"
  by (auto simp: priorOwner_def owned_before_def key_of_def list_ex_iff)

lemma afterImported_follows:
  "ledger_ok s \<Longrightarrow> afterImported s i = follows (front (map dr_identity (rows s))) i"
proof -
  assume "ledger_ok s"
  then have "front (map dr_identity (rows s)) =
      (dl_lastImportedRawOrdinal s, dl_lastImportedSpanOrdinal s, dl_lastImportedSourceOrdinal s)"
    by (simp add: ledger_ok_def)
  then show ?thesis by (simp add: afterImported_def follows_def)
qed

definition event_valid :: "DirectSourceLifecycleEvent \<Rightarrow> bool" where
  "event_valid e = (validDirectIdentity (de_identity e) \<and> de_schemaRevision e \<noteq> 0 \<and> directEventCreditValid e)"

definition newRow :: "DirectSourceLifecycleState \<Rightarrow> DirectSourceLifecycleEvent \<Rightarrow> DirectSourceLifecycleRecord" where
  "newRow s e = (if de_action e = DaAdmitWitness
     then (openRow s e PhAdmitted)\<lparr>dr_witnessGeneration := de_witnessGeneration e\<rparr>
     else openRow s e PhRawOwned)"

definition opens :: "DirectSourceLifecycleState \<Rightarrow> DirectSourceLifecycleEvent \<Rightarrow> bool" where
  "opens s e = (de_action e \<in> {DaAdmitWitness, DaImportRaw} \<and>
     dl_recordCount s \<noteq> 256 \<and> afterImported s (de_identity e) \<and>
     (de_action e = DaAdmitWitness \<longrightarrow> de_witnessGeneration e \<noteq> 0) \<and>
     (\<not> de_physicalCreditOwner e \<longrightarrow> \<not> carriesCredit e) \<and>
     (de_physicalCreditOwner e \<longleftrightarrow> \<not> priorOwner s (de_identity e)))"

lemma newRow_simps:
  "dr_identity (newRow s e) = de_identity e"
  "dr_physicalCreditOwner (newRow s e) = de_physicalCreditOwner e"
  "dr_phase (newRow s e) = (if de_action e = DaAdmitWitness then PhAdmitted else PhRawOwned)"
  "dr_retainedCredit (newRow s e) = de_retainedCredit e"
  "dr_stagedCredit (newRow s e) = de_stagedCredit e"
  "dr_detachedCredit (newRow s e) = de_detachedCredit e"
  "dr_aggregateCredit (newRow s e) = de_retainedCredit e + de_stagedCredit e + de_detachedCredit e"
  by (simp_all add: newRow_def openRow_def)

lemma newRow_ok:
  assumes "shape_ok s" "opens s e" "event_valid e"
  shows "row_ok (newRow s e)"
proof -
  have c: "directCreditConserved (newRow s e)"
    by (rule conserved_event [of e]) (use assms(3) in \<open>simp_all add: newRow_simps event_valid_def\<close>)
  have a: "dr_aggregateCredit (newRow s e) = 0" if "\<not> de_physicalCreditOwner e"
    using assms(2) that by (simp add: newRow_simps opens_def carriesCredit_def)
  have "dl_records s ! dl_recordCount s = empty_row"
    using assms by (intro spare_slot) (simp_all add: opens_def)
  then have "phase_ok (newRow s e)"
    using assms(2) by (auto simp: newRow_def openRow_def phase_ok_def noEffect_def opens_def empty_row_def)
  moreover have "dr_schemaRevision (newRow s e) \<noteq> 0"
    using assms(3) by (simp add: newRow_def openRow_def event_valid_def)
  ultimately show ?thesis using c a assms(3) by (simp add: row_ok_def newRow_simps event_valid_def)
qed

lemma admitNew_result:
  assumes "shape_ok s" "de_action e = DaAdmitWitness" "directEventCreditValid e"
  shows "(opens s e \<and> admitNew s e = (appendRow s (de_identity e) (newRow s e), LeNone)) \<or>
    (\<not> opens s e \<and> (\<exists>err. err \<noteq> LeNone \<and> admitNew s e = (s, err)))"
proof -
  have l: "length (dl_records s) = 256" using assms(1) by (simp add: shape_ok_def)
  have c: "directCreditConserved ((openRow s e PhAdmitted)\<lparr>dr_witnessGeneration := de_witnessGeneration e\<rparr>)"
    using assms(3) by (rule conserved_event) (simp_all add: openRow_def)
  show ?thesis
    using assms(2) c
    by (auto simp: admitNew_def l opens_def admitOwnerScan_result priorOwner_def newRow_def)
qed

lemma importRaw_result:
  assumes "shape_ok s" "de_action e = DaImportRaw"
  shows "(opens s e \<and> importRaw s e = (appendRow s (de_identity e) (newRow s e), LeNone)) \<or>
    (\<not> opens s e \<and> (\<exists>err. err \<noteq> LeNone \<and> importRaw s e = (s, err)))"
  using assms by (auto simp: importRaw_def opens_def newRow_def shape_ok_def)

definition advanced :: "DirectSourceLifecycleRecord \<Rightarrow> DirectSourceLifecycleRecord" where
  "advanced r = r\<lparr>dr_transitionCount := dr_transitionCount r + 1\<rparr>"

lemma phase_ok_advanced: "phase_ok (advanced r) = phase_ok r"
  by (cases "dr_phase r") (simp_all add: advanced_def phase_ok_def noEffect_def settled_def)

lemma advanced_simps [simp]:
  "row_ok (advanced r) = row_ok r" "dr_identity (advanced r) = dr_identity r" "key_of (advanced r) = key_of r"
  "dr_phase (advanced r) = dr_phase r" "directCreditConserved (advanced r) = directCreditConserved r"
  unfolding row_ok_def phase_ok_advanced
  by (simp_all add: advanced_def directCreditConserved_def key_of_def)

lemma advanceRow_result:
  assumes "row_ok (dl_records s ! k)" "directEventCreditValid e"
  shows "(\<exists>r. stepRow s (dl_records s ! k) e = Inr r \<and>
      advanceRow s k e = ((moveFrontier s e)\<lparr>dl_records := (dl_records s)[k := advanced r]\<rparr>, LeNone)) \<or>
    (\<exists>err. err \<noteq> LeNone \<and> stepRow s (dl_records s ! k) e = Inl err \<and> advanceRow s k e = (s, err))"
proof (cases "stepRow s (dl_records s ! k) e")
  case (Inr r)
  then have "row_ok r" using stepRow_row_ok [OF assms] by blast
  then have "directCreditConserved (advanced r)" by (simp add: row_ok_def)
  with Inr show ?thesis by (auto simp: advanceRow_def advanced_def)
next
  case (Inl err)
  then have "err \<noteq> LeNone"
    by (cases "de_action e") (auto simp: stepRow_def split: if_splits)
  with Inl show ?thesis by (simp add: advanceRow_def)
qed

text \<open>The three ways an event is accepted.\<close>

definition opened :: "DirectSourceLifecycleState \<Rightarrow> DirectSourceLifecycleEvent \<Rightarrow> DirectSourceLifecycleState \<Rightarrow> bool" where
  "opened s e s' = (findDirectSource s (de_identity e) = None \<and> opens s e \<and>
     s' = appendRow s (de_identity e) (newRow s e))"

definition stepped :: "DirectSourceLifecycleState \<Rightarrow> DirectSourceLifecycleEvent \<Rightarrow> nat \<Rightarrow>
    DirectSourceLifecycleRecord \<Rightarrow> DirectSourceLifecycleState \<Rightarrow> bool" where
  "stepped s e k r s' = (findDirectSource s (de_identity e) = Some k \<and> rowMatches (dl_records s ! k) e \<and>
     \<not> de_partialAdoption e \<and> stepRow s (dl_records s ! k) e = Inr r \<and>
     s' = (moveFrontier s e)\<lparr>dl_records := (dl_records s)[k := advanced r]\<rparr>)"

definition cancelled :: "DirectSourceLifecycleState \<Rightarrow> DirectSourceLifecycleEvent \<Rightarrow> DirectSourceLifecycleState \<Rightarrow> bool" where
  "cancelled s e s' = (de_action e = DaRollbackPreEffect \<and> dl_recordCount s \<noteq> 0 \<and>
     findDirectSource s (de_identity e) = Some (dl_recordCount s - 1) \<and>
     \<not> dr_effectStarted (dl_records s ! (dl_recordCount s - 1)) \<and>
     dr_phase (dl_records s ! (dl_recordCount s - 1)) \<in> {PhPlanned, PhAdmitted} \<and>
     s' = restoreImported (s\<lparr>dl_records := (dl_records s)[dl_recordCount s - 1 := empty_row],
       dl_recordCount := dl_recordCount s - 1\<rparr>))"

lemma reduce_result:
  assumes ok: "ledger_ok s"
  shows "(event_valid e \<and> snd (reduceDirectSourceLifecycle s e) = LeNone \<and>
       (opened s e (fst (reduceDirectSourceLifecycle s e)) \<or>
        (\<exists>k r. stepped s e k r (fst (reduceDirectSourceLifecycle s e))) \<or>
        cancelled s e (fst (reduceDirectSourceLifecycle s e)))) \<or>
    (snd (reduceDirectSourceLifecycle s e) \<noteq> LeNone \<and> fst (reduceDirectSourceLifecycle s e) = s)"
proof (cases "event_valid e")
  case False
  then show ?thesis by (auto simp: reduceDirectSourceLifecycle_def event_valid_def)
next
  case True
  then have v: "validDirectIdentity (de_identity e)" "de_schemaRevision e \<noteq> 0" "directEventCreditValid e"
    by (simp_all add: event_valid_def)
  have sh: "shape_ok s" using ok by (simp add: ledger_ok_def)
  show ?thesis
  proof (cases "findDirectSource s (de_identity e)")
    case None
    show ?thesis
      using admitNew_result [OF sh _ v(3)] importRaw_result [OF sh, of e] True v
      by (auto simp: reduceDirectSourceLifecycle_def None opened_def)
  next
    case (Some k)
    have k: "k < dl_recordCount s" "row_ok (dl_records s ! k)"
      using findDirectSource_Some [OF sh Some] ok by (auto simp: ledger_ok_def)
    show ?thesis
    proof (cases "de_action e \<in> {DaImportRaw, DaRollbackPreEffect} \<or> \<not> rowMatches (dl_records s ! k) e \<or> de_partialAdoption e")
      case True2: True
      have "dl_recordCount s - Suc 0 = k" if "Suc k = dl_recordCount s" using that by simp
      then show ?thesis
        using True2 True v k(1)
        by (cases "Suc k = dl_recordCount s")
          (auto simp: reduceDirectSourceLifecycle_def Some rollbackRow_def cancelled_def)
    next
      case False
      with v Some have "reduceDirectSourceLifecycle s e = advanceRow s k e"
        by (simp add: reduceDirectSourceLifecycle_def)
      with advanceRow_result [OF k(2) v(3)] False Some True show ?thesis
        by (auto simp: stepped_def)
    qed
  qed
qed

section \<open>The invariant is kept\<close>

lemma ledger_okD:
  assumes "ledger_ok s"
  shows "shape_ok s" and "\<forall>r \<in> set (rows s). row_ok r" and "one_owner (map key_of (rows s))"
    and "in_order (map dr_identity (rows s))" and "distinct (map dr_identity (rows s))"
  using assms in_order_distinct [of "map dr_identity (rows s)"] by (simp_all add: ledger_ok_def)

lemma opened_rows:
  assumes "ledger_ok s" "opened s e s'"
  shows "rows s' = rows s @ [newRow s e]" and "shape_ok s'"
  using assms appendRow_rows [OF ledger_okD(1) [OF assms(1)]] by (simp_all add: opened_def opens_def)

lemma opened_ok:
  assumes ok: "ledger_ok s" and v: "event_valid e" and o: "opened s e s'"
  shows "ledger_ok s'"
proof -
  note r = opened_rows [OF ok o]
  have n: "row_ok (newRow s e)"
    using o v ledger_okD(1) [OF ok] by (intro newRow_ok) (simp_all add: opened_def)
  have f: "follows (front (map dr_identity (rows s))) (de_identity e)"
    using o by (simp add: opened_def opens_def afterImported_follows [OF ok])
  have w: "de_physicalCreditOwner e \<longleftrightarrow> \<not> owned_before (map key_of (rows s)) (de_identity e)"
    using o by (simp add: opened_def opens_def priorOwner_owned)
  have l: "(dl_lastImportedRawOrdinal s', dl_lastImportedSpanOrdinal s', dl_lastImportedSourceOrdinal s') =
      ordinals (de_identity e)"
    using o by (simp add: opened_def appendRow_def ordinals_def)
  show ?thesis
    using r n f w l ledger_okD [OF ok] by (simp add: ledger_ok_def newRow_simps key_of_def)
qed

lemma moveFrontier_simps [simp]:
  "dl_records (moveFrontier s e) = dl_records s" "dl_recordCount (moveFrontier s e) = dl_recordCount s"
  "dl_lastImportedRawOrdinal (moveFrontier s e) = dl_lastImportedRawOrdinal s"
  "dl_lastImportedSpanOrdinal (moveFrontier s e) = dl_lastImportedSpanOrdinal s"
  "dl_lastImportedSourceOrdinal (moveFrontier s e) = dl_lastImportedSourceOrdinal s"
  by (simp_all add: moveFrontier_def split: DirectSourceAction.split)

lemma stepped_rows:
  assumes ok: "ledger_ok s" and v: "event_valid e" and st: "stepped s e k r s'"
  shows "rows s' = (rows s)[k := advanced r]" and "shape_ok s'" and "k < dl_recordCount s"
    and "row_ok (dl_records s ! k)" and "row_ok r" and "key_of r = key_of (rows s ! k)"
    and "dr_identity (rows s ! k) = de_identity e"
proof -
  note sh = ledger_okD(1) [OF ok]
  from st have f: "findDirectSource s (de_identity e) = Some k" and
    step: "stepRow s (dl_records s ! k) e = Inr r" and
    s': "s' = (moveFrontier s e)\<lparr>dl_records := (dl_records s)[k := advanced r]\<rparr>"
    by (simp_all add: stepped_def)
  note k = findDirectSource_Some [OF sh f]
  show "k < dl_recordCount s" by (rule k(1))
  show "dr_identity (rows s ! k) = de_identity e" using k by simp
  have "shape_ok (moveFrontier s e)" and m: "rows (moveFrontier s e) = rows s"
    using sh by (simp_all add: shape_ok_def rows_def)
  from updateRow_rows [OF this(1), of k "advanced r"] k(1)
  show "rows s' = (rows s)[k := advanced r]" and "shape_ok s'" by (simp_all add: s' m)
  show ro: "row_ok (dl_records s ! k)" using k(3) ledger_okD(2) [OF ok] by blast
  show "row_ok r" using stepRow_row_ok [OF ro _ step] v by (simp add: event_valid_def)
  show "key_of r = key_of (rows s ! k)" using stepRow_same [OF step] k(1) by (simp add: key_of_def)
qed

lemma keys_map: "map dr_identity rs = map fst (map key_of rs)"
  by (simp add: key_of_def)

lemma stepped_ok:
  assumes ok: "ledger_ok s" and v: "event_valid e" and st: "stepped s e k r s'"
  shows "ledger_ok s'" and "map key_of (rows s') = map key_of (rows s)"
proof -
  note r = stepped_rows [OF ok v st]
  show m: "map key_of (rows s') = map key_of (rows s)"
    by (simp add: r(1) map_update r(6)) (metis r(6) list_update_id map_update)
  then have i: "map dr_identity (rows s') = map dr_identity (rows s)" by (simp only: keys_map)
  have "\<forall>x \<in> set (rows s'). row_ok x"
    using r(5) ledger_okD(2) [OF ok] set_update_subset_insert [of "rows s" k "advanced r"] by (auto simp: r(1))
  moreover have "dl_lastImportedRawOrdinal s' = dl_lastImportedRawOrdinal s"
    "dl_lastImportedSpanOrdinal s' = dl_lastImportedSpanOrdinal s"
    "dl_lastImportedSourceOrdinal s' = dl_lastImportedSourceOrdinal s"
    using st by (simp_all add: stepped_def)
  ultimately show "ledger_ok s'"
    using ok r(2) unfolding ledger_ok_def m i by simp
qed

lemma cancelled_rows:
  assumes ok: "ledger_ok s" and c: "cancelled s e s'"
  shows "rows s' = butlast (rows s)" and "shape_ok s'" and "rows s \<noteq> []"
    and "dr_identity (List.last (rows s)) = de_identity e"
    and "dr_phase (List.last (rows s)) \<in> {PhPlanned, PhAdmitted}"
proof -
  note sh = ledger_okD(1) [OF ok]
  from c have n: "dl_recordCount s \<noteq> 0" by (simp add: cancelled_def)
  show "rows s' = butlast (rows s)" and "shape_ok s'"
    using removeRow_rows [OF sh n] c by (simp_all add: cancelled_def)
  show ne: "rows s \<noteq> []" using sh n by (metis length_rows length_0_conv)
  have l: "List.last (rows s) = dl_records s ! (dl_recordCount s - 1)"
    using ne sh n by (simp add: last_conv_nth)
  have "findDirectSource s (de_identity e) = Some (dl_recordCount s - 1)" using c by (simp add: cancelled_def)
  from findDirectSource_Some(2) [OF sh this] show "dr_identity (List.last (rows s)) = de_identity e"
    by (simp add: l)
  show "dr_phase (List.last (rows s)) \<in> {PhPlanned, PhAdmitted}" using c by (simp add: cancelled_def l)
qed

lemma restoreImported_front:
  assumes "shape_ok s"
  shows "(dl_lastImportedRawOrdinal (restoreImported s), dl_lastImportedSpanOrdinal (restoreImported s),
     dl_lastImportedSourceOrdinal (restoreImported s)) = front (map dr_identity (rows s))"
proof (cases "dl_recordCount s = 0")
  case True
  then show ?thesis by (simp add: restoreImported_def rows_def)
next
  case False
  then have "rows s \<noteq> []" using assms by (metis length_rows length_0_conv)
  moreover from this have "List.last (rows s) = dl_records s ! (dl_recordCount s - 1)"
    using assms False by (simp add: last_conv_nth)
  ultimately show ?thesis
    using False by (simp add: restoreImported_def front_def last_map ordinals_def)
qed

lemma restoreImported_rows [simp]: "rows (restoreImported s) = rows s" "shape_ok (restoreImported s) = shape_ok s"
  by (simp_all add: restoreImported_def rows_def shape_ok_def)

lemma cancelled_ok:
  assumes ok: "ledger_ok s" and c: "cancelled s e s'"
  shows "ledger_ok s'"
proof -
  note r = cancelled_rows [OF ok c]
  have "\<forall>x \<in> set (rows s'). row_ok x" using ledger_okD(2) [OF ok] in_set_butlastD by (fastforce simp: r(1))
  moreover have "one_owner (map key_of (rows s'))" "in_order (map dr_identity (rows s'))"
    using prefix_all_butlast ledger_okD(3,4) [OF ok] by (simp_all add: r(1) map_butlast)
  moreover obtain t where t: "s' = restoreImported t" using c by (auto simp: cancelled_def)
  with restoreImported_front [of t] r(2) have
    "(dl_lastImportedRawOrdinal s', dl_lastImportedSpanOrdinal s', dl_lastImportedSourceOrdinal s') =
       front (map dr_identity (rows s'))" by simp
  ultimately show ?thesis using r(2) by (simp add: ledger_ok_def)
qed

lemma reduce_ok:
  "ledger_ok s \<Longrightarrow> ledger_ok (fst (reduceDirectSourceLifecycle s e))"
  using reduce_result [of s e] opened_ok [of s e] stepped_ok(1) [of s e] cancelled_ok [of s e] by metis

end
