(* ===== verification/Q_Direct_Runs.thy ===== *)
theory Q_Direct_Runs
  imports Q_Direct_Correct
begin

text \<open>
  Runs of the lifecycle reducer, from the empty ledger, by single events and by batches, and what
  holds of every run: the history of each source is a word of the protocol, publications and
  reclamations are in logical order, a cancelled admission leaves no trace, and the ledger keeps a
  row for every source ever published.
\<close>

section \<open>Runs\<close>

text \<open>The accepted events so far, in order, and the ledger they lead to.\<close>

inductive lifecycle_run :: "DirectSourceLifecycleEvent list \<Rightarrow> DirectSourceLifecycleState \<Rightarrow> bool" where
  start: "lifecycle_run [] newLifecycleState"
| single: "lifecycle_run tr s \<Longrightarrow> reduceDirectSourceLifecycle s e = (s', err) \<Longrightarrow>
    lifecycle_run (tr @ (if err = LeNone then [e] else [])) s'"
| batch: "lifecycle_run tr s \<Longrightarrow> reduceDirectSourceLifecycleBatch s es one = (s', err) \<Longrightarrow>
    lifecycle_run (tr @ (if err = LeNone then es else [])) s'"

inductive accepted_run :: "DirectSourceLifecycleEvent list \<Rightarrow> DirectSourceLifecycleState \<Rightarrow> bool" where
  accepted_start: "accepted_run [] newLifecycleState"
| accepted_step: "accepted_run tr s \<Longrightarrow> reduceDirectSourceLifecycle s e = (s', LeNone) \<Longrightarrow> accepted_run (tr @ [e]) s'"

lemma accepted_run_ok: "accepted_run tr s \<Longrightarrow> ledger_ok s"
proof (induction rule: accepted_run.induct)
  case (accepted_step tr s e s')
  then show ?case using reduce_ok [of s e] by simp
qed (rule newLifecycleState_ok)

lemma accepted_run_applyAll:
  "accepted_run tr s \<Longrightarrow> applyAll s es = Inr s' \<Longrightarrow> accepted_run (tr @ es) s'"
proof (induction es arbitrary: tr s)
  case (Cons e es)
  obtain t where t: "reduceDirectSourceLifecycle s e = (t, LeNone)" and r: "applyAll t es = Inr s'"
    using Cons.prems(2) by (auto split: prod.splits if_splits)
  show ?case using Cons.IH [OF accepted_step [OF Cons.prems(1) t] r] by simp
qed simp

lemma batch_result:
  "(snd (reduceDirectSourceLifecycleBatch s es one) = LeNone \<and>
      applyAll s es = Inr (fst (reduceDirectSourceLifecycleBatch s es one))) \<or>
   (snd (reduceDirectSourceLifecycleBatch s es one) \<noteq> LeNone \<and> fst (reduceDirectSourceLifecycleBatch s es one) = s)"
proof -
  have "err \<noteq> LeNone" if "applyAll t es = Inl err" for t err
    using that by (induction es arbitrary: t) (auto split: prod.splits if_splits)
  then show ?thesis
    by (auto simp: reduceDirectSourceLifecycleBatch_def applyBatch_def split: sum.split option.split)
qed

lemma lifecycle_run_accepted: "lifecycle_run tr s \<Longrightarrow> accepted_run tr s"
proof (induction rule: lifecycle_run.induct)
  case (single tr s e s' err)
  then show ?case
    using reduce_result [OF accepted_run_ok [OF single.IH], of e] accepted_step [of tr s e s'] by auto
next
  case (batch tr s es one s' err)
  then show ?case
    using batch_result [of s es one] accepted_run_applyAll [of tr s es s'] by auto
qed (rule accepted_start)

lemma lifecycle_run_ok: "lifecycle_run tr s \<Longrightarrow> ledger_ok s"
  using lifecycle_run_accepted accepted_run_ok by blast

section \<open>The row of a source\<close>

definition row_of :: "DirectSourceLifecycleState \<Rightarrow> DirectSourceIdentity \<Rightarrow> DirectSourceLifecycleRecord" where
  "row_of s i = (case findDirectSource s i of None \<Rightarrow> empty_row | Some k \<Rightarrow> dl_records s ! k)"

abbreviation phase_of :: "DirectSourceLifecycleState \<Rightarrow> DirectSourceIdentity \<Rightarrow> DirectSourcePhase" where
  "phase_of s i \<equiv> dr_phase (row_of s i)"

lemma row_of_mem:
  assumes "ledger_ok s" "r \<in> set (rows s)"
  shows "row_of s (dr_identity r) = r"
proof -
  have "findDirectSource s (dr_identity r) \<noteq> None" using assms(2) by (simp add: findDirectSource_None)
  then obtain k where k: "findDirectSource s (dr_identity r) = Some k" by blast
  note f = findDirectSource_Some [OF ledger_okD(1) [OF assms(1)] k]
  have "inj_on dr_identity (set (rows s))"
    using ledger_okD(5) [OF assms(1)] by (simp add: distinct_map)
  then have "dl_records s ! k = r" using f assms(2) by (auto dest: inj_onD)
  then show ?thesis by (simp add: row_of_def k)
qed

lemma row_of_none: "i \<notin> dr_identity ` set (rows s) \<Longrightarrow> row_of s i = empty_row"
  by (simp add: row_of_def findDirectSource_None [symmetric])

lemma row_of_cases:
  assumes "ledger_ok s"
  obtains (absent) "i \<notin> dr_identity ` set (rows s)" "row_of s i = empty_row"
    | (present) r where "r \<in> set (rows s)" "dr_identity r = i" "row_of s i = r" "row_ok r" "dr_phase r \<noteq> PhEmpty"
proof (cases "i \<in> dr_identity ` set (rows s)")
  case True
  then obtain r where r: "r \<in> set (rows s)" "dr_identity r = i" by blast
  moreover from this have ro: "row_ok r" using ledger_okD(2) [OF assms] by blast
  moreover from ro have "dr_phase r \<noteq> PhEmpty" by (auto simp: row_ok_def phase_ok_def)
  ultimately show ?thesis using present row_of_mem [OF assms r(1)] by simp
qed (use absent row_of_none in blast)

lemma empty_row_phase [simp]: "dr_phase empty_row = PhEmpty"
  by (simp add: empty_row_def)

lemma phase_of_empty: "ledger_ok s \<Longrightarrow> phase_of s i = PhEmpty \<longleftrightarrow> i \<notin> dr_identity ` set (rows s)"
  by (rule row_of_cases [of s i]) auto

text \<open>An accepted event moves its own source along the protocol and no other.\<close>

lemma accepted_phase:
  assumes ok: "ledger_ok s" and red: "reduceDirectSourceLifecycle s e = (s', LeNone)"
  shows "protocol (phase_of s (de_identity e)) (de_action e) = Some (phase_of s' (de_identity e))"
    and "i \<noteq> de_identity e \<Longrightarrow> row_of s' i = row_of s i"
proof -
  have ok': "ledger_ok s'" using reduce_ok [OF ok, of e] red by simp
  have v: "event_valid e" and c: "opened s e s' \<or> (\<exists>k r. stepped s e k r s') \<or> cancelled s e s'"
    using reduce_result [OF ok, of e] red by simp_all
  from c have "protocol (phase_of s (de_identity e)) (de_action e) = Some (phase_of s' (de_identity e)) \<and>
    (\<forall>i. i \<noteq> de_identity e \<longrightarrow> row_of s' i = row_of s i)"
  proof (elim disjE exE)
    assume o: "opened s e s'"
    note r = opened_rows(1) [OF ok o]
    have "row_of s (de_identity e) = empty_row"
      using o by (simp add: row_of_def opened_def)
    moreover have "row_of s' (de_identity e) = newRow s e"
      using row_of_mem [OF ok', of "newRow s e"] by (simp add: r newRow_simps)
    moreover have "row_of s' i = row_of s i" if "i \<noteq> de_identity e" for i
      using that by (rule_tac row_of_cases [OF ok, of i])
        (auto simp: r newRow_simps row_of_none intro!: row_of_mem [OF ok'])
    ultimately show ?thesis
      using o by (auto simp: newRow_simps protocol_def from_phase_def opened_def opens_def)
  next
    fix k r assume st: "stepped s e k r s'"
    note f = stepped_rows [OF ok v st]
    have l: "k < length (rows s)" using f(3) ledger_okD(1) [OF ok] by simp
    have i: "dr_identity r = de_identity e" using f(6,7) by (simp add: key_of_def)
    have "row_of s (de_identity e) = dl_records s ! k" using st by (simp add: row_of_def stepped_def)
    moreover have "row_of s' (de_identity e) = advanced r"
      using row_of_mem [OF ok', of "advanced r"] l by (simp add: f(1) i set_update_memI)
    moreover have "row_of s' j = row_of s j" if j: "j \<noteq> de_identity e" for j
    proof (rule row_of_cases [OF ok, of j])
      assume "j \<notin> dr_identity ` set (rows s)" "row_of s j = empty_row"
      moreover have "dr_identity ` set (rows s') = dr_identity ` set (rows s)"
        using stepped_ok(2) [OF ok v st] by (metis keys_map list.set_map)
      ultimately show ?thesis by (simp add: row_of_none)
    next
      fix q assume q: "q \<in> set (rows s)" "dr_identity q = j" "row_of s j = q"
      then obtain n where n: "n < length (rows s)" "rows s ! n = q" by (auto simp: in_set_conv_nth)
      have "n \<noteq> k" using n q(2) j f(7) by auto
      then have "rows s' ! n = q" using n l by (simp add: f(1))
      then have "q \<in> set (rows s')" using n f(1) by (metis length_list_update nth_mem)
      then show ?thesis using row_of_mem [OF ok', of q] q by simp
    qed
    ultimately show ?thesis
      using stepRow_phase(2) [OF f(4), of s e r] st by (simp add: stepped_def)
  next
    assume c: "cancelled s e s'"
    note r = cancelled_rows [OF ok c]
    obtain q where q: "rows s = rows s' @ [q]" and qi: "dr_identity q = de_identity e"
      and qp: "dr_phase q \<in> {PhPlanned, PhAdmitted}"
      using r(1,3,4,5) append_butlast_last_id [OF r(3)] by metis
    have d: "de_identity e \<notin> dr_identity ` set (rows s')"
      using ledger_okD(5) [OF ok] by (simp add: q qi)
    have "row_of s (de_identity e) = q" using row_of_mem [OF ok, of q] by (simp add: q qi)
    moreover have "row_of s' (de_identity e) = empty_row" using d by (rule row_of_none)
    moreover have "row_of s' i = row_of s i" if "i \<noteq> de_identity e" for i
      using that by (rule_tac row_of_cases [OF ok', of i])
        (auto simp: q qi row_of_none intro!: row_of_mem [OF ok, symmetric])
    ultimately show ?thesis
      using qp c by (auto simp: protocol_def from_phase_def cancelled_def)
  qed
  then show "protocol (phase_of s (de_identity e)) (de_action e) = Some (phase_of s' (de_identity e))"
    and "i \<noteq> de_identity e \<Longrightarrow> row_of s' i = row_of s i" by blast+
qed

section \<open>Histories\<close>

definition actions_of :: "DirectSourceIdentity \<Rightarrow> DirectSourceLifecycleEvent list \<Rightarrow> DirectSourceAction list" where
  "actions_of i tr = map de_action (filter (\<lambda>e. de_identity e = i) tr)"

definition sources_of :: "DirectSourceAction \<Rightarrow> DirectSourceLifecycleEvent list \<Rightarrow> DirectSourceIdentity list" where
  "sources_of a tr = map de_identity (filter (\<lambda>e. de_action e = a) tr)"

fun protocol_run :: "DirectSourcePhase \<Rightarrow> DirectSourceAction list \<Rightarrow> DirectSourcePhase option" where
  "protocol_run ph [] = Some ph"
| "protocol_run ph (a # as) = (case protocol ph a of None \<Rightarrow> None | Some ph' \<Rightarrow> protocol_run ph' as)"

lemma protocol_run_append:
  "protocol_run ph (as @ bs) = (case protocol_run ph as of None \<Rightarrow> None | Some ph' \<Rightarrow> protocol_run ph' bs)"
  by (induction "as" arbitrary: ph) (auto split: option.split)

lemma actions_of_simps [simp]:
  "actions_of i [] = []" "actions_of i (xs @ ys) = actions_of i xs @ actions_of i ys"
  "actions_of i (e # xs) = (if de_identity e = i then de_action e # actions_of i xs else actions_of i xs)"
  by (simp_all add: actions_of_def)

lemma sources_of_simps [simp]:
  "sources_of a [] = []" "sources_of a (xs @ ys) = sources_of a xs @ sources_of a ys"
  "sources_of a (e # xs) = (if de_action e = a then de_identity e # sources_of a xs else sources_of a xs)"
  by (simp_all add: sources_of_def)

lemma history_protocol:
  "accepted_run tr s \<Longrightarrow> protocol_run PhEmpty (actions_of i tr) = Some (phase_of s i)"
proof (induction rule: accepted_run.induct)
  case accepted_start
  show ?case by (simp add: row_of_def newLifecycleState_def findDirectSource_def rows_def)
next
  case (accepted_step tr s e s')
  note ph = accepted_phase [OF accepted_run_ok [OF accepted_step.hyps(1)] accepted_step.hyps(2)]
  show ?case
    using accepted_step.IH ph(1) ph(2) [of i] by (cases "de_identity e = i") (auto simp: protocol_run_append)
qed

text \<open>The frontiers are those of the last publication and the last reclamation.\<close>

lemma frontier_step:
  assumes ok: "ledger_ok s" and red: "reduceDirectSourceLifecycle s e = (s', LeNone)"
  shows "(dl_lastPublishedRawOrdinal s', dl_lastPublishedSpanOrdinal s', dl_lastPublishedSourceOrdinal s') =
      (if de_action e = DaPublish then ordinals (de_identity e)
       else (dl_lastPublishedRawOrdinal s, dl_lastPublishedSpanOrdinal s, dl_lastPublishedSourceOrdinal s))"
    and "(dl_lastReclaimedRawOrdinal s', dl_lastReclaimedSpanOrdinal s', dl_lastReclaimedSourceOrdinal s') =
      (if de_action e = DaReclaim then ordinals (de_identity e)
       else (dl_lastReclaimedRawOrdinal s, dl_lastReclaimedSpanOrdinal s, dl_lastReclaimedSourceOrdinal s))"
    and "de_action e = DaPublish \<Longrightarrow> afterPublished s (de_identity e)"
    and "de_action e = DaReclaim \<Longrightarrow> afterReclaimed s (de_identity e)"
proof -
  from reduce_result [OF ok, of e] red
  have c: "opened s e s' \<or> (\<exists>k r. stepped s e k r s') \<or> cancelled s e s'" by simp
  show "(dl_lastPublishedRawOrdinal s', dl_lastPublishedSpanOrdinal s', dl_lastPublishedSourceOrdinal s') =
      (if de_action e = DaPublish then ordinals (de_identity e)
       else (dl_lastPublishedRawOrdinal s, dl_lastPublishedSpanOrdinal s, dl_lastPublishedSourceOrdinal s))"
    and "(dl_lastReclaimedRawOrdinal s', dl_lastReclaimedSpanOrdinal s', dl_lastReclaimedSourceOrdinal s') =
      (if de_action e = DaReclaim then ordinals (de_identity e)
       else (dl_lastReclaimedRawOrdinal s, dl_lastReclaimedSpanOrdinal s, dl_lastReclaimedSourceOrdinal s))"
    using c by (auto simp: opened_def opens_def appendRow_def stepped_def moveFrontier_def cancelled_def
        restoreImported_def ordinals_def split: DirectSourceAction.splits)
  show "de_action e = DaPublish \<Longrightarrow> afterPublished s (de_identity e)"
    and "de_action e = DaReclaim \<Longrightarrow> afterReclaimed s (de_identity e)"
    using c by (auto simp: opened_def opens_def stepped_def stepRow_def cancelled_def split: if_splits)
qed

lemma history_frontiers:
  "accepted_run tr s \<Longrightarrow>
     in_order (sources_of DaPublish tr) \<and> in_order (sources_of DaReclaim tr) \<and>
     (dl_lastPublishedRawOrdinal s, dl_lastPublishedSpanOrdinal s, dl_lastPublishedSourceOrdinal s) =
       front (sources_of DaPublish tr) \<and>
     (dl_lastReclaimedRawOrdinal s, dl_lastReclaimedSpanOrdinal s, dl_lastReclaimedSourceOrdinal s) =
       front (sources_of DaReclaim tr)"
proof (induction rule: accepted_run.induct)
  case accepted_start
  show ?case by (simp add: newLifecycleState_def)
next
  case (accepted_step tr s e s')
  note fs = frontier_step [OF accepted_run_ok [OF accepted_step.hyps(1)] accepted_step.hyps(2)]
  from accepted_step.IH have p: "in_order (sources_of DaPublish tr)" "in_order (sources_of DaReclaim tr)"
    "front (sources_of DaPublish tr) =
       (dl_lastPublishedRawOrdinal s, dl_lastPublishedSpanOrdinal s, dl_lastPublishedSourceOrdinal s)"
    "front (sources_of DaReclaim tr) =
       (dl_lastReclaimedRawOrdinal s, dl_lastReclaimedSpanOrdinal s, dl_lastReclaimedSourceOrdinal s)" by simp_all
  have "follows (front (sources_of DaPublish tr)) (de_identity e)" if "de_action e = DaPublish"
    using fs(3) [OF that] by (simp add: p afterPublished_def follows_def)
  moreover have "follows (front (sources_of DaReclaim tr)) (de_identity e)" if "de_action e = DaReclaim"
    using fs(4) [OF that] by (simp add: p afterReclaimed_def follows_def)
  ultimately show ?case using fs(1,2) p by auto
qed

section \<open>Words of the protocol\<close>

lemma protocol_run_snoc:
  "protocol_run ph (as @ [a]) = Some t \<longleftrightarrow> (\<exists>p. protocol_run ph as = Some p \<and> protocol p a = Some t)"
  by (auto simp: protocol_run_append split: option.splits)

lemma protocol_came_by:
  assumes "protocol_run PhEmpty as = Some t" "t \<noteq> PhEmpty"
  obtains bs a p where "as = bs @ [a]" "protocol_run PhEmpty bs = Some p" "protocol p a = Some t"
  using assms by (cases "as" rule: rev_cases) (auto simp: protocol_run_snoc)

text \<open>The only way to the restored phase.\<close>

lemma protocol_last_step:
  "protocol p a = Some PhRestored \<Longrightarrow> p = PhDetached \<and> a = DaRestore"
  "protocol p a = Some PhDetached \<Longrightarrow> p = PhCompleted \<and> a = DaDetach"
  "protocol p a = Some PhCompleted \<Longrightarrow> p = PhEncoded \<and> a = DaComplete"
  "protocol p a = Some PhEncoded \<Longrightarrow> p = PhPublished \<and> a = DaEncode"
  "protocol p a = Some PhPublished \<Longrightarrow> p = PhReceiptOwned \<and> a = DaPublish"
  "protocol p a = Some PhReceiptOwned \<Longrightarrow> p = PhEffected \<and> a = DaDestinationReceipt"
  "protocol p a = Some PhEffected \<Longrightarrow> p = PhAdmitted \<and> a = DaEffectCut"
  "protocol p a = Some PhAdmitted \<Longrightarrow> p \<in> {PhEmpty, PhPlanned} \<and> a = DaAdmitWitness"
  by (cases a; auto simp: protocol_def from_phase_def split: if_splits)+

definition path_to_restored :: "DirectSourceAction list" where
  "path_to_restored = [DaAdmitWitness, DaEffectCut, DaDestinationReceipt, DaPublish, DaEncode,
     DaComplete, DaDetach, DaRestore]"

lemma restored_word:
  assumes "protocol_run PhEmpty as = Some PhRestored"
  shows "\<exists>bs. as = bs @ path_to_restored"
proof -
  have came: "\<exists>bs a p. as = bs @ [a] \<and> protocol_run PhEmpty bs = Some p \<and> protocol p a = Some t"
    if "protocol_run PhEmpty as = Some t" "t \<noteq> PhEmpty" for "as" t
    using protocol_came_by [OF that] by blast
  from came [OF assms] obtain b1 where 1: "as = b1 @ [DaRestore]" "protocol_run PhEmpty b1 = Some PhDetached"
    by (auto dest!: protocol_last_step)
  from came [OF 1(2)] obtain b2 where 2: "b1 = b2 @ [DaDetach]" "protocol_run PhEmpty b2 = Some PhCompleted"
    by (auto dest!: protocol_last_step)
  from came [OF 2(2)] obtain b3 where 3: "b2 = b3 @ [DaComplete]" "protocol_run PhEmpty b3 = Some PhEncoded"
    by (auto dest!: protocol_last_step)
  from came [OF 3(2)] obtain b4 where 4: "b3 = b4 @ [DaEncode]" "protocol_run PhEmpty b4 = Some PhPublished"
    by (auto dest!: protocol_last_step)
  from came [OF 4(2)] obtain b5 where 5: "b4 = b5 @ [DaPublish]" "protocol_run PhEmpty b5 = Some PhReceiptOwned"
    by (auto dest!: protocol_last_step)
  from came [OF 5(2)] obtain b6 where 6: "b5 = b6 @ [DaDestinationReceipt]" "protocol_run PhEmpty b6 = Some PhEffected"
    by (auto dest!: protocol_last_step)
  from came [OF 6(2)] obtain b7 where 7: "b6 = b7 @ [DaEffectCut]" "protocol_run PhEmpty b7 = Some PhAdmitted"
    by (auto dest!: protocol_last_step)
  from came [OF 7(2)] obtain b8 where 8: "b7 = b8 @ [DaAdmitWitness]"
    by (auto dest!: protocol_last_step)
  show ?thesis by (rule exI [of _ b8]) (simp add: 1 2 3 4 5 6 7 8 path_to_restored_def)
qed

text \<open>Once published, a source stays in the ledger.\<close>

definition afterEmission :: "DirectSourcePhase \<Rightarrow> bool" where
  "afterEmission p = (p \<in> {PhPublished, PhEncoded, PhCompleted, PhDetached, PhRestored,
     PhPoisonAbandoned, PhReclaimed, PhFailStopped})"

lemma afterEmission_step:
  "protocol p a = Some q \<Longrightarrow> afterEmission p \<or> a = DaPublish \<Longrightarrow> afterEmission q"
  by (cases a) (auto simp: protocol_def from_phase_def afterEmission_def split: if_splits)

lemma afterEmission_run:
  "protocol_run p as = Some q \<Longrightarrow> afterEmission p \<or> DaPublish \<in> set as \<Longrightarrow> afterEmission q"
proof (induction "as" arbitrary: p)
  case (Cons a "as")
  then obtain r where "protocol p a = Some r" "protocol_run r as = Some q" by (auto split: option.splits)
  with Cons show ?case using afterEmission_step [of p a r] by auto
qed simp

section \<open>Credit\<close>

lemma key_equal_sym: "directPhysicalCreditKeyEqual i j = directPhysicalCreditKeyEqual j i"
  by (auto simp: directPhysicalCreditKeyEqual_def)

lemma key_equal_trans:
  "directPhysicalCreditKeyEqual i j \<Longrightarrow> directPhysicalCreditKeyEqual j k \<Longrightarrow> directPhysicalCreditKeyEqual i k"
  by (simp add: directPhysicalCreditKeyEqual_def)

lemma one_owner_count:
  "one_owner ks \<Longrightarrow> length (filter (\<lambda>k. snd k \<and> directPhysicalCreditKeyEqual (fst k) i) ks) =
     (if \<exists>k \<in> set ks. directPhysicalCreditKeyEqual (fst k) i then 1 else 0)"
proof (induction ks rule: rev_induct)
  case (snoc k ks)
  let ?own = "\<lambda>k. snd k \<and> directPhysicalCreditKeyEqual (fst k) i"
  have o: "one_owner ks" and w: "snd k \<longleftrightarrow> \<not> owned_before ks (fst k)" using snoc.prems by simp_all
  show ?case
  proof (cases "directPhysicalCreditKeyEqual (fst k) i")
    case False
    then show ?thesis using snoc.IH [OF o] by auto
  next
    case True
    have "owned_before ks (fst k) \<longleftrightarrow> (\<exists>q \<in> set ks. ?own q)"
      unfolding owned_before_def using True key_equal_sym key_equal_trans by meson
    also have "\<dots> \<longleftrightarrow> filter ?own ks \<noteq> []" by (auto simp: filter_empty_conv)
    also have "\<dots> \<longleftrightarrow> length (filter ?own ks) = 1" using snoc.IH [OF o] by (auto split: if_splits)
    finally show ?thesis using True w snoc.IH [OF o] by (auto split: if_splits)
  qed
qed simp

lemma owner_count:
  assumes "ledger_ok s" "r \<in> set (rows s)"
  shows "length (filter (\<lambda>q. dr_physicalCreditOwner q \<and>
      directPhysicalCreditKeyEqual (dr_identity q) (dr_identity r)) (rows s)) = 1"
proof -
  have "\<exists>k \<in> set (map key_of (rows s)). directPhysicalCreditKeyEqual (fst k) (dr_identity r)"
    using assms(2) by (auto simp: key_of_def directPhysicalCreditKeyEqual_def)
  with one_owner_count [OF ledger_okD(3) [OF assms(1)], of "dr_identity r"]
  show ?thesis by (simp add: filter_map comp_def key_of_def)
qed

lemma conserved_unat:
  assumes "directCreditConserved r"
  shows "unat (dr_retainedCredit r) + unat (dr_stagedCredit r) + unat (dr_detachedCredit r) =
    unat (dr_aggregateCredit r)"
  using assms unat_sum [of "dr_retainedCredit r" "dr_stagedCredit r"]
    unat_sum [of "dr_retainedCredit r + dr_stagedCredit r" "dr_detachedCredit r"]
  by (simp add: directCreditConserved_def)

lemma settled_credit:
  assumes "row_ok r" "dr_phase r \<in> {PhRestored, PhReclaimed, PhPoisonAbandoned}"
  shows "dr_retainedCredit r = dr_aggregateCredit r"
  using assms by (auto simp: row_ok_def phase_ok_def settled_def directCreditConserved_def)

section \<open>Batches\<close>

definition one_group :: "DirectSourceLifecycleEvent list \<Rightarrow> bool" where
  "one_group es = (es \<noteq> [] \<and> length (filter de_physicalCreditOwner es) = 1 \<and>
     (\<forall>e \<in> set es. directPhysicalCreditKeyEqual (de_identity (hd es)) (de_identity e)))"

lemma batchOwners_result:
  "batchOwners i es n = (if \<forall>e \<in> set es. directPhysicalCreditKeyEqual i (de_identity e)
     then Some (n + length (filter de_physicalCreditOwner es)) else None)"
  by (induction es arbitrary: n) auto

lemma batch_accepted:
  "snd (reduceDirectSourceLifecycleBatch s es one) = LeNone \<longleftrightarrow>
     (one \<longrightarrow> one_group es) \<and> (\<exists>s'. applyAll s es = Inr s')"
proof -
  have "err \<noteq> LeNone" if "applyAll t es = Inl err" for t err
    using that by (induction es arbitrary: t) (auto split: prod.splits if_splits)
  then show ?thesis
    by (cases "applyAll s es")
      (auto simp: reduceDirectSourceLifecycleBatch_def applyBatch_def one_group_def batchOwners_result)
qed

section \<open>Cancelling an admission\<close>

definition cancelEvent :: "DirectSourceLifecycleEvent \<Rightarrow> DirectSourceLifecycleEvent" where
  "cancelEvent e = e\<lparr>de_action := DaRollbackPreEffect, de_partialAdoption := False\<rparr>"

lemma restoreImported_same:
  assumes "ledger_ok s"
  shows "restoreImported s = s"
proof -
  from restoreImported_front [OF ledger_okD(1) [OF assms]] assms
  have "(dl_lastImportedRawOrdinal (restoreImported s), dl_lastImportedSpanOrdinal (restoreImported s),
      dl_lastImportedSourceOrdinal (restoreImported s)) =
     (dl_lastImportedRawOrdinal s, dl_lastImportedSpanOrdinal s, dl_lastImportedSourceOrdinal s)"
    by (simp add: ledger_ok_def)
  then show ?thesis
    by (intro DirectSourceLifecycleState.equality) (simp_all add: restoreImported_def split: if_splits)
qed

lemma restoreImported_cong:
  "dl_records s = dl_records t \<Longrightarrow> dl_recordCount s = dl_recordCount t \<Longrightarrow>
   dl_lastPublishedRawOrdinal s = dl_lastPublishedRawOrdinal t \<Longrightarrow>
   dl_lastPublishedSpanOrdinal s = dl_lastPublishedSpanOrdinal t \<Longrightarrow>
   dl_lastPublishedSourceOrdinal s = dl_lastPublishedSourceOrdinal t \<Longrightarrow>
   dl_lastReclaimedRawOrdinal s = dl_lastReclaimedRawOrdinal t \<Longrightarrow>
   dl_lastReclaimedSpanOrdinal s = dl_lastReclaimedSpanOrdinal t \<Longrightarrow>
   dl_lastReclaimedSourceOrdinal s = dl_lastReclaimedSourceOrdinal t \<Longrightarrow>
   restoreImported s = restoreImported t"
  by (intro DirectSourceLifecycleState.equality) (simp_all add: restoreImported_def)

lemma cancel_admission:
  assumes ok: "ledger_ok s" and new: "findDirectSource s (de_identity e) = None"
    and red: "reduceDirectSourceLifecycle s e = (s', LeNone)" and a: "de_action e = DaAdmitWitness"
  shows "reduceDirectSourceLifecycle s' (cancelEvent e) = (s, LeNone)"
proof -
  have v: "event_valid e" and o: "opened s e s'"
    using reduce_result [OF ok, of e] red new by (auto simp: stepped_def cancelled_def)
  note r = opened_rows [OF ok o]
  have s': "s' = appendRow s (de_identity e) (newRow s e)" and n: "dl_recordCount s \<noteq> 256"
    using o by (simp_all add: opened_def opens_def)
  have l: "dl_recordCount s < length (dl_records s)" using ledger_okD(1) [OF ok] n by (simp add: shape_ok_def)
  have "de_identity e \<notin> dr_identity ` set (rows s)" using new by (simp add: findDirectSource_None)
  moreover have "scanSource (de_identity e) (xs @ [newRow s e]) k = Some (k + length xs)"
    if "de_identity e \<notin> dr_identity ` set xs" for xs k
    using that by (induction xs arbitrary: k) (auto simp: newRow_simps)
  ultimately have scan: "scanSource (de_identity e) (rows s @ [newRow s e]) 0 = Some (0 + length (rows s))" by blast
  have find: "findDirectSource s' (de_identity e) = Some (dl_recordCount s)"
    using scan ledger_okD(1) [OF ok] by (simp add: findDirectSource_def r(1))
  have row: "dl_records s' ! dl_recordCount s = newRow s e" using l by (simp add: s' appendRow_def)
  have "dl_records s ! dl_recordCount s = empty_row" using spare_slot [OF ledger_okD(1) [OF ok] n] .
  then have "\<not> dr_effectStarted (newRow s e)" "\<not> dr_witnessConsumed (newRow s e)" "dr_phase (newRow s e) = PhAdmitted"
    "rowMatches (newRow s e) (cancelEvent e)"
    and undo: "(dl_records s)[dl_recordCount s := empty_row] = dl_records s"
    using a by (simp_all add: newRow_def openRow_def empty_row_def rowMatches_def cancelEvent_def)
      (metis list_update_id)
  moreover have "restoreImported (s'\<lparr>dl_records := (dl_records s')[dl_recordCount s' - 1 := empty_row],
      dl_recordCount := dl_recordCount s' - 1\<rparr>) = restoreImported s"
    by (rule restoreImported_cong) (simp_all add: s' appendRow_def undo)
  ultimately have "rollbackRow s' (dl_recordCount s) = (s, LeNone)"
    using row restoreImported_same [OF ok] by (simp add: rollbackRow_def) (simp add: s' appendRow_def)
  then show ?thesis
    using v find row \<open>rowMatches (newRow s e) (cancelEvent e)\<close>
    by (simp add: reduceDirectSourceLifecycle_def event_valid_def cancelEvent_def directEventCreditValid_def)
qed

section \<open>Finishing a source\<close>

text \<open>The event that an owner of the row forms from it: only the action and the credit differ.\<close>

definition rowEvent :: "DirectSourceLifecycleRecord \<Rightarrow> DirectSourceAction \<Rightarrow> u64 \<Rightarrow> u64 \<Rightarrow> u64 \<Rightarrow>
    DirectSourceLifecycleEvent" where
  "rowEvent r a retained staged detached = \<lparr>de_identity = dr_identity r, de_action = a,
     de_controlMode = dr_controlMode r, de_creditKind = dr_creditKind r,
     de_schemaRevision = dr_schemaRevision r, de_witnessGeneration = dr_witnessGeneration r,
     de_retainedCredit = retained, de_stagedCredit = staged, de_detachedCredit = detached,
     de_physicalCreditOwner = dr_physicalCreditOwner r, de_hasPresent = dr_hasPresent r,
     de_partialAdoption = False\<rparr>"

definition keepEvent :: "DirectSourceLifecycleRecord \<Rightarrow> DirectSourceAction \<Rightarrow> DirectSourceLifecycleEvent" where
  "keepEvent r a = rowEvent r a (dr_retainedCredit r) (dr_stagedCredit r) (dr_detachedCredit r)"

definition finishEvents :: "DirectSourceLifecycleRecord \<Rightarrow> DirectSourceLifecycleEvent list" where
  "finishEvents r = map (keepEvent r) [DaEffectCut, DaDestinationReceipt, DaPublish, DaEncode, DaComplete] @
     [rowEvent r DaDetach 0 0 (dr_aggregateCredit r), rowEvent r DaRestore (dr_aggregateCredit r) 0 0,
      rowEvent r DaReclaim (dr_aggregateCredit r) 0 0]"

text \<open>One accepted step, described by the row it leaves.\<close>

lemma step_accepts:
  assumes ok: "ledger_ok s" and row: "row_of s i = r" "dr_phase r \<noteq> PhEmpty" and i: "de_identity e = i"
    and e: "event_valid e" "rowMatches r e" "\<not> de_partialAdoption e"
      "de_action e \<notin> {DaImportRaw, DaRollbackPreEffect}"
    and st: "stepRow s r e = Inr r'"
  shows "\<exists>s'. reduceDirectSourceLifecycle s e = (s', LeNone) \<and> ledger_ok s' \<and> row_of s' i = advanced r' \<and>
    (de_action e \<noteq> DaPublish \<longrightarrow> (\<forall>j. afterPublished s' j = afterPublished s j)) \<and>
    (de_action e \<noteq> DaReclaim \<longrightarrow> (\<forall>j. afterReclaimed s' j = afterReclaimed s j))"
proof -
  obtain k where k: "findDirectSource s i = Some k" and r: "dl_records s ! k = r"
    using row by (auto simp: row_of_def split: option.splits)
  define s' where "s' = (moveFrontier s e)\<lparr>dl_records := (dl_records s)[k := advanced r']\<rparr>"
  note f = findDirectSource_Some [OF ledger_okD(1) [OF ok] k]
  have ro: "row_ok r" using f(3) ledger_okD(2) [OF ok] r by blast
  have "reduceDirectSourceLifecycle s e = advanceRow s k e"
    using e i k r by (simp add: reduceDirectSourceLifecycle_def event_valid_def)
  also have "advanceRow s k e = (s', LeNone)"
    using advanceRow_result [of s k e] ro e(1) st by (auto simp: r s'_def event_valid_def)
  finally have red: "reduceDirectSourceLifecycle s e = (s', LeNone)" .
  have ok': "ledger_ok s'" using reduce_ok [OF ok, of e] red by simp
  have "stepped s e k r' s'" using e i k r st by (simp add: stepped_def s'_def)
  note g = stepped_rows [OF ok e(1) this]
  have "advanced r' \<in> set (rows s')"
    using g(3) ledger_okD(1) [OF ok] by (simp add: g(1) set_update_memI)
  moreover have "dr_identity r' = i" using g(6,7) i by (simp add: key_of_def)
  ultimately have "row_of s' i = advanced r'" using row_of_mem [OF ok', of "advanced r'"] by simp
  with red ok' show ?thesis
    using frontier_step(1,2) [OF ok red] by (auto simp: afterPublished_def afterReclaimed_def)
qed

lemma rowEvent_simps [simp]:
  "de_identity (rowEvent r a x y z) = dr_identity r" "de_action (rowEvent r a x y z) = a"
  "de_partialAdoption (rowEvent r a x y z) = False" "de_retainedCredit (rowEvent r a x y z) = x"
  "de_stagedCredit (rowEvent r a x y z) = y" "de_detachedCredit (rowEvent r a x y z) = z"
  "de_witnessGeneration (rowEvent r a x y z) = dr_witnessGeneration r"
  "de_hasPresent (rowEvent r a x y z) = dr_hasPresent r"
  by (simp_all add: rowEvent_def)

definition like :: "DirectSourceLifecycleRecord \<Rightarrow> DirectSourceLifecycleRecord \<Rightarrow> bool" where
  "like r q = (dr_identity q = dr_identity r \<and> dr_schemaRevision q = dr_schemaRevision r \<and>
     dr_controlMode q = dr_controlMode r \<and> dr_creditKind q = dr_creditKind r \<and>
     dr_physicalCreditOwner q = dr_physicalCreditOwner r \<and> dr_aggregateCredit q = dr_aggregateCredit r \<and>
     dr_witnessGeneration q = dr_witnessGeneration r)"

definition at :: "DirectSourceLifecycleState \<Rightarrow> DirectSourceLifecycleRecord \<Rightarrow> DirectSourcePhase \<Rightarrow>
    u64 \<times> u64 \<times> u64 \<Rightarrow> bool" where
  "at s r ph c = (ledger_ok s \<and> like r (row_of s (dr_identity r)) \<and> dr_phase (row_of s (dr_identity r)) = ph \<and>
     (dr_retainedCredit (row_of s (dr_identity r)), dr_stagedCredit (row_of s (dr_identity r)),
      dr_detachedCredit (row_of s (dr_identity r))) = c)"

lemma walk_step:
  assumes at: "at s r ph c" "ph \<noteq> PhEmpty" and v: "row_ok r"
    and cv: "directEventCreditValid (rowEvent r a x y z)" and a: "a \<notin> {DaImportRaw, DaRollbackPreEffect}"
    and st: "\<And>q. row_ok q \<Longrightarrow> like r q \<Longrightarrow> dr_phase q = ph \<Longrightarrow>
        (dr_retainedCredit q, dr_stagedCredit q, dr_detachedCredit q) = c \<Longrightarrow>
      \<exists>q'. stepRow s q (rowEvent r a x y z) = Inr q' \<and> dr_phase q' = ph' \<and>
        dr_witnessGeneration q' = dr_witnessGeneration q \<and>
        (dr_retainedCredit q', dr_stagedCredit q', dr_detachedCredit q') = c'"
  shows "\<exists>s'. reduceDirectSourceLifecycle s (rowEvent r a x y z) = (s', LeNone) \<and> at s' r ph' c' \<and>
    (a \<noteq> DaPublish \<longrightarrow> (\<forall>j. afterPublished s' j = afterPublished s j)) \<and>
    (a \<noteq> DaReclaim \<longrightarrow> (\<forall>j. afterReclaimed s' j = afterReclaimed s j))"
proof -
  define q where "q = row_of s (dr_identity r)"
  have q: "ledger_ok s" "like r q" "dr_phase q = ph"
    "(dr_retainedCredit q, dr_stagedCredit q, dr_detachedCredit q) = c" using at(1) by (simp_all add: at_def q_def)
  have "row_ok q" by (rule row_of_cases [OF q(1), of "dr_identity r"]) (use q(3) at(2) q_def in auto)
  from st [OF this q(2,3,4)] obtain q' where q': "stepRow s q (rowEvent r a x y z) = Inr q'" "dr_phase q' = ph'"
    "dr_witnessGeneration q' = dr_witnessGeneration q"
    "(dr_retainedCredit q', dr_stagedCredit q', dr_detachedCredit q') = c'" by blast
  have "event_valid (rowEvent r a x y z)" using cv v by (simp add: event_valid_def row_ok_def rowEvent_def)
  moreover have "rowMatches q (rowEvent r a x y z)" using q(2) by (simp add: like_def rowMatches_def rowEvent_def)
  ultimately obtain s' where s': "reduceDirectSourceLifecycle s (rowEvent r a x y z) = (s', LeNone)"
    "ledger_ok s'" "row_of s' (dr_identity r) = advanced q'"
    "a \<noteq> DaPublish \<longrightarrow> (\<forall>j. afterPublished s' j = afterPublished s j)"
    "a \<noteq> DaReclaim \<longrightarrow> (\<forall>j. afterReclaimed s' j = afterReclaimed s j)"
    using step_accepts [OF q(1) q_def [symmetric], of "rowEvent r a x y z" q'] a at(2) q(3) q'(1) by auto
  have "like r (advanced q')"
    using stepRow_same [OF q'(1)] q(2) q'(3) by (simp add: like_def advanced_def)
  moreover have "(dr_retainedCredit (advanced q'), dr_stagedCredit (advanced q'), dr_detachedCredit (advanced q')) = c'"
    using q'(4) by (simp add: advanced_def)
  ultimately have "at s' r ph' c'" using s'(2,3) q'(2) by (simp add: at_def)
  with s' show ?thesis by auto
qed

definition kept :: "DirectSourcePhase \<Rightarrow> DirectSourceAction \<Rightarrow> DirectSourcePhase \<Rightarrow> bool" where
  "kept ph a ph' = ((ph, a, ph') \<in> {(PhAdmitted, DaEffectCut, PhEffected),
     (PhEffected, DaDestinationReceipt, PhReceiptOwned), (PhReceiptOwned, DaPublish, PhPublished),
     (PhPublished, DaEncode, PhEncoded), (PhEncoded, DaComplete, PhCompleted)})"

lemma step_keep:
  assumes "kept ph a ph'" "dr_phase q = ph" "phase_ok q" "like r q"
    and c: "(dr_retainedCredit q, dr_stagedCredit q, dr_detachedCredit q) =
        (dr_retainedCredit r, dr_stagedCredit r, dr_detachedCredit r)"
    and pub: "a = DaPublish \<longrightarrow> afterPublished s (dr_identity r)"
  shows "\<exists>q'. stepRow s q (keepEvent r a) = Inr q' \<and> dr_phase q' = ph' \<and>
      dr_witnessGeneration q' = dr_witnessGeneration q \<and>
      (dr_retainedCredit q', dr_stagedCredit q', dr_detachedCredit q') =
        (dr_retainedCredit r, dr_stagedCredit r, dr_detachedCredit r)"
proof -
  have rc: "requireCredit q (keepEvent r a)" using c by (simp add: requireCredit_def keepEvent_def)
  have g: "dr_witnessGeneration r = dr_witnessGeneration q" using assms(4) by (simp add: like_def)
  have w: "\<not> dr_witnessConsumed q" if "ph = PhAdmitted"
    using assms(2,3) that by (simp add: phase_ok_def noEffect_def)
  from assms(1) show ?thesis
    unfolding kept_def using assms(2) rc g w pub c
    by (elim insertE emptyE; simp add: stepRow_def keepEvent_def)
qed

lemma walk_keep:
  assumes at: "at s r ph (dr_retainedCredit r, dr_stagedCredit r, dr_detachedCredit r)" and k: "kept ph a ph'"
    and v: "row_ok r" and pub: "a = DaPublish \<longrightarrow> afterPublished s (dr_identity r)"
  shows "\<exists>s'. reduceDirectSourceLifecycle s (keepEvent r a) = (s', LeNone) \<and>
    at s' r ph' (dr_retainedCredit r, dr_stagedCredit r, dr_detachedCredit r) \<and>
    (a \<noteq> DaPublish \<longrightarrow> (\<forall>j. afterPublished s' j = afterPublished s j)) \<and>
    (\<forall>j. afterReclaimed s' j = afterReclaimed s j)"
proof -
  have cv: "directEventCreditValid (rowEvent r a (dr_retainedCredit r) (dr_stagedCredit r) (dr_detachedCredit r))"
    using v by (simp add: row_ok_def directCreditConserved_def directEventCreditValid_def)
  have ne: "ph \<noteq> PhEmpty" "a \<notin> {DaImportRaw, DaRollbackPreEffect}" "a \<noteq> DaReclaim"
    using k by (auto simp: kept_def)
  show ?thesis
    unfolding keepEvent_def
    using walk_step [OF at ne(1) v cv ne(2) step_keep [OF k, unfolded keepEvent_def, OF _ _ _ _ pub]] ne(3)
    by (auto simp: row_ok_def)
qed

lemma aggregate_valid: "directEventCreditValid (rowEvent r a x 0 0)" "directEventCreditValid (rowEvent r a 0 0 x)"
  by (simp_all add: directEventCreditValid_def)

lemma walk_detach:
  assumes at: "at s r PhCompleted c" and v: "row_ok r"
    and own: "dr_physicalCreditOwner r \<longrightarrow> dr_aggregateCredit r \<noteq> 0"
  shows "\<exists>s'. reduceDirectSourceLifecycle s (rowEvent r DaDetach 0 0 (dr_aggregateCredit r)) = (s', LeNone) \<and>
    at s' r PhDetached (0, 0, dr_aggregateCredit r) \<and>
    (\<forall>j. afterReclaimed s' j = afterReclaimed s j)"
proof -
  have "\<exists>q'. stepRow s q (rowEvent r DaDetach 0 0 (dr_aggregateCredit r)) = Inr q' \<and> dr_phase q' = PhDetached \<and>
      dr_witnessGeneration q' = dr_witnessGeneration q \<and>
      (dr_retainedCredit q', dr_stagedCredit q', dr_detachedCredit q') = (0, 0, dr_aggregateCredit r)"
    if "row_ok q" "like r q" "dr_phase q = PhCompleted"
      "(dr_retainedCredit q, dr_stagedCredit q, dr_detachedCredit q) = c" for q
  proof -
    have "dr_completed q" using that(1,3) by (simp add: row_ok_def phase_ok_def)
    moreover have "creditDetached q (rowEvent r DaDetach 0 0 (dr_aggregateCredit r))"
      using that(2) own v by (auto simp: creditDetached_def like_def row_ok_def)
    ultimately show ?thesis using that(3) by (simp add: stepRow_def)
  qed
  note st = this
  have ne: "PhCompleted \<noteq> PhEmpty" "DaDetach \<notin> {DaImportRaw, DaRollbackPreEffect}" by simp_all
  have "\<exists>s'. reduceDirectSourceLifecycle s (rowEvent r DaDetach 0 0 (dr_aggregateCredit r)) = (s', LeNone) \<and>
      at s' r PhDetached (0, 0, dr_aggregateCredit r) \<and>
      (DaDetach \<noteq> DaPublish \<longrightarrow> (\<forall>j. afterPublished s' j = afterPublished s j)) \<and>
      (DaDetach \<noteq> DaReclaim \<longrightarrow> (\<forall>j. afterReclaimed s' j = afterReclaimed s j))"
    by (rule walk_step [OF at ne(1) v aggregate_valid(2) ne(2)]) (rule st)
  then show ?thesis by auto
qed

lemma walk_restore:
  assumes at: "at s r PhDetached c" and v: "row_ok r"
  shows "\<exists>s'. reduceDirectSourceLifecycle s (rowEvent r DaRestore (dr_aggregateCredit r) 0 0) = (s', LeNone) \<and>
    at s' r PhRestored (dr_aggregateCredit r, 0, 0) \<and>
    (\<forall>j. afterReclaimed s' j = afterReclaimed s j)"
proof -
  have "\<exists>q'. stepRow s q (rowEvent r DaRestore (dr_aggregateCredit r) 0 0) = Inr q' \<and> dr_phase q' = PhRestored \<and>
      dr_witnessGeneration q' = dr_witnessGeneration q \<and>
      (dr_retainedCredit q', dr_stagedCredit q', dr_detachedCredit q') = (dr_aggregateCredit r, 0, 0)"
    if "row_ok q" "like r q" "dr_phase q = PhDetached"
      "(dr_retainedCredit q, dr_stagedCredit q, dr_detachedCredit q) = c" for q
  proof -
    have "dr_stagedCredit q = 0" using that(1,3) by (simp add: row_ok_def phase_ok_def)
    moreover have "creditReturned q (rowEvent r DaRestore (dr_aggregateCredit r) 0 0)"
      using that(2) v by (auto simp: creditReturned_def like_def row_ok_def)
    ultimately show ?thesis using that(3) by (simp add: stepRow_def)
  qed
  note st = this
  have ne: "PhDetached \<noteq> PhEmpty" "DaRestore \<notin> {DaImportRaw, DaRollbackPreEffect}" by simp_all
  have "\<exists>s'. reduceDirectSourceLifecycle s (rowEvent r DaRestore (dr_aggregateCredit r) 0 0) = (s', LeNone) \<and>
      at s' r PhRestored (dr_aggregateCredit r, 0, 0) \<and>
      (DaRestore \<noteq> DaPublish \<longrightarrow> (\<forall>j. afterPublished s' j = afterPublished s j)) \<and>
      (DaRestore \<noteq> DaReclaim \<longrightarrow> (\<forall>j. afterReclaimed s' j = afterReclaimed s j))"
    by (rule walk_step [OF at ne(1) v aggregate_valid(1) ne(2)]) (rule st)
  then show ?thesis by auto
qed

lemma walk_reclaim:
  assumes at: "at s r PhRestored (dr_aggregateCredit r, 0, 0)" and v: "row_ok r"
    and rec: "afterReclaimed s (dr_identity r)"
  shows "\<exists>s'. reduceDirectSourceLifecycle s (rowEvent r DaReclaim (dr_aggregateCredit r) 0 0) = (s', LeNone) \<and>
    at s' r PhReclaimed (dr_aggregateCredit r, 0, 0)"
proof -
  have "\<exists>q'. stepRow s q (rowEvent r DaReclaim (dr_aggregateCredit r) 0 0) = Inr q' \<and> dr_phase q' = PhReclaimed \<and>
      dr_witnessGeneration q' = dr_witnessGeneration q \<and>
      (dr_retainedCredit q', dr_stagedCredit q', dr_detachedCredit q') = (dr_aggregateCredit r, 0, 0)"
    if "row_ok q" "like r q" "dr_phase q = PhRestored"
      "(dr_retainedCredit q, dr_stagedCredit q, dr_detachedCredit q) =
        (dr_aggregateCredit r, 0, 0)" for q
  proof -
    have "dr_completed q" using that(1,3) by (simp add: row_ok_def phase_ok_def settled_def)
    with that(3,4) rec show ?thesis by (simp add: stepRow_def requireCredit_def)
  qed
  note st = this
  have ne: "PhRestored \<noteq> PhEmpty" "DaReclaim \<notin> {DaImportRaw, DaRollbackPreEffect}" by simp_all
  have "\<exists>s'. reduceDirectSourceLifecycle s (rowEvent r DaReclaim (dr_aggregateCredit r) 0 0) = (s', LeNone) \<and>
      at s' r PhReclaimed (dr_aggregateCredit r, 0, 0) \<and>
      (DaReclaim \<noteq> DaPublish \<longrightarrow> (\<forall>j. afterPublished s' j = afterPublished s j)) \<and>
      (DaReclaim \<noteq> DaReclaim \<longrightarrow> (\<forall>j. afterReclaimed s' j = afterReclaimed s j))"
    by (rule walk_step [OF at ne(1) v aggregate_valid(1) ne(2)]) (rule st)
  then show ?thesis by auto
qed

lemma applyAll_step:
  "reduceDirectSourceLifecycle s e = (s', LeNone) \<Longrightarrow> applyAll s (e # es) = applyAll s' es"
  by simp

lemma finish_source:
  assumes ok: "ledger_ok s" and r: "r \<in> set (rows s)" "dr_phase r = PhAdmitted"
    and pub: "afterPublished s (dr_identity r)" and rec: "afterReclaimed s (dr_identity r)"
    and own: "dr_physicalCreditOwner r \<longrightarrow> dr_aggregateCredit r \<noteq> 0"
  shows "\<exists>t. applyAll s (finishEvents r) = Inr t \<and> at t r PhReclaimed (dr_aggregateCredit r, 0, 0)"
proof -
  have v: "row_ok r" using ledger_okD(2) [OF ok] r by blast
  have a0: "at s r PhAdmitted (dr_retainedCredit r, dr_stagedCredit r, dr_detachedCredit r)"
    using ok r row_of_mem [OF ok r(1)] by (simp add: at_def like_def)
  obtain s1 where 1: "reduceDirectSourceLifecycle s (keepEvent r DaEffectCut) = (s1, LeNone)"
    "at s1 r PhEffected (dr_retainedCredit r, dr_stagedCredit r, dr_detachedCredit r)"
    "afterPublished s1 (dr_identity r)" "afterReclaimed s1 (dr_identity r)"
    using walk_keep [OF a0 _ v, of DaEffectCut PhEffected] pub rec by (auto simp: kept_def)
  obtain s2 where 2: "reduceDirectSourceLifecycle s1 (keepEvent r DaDestinationReceipt) = (s2, LeNone)"
    "at s2 r PhReceiptOwned (dr_retainedCredit r, dr_stagedCredit r, dr_detachedCredit r)"
    "afterPublished s2 (dr_identity r)" "afterReclaimed s2 (dr_identity r)"
    using walk_keep [OF 1(2) _ v, of DaDestinationReceipt PhReceiptOwned] 1(3,4) by (auto simp: kept_def)
  obtain s3 where 3: "reduceDirectSourceLifecycle s2 (keepEvent r DaPublish) = (s3, LeNone)"
    "at s3 r PhPublished (dr_retainedCredit r, dr_stagedCredit r, dr_detachedCredit r)"
    "afterReclaimed s3 (dr_identity r)"
    using walk_keep [OF 2(2) _ v, of DaPublish PhPublished] 2(3,4) by (auto simp: kept_def)
  obtain s4 where 4: "reduceDirectSourceLifecycle s3 (keepEvent r DaEncode) = (s4, LeNone)"
    "at s4 r PhEncoded (dr_retainedCredit r, dr_stagedCredit r, dr_detachedCredit r)"
    "afterReclaimed s4 (dr_identity r)"
    using walk_keep [OF 3(2) _ v, of DaEncode PhEncoded] 3(3) by (auto simp: kept_def)
  obtain s5 where 5: "reduceDirectSourceLifecycle s4 (keepEvent r DaComplete) = (s5, LeNone)"
    "at s5 r PhCompleted (dr_retainedCredit r, dr_stagedCredit r, dr_detachedCredit r)"
    "afterReclaimed s5 (dr_identity r)"
    using walk_keep [OF 4(2) _ v, of DaComplete PhCompleted] 4(3) by (auto simp: kept_def)
  obtain s6 where 6: "reduceDirectSourceLifecycle s5 (rowEvent r DaDetach 0 0 (dr_aggregateCredit r)) = (s6, LeNone)"
    "at s6 r PhDetached (0, 0, dr_aggregateCredit r)" "afterReclaimed s6 (dr_identity r)"
    using walk_detach [OF 5(2) v own] 5(3) by blast
  obtain s7 where 7: "reduceDirectSourceLifecycle s6 (rowEvent r DaRestore (dr_aggregateCredit r) 0 0) = (s7, LeNone)"
    "at s7 r PhRestored (dr_aggregateCredit r, 0, 0)" "afterReclaimed s7 (dr_identity r)"
    using walk_restore [OF 6(2) v] 6(3) by blast
  obtain s8 where 8: "reduceDirectSourceLifecycle s7 (rowEvent r DaReclaim (dr_aggregateCredit r) 0 0) = (s8, LeNone)"
    "at s8 r PhReclaimed (dr_aggregateCredit r, 0, 0)"
    using walk_reclaim [OF 7(2) v 7(3)] by blast
  show ?thesis
    using 8(2) by (simp add: finishEvents_def 1(1) 2(1) 3(1) 4(1) 5(1) 6(1) 7(1) 8(1))
qed

end
