(* ===== verification/Q_Direct_Theorems.thy ===== *)
theory Q_Direct_Theorems
  imports Q_Direct_Runs
begin

text \<open>The properties of the Direct-source lifecycle reducer, with an example run.\<close>

section \<open>An example\<close>

text \<open>One source that owns 64 bytes of credit, and its sibling span without credit.\<close>

definition demo_identity :: "u32 \<Rightarrow> DirectSourceIdentity" where
  "demo_identity span = \<lparr>di_rawOrdinal = 1, di_spanOrdinal = span, di_sourceOrdinal = 1, di_seqId = 1,
     di_sourceGeneration = 1, di_storageGeneration = 1, di_destinationSlot = 0, di_sourceIndex = 0,
     di_firstPage = 100, di_pageCount = 1\<rparr>"

definition demo_row :: DirectSourceLifecycleRecord where
  "demo_row = empty_row\<lparr>dr_identity := demo_identity 0, dr_phase := PhAdmitted, dr_schemaRevision := 1,
     dr_creditKind := CkRetainedBytes, dr_witnessGeneration := 101, dr_retainedCredit := 64,
     dr_aggregateCredit := 64, dr_physicalCreditOwner := True, dr_transitionCount := 1\<rparr>"

definition demo_sibling :: DirectSourceLifecycleRecord where
  "demo_sibling = demo_row\<lparr>dr_identity := demo_identity 1, dr_retainedCredit := 0,
     dr_aggregateCredit := 0, dr_physicalCreditOwner := False\<rparr>"

definition demo_start :: "DirectSourceLifecycleEvent list" where
  "demo_start = [keepEvent demo_row DaAdmitWitness, keepEvent demo_sibling DaAdmitWitness]"

definition demo_after :: "DirectSourceLifecycleEvent list \<Rightarrow> DirectSourceLifecycleState" where
  "demo_after es = fst (reduceDirectSourceLifecycleBatch newLifecycleState es False)"

lemma demo_run:
  assumes "snd (reduceDirectSourceLifecycleBatch newLifecycleState es False) = LeNone"
  shows "lifecycle_run es (demo_after es)"
proof -
  have "lifecycle_run ([] @ (if LeNone = LeNone then es else [])) (demo_after es)"
    by (rule lifecycle_run.batch [OF lifecycle_run.start, of es False])
      (simp add: demo_after_def assms prod_eq_iff)
  then show ?thesis by simp
qed

lemma demo_start_run: "lifecycle_run demo_start (demo_after demo_start)"
  by (rule demo_run) code_simp

lemma demo_finish_run: "lifecycle_run (demo_start @ finishEvents demo_row) (demo_after (demo_start @ finishEvents demo_row))"
  by (rule demo_run) code_simp

section \<open>The history of a source\<close>

text \<open>
  C29: Refinement. In every run of the reducer, by single events and by batches, accepted or refused,
  the accepted events of a source are a word of the abstract protocol, and the word ends in the
  phase of the source's row; a source has a row exactly when that phase is not \<open>PhEmpty\<close>.
\<close>

theorem source_history_refines_protocol:
  assumes "lifecycle_run tr s"
  shows "protocol_run PhEmpty (actions_of i tr) = Some (phase_of s i) \<and>
    (phase_of s i = PhEmpty \<longleftrightarrow> findDirectSource s i = None)"
  using history_protocol [OF lifecycle_run_accepted [OF assms]] phase_of_empty [OF lifecycle_run_ok [OF assms]]
  by (simp add: findDirectSource_None)

theorem source_history_refines_protocol_witness:
  "protocol_run PhEmpty (actions_of (demo_identity 0) (demo_start @ finishEvents demo_row)) = Some PhReclaimed"
proof -
  have "phase_of (demo_after (demo_start @ finishEvents demo_row)) (demo_identity 0) = PhReclaimed" by code_simp
  with source_history_refines_protocol [OF demo_finish_run, of "demo_identity 0"] show ?thesis by simp
qed

text \<open>
  C30: Publications happen in logical order: each is the next span of its raw or the first of a later
  one, no source is published twice, not even after a cancelled admission, and the same holds of
  reclamations. When a source is reclaimed its last events before were admission, effect,
  receipt, publication, encoding, completion, detachment and restoration, in this order.
\<close>

theorem publish_and_reclaim_once_in_order:
  assumes "lifecycle_run tr s"
  shows "in_order (sources_of DaPublish tr) \<and> distinct (sources_of DaPublish tr) \<and>
    in_order (sources_of DaReclaim tr) \<and> distinct (sources_of DaReclaim tr) \<and>
    (\<forall>before e after. tr = before @ e # after \<and> de_action e = DaReclaim \<longrightarrow>
       (\<exists>pre. actions_of (de_identity e) before = pre @ path_to_restored))"
proof -
  have run: "accepted_run tr s" by (rule lifecycle_run_accepted [OF assms])
  have "\<exists>pre. actions_of (de_identity e) before = pre @ path_to_restored"
    if "tr = before @ e # after" "de_action e = DaReclaim" for before e after
  proof -
    note a = that(2)
    have "protocol_run PhEmpty (actions_of (de_identity e) (before @ e # after)) \<noteq> None"
      using history_protocol [OF run, of "de_identity e"] that(1) by simp
    then obtain p q where "protocol_run PhEmpty (actions_of (de_identity e) before) = Some p" "protocol p DaReclaim = Some q"
      using a by (auto simp: protocol_run_append split: option.splits)
    then show ?thesis by (intro restored_word) (auto simp: protocol_def from_phase_def split: if_splits)
  qed
  then show ?thesis using history_frontiers [OF run] in_order_distinct by blast
qed

theorem publish_and_reclaim_once_in_order_witness:
  "sources_of DaReclaim (demo_start @ finishEvents demo_row) = [demo_identity 0] \<and>
   distinct (sources_of DaReclaim (demo_start @ finishEvents demo_row)) \<and>
   in_order [demo_identity 0]"
proof -
  have e: "sources_of DaReclaim (demo_start @ finishEvents demo_row) = [demo_identity 0]" by code_simp
  with publish_and_reclaim_once_in_order [OF demo_finish_run] show ?thesis by simp
qed

text \<open>
  C31: Credit is conserved and physical. In every reachable ledger retained, staged and detached
  credit of a row add up, without wrap-around, to what its admission declared; exactly one row
  carries the credit of a storage, rows that do not carry it have none; and a source that was
  restored, abandoned or reclaimed has all its credit back.
\<close>

theorem credit_is_conserved:
  assumes "lifecycle_run tr s" and "r \<in> set (rows s)"
  shows "unat (dr_retainedCredit r) + unat (dr_stagedCredit r) + unat (dr_detachedCredit r) = unat (dr_aggregateCredit r) \<and>
    length (filter (\<lambda>q. dr_physicalCreditOwner q \<and>
      directPhysicalCreditKeyEqual (dr_identity q) (dr_identity r)) (rows s)) = 1 \<and>
    (\<not> dr_physicalCreditOwner r \<longrightarrow> dr_aggregateCredit r = 0) \<and>
    (dr_phase r \<in> {PhRestored, PhReclaimed, PhPoisonAbandoned} \<longrightarrow>
      dr_retainedCredit r = dr_aggregateCredit r \<and> dr_completed r)"
proof -
  have ok: "ledger_ok s" by (rule lifecycle_run_ok [OF assms(1)])
  then have ro: "row_ok r" using ledger_okD(2) assms(2) by blast
  have "dr_phase r \<in> {PhRestored, PhReclaimed, PhPoisonAbandoned} \<longrightarrow> dr_completed r"
    using ro by (auto simp: row_ok_def phase_ok_def settled_def)
  then show ?thesis
    using conserved_unat [of r] owner_count [OF ok assms(2)] settled_credit [OF ro] ro by (simp add: row_ok_def)
qed

theorem credit_is_conserved_witness:
  "length (filter (\<lambda>q. dr_physicalCreditOwner q \<and>
     directPhysicalCreditKeyEqual (dr_identity q) (demo_identity 1)) (rows (demo_after demo_start))) = 1"
proof -
  have "rows (demo_after demo_start) ! 1 = demo_sibling" "length (rows (demo_after demo_start)) = 2" by code_simp+
  then have "demo_sibling \<in> set (rows (demo_after demo_start))" by (metis nth_mem one_less_numeral_iff semiring_norm(76))
  from credit_is_conserved [OF demo_start_run this] show ?thesis by (simp add: demo_sibling_def)
qed

text \<open>
  C32: Errors. A refused event leaves the ledger as it was, although the reducer writes the row before
  its last check; a batch is accepted exactly when every event of it is, one after the other, and,
  if one owner is required, the events share a storage and exactly one of them carries its credit;
  a refused batch leaves the ledger as it was.
\<close>

theorem refused_events_change_nothing:
  assumes "lifecycle_run tr s"
  shows "(snd (reduceDirectSourceLifecycle s e) \<noteq> LeNone \<longrightarrow> fst (reduceDirectSourceLifecycle s e) = s) \<and>
    (snd (reduceDirectSourceLifecycleBatch s es one) = LeNone \<longleftrightarrow>
      (one \<longrightarrow> one_group es) \<and> (\<exists>s'. applyAll s es = Inr s')) \<and>
    (snd (reduceDirectSourceLifecycleBatch s es one) \<noteq> LeNone \<longrightarrow>
      fst (reduceDirectSourceLifecycleBatch s es one) = s)"
  using reduce_result [OF lifecycle_run_ok [OF assms], of e] batch_result [of s es one] batch_accepted [of s es one]
  by blast

theorem refused_events_change_nothing_witness:
  "reduceDirectSourceLifecycleBatch (demo_after demo_start)
     [keepEvent demo_row DaEffectCut, keepEvent demo_row DaPublish] False =
   (demo_after demo_start, LeInvalidTransition)"
proof -
  have "snd (reduceDirectSourceLifecycleBatch (demo_after demo_start)
     [keepEvent demo_row DaEffectCut, keepEvent demo_row DaPublish] False) = LeInvalidTransition" by code_simp
  with refused_events_change_nothing [OF demo_start_run, where e = "keepEvent demo_row DaEffectCut" and
      es = "[keepEvent demo_row DaEffectCut, keepEvent demo_row DaPublish]" and one = False]
  show ?thesis by (simp add: prod_eq_iff)
qed

text \<open>
  C33: Round trip. Cancelling an admission before its effect gives back the very ledger before it: the
  row is gone, its slot is blank again and the import frontier is where it was.
\<close>

theorem cancelled_admission_leaves_no_trace:
  assumes "lifecycle_run tr s" and "findDirectSource s (de_identity e) = None"
    and "de_action e = DaAdmitWitness" and "reduceDirectSourceLifecycle s e = (s', LeNone)"
  shows "reduceDirectSourceLifecycle s' (cancelEvent e) = (s, LeNone)"
  by (rule cancel_admission [OF lifecycle_run_ok [OF assms(1)] assms(2,4,3)])

theorem cancelled_admission_leaves_no_trace_witness:
  "reduceDirectSourceLifecycle (demo_after demo_start) (cancelEvent (keepEvent demo_sibling DaAdmitWitness)) =
     (demo_after [keepEvent demo_row DaAdmitWitness], LeNone)"
proof -
  have run: "lifecycle_run [keepEvent demo_row DaAdmitWitness] (demo_after [keepEvent demo_row DaAdmitWitness])"
    by (rule demo_run) code_simp
  have new: "findDirectSource (demo_after [keepEvent demo_row DaAdmitWitness])
      (de_identity (keepEvent demo_sibling DaAdmitWitness)) = None"
    by code_simp
  have red: "reduceDirectSourceLifecycle (demo_after [keepEvent demo_row DaAdmitWitness])
      (keepEvent demo_sibling DaAdmitWitness) = (demo_after demo_start, LeNone)" by code_simp
  show ?thesis by (rule cancelled_admission_leaves_no_trace [OF run new _ red]) (simp add: keepEvent_def)
qed

section \<open>The ledger is finite\<close>

text \<open>256 sources, each owning its own storage.\<close>

definition fill_row :: "nat \<Rightarrow> DirectSourceLifecycleRecord" where
  "fill_row k = demo_row\<lparr>dr_identity := (demo_identity 0)\<lparr>di_rawOrdinal := of_nat (k + 1),
     di_sourceOrdinal := of_nat (k + 1), di_seqId := of_nat (k + 1)\<rparr>\<rparr>"

definition fill_event :: "nat \<Rightarrow> DirectSourceLifecycleEvent" where
  "fill_event k = keepEvent (fill_row k) DaAdmitWitness"

definition filled :: "nat \<Rightarrow> DirectSourceLifecycleState \<Rightarrow> bool" where
  "filled n s = (ledger_ok s \<and> dl_recordCount s = n \<and> map dr_identity (rows s) = map (de_identity \<circ> fill_event) [0..<n])"

lemma small_word: "n < 2 ^ 64 \<Longrightarrow> unat (of_nat n :: u64) = n"
  by (rule unat_of_nat64)

lemma small_word_eq: "m < 2 ^ 64 \<Longrightarrow> n < 2 ^ 64 \<Longrightarrow> (of_nat m :: u64) = of_nat n \<longleftrightarrow> m = n"
  by (metis unat_of_nat64)

lemma fill_event_simps:
  "di_seqId (de_identity (fill_event k)) = of_nat (k + 1)" "di_rawOrdinal (de_identity (fill_event k)) = of_nat (k + 1)"
  "di_sourceOrdinal (de_identity (fill_event k)) = of_nat (k + 1)" "di_spanOrdinal (de_identity (fill_event k)) = 0"
  "de_action (fill_event k) = DaAdmitWitness" "de_physicalCreditOwner (fill_event k)"
  by (simp_all add: fill_event_def fill_row_def keepEvent_def rowEvent_def demo_identity_def demo_row_def)

lemma fill_event_valid: "k < 256 \<Longrightarrow> event_valid (fill_event k) \<and> de_witnessGeneration (fill_event k) \<noteq> 0"
  using small_word_eq [of "k + 1" 0]
  by (simp add: event_valid_def validDirectIdentity_def directEventCreditValid_def fill_event_def fill_row_def
      keepEvent_def rowEvent_def demo_identity_def demo_row_def empty_row_def)

lemma fill_step:
  assumes f: "filled n s" and n: "n < 256"
  shows "\<exists>s'. reduceDirectSourceLifecycle s (fill_event n) = (s', LeNone) \<and> filled (Suc n) s'"
proof -
  have ok: "ledger_ok s" and c: "dl_recordCount s = n"
    and ids: "map dr_identity (rows s) = map (de_identity \<circ> fill_event) [0..<n]" using f by (simp_all add: filled_def)
  have other: "\<not> directPhysicalCreditKeyEqual i (de_identity (fill_event n))" if "i \<in> set (map dr_identity (rows s))" for i
  proof -
    have "i \<in> set (map (de_identity \<circ> fill_event) [0..<n])" using that by (simp only: ids)
    then obtain k where "k < n" "i = de_identity (fill_event k)" by auto
    then show ?thesis using n small_word_eq [of "k + 1" "n + 1"]
      by (simp add: directPhysicalCreditKeyEqual_def fill_event_simps)
  qed
  have fresh: "de_identity (fill_event n) \<notin> dr_identity ` set (rows s)"
    using other [of "de_identity (fill_event n)"] by (auto simp: directPhysicalCreditKeyEqual_def)
  have none: "findDirectSource s (de_identity (fill_event n)) = None" using fresh by (simp add: findDirectSource_None)
  have prior: "\<not> priorOwner s (de_identity (fill_event n))"
    using other by (auto simp: priorOwner_def list_ex_iff)
  have "follows (front (map dr_identity (rows s))) (de_identity (fill_event n))"
  proof (cases n)
    case 0
    then show ?thesis by (simp add: ids follows_def directLogicalOrdinalAfter_def fill_event_simps)
  next
    case (Suc m)
    have "(of_nat (m + 1) :: u64) \<noteq> 0" "(of_nat (m + 1) :: u64) < of_nat (m + 2)"
      using n Suc small_word_eq [of "m + 1" 0] small_word [of "m + 1"] small_word [of "m + 2"]
      by (simp_all add: word_less_nat_alt)
    moreover have "map dr_identity (rows s) = map (de_identity \<circ> fill_event) [0..<m] @ [de_identity (fill_event m)]"
      by (simp add: ids Suc)
    ultimately show ?thesis
      by (simp add: Suc follows_def ordinals_def directLogicalOrdinalAfter_def fill_event_simps less_imp_le)
  qed
  then have "opens s (fill_event n)"
    using prior c n fill_event_valid [OF n] by (simp add: opens_def fill_event_simps afterImported_follows [OF ok])
  with fill_event_valid [OF n] none admitNew_result [OF ledger_okD(1) [OF ok], of "fill_event n"]
  have red: "reduceDirectSourceLifecycle s (fill_event n) =
      (appendRow s (de_identity (fill_event n)) (newRow s (fill_event n)), LeNone)"
    by (auto simp: reduceDirectSourceLifecycle_def event_valid_def fill_event_simps)
  define s' where "s' = appendRow s (de_identity (fill_event n)) (newRow s (fill_event n))"
  have "ledger_ok s'" using reduce_ok [OF ok, of "fill_event n"] by (simp add: red s'_def)
  moreover have "rows s' = rows s @ [newRow s (fill_event n)]"
    unfolding s'_def using ledger_okD(1) [OF ok] c n by (intro appendRow_rows) simp_all
  moreover have "dl_recordCount s' = Suc n" by (simp add: s'_def appendRow_def c)
  ultimately have "filled (Suc n) s'" by (simp add: filled_def ids newRow_simps)
  then show ?thesis using red s'_def by blast
qed

lemma fill_run: "n \<le> 256 \<Longrightarrow> \<exists>s. lifecycle_run (map fill_event [0..<n]) s \<and> filled n s"
proof (induction n)
  case 0
  have "filled 0 newLifecycleState"
    using newLifecycleState_ok by (simp add: filled_def rows_def newLifecycleState_def)
  then show ?case using lifecycle_run.start by auto
next
  case (Suc n)
  then obtain s where s: "lifecycle_run (map fill_event [0..<n]) s" "filled n s" by auto
  obtain s' where s': "reduceDirectSourceLifecycle s (fill_event n) = (s', LeNone)" "filled (Suc n) s'"
    using fill_step [OF s(2)] Suc.prems by auto
  have "lifecycle_run (map fill_event [0..<n] @ [fill_event n]) s'"
    using lifecycle_run.single [OF s(1) s'(1)] by simp
  then show ?case using s'(2) by auto
qed

text \<open>
  C34: Bounds. The ledger never has more than 256 rows, and it keeps the row of every source that was
  ever published, reclaimed or not: so a run publishes at most 256 sources, and from a full ledger
  every further admission is refused for good with \<open>LeBoundedOverflow\<close>.
\<close>

theorem ledger_keeps_published_rows:
  assumes "lifecycle_run tr s"
  shows "length (sources_of DaPublish tr) \<le> dl_recordCount s \<and> dl_recordCount s \<le> 256 \<and>
    (dl_recordCount s = 256 \<and> event_valid e \<and> findDirectSource s (de_identity e) = None \<and>
     de_action e = DaAdmitWitness \<and> de_witnessGeneration e \<noteq> 0 \<longrightarrow>
       reduceDirectSourceLifecycle s e = (s, LeBoundedOverflow))"
proof -
  have run: "accepted_run tr s" and ok: "ledger_ok s"
    using lifecycle_run_accepted [OF assms] lifecycle_run_ok [OF assms] by blast+
  have sh: "shape_ok s" by (rule ledger_okD(1) [OF ok])
  have "set (sources_of DaPublish tr) \<subseteq> dr_identity ` set (rows s)"
  proof
    fix i assume "i \<in> set (sources_of DaPublish tr)"
    then have "DaPublish \<in> set (actions_of i tr)" by (force simp: sources_of_def actions_of_def image_iff)
    then have "phase_of s i \<noteq> PhEmpty"
      using afterEmission_run [OF history_protocol [OF run, of i]] by (auto simp: afterEmission_def)
    then show "i \<in> dr_identity ` set (rows s)" by (simp add: phase_of_empty [OF ok])
  qed
  then have "card (set (sources_of DaPublish tr)) \<le> card (dr_identity ` set (rows s))" by (intro card_mono) simp_all
  also have "\<dots> \<le> card (set (rows s))" by (rule card_image_le) simp
  also have "\<dots> \<le> length (rows s)" by (rule card_length)
  finally have "length (sources_of DaPublish tr) \<le> dl_recordCount s"
    using history_frontiers [OF run] in_order_distinct distinct_card sh by fastforce
  then show ?thesis
    using sh by (auto simp: shape_ok_def reduceDirectSourceLifecycle_def event_valid_def admitNew_def)
qed

theorem ledger_keeps_published_rows_witness:
  "\<exists>s. lifecycle_run (map fill_event [0..<256]) s \<and> dl_recordCount s = 256 \<and>
     reduceDirectSourceLifecycle s (keepEvent demo_sibling DaAdmitWitness) = (s, LeBoundedOverflow)"
proof -
  obtain s where s: "lifecycle_run (map fill_event [0..<256]) s" "filled 256 s" using fill_run [of 256] by auto
  have "demo_identity 1 \<notin> dr_identity ` set (rows s)"
  proof
    assume "demo_identity 1 \<in> dr_identity ` set (rows s)"
    then have "demo_identity 1 \<in> set (map (de_identity \<circ> fill_event) [0..<256])"
      using s(2) by (metis filled_def list.set_map)
    then have "di_spanOrdinal (demo_identity 1) = 0" by (auto simp: fill_event_simps)
    then show False by (simp add: demo_identity_def)
  qed
  then have "findDirectSource s (de_identity (keepEvent demo_sibling DaAdmitWitness)) = None"
    by (simp add: findDirectSource_None keepEvent_def demo_sibling_def)
  moreover have "event_valid (keepEvent demo_sibling DaAdmitWitness)"
    "de_action (keepEvent demo_sibling DaAdmitWitness) = DaAdmitWitness"
    "de_witnessGeneration (keepEvent demo_sibling DaAdmitWitness) \<noteq> 0" by code_simp+
  moreover have "dl_recordCount s = 256" using s(2) by (simp add: filled_def)
  ultimately show ?thesis
    using s(1) ledger_keeps_published_rows [OF s(1), of "keepEvent demo_sibling DaAdmitWitness"] by blast
qed

text \<open>
  C35: Liveness. From every reachable ledger an admitted source whose turn it is can be taken all the
  way: the eight events formed from its row are accepted one after the other, and it ends
  reclaimed with all its credit. (An owner admitted with no credit at all could not be detached.)
\<close>

theorem admitted_source_can_finish:
  assumes "lifecycle_run tr s" and "r \<in> set (rows s)" and "dr_phase r = PhAdmitted"
    and "afterPublished s (dr_identity r)" and "afterReclaimed s (dr_identity r)"
    and "dr_physicalCreditOwner r \<longrightarrow> dr_aggregateCredit r \<noteq> 0"
  shows "\<exists>t. applyAll s (finishEvents r) = Inr t \<and> lifecycle_run (tr @ finishEvents r) t \<and>
    phase_of t (dr_identity r) = PhReclaimed \<and>
    dr_retainedCredit (row_of t (dr_identity r)) = dr_aggregateCredit r"
proof -
  from finish_source [OF lifecycle_run_ok [OF assms(1)] assms(2-6)]
  obtain t where t: "applyAll s (finishEvents r) = Inr t" "at t r PhReclaimed (dr_aggregateCredit r, 0, 0)" by blast
  have "reduceDirectSourceLifecycleBatch s (finishEvents r) False = (t, LeNone)"
    by (simp add: reduceDirectSourceLifecycleBatch_def applyBatch_def t(1))
  from lifecycle_run.batch [OF assms(1) this] t show ?thesis by (auto simp: at_def)
qed

theorem admitted_source_can_finish_witness:
  "\<exists>t. applyAll (demo_after demo_start) (finishEvents demo_row) = Inr t \<and>
     phase_of t (demo_identity 0) = PhReclaimed \<and> dr_retainedCredit (row_of t (demo_identity 0)) = 64"
proof -
  have "rows (demo_after demo_start) ! 0 = demo_row" "length (rows (demo_after demo_start)) = 2" by code_simp+
  then have r: "demo_row \<in> set (rows (demo_after demo_start))" by (metis nth_mem zero_less_numeral)
  have "dr_phase demo_row = PhAdmitted" "afterPublished (demo_after demo_start) (dr_identity demo_row)"
    "afterReclaimed (demo_after demo_start) (dr_identity demo_row)"
    "dr_physicalCreditOwner demo_row \<longrightarrow> dr_aggregateCredit demo_row \<noteq> 0" by code_simp+
  from admitted_source_can_finish [OF demo_start_run r this] show ?thesis by (auto simp: demo_row_def)
qed

end
