(* ===== verification/Q_Completion.thy ===== *)
theory Q_Completion
  imports Dx_Words
begin

text \<open>
  Retirement after encoding (\<^verbatim>\<open>dxmt9_post_encode_retirement.hpp\<close>, \<^verbatim>\<open>dxmt9_arena_group_identity.hpp\<close>): the
  ledger of 1024 entries that hands out completion receipts, one slot per sequence id modulo
  1024 with a generation per slot, and the accumulator that sums up a run of source ids.
\<close>

section \<open>Group identities\<close>

record ArenaGroupIdentity =
  ag_rawOrdinal :: u64
  ag_buildGeneration :: u64
  ag_firstSourceOrdinal :: u64
  ag_tailSeqId :: u64
  ag_sourceCount :: u32
  ag_hasPresent :: bool

definition validGroup :: "ArenaGroupIdentity \<Rightarrow> bool" where
  "validGroup g = (ag_rawOrdinal g \<noteq> 0 \<and> ag_buildGeneration g \<noteq> 0 \<and> ag_firstSourceOrdinal g \<noteq> 0 \<and>
     ag_tailSeqId g \<noteq> 0 \<and> ag_sourceCount g \<noteq> 0)"

section \<open>Completion spans\<close>

record UnverifiedEncodedCompletionSpan =
  us_firstSeqId :: u64
  us_lastSeqId :: u64
  us_sourceCount :: u64
  us_tailHasPresent :: bool

definition validSpan :: "UnverifiedEncodedCompletionSpan \<Rightarrow> bool" where
  "validSpan s = (us_firstSeqId s \<noteq> 0 \<and> us_lastSeqId s \<ge> us_firstSeqId s \<and> us_sourceCount s \<noteq> 0 \<and>
     us_lastSeqId s - us_firstSeqId s \<noteq> - 1 \<and>
     us_sourceCount s = us_lastSeqId s - us_firstSeqId s + 1)"

datatype CompletionSpanAppendResult =
    SpAppended | SpInvalidSequence | SpNotStrictlyIncreasing | SpNonContiguous | SpTailHasPresent | SpCountOverflow

record SessionCompletionAccumulator =
  ac_span :: UnverifiedEncodedCompletionSpan
  ac_maxSourceCount :: u64

definition newAccumulator :: "u64 \<Rightarrow> SessionCompletionAccumulator" where
  "newAccumulator maxSourceCount = \<lparr>ac_span = \<lparr>us_firstSeqId = 0, us_lastSeqId = 0, us_sourceCount = 0,
     us_tailHasPresent = False\<rparr>, ac_maxSourceCount = maxSourceCount\<rparr>"

definition appendSource :: "u64 \<Rightarrow> bool \<Rightarrow> SessionCompletionAccumulator \<Rightarrow>
    SessionCompletionAccumulator \<times> CompletionSpanAppendResult" where
  "appendSource seqId hasPresent a =
     (let span = ac_span a in
      if seqId = 0 then (a, SpInvalidSequence)
      else if validSpan span then
        if us_tailHasPresent span then (a, SpTailHasPresent)
        else if seqId \<le> us_lastSeqId span then (a, SpNotStrictlyIncreasing)
        else if us_lastSeqId span = - 1 \<or> seqId \<noteq> us_lastSeqId span + 1 then (a, SpNonContiguous)
        else if us_sourceCount span = ac_maxSourceCount a \<or> us_sourceCount span = - 1 then (a, SpCountOverflow)
        else (a\<lparr>ac_span := span\<lparr>us_lastSeqId := seqId, us_sourceCount := us_sourceCount span + 1,
                us_tailHasPresent := hasPresent\<rparr>\<rparr>, SpAppended)
      else if ac_maxSourceCount a = 0 then (a, SpCountOverflow)
      else (a\<lparr>ac_span := \<lparr>us_firstSeqId = seqId, us_lastSeqId = seqId, us_sourceCount = 1,
              us_tailHasPresent = hasPresent\<rparr>\<rparr>, SpAppended))"

definition mergeTail :: "SessionCompletionAccumulator \<Rightarrow> SessionCompletionAccumulator \<Rightarrow>
    SessionCompletionAccumulator \<times> CompletionSpanAppendResult" where
  "mergeTail tail a =
     (let span = ac_span a; t = ac_span tail in
      if \<not> validSpan t then (a, SpInvalidSequence)
      else if \<not> validSpan span then
        if us_sourceCount t > ac_maxSourceCount a then (a, SpCountOverflow)
        else (a\<lparr>ac_span := t\<rparr>, SpAppended)
      else if us_tailHasPresent span then (a, SpTailHasPresent)
      else if us_firstSeqId t \<le> us_lastSeqId span then (a, SpNotStrictlyIncreasing)
      else if us_lastSeqId span = - 1 \<or> us_firstSeqId t \<noteq> us_lastSeqId span + 1 then (a, SpNonContiguous)
      else if us_sourceCount t > ac_maxSourceCount a - us_sourceCount span \<or>
              us_sourceCount t > - 1 - us_sourceCount span then (a, SpCountOverflow)
      else (a\<lparr>ac_span := span\<lparr>us_lastSeqId := us_lastSeqId t,
              us_sourceCount := us_sourceCount span + us_sourceCount t,
              us_tailHasPresent := us_tailHasPresent t\<rparr>\<rparr>, SpAppended))"

definition summary :: "SessionCompletionAccumulator \<Rightarrow> UnverifiedEncodedCompletionSpan option" where
  "summary a = (if validSpan (ac_span a) then Some (ac_span a) else None)"

section \<open>The receipt ledger\<close>

abbreviation kMaxPostEncodeCompletionReceipts :: nat where
  "kMaxPostEncodeCompletionReceipts \<equiv> 1024"

record PostEncodeCompletionReceipt =
  pr_seqId :: u64
  pr_generation :: u64
  pr_slot :: u32

definition validReceipt :: "PostEncodeCompletionReceipt \<Rightarrow> bool" where
  "validReceipt r = (pr_seqId r \<noteq> 0 \<and> pr_generation r \<noteq> 0 \<and> pr_slot r \<noteq> - 1)"

datatype PostEncodeReceiptState = RcFree | RcActive | RcSubmitted | RcCompleted

datatype PostEncodeReceiptResult = RrSucceeded | RrInvalid | RrDuplicate | RrCapacity | RrStale | RrWrongState

record Entry =
  en_seqId :: u64
  en_generation :: u64
  en_state :: PostEncodeReceiptState
  en_hasPresent :: bool
  en_group :: "ArenaGroupIdentity option"

definition empty_entry :: Entry where
  "empty_entry = \<lparr>en_seqId = 0, en_generation = 0, en_state = RcFree, en_hasPresent = False, en_group = None\<rparr>"

record PostEncodeCompletionLedger =
  pl_entries :: "Entry list"
  pl_depth :: u64
  pl_peak :: u64

definition newCompletionLedger :: PostEncodeCompletionLedger where
  "newCompletionLedger = \<lparr>pl_entries = replicate kMaxPostEncodeCompletionReceipts empty_entry,
     pl_depth = 0, pl_peak = 0\<rparr>"

definition slotFor :: "u64 \<Rightarrow> nat" where
  "slotFor seqId = unat seqId mod kMaxPostEncodeCompletionReceipts"

definition nextGeneration :: "u64 \<Rightarrow> u64" where
  "nextGeneration generation = (if generation = - 1 then 1 else generation + 1)"

definition resolve :: "PostEncodeCompletionLedger \<Rightarrow> PostEncodeCompletionReceipt \<Rightarrow> nat option" where
  "resolve l r =
     (if \<not> validReceipt r \<or> unat (pr_slot r) \<ge> length (pl_entries l) then None
      else let entry = pl_entries l ! unat (pr_slot r)
           in if en_seqId entry = pr_seqId r \<and> en_generation entry = pr_generation r
              then Some (unat (pr_slot r)) else None)"

definition setEntry :: "nat \<Rightarrow> Entry \<Rightarrow> PostEncodeCompletionLedger \<Rightarrow> PostEncodeCompletionLedger" where
  "setEntry k e l = l\<lparr>pl_entries := (pl_entries l)[k := e]\<rparr>"

definition releaseEntry :: "nat \<Rightarrow> PostEncodeCompletionLedger \<Rightarrow> PostEncodeCompletionLedger" where
  "releaseEntry k l = (let entry = pl_entries l ! k in
     (setEntry k (entry\<lparr>en_seqId := 0, en_hasPresent := False, en_state := RcFree, en_group := None,
        en_generation := nextGeneration (en_generation entry)\<rparr>) l)\<lparr>pl_depth := pl_depth l - 1\<rparr>)"

definition groupRefused :: "u64 \<Rightarrow> bool \<Rightarrow> ArenaGroupIdentity option \<Rightarrow> bool" where
  "groupRefused seqId hasPresent grp = (case grp of
     None \<Rightarrow> False
   | Some g \<Rightarrow> \<not> validGroup g \<or> ag_sourceCount g \<noteq> 1 \<or> ag_tailSeqId g \<noteq> seqId \<or> ag_hasPresent g \<noteq> hasPresent)"

text \<open>The receipt of an activation is only given with its success.\<close>

definition activate :: "u64 \<Rightarrow> bool \<Rightarrow> ArenaGroupIdentity option \<Rightarrow> PostEncodeCompletionLedger \<Rightarrow>
    PostEncodeCompletionLedger \<times> PostEncodeReceiptResult \<times> PostEncodeCompletionReceipt option" where
  "activate seqId hasPresent grp l =
     (if seqId = 0 \<or> groupRefused seqId hasPresent grp then (l, RrInvalid, None)
      else
        let slot = slotFor seqId; entry = pl_entries l ! slot in
        if en_state entry \<noteq> RcFree
        then (l, if en_seqId entry = seqId then RrDuplicate else RrCapacity, None)
        else
          let generation = (if en_generation entry = 0 then 1 else en_generation entry);
              depth = pl_depth l + 1
          in ((setEntry slot (entry\<lparr>en_generation := generation, en_seqId := seqId,
                 en_hasPresent := hasPresent, en_group := grp, en_state := RcActive\<rparr>) l)
                 \<lparr>pl_depth := depth, pl_peak := max (pl_peak l) depth\<rparr>,
              RrSucceeded, Some \<lparr>pr_seqId = seqId, pr_generation = generation, pr_slot = of_nat slot\<rparr>))"

definition cancelBeforeActivationEffects :: "PostEncodeCompletionReceipt \<Rightarrow> PostEncodeCompletionLedger \<Rightarrow>
    PostEncodeCompletionLedger \<times> PostEncodeReceiptResult" where
  "cancelBeforeActivationEffects r l = (case resolve l r of
     None \<Rightarrow> (l, RrStale)
   | Some k \<Rightarrow>
       if en_state (pl_entries l ! k) \<noteq> RcActive then (l, RrWrongState) else (releaseEntry k l, RrSucceeded))"

definition markSubmitted :: "PostEncodeCompletionReceipt \<Rightarrow> bool \<Rightarrow> PostEncodeCompletionLedger \<Rightarrow>
    PostEncodeCompletionLedger \<times> PostEncodeReceiptResult" where
  "markSubmitted r hasPresent l = (case resolve l r of
     None \<Rightarrow> (l, RrStale)
   | Some k \<Rightarrow> let entry = pl_entries l ! k in
       if en_state entry \<noteq> RcActive \<or> en_hasPresent entry \<noteq> hasPresent then (l, RrWrongState)
       else (setEntry k (entry\<lparr>en_state := RcSubmitted\<rparr>) l, RrSucceeded))"

definition markCompleted :: "PostEncodeCompletionReceipt \<Rightarrow> bool \<Rightarrow> PostEncodeCompletionLedger \<Rightarrow>
    PostEncodeCompletionLedger \<times> PostEncodeReceiptResult" where
  "markCompleted r hasPresent l = (case resolve l r of
     None \<Rightarrow> (l, RrStale)
   | Some k \<Rightarrow> let entry = pl_entries l ! k in
       if en_state entry \<noteq> RcSubmitted \<or> en_hasPresent entry \<noteq> hasPresent then (l, RrWrongState)
       else (setEntry k (entry\<lparr>en_state := RcCompleted\<rparr>) l, RrSucceeded))"

definition finishAndRelease :: "u64 \<Rightarrow> PostEncodeCompletionLedger \<Rightarrow>
    PostEncodeCompletionLedger \<times> PostEncodeReceiptResult" where
  "finishAndRelease seqId l =
     (if seqId = 0 then (l, RrInvalid)
      else let k = slotFor seqId; entry = pl_entries l ! k in
        if en_seqId entry \<noteq> seqId then (l, RrStale)
        else if en_state entry \<noteq> RcCompleted \<or> en_group entry \<noteq> None then (l, RrWrongState)
        else (releaseEntry k l, RrSucceeded))"

definition takeCompletedArenaGroup :: "PostEncodeCompletionReceipt \<Rightarrow> PostEncodeCompletionLedger \<Rightarrow>
    PostEncodeCompletionLedger \<times> ArenaGroupIdentity option" where
  "takeCompletedArenaGroup r l = (case resolve l r of
     None \<Rightarrow> (l, None)
   | Some k \<Rightarrow> let entry = pl_entries l ! k in
       if en_state entry \<noteq> RcCompleted then (l, None)
       else (setEntry k (entry\<lparr>en_group := None\<rparr>) l, en_group entry))"

definition completedSeq :: "PostEncodeCompletionLedger \<Rightarrow> u64 \<Rightarrow> bool" where
  "completedSeq l seqId = (seqId \<noteq> 0 \<and> en_seqId (pl_entries l ! slotFor seqId) = seqId \<and>
     en_state (pl_entries l ! slotFor seqId) = RcCompleted)"

definition matchesReceipt :: "PostEncodeCompletionLedger \<Rightarrow> PostEncodeCompletionReceipt \<Rightarrow>
    PostEncodeReceiptState \<Rightarrow> bool \<Rightarrow> bool" where
  "matchesReceipt l r state hasPresent = (case resolve l r of
     None \<Rightarrow> False
   | Some k \<Rightarrow> en_state (pl_entries l ! k) = state \<and> en_hasPresent (pl_entries l ! k) = hasPresent)"

definition receiptFor :: "PostEncodeCompletionLedger \<Rightarrow> u64 \<Rightarrow> PostEncodeReceiptState \<Rightarrow>
    PostEncodeCompletionReceipt option" where
  "receiptFor l seqId state =
     (if seqId = 0 then None
      else let slot = slotFor seqId; entry = pl_entries l ! slot in
        if en_seqId entry \<noteq> seqId \<or> en_state entry \<noteq> state then None
        else Some \<lparr>pr_seqId = seqId, pr_generation = en_generation entry, pr_slot = of_nat slot\<rparr>)"

end
