(* ===== verification/Q_Completion_Correct.thy ===== *)
theory Q_Completion_Correct
  imports Q_Completion
begin

text \<open>
  The receipt ledger implements a map from live receipts to their state: a receipt that was
  released never acts again, and the settlement of a group happens exactly once. A completion
  span stands for the dense range of source ids it was built from.
\<close>

section \<open>The invariant\<close>

definition entry_ok :: "nat \<Rightarrow> Entry \<Rightarrow> bool" where
  "entry_ok k e = (if en_state e = RcFree then en_seqId e = 0 \<and> en_group e = None
     else en_seqId e \<noteq> 0 \<and> slotFor (en_seqId e) = k \<and> en_generation e \<noteq> 0)"

definition live_slots :: "PostEncodeCompletionLedger \<Rightarrow> nat set" where
  "live_slots l = {k. k < 1024 \<and> en_state (pl_entries l ! k) \<noteq> RcFree}"

definition completion_ok :: "PostEncodeCompletionLedger \<Rightarrow> bool" where
  "completion_ok l = (length (pl_entries l) = 1024 \<and> (\<forall>k < 1024. entry_ok k (pl_entries l ! k)) \<and>
     unat (pl_depth l) = card (live_slots l) \<and> pl_depth l \<le> pl_peak l)"

lemma newCompletionLedger_ok: "completion_ok newCompletionLedger"
  by (simp add: completion_ok_def newCompletionLedger_def entry_ok_def empty_entry_def live_slots_def)

lemma slotFor_less [simp]: "slotFor q < 1024"
  by (simp add: slotFor_def)

lemma unat_slot: "k < 1024 \<Longrightarrow> unat (of_nat k :: u32) = k"
  by (simp add: unsigned_of_nat take_bit_nat_eq_self)

lemma live_slots_card: "card (live_slots l) \<le> 1024" and live_slots_finite [simp]: "finite (live_slots l)"
proof -
  have s: "live_slots l \<subseteq> {..<1024}" by (auto simp: live_slots_def)
  show "finite (live_slots l)" by (rule finite_subset [OF s]) simp
  show "card (live_slots l) \<le> 1024" using card_mono [OF _ s] by simp
qed

section \<open>Live receipts\<close>

definition receipt_at :: "PostEncodeCompletionLedger \<Rightarrow> nat \<Rightarrow> PostEncodeCompletionReceipt" where
  "receipt_at l k = \<lparr>pr_seqId = en_seqId (pl_entries l ! k), pr_generation = en_generation (pl_entries l ! k),
     pr_slot = of_nat k\<rparr>"

lemma small_slot: "k < 1024 \<Longrightarrow> (of_nat k :: u32) \<noteq> - 1"
proof
  assume k: "k < 1024" and e: "(of_nat k :: u32) = - 1"
  have "unat (- 1 :: u32) = 2 ^ 32 - 1" by (simp add: unsigned_minus_1_eq_mask mask_eq_exp_minus_1)
  with e unat_slot [OF k] k show False by simp
qed

lemma resolve_iff:
  assumes "completion_ok l"
  shows "resolve l r = Some k \<longleftrightarrow> k \<in> live_slots l \<and> r = receipt_at l k"
proof
  assume a: "resolve l r = Some k"
  then have k: "k = unat (pr_slot r)" "k < 1024" "pr_seqId r = en_seqId (pl_entries l ! k)"
    "pr_generation r = en_generation (pl_entries l ! k)" "pr_seqId r \<noteq> 0"
    using assms by (auto simp: resolve_def completion_ok_def validReceipt_def split: if_splits)
  then have "k \<in> live_slots l" using assms by (auto simp: completion_ok_def entry_ok_def live_slots_def)
  then show "k \<in> live_slots l \<and> r = receipt_at l k" using k by (simp add: receipt_at_def)
next
  assume "k \<in> live_slots l \<and> r = receipt_at l k"
  then show "resolve l r = Some k"
    using assms small_slot [of k] unat_slot [of k]
    by (auto simp: resolve_def completion_ok_def validReceipt_def live_slots_def receipt_at_def entry_ok_def)
qed

lemma receipt_at_inj: "j < 1024 \<Longrightarrow> k < 1024 \<Longrightarrow> receipt_at l j = receipt_at m k \<Longrightarrow> j = k"
  by (metis PostEncodeCompletionReceipt.ext_inject receipt_at_def unat_slot)

text \<open>The abstract ledger: what is known of a live receipt.\<close>

type_synonym receipt_view = "PostEncodeReceiptState \<times> bool \<times> ArenaGroupIdentity option"

definition view :: "Entry \<Rightarrow> receipt_view" where
  "view e = (en_state e, en_hasPresent e, en_group e)"

definition abs_ledger :: "PostEncodeCompletionLedger \<Rightarrow> PostEncodeCompletionReceipt \<Rightarrow> receipt_view option" where
  "abs_ledger l r = map_option (\<lambda>k. view (pl_entries l ! k)) (resolve l r)"

lemma abs_ledger_iff:
  "completion_ok l \<Longrightarrow> abs_ledger l r = Some v \<longleftrightarrow> (\<exists>k \<in> live_slots l. r = receipt_at l k \<and> v = view (pl_entries l ! k))"
  by (auto simp: abs_ledger_def resolve_iff)

lemma abs_ledger_at: "completion_ok l \<Longrightarrow> k \<in> live_slots l \<Longrightarrow> abs_ledger l (receipt_at l k) = Some (view (pl_entries l ! k))"
  by (auto simp: abs_ledger_iff)

lemma setEntry_simps [simp]:
  "pl_entries (setEntry k e l) = (pl_entries l)[k := e]" "pl_depth (setEntry k e l) = pl_depth l"
  "pl_peak (setEntry k e l) = pl_peak l"
  by (simp_all add: setEntry_def)

lemma live_slots_update:
  assumes "length (pl_entries l) = 1024" "pl_entries m = (pl_entries l)[k := e]" "k < 1024"
  shows "live_slots m = (if en_state e = RcFree then live_slots l - {k} else insert k (live_slots l))"
  using assms by (auto simp: live_slots_def nth_list_update split: if_splits)

text \<open>Changing one entry changes the map at the receipts of this slot.\<close>

lemma abs_ledger_update:
  assumes l: "completion_ok l" and m: "completion_ok m" and e: "pl_entries m = (pl_entries l)[k := e]" and k: "k < 1024"
  shows "abs_ledger m = (\<lambda>r. if en_state e \<noteq> RcFree \<and> r = receipt_at m k then Some (view e)
    else if k \<in> live_slots l \<and> r = receipt_at l k then None else abs_ledger l r)"
proof
  fix r
  have len: "length (pl_entries l) = 1024" using l by (simp add: completion_ok_def)
  note ls = live_slots_update [OF len e k]
  have k': "pl_entries m ! k = e" using len k by (simp add: e)
  have other: "pl_entries m ! j = pl_entries l ! j \<and> receipt_at m j = receipt_at l j" if "j \<noteq> k" for j
    using that by (simp add: e receipt_at_def)
  show "abs_ledger m r = (if en_state e \<noteq> RcFree \<and> r = receipt_at m k then Some (view e)
    else if k \<in> live_slots l \<and> r = receipt_at l k then None else abs_ledger l r)"
  proof (cases "\<exists>j. j < 1024 \<and> j \<noteq> k \<and> r = receipt_at l j")
    case True
    then obtain j where j: "j < 1024" "j \<noteq> k" "r = receipt_at l j" by blast
    then have "r \<noteq> receipt_at m k" "r \<noteq> receipt_at l k" using k receipt_at_inj by metis+
    moreover have "resolve m r = resolve l r"
    proof -
      have "resolve m r = Some i \<longleftrightarrow> resolve l r = Some i" for i
      proof (cases "i = k")
        case True
        then show ?thesis using \<open>r \<noteq> receipt_at m k\<close> \<open>r \<noteq> receipt_at l k\<close> by (simp add: resolve_iff l m)
      next
        case False
        then show ?thesis using other [OF False] by (auto simp: resolve_iff l m ls)
      qed
      then show ?thesis by (metis option.exhaust)
    qed
    moreover have "map_option (\<lambda>k. view (pl_entries m ! k)) (resolve l r) = map_option (\<lambda>k. view (pl_entries l ! k)) (resolve l r)"
    proof (cases "resolve l r")
      case (Some i)
      then have "i \<noteq> k" using \<open>r \<noteq> receipt_at l k\<close> by (auto simp: resolve_iff l)
      then show ?thesis using other by (simp add: Some)
    qed simp
    ultimately show ?thesis by (simp add: abs_ledger_def)
  next
    case False
    have m1: "abs_ledger m r = (if en_state e \<noteq> RcFree \<and> r = receipt_at m k then Some (view e) else None)"
    proof (cases "en_state e \<noteq> RcFree \<and> r = receipt_at m k")
      case True
      then show ?thesis using abs_ledger_at [OF m, of k] by (simp add: ls k')
    next
      case F: False
      have "resolve m r = None"
      proof (rule ccontr)
        assume "resolve m r \<noteq> None"
        then obtain i where i: "i \<in> live_slots m" "r = receipt_at m i" by (auto simp: resolve_iff m)
        then have "i < 1024" by (simp add: live_slots_def)
        with False other i have "i = k" by metis
        with F i show False by (simp add: ls split: if_splits)
      qed
      with F show ?thesis by (auto simp: abs_ledger_def)
    qed
    have "abs_ledger l r = None" if "\<not> (k \<in> live_slots l \<and> r = receipt_at l k)"
    proof (rule ccontr)
      assume "abs_ledger l r \<noteq> None"
      then obtain i where i: "i \<in> live_slots l" "r = receipt_at l i" by (auto simp: abs_ledger_def resolve_iff l)
      then have "i < 1024" by (simp add: live_slots_def)
      with False i have "i = k" by blast
      with that i show False by simp
    qed
    then show ?thesis by (auto simp: m1)
  qed
qed

section \<open>The operations on the map\<close>

lemma keep_entry:
  assumes l: "completion_ok l" and k: "k \<in> live_slots l"
    and e: "en_seqId e = en_seqId (pl_entries l ! k)" "en_generation e = en_generation (pl_entries l ! k)"
      "en_state e \<noteq> RcFree"
  shows "completion_ok (setEntry k e l)" and "live_slots (setEntry k e l) = live_slots l"
    and "abs_ledger (setEntry k e l) = (abs_ledger l)(receipt_at l k \<mapsto> view e)"
proof -
  have k1: "k < 1024" and len: "length (pl_entries l) = 1024" using k l by (simp_all add: live_slots_def completion_ok_def)
  show ls: "live_slots (setEntry k e l) = live_slots l"
    using live_slots_update [OF len _ k1, of "setEntry k e l" e] e(3) k by (simp add: insert_absorb)
  have "entry_ok j ((pl_entries l)[k := e] ! j)" if "j < 1024" for j
    using that l k e len by (auto simp: completion_ok_def nth_list_update entry_ok_def live_slots_def)
  then show ok: "completion_ok (setEntry k e l)" using l len by (simp add: completion_ok_def ls)
  have r: "receipt_at (setEntry k e l) k = receipt_at l k" using e len k1 by (simp add: receipt_at_def)
  show "abs_ledger (setEntry k e l) = (abs_ledger l)(receipt_at l k \<mapsto> view e)"
    using abs_ledger_update [OF l ok _ k1, of e] e(3) r by (auto simp: fun_eq_iff)
qed

lemma release_entry:
  assumes l: "completion_ok l" and k: "k \<in> live_slots l"
  shows "completion_ok (releaseEntry k l)" and "live_slots (releaseEntry k l) = live_slots l - {k}"
    and "abs_ledger (releaseEntry k l) = (abs_ledger l)(receipt_at l k := None)"
proof -
  have k1: "k < 1024" and len: "length (pl_entries l) = 1024" using k l by (simp_all add: live_slots_def completion_ok_def)
  obtain e where e: "pl_entries (releaseEntry k l) = (pl_entries l)[k := e]" "en_state e = RcFree" "en_seqId e = 0"
    "en_group e = None"
    by (simp add: releaseEntry_def)
  have ls: "live_slots (releaseEntry k l) = live_slots l - {k}"
    using live_slots_update [OF len e(1) k1] e(2) by simp
  have c: "0 < card (live_slots l)" using k by (auto simp: card_gt_0_iff)
  have "pl_depth l \<noteq> 0" using l c by (auto simp: completion_ok_def)
  then have d: "unat (pl_depth l - 1) = unat (pl_depth l) - 1" "pl_depth l - 1 \<le> pl_depth l"
    by (simp_all add: unat_minus_one word_le_nat_alt)
  have "entry_ok j ((pl_entries l)[k := e] ! j)" if "j < 1024" for j
    using that l e len k1 by (auto simp: completion_ok_def nth_list_update entry_ok_def)
  moreover have "unat (pl_depth (releaseEntry k l)) = card (live_slots (releaseEntry k l))"
  proof -
    have "pl_depth (releaseEntry k l) = pl_depth l - 1" by (simp add: releaseEntry_def)
    then show ?thesis using l d(1) k by (simp add: ls completion_ok_def)
  qed
  moreover have "pl_depth (releaseEntry k l) \<le> pl_peak (releaseEntry k l)"
    using l d(2) by (auto simp: completion_ok_def releaseEntry_def intro: order_trans)
  ultimately show ok: "completion_ok (releaseEntry k l)" using len by (simp add: completion_ok_def e(1))
  show "live_slots (releaseEntry k l) = live_slots l - {k}" by (rule ls)
  show "abs_ledger (releaseEntry k l) = (abs_ledger l)(receipt_at l k := None)"
    using abs_ledger_update [OF l ok e(1) k1] e(2) k by (auto simp: fun_eq_iff)
qed

text \<open>The abstract operations.\<close>

definition spec_move :: "PostEncodeReceiptState \<Rightarrow> PostEncodeReceiptState \<Rightarrow> PostEncodeCompletionReceipt \<Rightarrow> bool \<Rightarrow>
    (PostEncodeCompletionReceipt \<Rightarrow> receipt_view option) \<Rightarrow>
    (PostEncodeCompletionReceipt \<Rightarrow> receipt_view option) \<times> PostEncodeReceiptResult" where
  "spec_move from to r present M = (case M r of
     None \<Rightarrow> (M, RrStale)
   | Some (st, p, g) \<Rightarrow>
       if st \<noteq> from \<or> p \<noteq> present then (M, RrWrongState) else (M(r \<mapsto> (to, p, g)), RrSucceeded))"

definition spec_cancel :: "PostEncodeCompletionReceipt \<Rightarrow> (PostEncodeCompletionReceipt \<Rightarrow> receipt_view option) \<Rightarrow>
    (PostEncodeCompletionReceipt \<Rightarrow> receipt_view option) \<times> PostEncodeReceiptResult" where
  "spec_cancel r M = (case M r of
     None \<Rightarrow> (M, RrStale)
   | Some (st, p, g) \<Rightarrow> if st \<noteq> RcActive then (M, RrWrongState) else (M(r := None), RrSucceeded))"

definition spec_take :: "PostEncodeCompletionReceipt \<Rightarrow> (PostEncodeCompletionReceipt \<Rightarrow> receipt_view option) \<Rightarrow>
    (PostEncodeCompletionReceipt \<Rightarrow> receipt_view option) \<times> ArenaGroupIdentity option" where
  "spec_take r M = (case M r of
     None \<Rightarrow> (M, None)
   | Some (st, p, g) \<Rightarrow> if st \<noteq> RcCompleted then (M, None) else (M(r \<mapsto> (st, p, None)), g))"

definition spec_finish :: "PostEncodeCompletionReceipt \<Rightarrow> (PostEncodeCompletionReceipt \<Rightarrow> receipt_view option) \<Rightarrow>
    (PostEncodeCompletionReceipt \<Rightarrow> receipt_view option) \<times> PostEncodeReceiptResult" where
  "spec_finish r M = (case M r of
     None \<Rightarrow> (M, RrStale)
   | Some (st, p, g) \<Rightarrow> if st \<noteq> RcCompleted \<or> g \<noteq> None then (M, RrWrongState) else (M(r := None), RrSucceeded))"

lemma resolve_cases:
  assumes "completion_ok l"
  obtains (dead) "resolve l r = None" "abs_ledger l r = None"
    | (live) k where "resolve l r = Some k" "k \<in> live_slots l" "r = receipt_at l k"
        "abs_ledger l r = Some (view (pl_entries l ! k))"
proof (cases "resolve l r")
  case (Some k)
  then have "k \<in> live_slots l" "r = receipt_at l k" using resolve_iff [OF assms, of r k] by simp_all
  with Some show ?thesis using live by (simp add: abs_ledger_def)
qed (simp add: dead abs_ledger_def)

lemma markSubmitted_spec:
  assumes "completion_ok l"
  shows "completion_ok (fst (markSubmitted r p l)) \<and>
    (abs_ledger (fst (markSubmitted r p l)), snd (markSubmitted r p l)) = spec_move RcActive RcSubmitted r p (abs_ledger l)"
proof (rule resolve_cases [OF assms, of r])
  fix k assume k: "resolve l r = Some k" "k \<in> live_slots l" "r = receipt_at l k"
    "abs_ledger l r = Some (view (pl_entries l ! k))"
  show ?thesis
    using keep_entry [OF assms k(2), of "(pl_entries l ! k)\<lparr>en_state := RcSubmitted\<rparr>"] k assms
    by (simp add: markSubmitted_def spec_move_def view_def)
qed (simp add: markSubmitted_def spec_move_def assms)

lemma markCompleted_spec:
  assumes "completion_ok l"
  shows "completion_ok (fst (markCompleted r p l)) \<and>
    (abs_ledger (fst (markCompleted r p l)), snd (markCompleted r p l)) = spec_move RcSubmitted RcCompleted r p (abs_ledger l)"
proof (rule resolve_cases [OF assms, of r])
  fix k assume k: "resolve l r = Some k" "k \<in> live_slots l" "r = receipt_at l k"
    "abs_ledger l r = Some (view (pl_entries l ! k))"
  show ?thesis
    using keep_entry [OF assms k(2), of "(pl_entries l ! k)\<lparr>en_state := RcCompleted\<rparr>"] k assms
    by (simp add: markCompleted_def spec_move_def view_def)
qed (simp add: markCompleted_def spec_move_def assms)

lemma takeCompleted_spec:
  assumes "completion_ok l"
  shows "completion_ok (fst (takeCompletedArenaGroup r l)) \<and>
    (abs_ledger (fst (takeCompletedArenaGroup r l)), snd (takeCompletedArenaGroup r l)) = spec_take r (abs_ledger l)"
proof (rule resolve_cases [OF assms, of r])
  fix k assume k: "resolve l r = Some k" "k \<in> live_slots l" "r = receipt_at l k"
    "abs_ledger l r = Some (view (pl_entries l ! k))"
  show ?thesis
    using keep_entry [OF assms k(2), of "(pl_entries l ! k)\<lparr>en_group := None\<rparr>"] k assms
    by (auto simp: takeCompletedArenaGroup_def spec_take_def view_def)
qed (simp add: takeCompletedArenaGroup_def spec_take_def assms)

lemma cancel_spec:
  assumes "completion_ok l"
  shows "completion_ok (fst (cancelBeforeActivationEffects r l)) \<and>
    (abs_ledger (fst (cancelBeforeActivationEffects r l)), snd (cancelBeforeActivationEffects r l)) =
      spec_cancel r (abs_ledger l)"
proof (rule resolve_cases [OF assms, of r])
  fix k assume k: "resolve l r = Some k" "k \<in> live_slots l" "r = receipt_at l k"
    "abs_ledger l r = Some (view (pl_entries l ! k))"
  show ?thesis
    using release_entry [OF assms k(2)] k assms
    by (simp add: cancelBeforeActivationEffects_def spec_cancel_def view_def)
qed (simp add: cancelBeforeActivationEffects_def spec_cancel_def assms)

lemma live_seq:
  assumes "completion_ok l" "k \<in> live_slots l"
  shows "slotFor (en_seqId (pl_entries l ! k)) = k" "en_seqId (pl_entries l ! k) \<noteq> 0"
  using assms by (auto simp: completion_ok_def live_slots_def entry_ok_def)

lemma receipt_at_seq [simp]: "pr_seqId (receipt_at l k) = en_seqId (pl_entries l ! k)"
  by (simp add: receipt_at_def)

lemma live_slotFor:
  assumes "completion_ok l" "q \<noteq> 0"
  shows "en_seqId (pl_entries l ! slotFor q) = q \<longleftrightarrow> (\<exists>r. pr_seqId r = q \<and> abs_ledger l r \<noteq> None)"
proof
  assume e: "en_seqId (pl_entries l ! slotFor q) = q"
  then have "slotFor q \<in> live_slots l"
    using assms by (auto simp: completion_ok_def entry_ok_def live_slots_def split: if_splits)
  then show "\<exists>r. pr_seqId r = q \<and> abs_ledger l r \<noteq> None"
    using abs_ledger_at [OF assms(1)] e by (intro exI [of _ "receipt_at l (slotFor q)"]) simp
next
  assume "\<exists>r. pr_seqId r = q \<and> abs_ledger l r \<noteq> None"
  then obtain r where r: "pr_seqId r = q" "abs_ledger l r \<noteq> None" by blast
  then show "en_seqId (pl_entries l ! slotFor q) = q"
    by (cases rule: resolve_cases [OF assms(1), of r]) (auto simp: live_seq [OF assms(1)])
qed

lemma finish_spec:
  assumes l: "completion_ok l"
  shows "completion_ok (fst (finishAndRelease q l)) \<and>
    (q = 0 \<and> finishAndRelease q l = (l, RrInvalid) \<or>
     q \<noteq> 0 \<and> (\<forall>r. pr_seqId r = q \<longrightarrow> abs_ledger l r = None) \<and> finishAndRelease q l = (l, RrStale) \<or>
     (\<exists>r. pr_seqId r = q \<and> abs_ledger l r \<noteq> None \<and>
       (abs_ledger (fst (finishAndRelease q l)), snd (finishAndRelease q l)) = spec_finish r (abs_ledger l)))"
proof (cases "q = 0 \<or> en_seqId (pl_entries l ! slotFor q) \<noteq> q")
  case True
  then show ?thesis using live_slotFor [OF l, of q] l by (auto simp: finishAndRelease_def)
next
  case False
  then have q: "q \<noteq> 0" "en_seqId (pl_entries l ! slotFor q) = q" by simp_all
  then have k: "slotFor q \<in> live_slots l"
    using l by (auto simp: completion_ok_def entry_ok_def live_slots_def split: if_splits)
  have a: "abs_ledger l (receipt_at l (slotFor q)) = Some (view (pl_entries l ! slotFor q))"
    by (rule abs_ledger_at [OF l k])
  have "(abs_ledger (fst (finishAndRelease q l)), snd (finishAndRelease q l)) =
      spec_finish (receipt_at l (slotFor q)) (abs_ledger l)"
    using release_entry(3) [OF l k] q a by (simp add: finishAndRelease_def spec_finish_def view_def)
  moreover have "completion_ok (fst (finishAndRelease q l))"
    using release_entry(1) [OF l k] q l by (simp add: finishAndRelease_def)
  moreover have "pr_seqId (receipt_at l (slotFor q)) = q" using q by simp
  ultimately show ?thesis using a by blast
qed

lemma receiptFor_spec:
  assumes l: "completion_ok l" and st: "st \<noteq> RcFree"
  shows "receiptFor l q st = Some r \<longleftrightarrow> pr_seqId r = q \<and> (\<exists>p g. abs_ledger l r = Some (st, p, g))"
proof
  assume r: "receiptFor l q st = Some r"
  then have q: "q \<noteq> 0" "en_seqId (pl_entries l ! slotFor q) = q" "en_state (pl_entries l ! slotFor q) = st"
    "r = receipt_at l (slotFor q)"
    by (auto simp: receiptFor_def receipt_at_def split: if_splits)
  then have "slotFor q \<in> live_slots l" using st by (simp add: live_slots_def)
  then show "pr_seqId r = q \<and> (\<exists>p g. abs_ledger l r = Some (st, p, g))"
    using abs_ledger_at [OF l] q by (simp add: view_def)
next
  assume a: "pr_seqId r = q \<and> (\<exists>p g. abs_ledger l r = Some (st, p, g))"
  then obtain k where k: "k \<in> live_slots l" "r = receipt_at l k" "en_state (pl_entries l ! k) = st"
    using l by (auto simp: abs_ledger_iff view_def)
  then show "receiptFor l q st = Some r"
    using live_seq [OF l k(1)] a by (auto simp: receiptFor_def receipt_at_def)
qed

text \<open>An activation either changes nothing or adds a receipt that was not live.\<close>

lemma activate_spec:
  assumes l: "completion_ok l"
  shows "completion_ok (fst (activate q p g l)) \<and>
    (snd (snd (activate q p g l)) = None \<and> fst (activate q p g l) = l \<and> fst (snd (activate q p g l)) \<noteq> RrSucceeded \<or>
     (\<exists>r. snd (activate q p g l) = (RrSucceeded, Some r) \<and> pr_seqId r = q \<and> q \<noteq> 0 \<and>
        slotFor q \<notin> live_slots l \<and> live_slots (fst (activate q p g l)) = insert (slotFor q) (live_slots l) \<and>
        r = receipt_at (fst (activate q p g l)) (slotFor q) \<and> abs_ledger l r = None \<and>
        abs_ledger (fst (activate q p g l)) = (abs_ledger l)(r \<mapsto> (RcActive, p, g))))"
proof (cases "q = 0 \<or> groupRefused q p g \<or> en_state (pl_entries l ! slotFor q) \<noteq> RcFree")
  case True
  then show ?thesis using l by (auto simp: activate_def)
next
  case False
  define k where "k = slotFor q"
  define m where "m = fst (activate q p g l)"
  have q: "q \<noteq> 0" "\<not> groupRefused q p g" "en_state (pl_entries l ! k) = RcFree" using False by (simp_all add: k_def)
  have k1: "k < 1024" and len: "length (pl_entries l) = 1024" using l by (simp_all add: k_def completion_ok_def)
  have dead: "k \<notin> live_slots l" using q(3) by (simp add: live_slots_def)
  define gen where "gen = (if en_generation (pl_entries l ! k) = 0 then 1 else en_generation (pl_entries l ! k))"
  define e where "e = (pl_entries l ! k)\<lparr>en_generation := gen, en_seqId := q, en_hasPresent := p,
    en_group := g, en_state := RcActive\<rparr>"
  have e: "pl_entries m = (pl_entries l)[k := e]" "en_state e = RcActive" "en_seqId e = q"
    "en_generation e \<noteq> 0" "en_hasPresent e = p" "en_group e = g"
    "pl_depth m = pl_depth l + 1" "pl_peak m = max (pl_peak l) (pl_depth l + 1)"
    "snd (activate q p g l) = (RrSucceeded, Some \<lparr>pr_seqId = q, pr_generation = en_generation e, pr_slot = of_nat k\<rparr>)"
    using q by (simp_all add: m_def activate_def k_def e_def gen_def)
  have ls: "live_slots m = insert k (live_slots l)" using live_slots_update [OF len e(1) k1] e(2) by simp
  have "card (live_slots l) + 1 \<le> 1024"
    using live_slots_card [of m] dead by (simp add: ls)
  then have "unat (pl_depth l + 1) = card (live_slots l) + 1"
    using l unat_add64 [of "pl_depth l" 1] by (simp add: completion_ok_def)
  then have "unat (pl_depth m) = card (live_slots m)" using dead by (simp add: e(7) ls)
  moreover have "entry_ok j ((pl_entries l)[k := e] ! j)" if "j < 1024" for j
    using that l e q(1) len k1 by (auto simp: completion_ok_def nth_list_update entry_ok_def k_def)
  ultimately have ok: "completion_ok m" using len by (simp add: completion_ok_def e)
  define r where "r = receipt_at m k"
  have r: "r = \<lparr>pr_seqId = q, pr_generation = en_generation e, pr_slot = of_nat k\<rparr>"
    using len k1 by (simp add: r_def receipt_at_def e)
  have "abs_ledger l r = None"
  proof (rule resolve_cases [OF l, of r])
    fix j assume j: "j \<in> live_slots l" "r = receipt_at l j"
    then have "j = k" using k1 receipt_at_inj [of j k l m] by (simp add: r_def live_slots_def)
    then show ?thesis using dead j by simp
  qed
  moreover have "abs_ledger m = (abs_ledger l)(r \<mapsto> (RcActive, p, g))"
    using abs_ledger_update [OF l ok e(1) k1] dead by (auto simp: fun_eq_iff e r_def view_def)
  moreover have "snd (activate q p g l) = (RrSucceeded, Some r)" "pr_seqId r = q" by (simp_all add: e r)
  ultimately show ?thesis
    using ok q(1) dead ls unfolding m_def [symmetric] k_def [symmetric] r_def [symmetric] by blast
qed

end
