(* ===== verification/Q_Completion_Runs.thy ===== *)
theory Q_Completion_Runs
  imports Q_Completion_Correct
begin

text \<open>
  Runs of the receipt ledger with the history of what it handed out: receipts are never issued
  twice, released receipts stay dead, and the group of an activation is settled exactly once
  before its entry may be released. The bound is the generation counter of a slot, which comes
  around after \<open>2 ^ 64 - 1\<close> releases. Last, what a completion span stands for.
\<close>

section \<open>Generations\<close>

definition gen :: "PostEncodeCompletionLedger \<Rightarrow> nat \<Rightarrow> u64" where
  "gen l k = en_generation (pl_entries l ! k)"

definition slot_of :: "PostEncodeCompletionReceipt \<Rightarrow> nat" where
  "slot_of r = unat (pr_slot r)"

lemma receipt_at_parts: "k < 1024 \<Longrightarrow> slot_of (receipt_at l k) = k \<and> pr_generation (receipt_at l k) = gen l k"
  by (simp add: slot_of_def receipt_at_def gen_def unat_slot)

lemma live_receipt:
  assumes "completion_ok l" "abs_ledger l r \<noteq> None"
  shows "slot_of r < 1024 \<and> slot_of r \<in> live_slots l \<and> r = receipt_at l (slot_of r) \<and> pr_generation r = gen l (slot_of r)"
proof -
  obtain k where k: "k \<in> live_slots l" "r = receipt_at l k"
    using assms by (auto simp: abs_ledger_iff)
  then have "k < 1024" by (simp add: live_slots_def)
  with k receipt_at_parts [of k l] show ?thesis by simp
qed

lemma gen_setEntry: "en_generation e = gen l k \<Longrightarrow> gen (setEntry k e l) j = gen l j"
  by (cases "k < length (pl_entries l)") (auto simp: gen_def nth_list_update list_update_beyond)

lemma gen_mark [simp]:
  "gen (fst (markSubmitted r p l)) k = gen l k" "gen (fst (markCompleted r p l)) k = gen l k"
  "gen (fst (takeCompletedArenaGroup r l)) k = gen l k"
  by (auto simp: markSubmitted_def markCompleted_def takeCompletedArenaGroup_def split: option.split
      intro!: gen_setEntry) (simp_all add: gen_def)

lemma gen_release:
  assumes "completion_ok l" "k < 1024"
  shows "gen (releaseEntry k l) j = (if j = k then nextGeneration (gen l k) else gen l j)"
  using assms by (simp add: gen_def releaseEntry_def completion_ok_def nth_list_update)

lemma nextGeneration_unat: "g \<noteq> - 1 \<Longrightarrow> unat (nextGeneration g) = Suc (unat g)"
  using unat_next [of g] by (simp add: nextGeneration_def)

section \<open>Runs\<close>

record LedgerHistory =
  rh_issued :: "(PostEncodeCompletionReceipt \<times> ArenaGroupIdentity option) list"
  rh_taken :: "(PostEncodeCompletionReceipt \<times> ArenaGroupIdentity) list"
  rh_finished :: "PostEncodeCompletionReceipt list"
  rh_cancelled :: "PostEncodeCompletionReceipt list"

definition no_history :: LedgerHistory where
  "no_history = \<lparr>rh_issued = [], rh_taken = [], rh_finished = [], rh_cancelled = []\<rparr>"

inductive ledger_run :: "LedgerHistory \<Rightarrow> PostEncodeCompletionLedger \<Rightarrow> bool" where
  start: "ledger_run no_history newCompletionLedger"
| activate: "ledger_run h l \<Longrightarrow> activate q p g l = (l', res, out) \<Longrightarrow>
    ledger_run (case out of None \<Rightarrow> h | Some r \<Rightarrow> h\<lparr>rh_issued := rh_issued h @ [(r, g)]\<rparr>) l'"
| cancel: "ledger_run h l \<Longrightarrow> cancelBeforeActivationEffects r l = (l', res) \<Longrightarrow>
    ledger_run (if res = RrSucceeded then h\<lparr>rh_cancelled := rh_cancelled h @ [r]\<rparr> else h) l'"
| submit: "ledger_run h l \<Longrightarrow> ledger_run h (fst (markSubmitted r p l))"
| complete: "ledger_run h l \<Longrightarrow> ledger_run h (fst (markCompleted r p l))"
| finish: "ledger_run h l \<Longrightarrow> finishAndRelease q l = (l', res) \<Longrightarrow>
    ledger_run (if res = RrSucceeded then h\<lparr>rh_finished := rh_finished h @ [the (receiptFor l q RcCompleted)]\<rparr> else h) l'"
| take: "ledger_run h l \<Longrightarrow> takeCompletedArenaGroup r l = (l', out) \<Longrightarrow>
    ledger_run (case out of None \<Rightarrow> h | Some x \<Rightarrow> h\<lparr>rh_taken := rh_taken h @ [(r, x)]\<rparr>) l'"

definition retired :: "LedgerHistory \<Rightarrow> PostEncodeCompletionReceipt set" where
  "retired h = set (rh_finished h) \<union> set (rh_cancelled h)"

definition releases :: "LedgerHistory \<Rightarrow> nat" where
  "releases h = length (rh_finished h) + length (rh_cancelled h)"

definition takes_of :: "LedgerHistory \<Rightarrow> PostEncodeCompletionReceipt \<Rightarrow> ArenaGroupIdentity list" where
  "takes_of h r = map snd (filter (\<lambda>t. fst t = r) (rh_taken h))"

definition owed :: "ArenaGroupIdentity option \<Rightarrow> ArenaGroupIdentity list" where
  "owed g = (case g of None \<Rightarrow> [] | Some x \<Rightarrow> [x])"

text \<open>What the ledger holds for a receipt and what was taken under it make up what it was issued with.\<close>

definition account_ok :: "LedgerHistory \<Rightarrow> PostEncodeCompletionLedger \<Rightarrow> PostEncodeCompletionReceipt \<Rightarrow>
    ArenaGroupIdentity option \<Rightarrow> bool" where
  "account_ok h l r g = (case abs_ledger l r of
     Some (st, p, g') \<Rightarrow> owed g = takes_of h r @ owed g' \<and> (takes_of h r = [] \<or> st = RcCompleted)
   | None \<Rightarrow> takes_of h r = (if r \<in> set (rh_finished h) then owed g else []))"

definition history_ok :: "LedgerHistory \<Rightarrow> PostEncodeCompletionLedger \<Rightarrow> bool" where
  "history_ok h l = (completion_ok l \<and> distinct (map fst (rh_issued h)) \<and>
     (\<forall>r. r \<in> fst ` set (rh_issued h) \<longleftrightarrow> abs_ledger l r \<noteq> None \<or> r \<in> retired h) \<and>
     (\<forall>r \<in> retired h. abs_ledger l r = None \<and> slot_of r < 1024 \<and>
        unat (pr_generation r) < unat (gen l (slot_of r))) \<and>
     (\<forall>k < 1024. unat (gen l k) \<le> 1 + releases h) \<and>
     (\<forall>x \<in> set (rh_issued h). account_ok h l (fst x) (snd x)) \<and>
     fst ` set (rh_taken h) \<subseteq> fst ` set (rh_issued h))"

lemma history_start: "history_ok no_history newCompletionLedger"
proof -
  have "abs_ledger newCompletionLedger r = None" for r
    by (simp add: abs_ledger_def resolve_def newCompletionLedger_def empty_entry_def validReceipt_def)
  then show ?thesis
    using newCompletionLedger_ok
    by (simp add: history_ok_def no_history_def retired_def releases_def gen_def)
      (simp add: newCompletionLedger_def empty_entry_def)
qed

text \<open>A step that moves one live receipt within the ledger.\<close>

lemma history_move:
  assumes h: "history_ok h l" and m: "completion_ok m" and a: "abs_ledger m = (abs_ledger l)(r \<mapsto> (st, p, g))"
    and r: "abs_ledger l r = Some (st0, p0, g)" "st0 = RcCompleted \<Longrightarrow> st = RcCompleted"
    and g: "\<And>k. gen m k = gen l k"
  shows "history_ok h m"
proof -
  have "account_ok h m (fst x) (snd x)" if "x \<in> set (rh_issued h)" for x
    using h that r by (auto simp: history_ok_def account_ok_def a split: option.splits if_splits)
  moreover have "abs_ledger m q = None \<longleftrightarrow> abs_ledger l q = None" for q using r by (simp add: a)
  ultimately show ?thesis using h m by (simp add: history_ok_def g del: not_None_eq)
qed

lemma history_okD:
  assumes "history_ok h l"
  shows "completion_ok l" and "distinct (map fst (rh_issued h))"
    and "r \<in> fst ` set (rh_issued h) \<longleftrightarrow> abs_ledger l r \<noteq> None \<or> r \<in> retired h"
    and "r \<in> retired h \<Longrightarrow> abs_ledger l r = None \<and> slot_of r < 1024 \<and> unat (pr_generation r) < unat (gen l (slot_of r))"
    and "k < 1024 \<Longrightarrow> unat (gen l k) \<le> 1 + releases h"
    and "x \<in> set (rh_issued h) \<Longrightarrow> account_ok h l (fst x) (snd x)"
    and "fst ` set (rh_taken h) \<subseteq> fst ` set (rh_issued h)"
  using assms unfolding history_ok_def by blast+

lemma takes_of_add:
  "takes_of (h\<lparr>rh_taken := rh_taken h @ [(r, x)]\<rparr>) q = (if q = r then takes_of h q @ [x] else takes_of h q)"
  "takes_of (h\<lparr>rh_issued := i\<rparr>) q = takes_of h q" "takes_of (h\<lparr>rh_finished := f\<rparr>) q = takes_of h q"
  "takes_of (h\<lparr>rh_cancelled := f\<rparr>) q = takes_of h q"
  by (auto simp: takes_of_def)

lemma history_take:
  assumes h: "history_ok h l" and m: "completion_ok m" and a: "abs_ledger m = (abs_ledger l)(r \<mapsto> (RcCompleted, p, None))"
    and r: "abs_ledger l r = Some (RcCompleted, p, Some x)" and g: "\<And>k. gen m k = gen l k"
  shows "history_ok (h\<lparr>rh_taken := rh_taken h @ [(r, x)]\<rparr>) m"
proof -
  let ?h = "h\<lparr>rh_taken := rh_taken h @ [(r, x)]\<rparr>"
  have same: "retired ?h = retired h" "releases ?h = releases h" by (simp_all add: retired_def releases_def)
  have "account_ok ?h m (fst y) (snd y)" if "y \<in> set (rh_issued h)" for y
    using history_okD(6) [OF h that] r by (auto simp: account_ok_def a takes_of_add owed_def split: option.splits)
  moreover have "abs_ledger m q = None \<longleftrightarrow> abs_ledger l q = None" for q using r by (simp add: a)
  moreover have "r \<in> fst ` set (rh_issued h)" using history_okD(3) [OF h, of r] r by simp
  ultimately show ?thesis
    using h m unfolding history_ok_def same by (simp add: g del: not_None_eq)
qed

lemma history_issue:
  assumes h: "history_ok h l" and m: "completion_ok m" and a: "abs_ledger m = (abs_ledger l)(r \<mapsto> (RcActive, p, g))"
    and r: "abs_ledger l r = None" "slot_of r < 1024" "pr_generation r = gen m (slot_of r)"
    and g: "\<And>k. gen m k = (if k = slot_of r \<and> gen l k = 0 then 1 else gen l k)"
  shows "history_ok (h\<lparr>rh_issued := rh_issued h @ [(r, g)]\<rparr>) m"
proof -
  let ?h = "h\<lparr>rh_issued := rh_issued h @ [(r, g)]\<rparr>"
  have same: "retired ?h = retired h" "releases ?h = releases h" by (simp_all add: retired_def releases_def)
  have le: "unat (gen l k) \<le> unat (gen m k)" for k by (cases "gen l k = 0") (simp_all add: g)
  have nr: "r \<notin> retired h" using history_okD(4) [OF h, of r] r(3) le [of "slot_of r"] by auto
  then have new: "r \<notin> fst ` set (rh_issued h)" using history_okD(3) [OF h, of r] r(1) by simp
  have t: "takes_of h r = []"
    using new history_okD(7) [OF h] by (force simp: takes_of_def filter_empty_conv)
  have "account_ok ?h m (fst y) (snd y)" if "y \<in> set (rh_issued ?h)" for y
  proof (cases "fst y = r")
    case True
    then have "y = (r, g)" using that new by auto
    then show ?thesis by (simp add: account_ok_def a takes_of_add t)
  next
    case False
    then have "y \<in> set (rh_issued h)" using that by auto
    from history_okD(6) [OF h this] False show ?thesis by (simp add: account_ok_def a takes_of_add split: option.splits prod.splits)
  qed
  moreover have "distinct (map fst (rh_issued ?h))" using history_okD(2) [OF h] new by simp
  moreover have "q \<in> fst ` set (rh_issued ?h) \<longleftrightarrow> abs_ledger m q \<noteq> None \<or> q \<in> retired h" for q
    using history_okD(3) [OF h, of q] by (auto simp: a)
  moreover have "abs_ledger m q = None \<and> slot_of q < 1024 \<and> unat (pr_generation q) < unat (gen m (slot_of q))"
    if "q \<in> retired h" for q
    using history_okD(4) [OF h that] le [of "slot_of q"] that nr by (auto simp: a)
  moreover have "unat (gen m k) \<le> 1 + releases h" if "k < 1024" for k
    using history_okD(5) [OF h that] by (auto simp: g)
  moreover have "fst ` set (rh_taken ?h) \<subseteq> fst ` set (rh_issued ?h)" using history_okD(7) [OF h] by auto
  ultimately show ?thesis using m unfolding history_ok_def same by blast
qed

text \<open>Releasing a live receipt: \<open>fin\<close> says whether it was finished or cancelled.\<close>

definition retire :: "bool \<Rightarrow> PostEncodeCompletionReceipt \<Rightarrow> LedgerHistory \<Rightarrow> LedgerHistory" where
  "retire fin r h = (if fin then h\<lparr>rh_finished := rh_finished h @ [r]\<rparr> else h\<lparr>rh_cancelled := rh_cancelled h @ [r]\<rparr>)"

lemma history_retire:
  assumes h: "history_ok h l" and k: "k \<in> live_slots l" and r: "r = receipt_at l k"
    and m: "m = releaseEntry k l" and v: "abs_ledger l r = Some (st, p, g)"
    and c: "if fin then g = None else st \<noteq> RcCompleted" and b: "releases h < 2 ^ 64 - 2"
  shows "history_ok (retire fin r h) m"
proof -
  note l = history_okD(1) [OF h]
  note rel = release_entry [OF l k, folded m r]
  have k1: "k < 1024" using k by (simp add: live_slots_def)
  then have rk: "slot_of r = k" "pr_generation r = gen l k" using receipt_at_parts [of k l] by (simp_all add: r)
  have ret: "retired (retire fin r h) = insert r (retired h)" "releases (retire fin r h) = Suc (releases h)"
    "rh_issued (retire fin r h) = rh_issued h" "rh_taken (retire fin r h) = rh_taken h"
    by (auto simp: retire_def retired_def releases_def)
  have old: "r \<notin> retired h" using history_okD(4) [OF h, of r] v by auto
  have "gen l k \<noteq> - 1"
  proof
    assume "gen l k = - 1"
    then have "unat (gen l k) = 2 ^ 64 - 1" by (simp add: unsigned_minus_1_eq_mask mask_eq_exp_minus_1)
    then show False using history_okD(5) [OF h k1] b by simp
  qed
  then have g: "unat (gen m j) = (if j = k then Suc (unat (gen l k)) else unat (gen l j))" for j
    unfolding m gen_release [OF l k1] by (simp add: nextGeneration_unat)
  have ri: "r \<in> fst ` set (rh_issued h)" using history_okD(3) [OF h, of r] v by simp
  have acc: "account_ok (retire fin r h) m (fst y) (snd y)" if y: "y \<in> set (rh_issued h)" for y
  proof -
    have t: "takes_of (retire fin r h) q = takes_of h q" for q by (simp add: retire_def takes_of_add)
    have f: "q \<in> set (rh_finished (retire fin r h)) \<longleftrightarrow> q \<in> set (rh_finished h) \<or> (fin \<and> q = r)" for q
      by (auto simp: retire_def)
    show ?thesis
    proof (cases "fst y = r")
      case True
      have "r \<notin> set (rh_finished h)" using old by (simp add: retired_def)
      then show ?thesis
        using history_okD(6) [OF h y] c v True by (auto simp: account_ok_def rel(3) t f owed_def)
    next
      case False
      then show ?thesis
        using history_okD(6) [OF h y] by (simp add: account_ok_def rel(3) t f split: option.splits prod.splits)
    qed
  qed
  have iss: "q \<in> fst ` set (rh_issued h) \<longleftrightarrow> abs_ledger m q \<noteq> None \<or> q \<in> insert r (retired h)" for q
    using history_okD(3) [OF h, of q] ri by (auto simp: rel(3))
  have dead: "abs_ledger m q = None \<and> slot_of q < 1024 \<and> unat (pr_generation q) < unat (gen m (slot_of q))"
    if "q \<in> insert r (retired h)" for q
  proof (cases "q = r")
    case True
    then show ?thesis using rk k1 by (simp add: rel(3) g)
  next
    case False
    then have "q \<in> retired h" using that by simp
    from history_okD(4) [OF h this] False show ?thesis by (auto simp: rel(3) g)
  qed
  have bnd: "unat (gen m j) \<le> 1 + Suc (releases h)" if "j < 1024" for j
    using history_okD(5) [OF h that] by (auto simp: g)
  show ?thesis
    unfolding history_ok_def ret
  proof (intro conjI allI ballI impI)
    show "completion_ok m" by (rule rel(1))
    show "distinct (map fst (rh_issued h))" "fst ` set (rh_taken h) \<subseteq> fst ` set (rh_issued h)"
      by (rule history_okD(2,7) [OF h])+
  qed (simp_all only: iss bnd acc dead)
qed

section \<open>Every run\<close>

lemma history_activate:
  assumes h: "history_ok h l" and a: "activate q p g l = (l', res, out)"
  shows "history_ok (case out of None \<Rightarrow> h | Some r \<Rightarrow> h\<lparr>rh_issued := rh_issued h @ [(r, g)]\<rparr>) l'"
proof -
  note l = history_okD(1) [OF h]
  have s: "completion_ok l'" and c: "out = None \<and> l' = l \<or>
     (\<exists>r. res = RrSucceeded \<and> out = Some r \<and> pr_seqId r = q \<and> slotFor q \<notin> live_slots l \<and>
        r = receipt_at l' (slotFor q) \<and> abs_ledger l r = None \<and> abs_ledger l' = (abs_ledger l)(r \<mapsto> (RcActive, p, g)))"
    using activate_spec [OF l, of q p g] a by auto
  from c show ?thesis
  proof (elim disjE exE conjE)
    fix r assume r: "res = RrSucceeded" "out = Some r" "r = receipt_at l' (slotFor q)" "abs_ledger l r = None"
      "abs_ledger l' = (abs_ledger l)(r \<mapsto> (RcActive, p, g))"
    have sl: "slot_of r = slotFor q" "pr_generation r = gen l' (slotFor q)"
      using receipt_at_parts [of "slotFor q" l'] r(3) by simp_all
    have "pl_entries l' = (pl_entries l)[slotFor q := (pl_entries l ! slotFor q)\<lparr>en_generation :=
        (if gen l (slotFor q) = 0 then 1 else gen l (slotFor q)), en_seqId := q, en_hasPresent := p, en_group := g,
        en_state := RcActive\<rparr>]"
      using a r(2) by (auto simp: activate_def gen_def split: if_splits)
    then have "gen l' k = (if k = slot_of r \<and> gen l k = 0 then 1 else gen l k)" for k
      using l by (auto simp: gen_def sl(1) nth_list_update completion_ok_def)
    from history_issue [OF h s r(5,4) _ _ this] sl r(2) show ?thesis by simp
  qed (simp add: h)
qed

lemma history_release:
  assumes h: "history_ok h l" and r: "abs_ledger l r = Some (st, p, g)"
    and c: "if fin then g = None else st \<noteq> RcCompleted" and b: "releases h < 2 ^ 64 - 2"
  shows "history_ok (retire fin r h) (releaseEntry (slot_of r) l)"
  using history_retire [OF h _ _ refl r c b, of "slot_of r"] live_receipt [OF history_okD(1) [OF h], of r] r by auto

lemma resolve_slot: "completion_ok l \<Longrightarrow> resolve l r = Some k \<Longrightarrow> k = slot_of r"
  by (simp add: resolve_def slot_of_def split: if_splits)

lemma history_cancel:
  assumes h: "history_ok h l" and a: "cancelBeforeActivationEffects r l = (l', res)"
    and b: "res = RrSucceeded \<Longrightarrow> releases h < 2 ^ 64 - 2"
  shows "history_ok (if res = RrSucceeded then h\<lparr>rh_cancelled := rh_cancelled h @ [r]\<rparr> else h) l'"
proof (cases "res = RrSucceeded")
  case False
  then have "l' = l" using a by (auto simp: cancelBeforeActivationEffects_def split: option.splits if_splits)
  then show ?thesis using h False by simp
next
  case True
  note l = history_okD(1) [OF h]
  obtain k where k: "resolve l r = Some k" "en_state (pl_entries l ! k) = RcActive" "l' = releaseEntry k l"
    using a True by (auto simp: cancelBeforeActivationEffects_def split: option.splits if_splits)
  have ks: "k = slot_of r" by (rule resolve_slot [OF l k(1)])
  have "abs_ledger l r = Some (view (pl_entries l ! k))" by (simp add: abs_ledger_def k(1))
  then obtain p g where v: "abs_ledger l r = Some (RcActive, p, g)" using k(2) by (simp add: view_def)
  from history_release [OF h v, of False] b [OF True] k(3) ks show ?thesis using True by (simp add: retire_def)
qed

lemma history_finish:
  assumes h: "history_ok h l" and a: "finishAndRelease q l = (l', res)"
    and b: "res = RrSucceeded \<Longrightarrow> releases h < 2 ^ 64 - 2"
  shows "history_ok (if res = RrSucceeded
     then h\<lparr>rh_finished := rh_finished h @ [the (receiptFor l q RcCompleted)]\<rparr> else h) l'"
proof (cases "res = RrSucceeded")
  case False
  then have "l' = l" using a by (auto simp: finishAndRelease_def split: if_splits)
  then show ?thesis using h False by simp
next
  case True
  note l = history_okD(1) [OF h]
  have q: "q \<noteq> 0" "en_seqId (pl_entries l ! slotFor q) = q" "en_state (pl_entries l ! slotFor q) = RcCompleted"
    "en_group (pl_entries l ! slotFor q) = None" "l' = releaseEntry (slotFor q) l"
    using a True by (auto simp: finishAndRelease_def split: if_splits)
  then have "slotFor q \<in> live_slots l" by (simp add: live_slots_def)
  then have v: "abs_ledger l (receipt_at l (slotFor q)) = Some (RcCompleted, en_hasPresent (pl_entries l ! slotFor q), None)"
    using abs_ledger_at [OF l] q by (simp add: view_def)
  have "receiptFor l q RcCompleted = Some (receipt_at l (slotFor q))"
    using q by (simp add: receiptFor_def receipt_at_def)
  moreover have "slot_of (receipt_at l (slotFor q)) = slotFor q" using receipt_at_parts [of "slotFor q" l] by simp
  ultimately show ?thesis
    using history_release [OF h v, of True] b [OF True] q(5) True by (simp add: retire_def)
qed

lemma history_mark:
  assumes h: "history_ok h l"
  shows "history_ok h (fst (markSubmitted r p l))" and "history_ok h (fst (markCompleted r p l))"
proof -
  note l = history_okD(1) [OF h]
  have step: "history_ok h m" if m: "completion_ok m" "(abs_ledger m, res) = spec_move from to r p (abs_ledger l)"
    "from \<noteq> RcCompleted" "\<And>k. gen m k = gen l k" "res \<noteq> RrSucceeded \<Longrightarrow> m = l" for m res "from" to
  proof (cases "res = RrSucceeded")
    case True
    then obtain g where "abs_ledger l r = Some (from, p, g)" "abs_ledger m = (abs_ledger l)(r \<mapsto> (to, p, g))"
      using m(2) by (auto simp: spec_move_def split: option.splits prod.splits if_splits)
    with history_move [OF h m(1), of r to p g "from" p] m(3,4) show ?thesis by simp
  qed (use m(5) h in simp)
  have same: "snd (markSubmitted r p l) \<noteq> RrSucceeded \<Longrightarrow> fst (markSubmitted r p l) = l"
    "snd (markCompleted r p l) \<noteq> RrSucceeded \<Longrightarrow> fst (markCompleted r p l) = l"
    by (auto simp: markSubmitted_def markCompleted_def split: option.splits if_splits)
  show "history_ok h (fst (markSubmitted r p l))"
    by (rule step [OF _ _ _ gen_mark(1) same(1)]) (use markSubmitted_spec [OF l, of r p] in blast)+
  show "history_ok h (fst (markCompleted r p l))"
    by (rule step [OF _ _ _ gen_mark(2) same(2)]) (use markCompleted_spec [OF l, of r p] in blast)+
qed

lemma history_takeCompleted:
  assumes h: "history_ok h l" and a: "takeCompletedArenaGroup r l = (l', out)"
  shows "history_ok (case out of None \<Rightarrow> h | Some x \<Rightarrow> h\<lparr>rh_taken := rh_taken h @ [(r, x)]\<rparr>) l'"
proof -
  note l = history_okD(1) [OF h]
  have s: "completion_ok l'" "(abs_ledger l', out) = spec_take r (abs_ledger l)" "gen l' k = gen l k" for k
    using takeCompleted_spec [OF l, of r] gen_mark(3) [of r l k] by (simp_all add: a)
  have same: "l' = l" if "\<And>p g. abs_ledger l r \<noteq> Some (RcCompleted, p, g)"
  proof -
    have "en_state (pl_entries l ! k) \<noteq> RcCompleted" if "resolve l r = Some k" for k
      using that \<open>\<And>p g. abs_ledger l r \<noteq> Some (RcCompleted, p, g)\<close> by (auto simp: abs_ledger_def view_def)
    then show ?thesis using a by (auto simp: takeCompletedArenaGroup_def split: option.splits if_splits)
  qed
  show ?thesis
  proof (cases "\<exists>p g. abs_ledger l r = Some (RcCompleted, p, g)")
    case True
    then obtain p g where v: "abs_ledger l r = Some (RcCompleted, p, g)" by blast
    then have o: "out = g" "abs_ledger l' = (abs_ledger l)(r \<mapsto> (RcCompleted, p, None))"
      using s(2) by (simp_all add: spec_take_def)
    show ?thesis
    proof (cases g)
      case None
      then show ?thesis using history_move [OF h s(1) o(2), of RcCompleted p] v s(3) o(1) by simp
    next
      case (Some x)
      then show ?thesis using history_take [OF h s(1) o(2)] v s(3) o(1) by simp
    qed
  next
    case False
    then have "out = None" using s(2) by (auto simp: spec_take_def split: option.splits if_splits prod.splits)
    with same False h show ?thesis by auto
  qed
qed

lemma ledger_run_history:
  "ledger_run h l \<Longrightarrow> releases h < 2 ^ 64 - 1 \<Longrightarrow> history_ok h l"
proof (induction rule: ledger_run.induct)
  case start
  show ?case by (rule history_start)
next
  case (activate h l q p g l' res out)
  then have "releases h < 2 ^ 64 - 1" by (simp add: releases_def split: option.splits)
  then show ?case using history_activate [OF activate.IH activate.hyps(2)] by blast
next
  case (cancel h l r l' res)
  then have "releases h < 2 ^ 64 - 1" "res = RrSucceeded \<longrightarrow> releases h < 2 ^ 64 - 2"
    by (auto simp: releases_def split: if_splits)
  then show ?case using history_cancel [OF cancel.IH cancel.hyps(2)] by blast
next
  case (submit h l r p)
  then show ?case using history_mark(1) by blast
next
  case (complete h l r p)
  then show ?case using history_mark(2) by blast
next
  case (finish h l q l' res)
  then have "releases h < 2 ^ 64 - 1" "res = RrSucceeded \<longrightarrow> releases h < 2 ^ 64 - 2"
    by (auto simp: releases_def split: if_splits)
  then show ?case using history_finish [OF finish.IH finish.hyps(2)] by blast
next
  case (take h l r l' out)
  then have "releases h < 2 ^ 64 - 1" by (simp add: releases_def split: option.splits)
  then show ?case using history_takeCompleted [OF take.IH take.hyps(2)] by blast
qed

end
