(* ===== verification/Q_Completion_Theorems.thy ===== *)
theory Q_Completion_Theorems
  imports Q_Completion_Runs
begin

text \<open>The properties of the receipt ledger and of completion spans, with an example run.\<close>

section \<open>An example\<close>

definition demo_group :: ArenaGroupIdentity where
  "demo_group = \<lparr>ag_rawOrdinal = 1, ag_buildGeneration = 1, ag_firstSourceOrdinal = 1, ag_tailSeqId = 1025,
     ag_sourceCount = 1, ag_hasPresent = False\<rparr>"

definition demo_receipt :: PostEncodeCompletionReceipt where
  "demo_receipt = \<lparr>pr_seqId = 1025, pr_generation = 1, pr_slot = 1\<rparr>"

definition demo_issued :: PostEncodeCompletionLedger where
  "demo_issued = fst (activate 1025 False (Some demo_group) newCompletionLedger)"

definition demo_completed :: PostEncodeCompletionLedger where
  "demo_completed = fst (markCompleted demo_receipt False (fst (markSubmitted demo_receipt False demo_issued)))"

definition demo_taken :: PostEncodeCompletionLedger where
  "demo_taken = fst (takeCompletedArenaGroup demo_receipt demo_completed)"

definition demo_finished :: PostEncodeCompletionLedger where
  "demo_finished = fst (finishAndRelease 1025 demo_taken)"

definition demo_history :: LedgerHistory where
  "demo_history = \<lparr>rh_issued = [(demo_receipt, Some demo_group)], rh_taken = [(demo_receipt, demo_group)],
     rh_finished = [demo_receipt], rh_cancelled = []\<rparr>"

lemma demo_receipt_run: "ledger_run demo_history demo_finished"
proof -
  have a: "activate 1025 False (Some demo_group) newCompletionLedger = (demo_issued, RrSucceeded, Some demo_receipt)"
    and t: "takeCompletedArenaGroup demo_receipt demo_completed = (demo_taken, Some demo_group)"
    and f: "finishAndRelease 1025 demo_taken = (demo_finished, RrSucceeded)"
    and r: "receiptFor demo_taken 1025 RcCompleted = Some demo_receipt"
    by code_simp+
  have 1: "ledger_run (no_history\<lparr>rh_issued := [(demo_receipt, Some demo_group)]\<rparr>) demo_issued"
    using ledger_run.activate [OF ledger_run.start a] by (simp add: no_history_def)
  have 2: "ledger_run (no_history\<lparr>rh_issued := [(demo_receipt, Some demo_group)]\<rparr>) demo_completed"
    unfolding demo_completed_def by (intro ledger_run.submit ledger_run.complete 1)
  from ledger_run.finish [OF ledger_run.take [OF 2 t] f] r show ?thesis
    by (simp add: demo_history_def no_history_def)
qed

section \<open>Properties\<close>

lemma abs_result: "map_prod abs_ledger id x = (abs_ledger (fst x), snd x)"
  by (cases x) simp

text \<open>
  C36: The receipt ledger refines a map from live receipts to their state, present flag and owed
  group. In every run each operation acts on the ledger exactly as its abstract counterpart acts
  on the map, with the same result; an activation either changes nothing or adds a receipt that was not
  live; and the depth counter is the number of live receipts, at most 1024.
\<close>

theorem receipts_refine_map:
  assumes "ledger_run h l" and "releases h < 2 ^ 64 - 1"
  shows "map_prod abs_ledger id (markSubmitted r p l) = spec_move RcActive RcSubmitted r p (abs_ledger l) \<and>
    map_prod abs_ledger id (markCompleted r p l) = spec_move RcSubmitted RcCompleted r p (abs_ledger l) \<and>
    map_prod abs_ledger id (cancelBeforeActivationEffects r l) = spec_cancel r (abs_ledger l) \<and>
    map_prod abs_ledger id (takeCompletedArenaGroup r l) = spec_take r (abs_ledger l) \<and>
    (finishAndRelease q l \<in> {(l, RrInvalid), (l, RrStale)} \<and> (\<forall>r. pr_seqId r = q \<longrightarrow> abs_ledger l r = None) \<or>
     (\<exists>r. pr_seqId r = q \<and> abs_ledger l r \<noteq> None \<and>
       map_prod abs_ledger id (finishAndRelease q l) = spec_finish r (abs_ledger l))) \<and>
    (case activate q p g l of
       (l', res, None) \<Rightarrow> l' = l \<and> res \<noteq> RrSucceeded
     | (l', res, Some r) \<Rightarrow> res = RrSucceeded \<and> pr_seqId r = q \<and> abs_ledger l r = None \<and>
         abs_ledger l' = (abs_ledger l)(r \<mapsto> (RcActive, p, g))) \<and>
    unat (pl_depth l) = card (dom (abs_ledger l)) \<and> unat (pl_depth l) \<le> 1024"
proof -
  have l: "completion_ok l" by (rule history_okD(1) [OF ledger_run_history [OF assms]])
  have zero: "abs_ledger l r = None" if "pr_seqId r = 0" for r
  proof (rule resolve_cases [OF l, of r])
    fix k assume "k \<in> live_slots l" "r = receipt_at l k"
    then show ?thesis using that live_seq(2) [OF l] by simp
  qed
  have fin: "finishAndRelease q l \<in> {(l, RrInvalid), (l, RrStale)} \<and> (\<forall>r. pr_seqId r = q \<longrightarrow> abs_ledger l r = None) \<or>
     (\<exists>r. pr_seqId r = q \<and> abs_ledger l r \<noteq> None \<and>
       map_prod abs_ledger id (finishAndRelease q l) = spec_finish r (abs_ledger l))"
    using finish_spec [OF l, of q] zero by (cases "finishAndRelease q l") auto
  have act: "case activate q p g l of
       (l', res, None) \<Rightarrow> l' = l \<and> res \<noteq> RrSucceeded
     | (l', res, Some r) \<Rightarrow> res = RrSucceeded \<and> pr_seqId r = q \<and> abs_ledger l r = None \<and>
         abs_ledger l' = (abs_ledger l)(r \<mapsto> (RcActive, p, g))"
    using activate_spec [OF l, of q p g] by (auto split: prod.splits option.splits)
  have "dom (abs_ledger l) = receipt_at l ` live_slots l" using abs_ledger_iff [OF l] by fast
  moreover have "inj_on (receipt_at l) (live_slots l)"
    by (rule inj_onI) (use receipt_at_inj [of _ _ l l] in \<open>auto simp: live_slots_def\<close>)
  ultimately have "unat (pl_depth l) = card (dom (abs_ledger l))"
    using l by (simp add: completion_ok_def card_image)
  moreover have "unat (pl_depth l) \<le> 1024" using l live_slots_card [of l] by (simp add: completion_ok_def)
  ultimately show ?thesis
    using fin act markSubmitted_spec [OF l, of r p] markCompleted_spec [OF l, of r p] cancel_spec [OF l, of r]
      takeCompleted_spec [OF l, of r]
    by (simp only: abs_result simp_thms)
qed

theorem receipts_refine_map_witness:
  "card (dom (abs_ledger demo_finished)) = 0 \<and>
   spec_take demo_receipt (abs_ledger demo_finished) = (abs_ledger demo_finished, None)"
proof -
  have b: "releases demo_history < 2 ^ 64 - 1" by (simp add: releases_def demo_history_def)
  have "takeCompletedArenaGroup demo_receipt demo_finished = (demo_finished, None)" "unat (pl_depth demo_finished) = 0"
    by code_simp+
  with receipts_refine_map [OF demo_receipt_run b, of demo_receipt] show ?thesis by simp
qed

text \<open>
  C37: Stale receipts are dead. Receipts are issued only once; after a receipt was finished or
  cancelled, and whatever happened since, also after its slot was reused for later sequence
  ids, every operation on it is refused and leaves the ledger as it is. This holds for
  fewer than \<open>2 ^ 64 - 1\<close> releases, after which the generation of a slot could come around.
\<close>

theorem stale_receipts_are_dead:
  assumes "ledger_run h l" and "releases h < 2 ^ 64 - 1" and "r \<in> set (rh_finished h) \<union> set (rh_cancelled h)"
  shows "distinct (map fst (rh_issued h)) \<and>
    markSubmitted r p l = (l, RrStale) \<and> markCompleted r p l = (l, RrStale) \<and>
    cancelBeforeActivationEffects r l = (l, RrStale) \<and> takeCompletedArenaGroup r l = (l, None) \<and>
    \<not> matchesReceipt l r st p"
proof -
  note h = ledger_run_history [OF assms(1,2)]
  have "abs_ledger l r = None" using history_okD(4) [OF h, of r] assms(3) by (simp add: retired_def)
  then have "resolve l r = None" by (simp add: abs_ledger_def)
  then show ?thesis
    using history_okD(2) [OF h]
    by (simp add: markSubmitted_def markCompleted_def cancelBeforeActivationEffects_def
        takeCompletedArenaGroup_def matchesReceipt_def)
qed

theorem stale_receipts_are_dead_witness:
  "demo_receipt \<in> set (rh_finished demo_history) \<and> ledger_run demo_history demo_finished \<and>
   takeCompletedArenaGroup demo_receipt demo_finished = (demo_finished, None)"
  using stale_receipts_are_dead [OF demo_receipt_run, of demo_receipt] demo_receipt_run
  by (simp add: releases_def demo_history_def)

text \<open>
  C38: The settlement of a group happens exactly once. Under every issued receipt at most one group is
  ever taken, and it is the one the receipt was issued with; when its entry has been finished
  the group was taken exactly once, and a cancelled receipt never settles anything.
\<close>

theorem groups_settle_exactly_once:
  assumes "ledger_run h l" and "releases h < 2 ^ 64 - 1" and "(r, g) \<in> set (rh_issued h)"
  shows "(takes_of h r = [] \<or> takes_of h r = owed g) \<and>
    (r \<in> set (rh_finished h) \<longrightarrow> takes_of h r = owed g) \<and>
    (abs_ledger l r = None \<and> r \<notin> set (rh_finished h) \<longrightarrow> takes_of h r = []) \<and>
    (\<forall>t \<in> set (rh_taken h). \<exists>g. (fst t, g) \<in> set (rh_issued h))"
proof -
  note h = ledger_run_history [OF assms(1,2)]
  have a: "account_ok h l r g" using history_okD(6) [OF h assms(3)] by simp
  have f: "abs_ledger l r = None" if "r \<in> set (rh_finished h)"
    using history_okD(4) [OF h, of r] that by (simp add: retired_def)
  have "takes_of h r = [] \<or> takes_of h r = owed g"
  proof (cases "abs_ledger l r")
    case (Some v)
    then obtain g' where "owed g = takes_of h r @ owed g'" using a by (auto simp: account_ok_def split: prod.splits)
    then show ?thesis by (cases g; cases "takes_of h r") (auto simp: owed_def)
  qed (use a in \<open>simp add: account_ok_def split: if_splits\<close>)
  moreover have "\<forall>t \<in> set (rh_taken h). \<exists>g. (fst t, g) \<in> set (rh_issued h)"
    using history_okD(7) [OF h] by force
  ultimately show ?thesis using a f by (auto simp: account_ok_def)
qed

theorem groups_settle_exactly_once_witness:
  "takes_of demo_history demo_receipt = [demo_group]"
proof -
  have "(demo_receipt, Some demo_group) \<in> set (rh_issued demo_history)" "releases demo_history < 2 ^ 64 - 1"
    "demo_receipt \<in> set (rh_finished demo_history)"
    by (simp_all add: demo_history_def releases_def)
  with groups_settle_exactly_once [OF demo_receipt_run] show ?thesis by (simp add: owed_def)
qed

section \<open>Completion spans\<close>

text \<open>The source ids a span stands for, and the accumulator seen as a list of sources.\<close>

definition span_seqs :: "UnverifiedEncodedCompletionSpan \<Rightarrow> nat list" where
  "span_seqs s = (if validSpan s then [unat (us_firstSeqId s)..<unat (us_lastSeqId s) + 1] else [])"

lemma validSpan_unat:
  assumes "validSpan s"
  shows "0 < unat (us_firstSeqId s)" "unat (us_firstSeqId s) \<le> unat (us_lastSeqId s)"
    "unat (us_sourceCount s) = unat (us_lastSeqId s) - unat (us_firstSeqId s) + 1"
proof -
  have v: "us_firstSeqId s \<noteq> 0" "us_firstSeqId s \<le> us_lastSeqId s" "us_lastSeqId s - us_firstSeqId s \<noteq> - 1"
    "us_sourceCount s = us_lastSeqId s - us_firstSeqId s + 1"
    using assms by (simp_all add: validSpan_def)
  show "0 < unat (us_firstSeqId s)" using v(1) by (rule unat_pos)
  show "unat (us_firstSeqId s) \<le> unat (us_lastSeqId s)" using v(2) by (simp add: word_le_nat_alt)
  show "unat (us_sourceCount s) = unat (us_lastSeqId s) - unat (us_firstSeqId s) + 1"
    using unat_next(1) [OF v(3)] unat_sub [OF v(2)] by (simp add: v(4))
qed

lemma validSpan_iff:
  "validSpan s \<longleftrightarrow> 0 < unat (us_firstSeqId s) \<and> unat (us_firstSeqId s) \<le> unat (us_lastSeqId s) \<and>
     unat (us_sourceCount s) = unat (us_lastSeqId s) - unat (us_firstSeqId s) + 1"
proof
  assume r: "0 < unat (us_firstSeqId s) \<and> unat (us_firstSeqId s) \<le> unat (us_lastSeqId s) \<and>
     unat (us_sourceCount s) = unat (us_lastSeqId s) - unat (us_firstSeqId s) + 1"
  then have le: "us_firstSeqId s \<le> us_lastSeqId s" and f: "us_firstSeqId s \<noteq> 0" by (auto simp: word_le_nat_alt)
  have d: "unat (us_lastSeqId s - us_firstSeqId s) = unat (us_lastSeqId s) - unat (us_firstSeqId s)"
    by (rule unat_sub [OF le])
  have "unat (us_lastSeqId s) < 2 ^ 64" using unsigned_less [of "us_lastSeqId s"] by simp
  then have ne: "us_lastSeqId s - us_firstSeqId s \<noteq> - 1"
    using d r by (auto simp: word_unat_eq_iff unsigned_minus_1_eq_mask mask_eq_exp_minus_1)
  have "us_sourceCount s = us_lastSeqId s - us_firstSeqId s + 1"
    using r d unat_next(1) [OF ne] by (simp add: word_unat_eq_iff)
  moreover have "us_sourceCount s \<noteq> 0" using r by auto
  ultimately show "validSpan s" using f le ne by (simp add: validSpan_def)
qed (use validSpan_unat in blast)

inductive built :: "SessionCompletionAccumulator \<Rightarrow> bool" where
  built_new: "built (newAccumulator m)"
| built_append: "built a \<Longrightarrow> built (fst (appendSource q p a))"
| built_merge: "built a \<Longrightarrow> built t \<Longrightarrow> built (fst (mergeTail t a))"

abbreviation seqs :: "SessionCompletionAccumulator \<Rightarrow> nat list" where
  "seqs a \<equiv> span_seqs (ac_span a)"

lemma seqs_empty: "seqs a = [] \<longleftrightarrow> \<not> validSpan (ac_span a)"
  using validSpan_unat [of "ac_span a"] by (auto simp: span_seqs_def)

lemma seqs_valid:
  assumes "validSpan (ac_span a)"
  shows "length (seqs a) = unat (us_sourceCount (ac_span a))" "hd (seqs a) = unat (us_firstSeqId (ac_span a))"
    "List.last (seqs a) = unat (us_lastSeqId (ac_span a))"
  using validSpan_unat [OF assms] assms by (simp_all add: span_seqs_def del: upt_Suc)

lemma span_seqsI:
  assumes "0 < unat (us_firstSeqId s)" "unat (us_firstSeqId s) \<le> unat (us_lastSeqId s)"
    "unat (us_sourceCount s) = unat (us_lastSeqId s) - unat (us_firstSeqId s) + 1"
  shows "span_seqs s = [unat (us_firstSeqId s)..<unat (us_lastSeqId s) + 1]"
  using assms validSpan_iff [of s] by (simp add: span_seqs_def)

definition within :: "SessionCompletionAccumulator \<Rightarrow> bool" where
  "within a = (length (seqs a) \<le> unat (ac_maxSourceCount a))"

text \<open>What appending one source does.\<close>

lemma append_result:
  assumes w: "within a"
  shows "(snd (appendSource q p a) = SpAppended \<longleftrightarrow> q \<noteq> 0 \<and> length (seqs a) < unat (ac_maxSourceCount a) \<and>
       (seqs a = [] \<or> \<not> us_tailHasPresent (ac_span a) \<and> unat q = List.last (seqs a) + 1)) \<and>
    (snd (appendSource q p a) = SpAppended \<longrightarrow> seqs (fst (appendSource q p a)) = seqs a @ [unat q] \<and>
       us_tailHasPresent (ac_span (fst (appendSource q p a))) = p) \<and>
    (snd (appendSource q p a) \<noteq> SpAppended \<longrightarrow> fst (appendSource q p a) = a) \<and>
    ac_maxSourceCount (fst (appendSource q p a)) = ac_maxSourceCount a"
proof (cases "q = 0 \<or> \<not> validSpan (ac_span a)")
  case True
  have "seqs (a\<lparr>ac_span := \<lparr>us_firstSeqId = q, us_lastSeqId = q, us_sourceCount = 1, us_tailHasPresent = p\<rparr>\<rparr>) = [unat q]"
    if "q \<noteq> 0"
    using that unat_pos [OF that] by (simp add: span_seqs_def validSpan_def)
  moreover have "0 < unat (ac_maxSourceCount a) \<longleftrightarrow> ac_maxSourceCount a \<noteq> 0"
    by (auto dest: unat_pos)
  ultimately show ?thesis using True seqs_empty [of a] by (auto simp: appendSource_def)
next
  case False
  then have q: "q \<noteq> 0" and v: "validSpan (ac_span a)" by simp_all
  note u = validSpan_unat [OF v] and s = seqs_valid [OF v]
  have big: "unat (- 1 :: u64) = 2 ^ 64 - 1" by (simp add: unsigned_minus_1_eq_mask mask_eq_exp_minus_1)
  have lim: "unat q < 2 ^ 64" using unsigned_less [of q] by simp
  have follow: "unat q = unat (us_lastSeqId (ac_span a)) + 1 \<longleftrightarrow>
      \<not> q \<le> us_lastSeqId (ac_span a) \<and> us_lastSeqId (ac_span a) \<noteq> - 1 \<and> q = us_lastSeqId (ac_span a) + 1"
  proof
    assume f: "unat q = unat (us_lastSeqId (ac_span a)) + 1"
    then have n: "us_lastSeqId (ac_span a) \<noteq> - 1" using lim big by auto
    then have "q = us_lastSeqId (ac_span a) + 1" using f unat_next(1) [OF n] by (simp add: word_unat_eq_iff)
    then show "\<not> q \<le> us_lastSeqId (ac_span a) \<and> us_lastSeqId (ac_span a) \<noteq> - 1 \<and> q = us_lastSeqId (ac_span a) + 1"
      using f n by (simp add: word_le_nat_alt)
  next
    assume "\<not> q \<le> us_lastSeqId (ac_span a) \<and> us_lastSeqId (ac_span a) \<noteq> - 1 \<and> q = us_lastSeqId (ac_span a) + 1"
    then show "unat q = unat (us_lastSeqId (ac_span a)) + 1" using unat_next(1) by simp
  qed
  have room: "length (seqs a) < unat (ac_maxSourceCount a) \<longleftrightarrow> us_sourceCount (ac_span a) \<noteq> ac_maxSourceCount a"
    using w s(1) by (auto simp: within_def word_unat_eq_iff)
  have nomax: "us_sourceCount (ac_span a) \<noteq> - 1" if "unat q = unat (us_lastSeqId (ac_span a)) + 1"
    using that u lim big by auto
  have res: "seqs (a\<lparr>ac_span := (ac_span a)\<lparr>us_lastSeqId := q, us_sourceCount := us_sourceCount (ac_span a) + 1,
      us_tailHasPresent := p\<rparr>\<rparr>) = seqs a @ [unat q]" if f: "unat q = unat (us_lastSeqId (ac_span a)) + 1"
  proof -
    have "unat (us_sourceCount (ac_span a) + 1) = unat (us_sourceCount (ac_span a)) + 1"
      using unat_next(1) [OF nomax [OF f]] by simp
    then show ?thesis using u f v by (subst span_seqsI) (simp_all add: span_seqs_def)
  qed
  have ne: "seqs a \<noteq> []" using v seqs_empty by blast
  show ?thesis
    unfolding room s(3) follow using ne q v nomax res follow
    by (auto simp: appendSource_def)
qed

text \<open>What appending a whole tail does.\<close>

lemma merge_result:
  assumes w: "within a"
  shows "(snd (mergeTail t a) = SpAppended \<longleftrightarrow> seqs t \<noteq> [] \<and>
       length (seqs a) + length (seqs t) \<le> unat (ac_maxSourceCount a) \<and>
       (seqs a = [] \<or> \<not> us_tailHasPresent (ac_span a) \<and> hd (seqs t) = List.last (seqs a) + 1)) \<and>
    (snd (mergeTail t a) = SpAppended \<longrightarrow> seqs (fst (mergeTail t a)) = seqs a @ seqs t \<and>
       us_tailHasPresent (ac_span (fst (mergeTail t a))) = us_tailHasPresent (ac_span t)) \<and>
    (snd (mergeTail t a) \<noteq> SpAppended \<longrightarrow> fst (mergeTail t a) = a) \<and>
    ac_maxSourceCount (fst (mergeTail t a)) = ac_maxSourceCount a"
proof (cases "validSpan (ac_span t) \<and> validSpan (ac_span a)")
  case False
  then show ?thesis
    using seqs_empty [of a] seqs_empty [of t] seqs_valid(1) [of t]
    by (auto simp: mergeTail_def word_less_nat_alt)
next
  case True
  then have vt: "validSpan (ac_span t)" and va: "validSpan (ac_span a)" by simp_all
  note ut = validSpan_unat [OF vt] and st = seqs_valid [OF vt]
  note ua = validSpan_unat [OF va] and sa = seqs_valid [OF va]
  have big: "unat (- 1 :: u64) = 2 ^ 64 - 1" by (simp add: unsigned_minus_1_eq_mask mask_eq_exp_minus_1)
  have lim: "unat (us_lastSeqId (ac_span t)) < 2 ^ 64" using unsigned_less [of "us_lastSeqId (ac_span t)"] by simp
  let ?F = "us_firstSeqId (ac_span t)" and ?L = "us_lastSeqId (ac_span a)"
  have follow: "unat ?F = unat ?L + 1 \<longleftrightarrow> \<not> ?F \<le> ?L \<and> ?L \<noteq> - 1 \<and> ?F = ?L + 1"
  proof
    assume f: "unat ?F = unat ?L + 1"
    then have n: "?L \<noteq> - 1" using lim big ut by auto
    then have "?F = ?L + 1" using f unat_next(1) [OF n] by (simp add: word_unat_eq_iff)
    then show "\<not> ?F \<le> ?L \<and> ?L \<noteq> - 1 \<and> ?F = ?L + 1" using f n by (simp add: word_le_nat_alt)
  next
    assume "\<not> ?F \<le> ?L \<and> ?L \<noteq> - 1 \<and> ?F = ?L + 1"
    then show "unat ?F = unat ?L + 1" using unat_next(1) [of ?L] by simp
  qed
  have wa: "us_sourceCount (ac_span a) \<le> ac_maxSourceCount a" using w sa(1) by (simp add: within_def word_le_nat_alt)
  have room: "length (seqs a) + length (seqs t) \<le> unat (ac_maxSourceCount a) \<longleftrightarrow>
      \<not> us_sourceCount (ac_span t) > ac_maxSourceCount a - us_sourceCount (ac_span a)"
    using unat_sub [OF wa] w sa(1) st(1) by (auto simp: word_less_nat_alt within_def)
  have sub: "unat (- 1 - us_sourceCount (ac_span a)) = 2 ^ 64 - 1 - unat (us_sourceCount (ac_span a))"
    using unat_sub [of "us_sourceCount (ac_span a)" "- 1"] big by simp
  have total: "unat (us_sourceCount (ac_span a)) + unat (us_sourceCount (ac_span t)) < 2 ^ 64"
    if "unat ?F = unat ?L + 1" using that ua ut lim by linarith
  then have nomax: "\<not> us_sourceCount (ac_span t) > - 1 - us_sourceCount (ac_span a)" if "unat ?F = unat ?L + 1"
    using that sub by (fastforce simp: word_less_nat_alt)
  have res: "seqs (a\<lparr>ac_span := (ac_span a)\<lparr>us_lastSeqId := us_lastSeqId (ac_span t),
      us_sourceCount := us_sourceCount (ac_span a) + us_sourceCount (ac_span t),
      us_tailHasPresent := us_tailHasPresent (ac_span t)\<rparr>\<rparr>) = seqs a @ seqs t" if f: "unat ?F = unat ?L + 1"
  proof -
    have e: "[unat (us_firstSeqId (ac_span a))..<unat (us_lastSeqId (ac_span t)) + 1] =
        [unat (us_firstSeqId (ac_span a))..<unat ?L + 1] @ [unat ?F..<unat (us_lastSeqId (ac_span t)) + 1]"
      using f ua(2) ut(2) upt_add_eq_append [of "unat (us_firstSeqId (ac_span a))" "unat ?L + 1"
          "unat (us_lastSeqId (ac_span t)) - unat ?L"] by simp
    have "unat (us_sourceCount (ac_span a) + us_sourceCount (ac_span t)) =
        unat (us_sourceCount (ac_span a)) + unat (us_sourceCount (ac_span t))"
      by (rule unat_add64 [OF total [OF f]])
    then show ?thesis
      using ua ut f va vt e by (subst span_seqsI) (simp_all add: span_seqs_def del: upt_Suc)
  qed
  have ne: "seqs a \<noteq> []" "seqs t \<noteq> []" using va vt seqs_empty by blast+
  show ?thesis
    unfolding room st(2) sa(3) follow using ne va vt nomax res follow by (auto simp: mergeTail_def)
qed

lemma built_within: "built a \<Longrightarrow> within a"
proof (induction rule: built.induct)
  case (built_new m)
  show ?case by (simp add: within_def newAccumulator_def span_seqs_def validSpan_def)
next
  case (built_append a q p)
  then show ?case using append_result [of a q p]
    by (cases "snd (appendSource q p a) = SpAppended") (auto simp: within_def)
next
  case (built_merge a t)
  then show ?case using merge_result [of a t]
    by (cases "snd (mergeTail t a) = SpAppended") (auto simp: within_def)
qed

text \<open>
  C39: A completion span is a dense run of sources. An accumulator holds the list of the source ids it
  accepted: appending succeeds exactly when the id is the next one, the run has room and is not closed by
  a present, and then adds it at the end; merging succeeds exactly when the tail's run is not empty and
  continues this one within the limit, and then is concatenation; anything else changes nothing. No
  counter or id wraps around.
\<close>

theorem spans_are_dense_runs:
  assumes "built a" and "built t"
  shows "(snd (appendSource q p a) = SpAppended \<longleftrightarrow> q \<noteq> 0 \<and> length (seqs a) < unat (ac_maxSourceCount a) \<and>
      (seqs a = [] \<or> \<not> us_tailHasPresent (ac_span a) \<and> unat q = List.last (seqs a) + 1)) \<and>
    seqs (fst (appendSource q p a)) = seqs a @ (if snd (appendSource q p a) = SpAppended then [unat q] else []) \<and>
    (snd (mergeTail t a) = SpAppended \<longleftrightarrow> seqs t \<noteq> [] \<and> length (seqs a) + length (seqs t) \<le> unat (ac_maxSourceCount a) \<and>
      (seqs a = [] \<or> \<not> us_tailHasPresent (ac_span a) \<and> hd (seqs t) = List.last (seqs a) + 1)) \<and>
    seqs (fst (mergeTail t a)) = seqs a @ (if snd (mergeTail t a) = SpAppended then seqs t else []) \<and>
    (summary a = None \<longleftrightarrow> seqs a = [])"
proof -
  have a: "within a" using assms(1) by (rule built_within)
  have "summary a = None \<longleftrightarrow> seqs a = []" using seqs_empty [of a] by (simp add: summary_def)
  then show ?thesis using append_result [OF a, of q p] merge_result [OF a, of t] by simp
qed

definition demo_span :: SessionCompletionAccumulator where
  "demo_span = fst (appendSource 8 True (fst (appendSource 7 False (newAccumulator 3))))"

theorem spans_are_dense_runs_witness:
  "seqs (fst (mergeTail demo_span (fst (appendSource 6 False (newAccumulator 3))))) = [6, 7, 8] \<and>
   snd (appendSource 9 False demo_span) \<noteq> SpAppended"
proof -
  have b: "built demo_span" "built (fst (appendSource 6 False (newAccumulator 3)))"
    unfolding demo_span_def by (intro built.intros)+
  have "snd (mergeTail demo_span (fst (appendSource 6 False (newAccumulator 3)))) = SpAppended"
    "seqs (fst (appendSource 6 False (newAccumulator 3))) = [6]" "seqs demo_span = [7, 8]"
    "us_tailHasPresent (ac_span demo_span)" by code_simp+
  with spans_are_dense_runs [OF b(2,1)] spans_are_dense_runs [OF b(1,2), of 9 False] show ?thesis by simp
qed

end
