(* ===== verification/Ep_Draw_Merge.thy ===== *)
theory Ep_Draw_Merge
  imports Dx_Prelude
begin

text \<open>
  The parameters of one draw (\<^verbatim>\<open>core_snapshots.hpp\<close>) and the merge of neighbouring indexed draws
  (\<^verbatim>\<open>dxmt9_draw_encoder_internal.hpp\<close>): the classifier that says for what reasons a pair may not be
  merged, and the greedy merge of a prefix of a run. Then: a merged run submits the same indices under
  the same state, and a run that is cut where the classifier refuses a pair merges piecewise.
\<close>

section \<open>Draw parameters\<close>

record DrawPayloadRange =
  rng_offset :: u32
  rng_size :: u32

definition emptyRange :: "DrawPayloadRange \<Rightarrow> bool" where
  "emptyRange r = (rng_size r = 0)"

definition empty_payload_range :: DrawPayloadRange where
  "empty_payload_range = \<lparr>rng_offset = 0, rng_size = 0\<rparr>"

record DrawUniformHandle =
  uh_index :: u32
  uh_generation :: u32
  uh_hash :: u64

definition validUniform :: "DrawUniformHandle \<Rightarrow> bool" where
  "validUniform h = (uh_generation h \<noteq> 0)"

datatype PrimitiveType = PointList | LineList | LineStrip | TriangleList | TriangleStrip | TriangleFan

datatype IndexType = UInt16 | UInt32

record DrawParam =
  dp_primitiveType :: PrimitiveType
  dp_primitiveCount :: u32
  dp_startVertex :: u32
  dp_baseVertexIndex :: "32 word"
  dp_startIndex :: u32
  dp_indexType :: IndexType
  dp_indexed :: bool
  dp_instanceCount :: u32
  dp_userVertexRange :: DrawPayloadRange
  dp_userIndexRange :: DrawPayloadRange
  dp_bindingOverrideRange :: DrawPayloadRange
  dp_bindingSnapshotRange :: DrawPayloadRange
  dp_uniformHandle :: DrawUniformHandle

text \<open>A byte span is the list of its bytes.\<close>

definition drawPayloadRangeBytes :: "DrawPayloadRange \<Rightarrow> u8 list \<Rightarrow> u8 list" where
  "drawPayloadRangeBytes rg arena =
     (let offset = unat (rng_offset rg); size = unat (rng_size rg)
      in if size = 0 then []
         else if offset > length arena \<or> size > length arena - offset then []
         else slice offset size arena)"

definition drawParamPayloadRangesEqual :: "DrawPayloadRange \<Rightarrow> DrawPayloadRange \<Rightarrow> u8 list \<Rightarrow> bool" where
  "drawParamPayloadRangesEqual left right arena =
     (if rng_size left \<noteq> rng_size right then False
      else if rng_size left = 0 then True
      else
        let leftBytes = drawPayloadRangeBytes left arena; rightBytes = drawPayloadRangeBytes right arena
        in if length leftBytes \<noteq> unat (rng_size left) \<or> length rightBytes \<noteq> unat (rng_size right) then False
           else leftBytes = rightBytes)"

section \<open>Merging neighbours\<close>

datatype CompatibleIndexedDrawMergeReject =
    RjSourceShape | RjNextShape | RjIndexType | RjBaseVertex | RjStartVertex | RjUniform
  | RjBindingOverride | RjBindingSnapshot | RjNonContiguousIndexRange | RjPrimitiveCountOverflow

definition compatibleIndexedDrawMergeRejectBit :: "CompatibleIndexedDrawMergeReject \<Rightarrow> u32" where
  "compatibleIndexedDrawMergeRejectBit r = (case r of
     RjSourceShape \<Rightarrow> 1 | RjNextShape \<Rightarrow> 2 | RjIndexType \<Rightarrow> 4 | RjBaseVertex \<Rightarrow> 8 | RjStartVertex \<Rightarrow> 16
   | RjUniform \<Rightarrow> 32 | RjBindingOverride \<Rightarrow> 64 | RjBindingSnapshot \<Rightarrow> 128
   | RjNonContiguousIndexRange \<Rightarrow> 256 | RjPrimitiveCountOverflow \<Rightarrow> 512)"

definition compatibleIndexedDrawMergeShape :: "DrawParam \<Rightarrow> bool" where
  "compatibleIndexedDrawMergeShape draw =
     (dp_indexed draw \<and> dp_primitiveType draw = TriangleList \<and> dp_instanceCount draw = 1 \<and>
      emptyRange (dp_userVertexRange draw) \<and> emptyRange (dp_userIndexRange draw))"

definition rejectIf :: "bool \<Rightarrow> CompatibleIndexedDrawMergeReject \<Rightarrow> u32 \<Rightarrow> u32" where
  "rejectIf rejected reason rejectMask =
     (if rejected then rejectMask OR compatibleIndexedDrawMergeRejectBit reason else rejectMask)"

text \<open>The two sums are taken in 64 bits, where sums of 32-bit values do not wrap around.\<close>

definition classifyCompatibleIndexedDrawMergePair :: "DrawParam \<Rightarrow> DrawParam \<Rightarrow> u8 list \<Rightarrow> u32" where
  "classifyCompatibleIndexedDrawMergePair source nxt payloadArena =
     (let shapes = rejectIf (\<not> compatibleIndexedDrawMergeShape nxt) RjNextShape
                     (rejectIf (\<not> compatibleIndexedDrawMergeShape source) RjSourceShape 0);
          nextStart = unat (dp_startIndex source) + unat (dp_primitiveCount source) * 3;
          combinedPrimitiveCount = unat (dp_primitiveCount source) + unat (dp_primitiveCount nxt)
      in if shapes \<noteq> 0 then shapes
         else rejectIf (combinedPrimitiveCount > 4294967295 div 3) RjPrimitiveCountOverflow
           (rejectIf (nextStart \<noteq> unat (dp_startIndex nxt)) RjNonContiguousIndexRange
           (rejectIf (\<not> drawParamPayloadRangesEqual (dp_bindingSnapshotRange source)
                          (dp_bindingSnapshotRange nxt) payloadArena) RjBindingSnapshot
           (rejectIf (\<not> drawParamPayloadRangesEqual (dp_bindingOverrideRange source)
                          (dp_bindingOverrideRange nxt) payloadArena) RjBindingOverride
           (rejectIf (dp_uniformHandle nxt \<noteq> dp_uniformHandle source) RjUniform
           (rejectIf (dp_startVertex nxt \<noteq> dp_startVertex source) RjStartVertex
           (rejectIf (dp_baseVertexIndex nxt \<noteq> dp_baseVertexIndex source) RjBaseVertex
           (rejectIf (dp_indexType nxt \<noteq> dp_indexType source) RjIndexType 0))))))))"

fun mergeLoop :: "u8 list \<Rightarrow> DrawParam \<Rightarrow> nat \<Rightarrow> DrawParam list \<Rightarrow> DrawParam \<times> nat" where
  "mergeLoop payloadArena param drawCount [] = (param, drawCount)"
| "mergeLoop payloadArena param drawCount (nxt # draws) =
     (if classifyCompatibleIndexedDrawMergePair param nxt payloadArena \<noteq> 0 then (param, drawCount)
      else
        let combinedPrimitiveCount = unat (dp_primitiveCount param) + unat (dp_primitiveCount nxt)
        in mergeLoop payloadArena (param\<lparr>dp_primitiveCount := of_nat combinedPrimitiveCount\<rparr>)
             (drawCount + 1) draws)"

text \<open>The merged parameter and the number of draws it stands for; no draws give none.\<close>

definition makeCompatibleIndexedDrawMerge :: "DrawParam list \<Rightarrow> u8 list \<Rightarrow> (DrawParam \<times> nat) option" where
  "makeCompatibleIndexedDrawMerge draws payloadArena = (case draws of
     [] \<Rightarrow> None
   | param # rest \<Rightarrow>
       Some (if \<not> compatibleIndexedDrawMergeShape param then (param, 1)
             else mergeLoop payloadArena param 1 rest))"

text \<open>The consumer's loop (\<^verbatim>\<open>encodeDrawSubrange\<close>): encode the merged draw, go on behind what it stands for.\<close>

lemma mergeLoop_count: "drawCount \<le> snd (mergeLoop arena param drawCount draws) \<and>
    snd (mergeLoop arena param drawCount draws) \<le> drawCount + length draws"
proof (induction draws arbitrary: param drawCount)
  case (Cons d ds)
  show ?case using Cons.IH [of "drawCount + 1" "param\<lparr>dp_primitiveCount := of_nat (unat (dp_primitiveCount param) +
      unat (dp_primitiveCount d))\<rparr>"] by simp
qed simp

function encodedDraws :: "u8 list \<Rightarrow> DrawParam list \<Rightarrow> DrawParam list" where
  "encodedDraws arena draws = (case makeCompatibleIndexedDrawMerge draws arena of
     None \<Rightarrow> []
   | Some (param, drawCount) \<Rightarrow> param # encodedDraws arena (drop (max 1 drawCount) draws))"
  by auto
termination
  by (relation "measure (length \<circ> snd)")
    (auto simp: makeCompatibleIndexedDrawMerge_def split: list.splits)

declare encodedDraws.simps [simp del]


section \<open>What a merge means\<close>

lemma rejectBit_nonzero: "compatibleIndexedDrawMergeRejectBit r \<noteq> 0"
  by (simp add: compatibleIndexedDrawMergeRejectBit_def split: CompatibleIndexedDrawMergeReject.split)

lemma rejectIf_zero [simp]: "rejectIf b r m = 0 \<longleftrightarrow> \<not> b \<and> m = 0"
  by (simp add: rejectIf_def or_eq_0_iff rejectBit_nonzero)

lemma classify_zero:
  "classifyCompatibleIndexedDrawMergePair s n arena = 0 \<longleftrightarrow>
     compatibleIndexedDrawMergeShape s \<and> compatibleIndexedDrawMergeShape n \<and>
     dp_indexType n = dp_indexType s \<and> dp_baseVertexIndex n = dp_baseVertexIndex s \<and>
     dp_startVertex n = dp_startVertex s \<and> dp_uniformHandle n = dp_uniformHandle s \<and>
     drawParamPayloadRangesEqual (dp_bindingOverrideRange s) (dp_bindingOverrideRange n) arena \<and>
     drawParamPayloadRangesEqual (dp_bindingSnapshotRange s) (dp_bindingSnapshotRange n) arena \<and>
     unat (dp_startIndex s) + unat (dp_primitiveCount s) * 3 = unat (dp_startIndex n) \<and>
     unat (dp_primitiveCount s) + unat (dp_primitiveCount n) \<le> 1431655765"
  by (auto simp: classifyCompatibleIndexedDrawMergePair_def)

lemma ranges_equal_bytes:
  "drawParamPayloadRangesEqual l r arena \<Longrightarrow> drawPayloadRangeBytes l arena = drawPayloadRangeBytes r arena"
  by (auto simp: drawParamPayloadRangesEqual_def drawPayloadRangeBytes_def split: if_splits)

lemma ranges_equal_trans:
  "drawParamPayloadRangesEqual l r arena \<Longrightarrow> drawParamPayloadRangesEqual l s arena \<Longrightarrow>
     drawParamPayloadRangesEqual r s arena"
  by (auto simp: drawParamPayloadRangesEqual_def split: if_splits)

definition grown :: "DrawParam \<Rightarrow> DrawParam \<Rightarrow> DrawParam" where
  "grown p d = p\<lparr>dp_primitiveCount := of_nat (unat (dp_primitiveCount p) + unat (dp_primitiveCount d))\<rparr>"

lemma grown_count:
  "unat (dp_primitiveCount p) + unat (dp_primitiveCount d) \<le> 1431655765 \<Longrightarrow>
     unat (dp_primitiveCount (grown p d)) = unat (dp_primitiveCount p) + unat (dp_primitiveCount d)"
  by (simp add: grown_def unat_of_nat take_bit_nat_eq_self del: of_nat_add)

text \<open>
  What a draw submits. A mergeable draw submits the positions of its indices in the index buffer, each under
  the state that decides what is drawn there; any other draw stands for itself.
\<close>

definition draw_state :: "u8 list \<Rightarrow> DrawParam \<Rightarrow>
    IndexType \<times> 32 word \<times> u32 \<times> DrawUniformHandle \<times> u8 list \<times> u8 list" where
  "draw_state arena d = (dp_indexType d, dp_baseVertexIndex d, dp_startVertex d, dp_uniformHandle d,
     drawPayloadRangeBytes (dp_bindingOverrideRange d) arena,
     drawPayloadRangeBytes (dp_bindingSnapshotRange d) arena)"

definition submitted where
  "submitted arena d = (if compatibleIndexedDrawMergeShape d
     then map (\<lambda>i. Inl (draw_state arena d, i))
       [unat (dp_startIndex d)..<unat (dp_startIndex d) + unat (dp_primitiveCount d) * 3]
     else [Inr d])"

lemma submitted_grown:
  assumes "classifyCompatibleIndexedDrawMergePair p d arena = 0"
  shows "submitted arena (grown p d) = submitted arena p @ submitted arena d"
proof -
  note z = assms [unfolded classify_zero]
  have state: "draw_state arena d = draw_state arena p" "draw_state arena (grown p d) = draw_state arena p"
    using z ranges_equal_bytes [of "dp_bindingOverrideRange p" "dp_bindingOverrideRange d" arena]
      ranges_equal_bytes [of "dp_bindingSnapshotRange p" "dp_bindingSnapshotRange d" arena]
    by (simp_all add: draw_state_def grown_def)
  have shape: "compatibleIndexedDrawMergeShape (grown p d)"
    using z by (simp add: compatibleIndexedDrawMergeShape_def grown_def)
  have start: "dp_startIndex (grown p d) = dp_startIndex p" by (simp add: grown_def)
  have "unat (dp_startIndex p) + unat (dp_primitiveCount (grown p d)) * 3 =
      unat (dp_startIndex d) + unat (dp_primitiveCount d) * 3"
    using z grown_count [of p d] by simp
  moreover have "[unat (dp_startIndex p)..<unat (dp_startIndex d) + unat (dp_primitiveCount d) * 3] =
      [unat (dp_startIndex p)..<unat (dp_startIndex d)] @
      [unat (dp_startIndex d)..<unat (dp_startIndex d) + unat (dp_primitiveCount d) * 3]"
    using z by (intro upt_add_eq_append) linarith
  ultimately show ?thesis using z by (simp add: submitted_def shape start state)
qed

lemma mergeLoop_step:
  "mergeLoop arena p c (d # ds) = (if classifyCompatibleIndexedDrawMergePair p d arena = 0
     then mergeLoop arena (grown p d) (c + 1) ds else (p, c))"
  by (simp add: grown_def)

declare mergeLoop.simps(2) [simp del]

lemma mergeLoop_submits:
  "mergeLoop arena p c ds = (q, n) \<Longrightarrow>
     submitted arena q @ concat (map (submitted arena) (drop (n - c) ds)) =
     submitted arena p @ concat (map (submitted arena) ds)"
proof (induction ds arbitrary: p c)
  case (Cons d ds)
  show ?case
  proof (cases "classifyCompatibleIndexedDrawMergePair p d arena = 0")
    case True
    then have m: "mergeLoop arena (grown p d) (c + 1) ds = (q, n)" using Cons.prems by (simp add: mergeLoop_step)
    then have "c + 1 \<le> n" using mergeLoop_count [of "c + 1" arena "grown p d" ds] by simp
    then have "drop (n - c) (d # ds) = drop (n - (c + 1)) ds" by (cases "n - c") (auto simp: diff_Suc)
    then show ?thesis using Cons.IH [OF m] by (simp add: submitted_grown [OF True])
  qed (use Cons.prems in \<open>simp add: mergeLoop_step\<close>)
qed simp

lemma make_some:
  "makeCompatibleIndexedDrawMerge (d # ds) arena =
     Some (if compatibleIndexedDrawMergeShape d then mergeLoop arena d 1 ds else (d, 1))"
  by (simp add: makeCompatibleIndexedDrawMerge_def)

lemma encoded_Nil [simp]: "encodedDraws arena [] = []"
  by (subst encodedDraws.simps) (simp add: makeCompatibleIndexedDrawMerge_def)

lemma encoded_Cons:
  obtains q n where "makeCompatibleIndexedDrawMerge (d # ds) arena = Some (q, n)" "1 \<le> n" "n \<le> Suc (length ds)"
    "encodedDraws arena (d # ds) = q # encodedDraws arena (drop (n - 1) ds)"
proof -
  obtain q n where m: "makeCompatibleIndexedDrawMerge (d # ds) arena = Some (q, n)"
    by (metis make_some surj_pair)
  have n: "1 \<le> n" "n \<le> Suc (length ds)"
    using m mergeLoop_count [of 1 arena d ds] by (auto simp: make_some split: if_splits)
  have "encodedDraws arena (d # ds) = q # encodedDraws arena (drop (n - 1) ds)"
    using m n by (subst encodedDraws.simps) (cases n; simp)
  with m n show ?thesis using that by blast
qed

lemma encoded_submits:
  "concat (map (submitted arena) (encodedDraws arena ds)) = concat (map (submitted arena) ds)"
proof (induction ds rule: length_induct)
  case (1 ds)
  show ?case
  proof (cases ds)
    case (Cons d rest)
    obtain q n where m: "makeCompatibleIndexedDrawMerge (d # rest) arena = Some (q, n)" "1 \<le> n"
      "n \<le> Suc (length rest)" "encodedDraws arena (d # rest) = q # encodedDraws arena (drop (n - 1) rest)"
      by (rule encoded_Cons)
    have "submitted arena q @ concat (map (submitted arena) (drop (n - 1) rest)) =
        submitted arena d @ concat (map (submitted arena) rest)"
      using m(1,2) mergeLoop_submits [of arena d 1 rest q n] by (auto simp: make_some split: if_splits)
    moreover have "length (drop (n - 1) rest) < length ds" using Cons by simp
    ultimately show ?thesis using 1 Cons m(4) by simp
  qed simp
qed

section \<open>Cutting a run\<close>

text \<open>Where the classifier refuses the pair, it refuses the merged prefix as well.\<close>

lemma grown_refuses:
  assumes "classifyCompatibleIndexedDrawMergePair p d arena = 0"
    and "classifyCompatibleIndexedDrawMergePair (grown p d) n arena = 0"
  shows "classifyCompatibleIndexedDrawMergePair d n arena = 0"
proof -
  note z = assms [unfolded classify_zero]
  show ?thesis unfolding classify_zero
    using z grown_count [of p d] ranges_equal_trans [of "dp_bindingOverrideRange p" "dp_bindingOverrideRange d" arena]
      ranges_equal_trans [of "dp_bindingSnapshotRange p" "dp_bindingSnapshotRange d" arena]
    by (simp add: grown_def)
qed

lemma mergeLoop_cut:
  assumes "\<And>m. classifyCompatibleIndexedDrawMergePair p m arena = 0 \<Longrightarrow>
      classifyCompatibleIndexedDrawMergePair x m arena = 0"
    and "classifyCompatibleIndexedDrawMergePair (List.last (x # xs)) n arena \<noteq> 0"
  shows "mergeLoop arena p c (xs @ n # ys) = mergeLoop arena p c xs"
  using assms
proof (induction xs arbitrary: p x c)
  case (Cons d ds)
  show ?case
  proof (cases "classifyCompatibleIndexedDrawMergePair p d arena = 0")
    case True
    have "mergeLoop arena (grown p d) (c + 1) (ds @ n # ys) = mergeLoop arena (grown p d) (c + 1) ds"
      by (rule Cons.IH [of _ d]) (use Cons.prems(2) grown_refuses [OF True] in auto)
    then show ?thesis using True by (simp add: mergeLoop_step)
  qed (simp add: mergeLoop_step)
qed (auto simp: mergeLoop_step)

lemma encoded_cut:
  assumes "xs \<noteq> []" and "classifyCompatibleIndexedDrawMergePair (List.last xs) n arena \<noteq> 0"
  shows "encodedDraws arena (xs @ n # ys) = encodedDraws arena xs @ encodedDraws arena (n # ys)"
  using assms
proof (induction xs rule: length_induct)
  case (1 xs)
  from 1(2) obtain d rest where xs: "xs = d # rest" by (cases xs) auto
  obtain q k where m: "makeCompatibleIndexedDrawMerge (d # rest) arena = Some (q, k)" "1 \<le> k"
    "k \<le> Suc (length rest)" "encodedDraws arena (d # rest) = q # encodedDraws arena (drop (k - 1) rest)"
    by (rule encoded_Cons)
  have "mergeLoop arena d 1 (rest @ n # ys) = mergeLoop arena d 1 rest"
    by (rule mergeLoop_cut [of _ _ d]) (use 1(3) xs in auto)
  then have "makeCompatibleIndexedDrawMerge (d # (rest @ n # ys)) arena = Some (q, k)"
    using m(1) unfolding make_some by (simp split: if_splits)
  then have e: "encodedDraws arena (xs @ n # ys) = q # encodedDraws arena (drop (k - 1) (rest @ n # ys))"
    using encoded_Cons [of d "rest @ n # ys" arena] xs by fastforce
  have d: "drop (k - 1) (rest @ n # ys) = drop (k - 1) rest @ n # ys" using m(2,3) by simp
  show ?case
  proof (cases "drop (k - 1) rest = []")
    case False
    have "List.last (drop (k - 1) rest) = List.last xs" using False xs by auto
    moreover have "length (drop (k - 1) rest) < length xs" using xs by simp
    ultimately have "encodedDraws arena (drop (k - 1) rest @ n # ys) =
        encodedDraws arena (drop (k - 1) rest) @ encodedDraws arena (n # ys)"
      using 1(1) 1(3) False by metis
    then show ?thesis using e d m(4) xs by simp
  qed (use e d m(4) xs in simp)
qed

text \<open>A list of pieces, each starting where the classifier refuses the last pair.\<close>

fun cut_pieces :: "u8 list \<Rightarrow> DrawParam list list \<Rightarrow> bool" where
  "cut_pieces arena (xs # ys # pss) = (xs \<noteq> [] \<and> ys \<noteq> [] \<and>
     classifyCompatibleIndexedDrawMergePair (List.last xs) (hd ys) arena \<noteq> 0 \<and> cut_pieces arena (ys # pss))"
| "cut_pieces arena _ = True"

lemma encoded_pieces:
  "cut_pieces arena pss \<Longrightarrow> encodedDraws arena (concat pss) = concat (map (encodedDraws arena) pss)"
proof (induction arena pss rule: cut_pieces.induct)
  case (1 arena xs ys pss)
  then obtain y ys' where ys: "ys = y # ys'" by (cases ys) auto
  have "encodedDraws arena (xs @ y # (ys' @ concat pss)) =
      encodedDraws arena xs @ encodedDraws arena (y # (ys' @ concat pss))"
    using 1(2) ys by (intro encoded_cut) simp_all
  then show ?case using 1 ys by simp
qed simp_all

end
