(* ===== verification/Ep_Partition.thy ===== *)
theory Ep_Partition
  imports Ep_Draw_Merge Fg_Deferred_Suffix
begin

text \<open>
  Partitions of the encoding of one source (\<^verbatim>\<open>dxmt9_encode_partition.hpp\<close>, \<^verbatim>\<open>.cpp\<close>): the effective
  replay stream of a source, the locator of one draw and its resolution, the validator of a plan of
  ranges, the production planner that cuts long draw runs, and the two cursors that walk the ranges.
  A \<^verbatim>\<open>u32\<close> is a 32-bit word and a \<^verbatim>\<open>std::size_t\<close> a natural number; sums the code takes in 64 bits are sums
  of natural numbers. The sizes of the two binding records (\<^verbatim>\<open>sizeof\<close>, fixed by the compiler) are the
  argument \<open>sz\<close>.
\<close>

section \<open>The payload of a source\<close>

text \<open>
  Of the payload's records, the members that the partition code reads. A pointer to a chunk slot: its address, and the member that is read through it.\<close>

record ChunkSlotRef =
  cs_address :: nat
  cs_seqId :: u64

record DrawRunRecord =
  drr_stateIndex :: u32
  drr_firstParam :: u32
  drr_paramCount :: u32
  drr_payloadOffset :: u32
  drr_payloadSize :: u32
  drr_uniformHandle :: DrawUniformHandle

record DrawUniformPayloadRecord =
  upr_handle :: DrawUniformHandle

text \<open>The three pointers of \<^verbatim>\<open>FlatDrawStateView\<close>, by their addresses.\<close>

record FlatDrawStateView =
  fv_hot :: "nat option"
  fv_shaderLayout :: "nat option"
  fv_debug :: "nat option"

record MetalCommandView =
  mv_kind :: MetalCommandKind
  mv_drawRunRecord :: "DrawRunRecord option"
  mv_drawState :: FlatDrawStateView
  mv_drawParams :: "DrawParam list"
  mv_drawUniformPayloadRecords :: "DrawUniformPayloadRecord list"
  mv_drawPayloadBytes :: "u8 list"

record SourceCommand =
  sc_command :: MetalCommandView
  sc_payloadIndex :: u32

definition no_command :: SourceCommand where
  "no_command = \<lparr>sc_command = \<lparr>mv_kind = CmdDrawRun, mv_drawRunRecord = None,
     mv_drawState = \<lparr>fv_hot = None, fv_shaderLayout = None, fv_debug = None\<rparr>, mv_drawParams = [],
     mv_drawUniformPayloadRecords = [], mv_drawPayloadBytes = []\<rparr>, sc_payloadIndex = 0\<rparr>"

text \<open>A payload view: the slot of a legacy source, or arena storage, and the commands either holds.\<close>

record PayloadView =
  vw_legacy :: "ChunkSlotRef option"
  vw_arena :: bool
  vw_commands :: "SourceCommand list"

definition validPayload :: "PayloadView \<Rightarrow> bool" where
  "validPayload p = (vw_legacy p \<noteq> None \<or> vw_arena p)"

definition payloadCommandCount :: "PayloadView \<Rightarrow> nat" where
  "payloadCommandCount p = (if validPayload p then length (vw_commands p) else 0)"

definition payloadCommandAt :: "PayloadView \<Rightarrow> nat \<Rightarrow> SourceCommand" where
  "payloadCommandAt p i = (if i < payloadCommandCount p then vw_commands p ! i else no_command)"

record ResolvedPublishedSource =
  ps_slotIndex :: nat
  ps_seqId :: u64
  ps_payload :: PayloadView
  ps_sourceId :: CpuReadySourceId
  ps_storage :: CpuReadyStorageRef
  ps_slot :: "ChunkSlotRef option"
  ps_commandBegin :: nat
  ps_commandCount :: nat

record DrawBindingSizes =
  bsz_override :: nat
  bsz_snapshot :: nat

section \<open>Locators\<close>

record RetainedEncodeSourceLocator =
  rl_tapeSource :: SourceRef
  rl_retainedSourceIndex :: u32
  rl_slotIndex :: u32
  rl_seqId :: u64

record EncodePartitionEntrySnapshot =
  pe_source :: RetainedEncodeSourceLocator
  pe_commandIndex :: u32
  pe_drawRunRecordIndex :: u32
  pe_stateIndex :: u32
  pe_drawParamIndex :: u32
  pe_uniformHandle :: DrawUniformHandle
  pe_bindingOverrideBytes :: DrawPayloadRange
  pe_bindingSnapshotBytes :: DrawPayloadRange

datatype EncodePartitionRangeKind = CommandSegment | DrawRunEntries

record EncodePartitionRangeSnapshot =
  er_kind :: EncodePartitionRangeKind
  er_replayOrdinalBegin :: u32
  er_replayOrdinalCount :: u32
  er_drawEntryCount :: u32
  er_entry :: EncodePartitionEntrySnapshot

definition no_entry :: EncodePartitionEntrySnapshot where
  "no_entry = \<lparr>pe_source = \<lparr>rl_tapeSource = no_source, rl_retainedSourceIndex = 0, rl_slotIndex = 0,
     rl_seqId = 0\<rparr>, pe_commandIndex = 0, pe_drawRunRecordIndex = 0, pe_stateIndex = 0, pe_drawParamIndex = 0,
     pe_uniformHandle = \<lparr>uh_index = 0, uh_generation = 0, uh_hash = 0\<rparr>, pe_bindingOverrideBytes = empty_payload_range,
     pe_bindingSnapshotBytes = empty_payload_range\<rparr>"

record ResolvedEncodePartitionEntry =
  re_slot :: "ChunkSlotRef option"
  re_command :: MetalCommandView
  re_drawRunRecord :: DrawRunRecord
  re_drawState :: FlatDrawStateView
  re_drawParam :: DrawParam
  re_uniform :: DrawUniformPayloadRecord
  re_bindingOverrideBytes :: "u8 list"
  re_bindingSnapshotBytes :: "u8 list"

record ResolvedEncodePartition =
  rp_entry :: ResolvedEncodePartitionEntry
  rp_drawParams :: "DrawParam list"

datatype EncodePartitionEntryValidation =
    EvValid | EvRetainedSourceIndexOutOfRange | EvSourceIdentityMismatch | EvSourceCommandRangeInvalid
  | EvCommandIndexOutOfRange | EvCommandIsNotDrawRun | EvDrawRunRecordMismatch | EvStateIndexMismatch
  | EvDrawParamIndexMismatch | EvUniformHandleMismatch | EvBindingOverrideRangeMismatch
  | EvBindingSnapshotRangeMismatch

section \<open>The replay stream\<close>

record EncodePartitionReplayStream =
  es_source :: ResolvedPublishedSource
  es_commandOrderActive :: bool
  es_commandOrder :: "u32 list"
  es_valid :: bool

definition replayOrdinalCount :: "EncodePartitionReplayStream \<Rightarrow> nat" where
  "replayOrdinalCount s = (if es_commandOrderActive s then length (es_commandOrder s)
     else ps_commandCount (es_source s))"

definition commandIndexAt :: "EncodePartitionReplayStream \<Rightarrow> nat \<Rightarrow> u32 option" where
  "commandIndexAt s replayOrdinal =
     (if \<not> es_valid s \<or> replayOrdinal \<ge> replayOrdinalCount s then None
      else
        let selected = (if es_commandOrderActive s then unat (es_commandOrder s ! replayOrdinal)
              else ps_commandBegin (es_source s) + replayOrdinal)
        in if selected > UINT32_MAX then None else Some (of_nat selected))"

abbreviation missingOrdinal :: nat where
  "missingOrdinal \<equiv> 2 ^ 64 - 1"

text \<open>The scan that writes each selected command's ordinal into the scratch and stops at a bad one.\<close>

fun markOrder :: "nat \<Rightarrow> nat \<Rightarrow> nat \<Rightarrow> u32 list \<Rightarrow> nat list \<Rightarrow> nat list \<times> bool" where
  "markOrder commandBegin commandEnd ordinal [] scratch = (scratch, True)"
| "markOrder commandBegin commandEnd ordinal (c # cs) scratch =
     (let commandIndex = unat c in
      if commandIndex < commandBegin \<or> commandIndex \<ge> commandEnd then (scratch, False)
      else
        let relative = commandIndex - commandBegin in
        if scratch ! relative \<noteq> missingOrdinal then (scratch, False)
        else markOrder commandBegin commandEnd (ordinal + 1) cs (scratch[relative := ordinal]))"

definition clearScratch :: "nat \<Rightarrow> nat list \<Rightarrow> nat list" where
  "clearScratch sourceCommandCount scratch = replicate sourceCommandCount missingOrdinal @ drop sourceCommandCount scratch"

text \<open>The result is the stream and the caller's scratch.\<close>

definition makeEncodePartitionReplayStream :: "nat \<Rightarrow> PayloadView \<Rightarrow> u64 \<Rightarrow> nat \<Rightarrow> nat \<Rightarrow> bool \<Rightarrow> u32 list \<Rightarrow>
    nat list \<Rightarrow> SourceRef \<Rightarrow> EncodePartitionReplayStream \<times> nat list" where
  "makeEncodePartitionReplayStream slotIndex payload seqId commandBegin sourceCommandCount commandOrderActive
       commandOrder scratch tapeSource =
     (let sourceRangeValid = (commandBegin \<le> payloadCommandCount payload \<and>
            sourceCommandCount \<le> payloadCommandCount payload - commandBegin);
          replayCount = (if commandOrderActive then length commandOrder else sourceCommandCount);
          selectionValid = (validSourceRef tapeSource \<and> sourceRangeValid \<and> replayCount \<le> UINT32_MAX);
          (scratch', replaySelectionValid) =
            (if selectionValid \<and> \<not> commandOrderActive then
               (scratch, commandOrder = [] \<and> (sourceCommandCount \<noteq> 0 \<longrightarrow>
                  commandBegin \<le> UINT32_MAX \<and> sourceCommandCount - 1 \<le> UINT32_MAX - commandBegin))
             else if selectionValid then
               let fits = (length commandOrder \<le> sourceCommandCount \<and>
                     (commandOrder \<noteq> [] \<longrightarrow> length scratch \<ge> sourceCommandCount))
               in if fits \<and> length scratch \<ge> sourceCommandCount
                  then markOrder commandBegin (commandBegin + sourceCommandCount) 0 commandOrder
                         (clearScratch sourceCommandCount scratch)
                  else (scratch, fits)
             else (scratch, False))
      in (\<lparr>es_source = \<lparr>ps_slotIndex = slotIndex, ps_seqId = seqId, ps_payload = payload,
               ps_sourceId = ref_id tapeSource, ps_storage = ref_storage tapeSource,
               ps_slot = vw_legacy payload, ps_commandBegin = commandBegin, ps_commandCount = sourceCommandCount\<rparr>,
             es_commandOrderActive = commandOrderActive, es_commandOrder = commandOrder,
             es_valid = replaySelectionValid\<rparr>, scratch'))"

section \<open>Building and resolving a locator\<close>

definition resolvePayloadRange :: "DrawRunRecord \<Rightarrow> DrawPayloadRange \<Rightarrow> u8 list \<Rightarrow> nat \<Rightarrow>
    (DrawPayloadRange \<times> u8 list) option" where
  "resolvePayloadRange rec relative commandPayload schemaSize =
     (if emptyRange relative then Some (empty_payload_range, [])
      else if unat (rng_size relative) \<noteq> schemaSize \<or> rng_offset relative > drr_payloadSize rec \<or>
              rng_size relative > drr_payloadSize rec - rng_offset relative \<or>
              length commandPayload \<noteq> unat (drr_payloadSize rec) then None
      else
        let offset = unat (drr_payloadOffset rec) + unat (rng_offset relative) in
        if offset > UINT32_MAX \<or> unat (rng_offset relative) > length commandPayload \<or>
           unat (rng_size relative) > length commandPayload - unat (rng_offset relative) then None
        else Some (\<lparr>rng_offset = of_nat offset, rng_size = rng_size relative\<rparr>,
                   slice (unat (rng_offset relative)) (unat (rng_size relative)) commandPayload))"

definition uniformRecord :: "DrawUniformHandle \<Rightarrow> DrawUniformPayloadRecord list \<Rightarrow> DrawUniformPayloadRecord option" where
  "uniformRecord h uniforms =
     (if validUniform h \<and> unat (uh_index h) < length uniforms \<and> upr_handle (uniforms ! unat (uh_index h)) = h
      then Some (uniforms ! unat (uh_index h)) else None)"

definition effectiveUniform :: "DrawParam \<Rightarrow> DrawRunRecord \<Rightarrow> DrawUniformHandle" where
  "effectiveUniform param rec =
     (if validUniform (dp_uniformHandle param) then dp_uniformHandle param else drr_uniformHandle rec)"

definition stateComplete :: "FlatDrawStateView \<Rightarrow> bool" where
  "stateComplete v = (fv_hot v \<noteq> None \<and> fv_shaderLayout v \<noteq> None \<and> fv_debug v \<noteq> None)"

definition streamSource :: "ResolvedPublishedSource \<Rightarrow> SourceRef" where
  "streamSource s = \<lparr>ref_id = ps_sourceId s, ref_storage = ps_storage s\<rparr>"

definition snapshotForResolvedDrawParam :: "DrawBindingSizes \<Rightarrow> EncodePartitionReplayStream \<Rightarrow> u32 \<Rightarrow>
    SourceCommand \<Rightarrow> u32 \<Rightarrow> (EncodePartitionEntrySnapshot \<times> ResolvedEncodePartitionEntry) option" where
  "snapshotForResolvedDrawParam sz stream commandIndex sourceCommand drawParamIndex =
     (let source = es_source stream; payload = ps_payload source; command = sc_command sourceCommand;
          sourceCommandEnd = ps_commandBegin source + ps_commandCount source
      in
      if \<not> es_valid stream \<or> \<not> validPayload payload \<or> \<not> validSourceRef (streamSource source) \<or>
         ps_slotIndex source > UINT32_MAX then None
      else if ps_seqId source = 0 \<or>
         (case ps_slot source of None \<Rightarrow> False | Some slot \<Rightarrow> cs_seqId slot \<noteq> ps_seqId source) \<or>
         unat commandIndex < ps_commandBegin source \<or> unat commandIndex \<ge> sourceCommandEnd then None
      else case mv_drawRunRecord command of
        None \<Rightarrow> None
      | Some rec \<Rightarrow>
        if mv_kind command \<noteq> CmdDrawRun \<or> \<not> stateComplete (mv_drawState command) \<or>
           unat commandIndex \<ge> payloadCommandCount payload then None
        else if length (mv_drawParams command) \<noteq> unat (drr_paramCount rec) \<or>
           drawParamIndex < drr_firstParam rec \<or> drawParamIndex - drr_firstParam rec \<ge> drr_paramCount rec \<or>
           unat (drawParamIndex - drr_firstParam rec) \<ge> length (mv_drawParams command) then None
        else
          let param = mv_drawParams command ! unat (drawParamIndex - drr_firstParam rec);
              uniformHandle = effectiveUniform param rec
          in case uniformRecord uniformHandle (mv_drawUniformPayloadRecords command) of
            None \<Rightarrow> None
          | Some uniform \<Rightarrow>
            (case resolvePayloadRange rec (dp_bindingOverrideRange param) (mv_drawPayloadBytes command)
                    (bsz_override sz) of
              None \<Rightarrow> None
            | Some (bindingOverrideBytes, bindingOverrideView) \<Rightarrow>
              (case resolvePayloadRange rec (dp_bindingSnapshotRange param) (mv_drawPayloadBytes command)
                      (bsz_snapshot sz) of
                None \<Rightarrow> None
              | Some (bindingSnapshotBytes, bindingSnapshotView) \<Rightarrow>
                Some (\<lparr>pe_source = \<lparr>rl_tapeSource = streamSource source, rl_retainedSourceIndex = 0,
                           rl_slotIndex = of_nat (ps_slotIndex source), rl_seqId = ps_seqId source\<rparr>,
                         pe_commandIndex = commandIndex, pe_drawRunRecordIndex = sc_payloadIndex sourceCommand,
                         pe_stateIndex = drr_stateIndex rec, pe_drawParamIndex = drawParamIndex,
                         pe_uniformHandle = uniformHandle, pe_bindingOverrideBytes = bindingOverrideBytes,
                         pe_bindingSnapshotBytes = bindingSnapshotBytes\<rparr>,
                      \<lparr>re_slot = ps_slot source, re_command = command, re_drawRunRecord = rec,
                         re_drawState = mv_drawState command, re_drawParam = param, re_uniform = uniform,
                         re_bindingOverrideBytes = bindingOverrideView,
                         re_bindingSnapshotBytes = bindingSnapshotView\<rparr>))))"

definition snapshotForDrawParam :: "DrawBindingSizes \<Rightarrow> EncodePartitionReplayStream \<Rightarrow> nat \<Rightarrow> u32 \<Rightarrow>
    (EncodePartitionEntrySnapshot \<times> ResolvedEncodePartitionEntry) option" where
  "snapshotForDrawParam sz stream replayOrdinal drawParamIndex =
     (if \<not> es_valid stream \<or> \<not> validPayload (ps_payload (es_source stream)) then None
      else case commandIndexAt stream replayOrdinal of
        None \<Rightarrow> None
      | Some commandIndex \<Rightarrow> snapshotForResolvedDrawParam sz stream commandIndex
          (payloadCommandAt (ps_payload (es_source stream)) (unat commandIndex)) drawParamIndex)"

definition buildEncodePartitionEntrySnapshot :: "DrawBindingSizes \<Rightarrow> EncodePartitionReplayStream \<Rightarrow> nat \<Rightarrow> u32 \<Rightarrow>
    EncodePartitionEntrySnapshot option" where
  "buildEncodePartitionEntrySnapshot sz stream replayOrdinal drawParamIndex =
     map_option fst (snapshotForDrawParam sz stream replayOrdinal drawParamIndex)"

text \<open>A rejection is its reason; a resolution is the borrowed view.\<close>

definition resolveEncodePartitionEntry :: "DrawBindingSizes \<Rightarrow> EncodePartitionEntrySnapshot \<Rightarrow>
    ResolvedPublishedSource list \<Rightarrow> EncodePartitionEntryValidation + ResolvedEncodePartitionEntry" where
  "resolveEncodePartitionEntry sz snapshot sources =
     (if unat (rl_retainedSourceIndex (pe_source snapshot)) \<ge> length sources
      then Inl EvRetainedSourceIndexOutOfRange
      else
        let source = sources ! unat (rl_retainedSourceIndex (pe_source snapshot)); payload = ps_payload source;
            located = pe_source snapshot
        in
        if \<not> validSourceRef (rl_tapeSource located) \<or> \<not> validSourceRef (streamSource source) \<or>
           \<not> validPayload payload \<or> ps_sourceId source \<noteq> ref_id (rl_tapeSource located) \<or>
           ps_storage source \<noteq> ref_storage (rl_tapeSource located) \<or>
           ps_slotIndex source \<noteq> unat (rl_slotIndex located) \<or>
           ps_seqId source = 0 \<or> ps_seqId source \<noteq> rl_seqId located \<or>
           (case ps_slot source of
              None \<Rightarrow> False
            | Some slot \<Rightarrow> cs_seqId slot \<noteq> rl_seqId located \<or>
                map_option cs_address (vw_legacy payload) \<noteq> Some (cs_address slot))
        then Inl EvSourceIdentityMismatch
        else if ps_commandBegin source > payloadCommandCount payload \<or>
                ps_commandCount source > payloadCommandCount payload - ps_commandBegin source
        then Inl EvSourceCommandRangeInvalid
        else if unat (pe_commandIndex snapshot) < ps_commandBegin source \<or>
                unat (pe_commandIndex snapshot) \<ge> ps_commandBegin source + ps_commandCount source
        then Inl EvCommandIndexOutOfRange
        else
          let sourceCommand = payloadCommandAt payload (unat (pe_commandIndex snapshot));
              command = sc_command sourceCommand
          in case mv_drawRunRecord command of
            None \<Rightarrow> Inl EvCommandIsNotDrawRun
          | Some rec \<Rightarrow>
            if mv_kind command \<noteq> CmdDrawRun then Inl EvCommandIsNotDrawRun
            else if sc_payloadIndex sourceCommand \<noteq> pe_drawRunRecordIndex snapshot then Inl EvDrawRunRecordMismatch
            else if drr_stateIndex rec \<noteq> pe_stateIndex snapshot \<or> \<not> stateComplete (mv_drawState command)
            then Inl EvStateIndexMismatch
            else if pe_drawParamIndex snapshot < drr_firstParam rec \<or>
                    pe_drawParamIndex snapshot - drr_firstParam rec \<ge> drr_paramCount rec \<or>
                    unat (pe_drawParamIndex snapshot - drr_firstParam rec) \<ge> length (mv_drawParams command)
            then Inl EvDrawParamIndexMismatch
            else
              let param = mv_drawParams command ! unat (pe_drawParamIndex snapshot - drr_firstParam rec);
                  uniformHandle = effectiveUniform param rec
              in case uniformRecord uniformHandle (mv_drawUniformPayloadRecords command) of
                None \<Rightarrow> Inl EvUniformHandleMismatch
              | Some uniform \<Rightarrow>
                if uniformHandle \<noteq> pe_uniformHandle snapshot then Inl EvUniformHandleMismatch
                else (case resolvePayloadRange rec (dp_bindingOverrideRange param)
                        (mv_drawPayloadBytes command) (bsz_override sz) of
                    None \<Rightarrow> Inl EvBindingOverrideRangeMismatch
                  | Some (bindingOverrideBytes, bindingOverrideView) \<Rightarrow>
                    if bindingOverrideBytes \<noteq> pe_bindingOverrideBytes snapshot
                    then Inl EvBindingOverrideRangeMismatch
                    else (case resolvePayloadRange rec (dp_bindingSnapshotRange param)
                            (mv_drawPayloadBytes command) (bsz_snapshot sz) of
                        None \<Rightarrow> Inl EvBindingSnapshotRangeMismatch
                      | Some (bindingSnapshotBytes, bindingSnapshotView) \<Rightarrow>
                        if bindingSnapshotBytes \<noteq> pe_bindingSnapshotBytes snapshot
                        then Inl EvBindingSnapshotRangeMismatch
                        else Inr \<lparr>re_slot = ps_slot source, re_command = command, re_drawRunRecord = rec,
                               re_drawState = mv_drawState command, re_drawParam = param, re_uniform = uniform,
                               re_bindingOverrideBytes = bindingOverrideView,
                               re_bindingSnapshotBytes = bindingSnapshotView\<rparr>)))"

section \<open>Validating a plan of ranges\<close>

datatype EncodePartitionRangeValidation =
    RvValid | RvReplayStreamInvalid | RvReplayStreamTooLarge | RvCommandSegmentEmpty
  | RvCommandSegmentHasDrawEntries | RvDrawRunReplayCountInvalid | RvDrawRunEntriesEmpty
  | RvReplayOrdinalOverflow | RvReplayCoverageGap | RvReplayCoverageOverlap | RvDrawRunCommandMismatch
  | RvDrawEntryOverflow | RvDrawCoverageGap | RvDrawCoverageOverlap | RvDrawCoveragePartialTail
  | RvEntryResolutionFailed

type_synonym RangeRejection = "EncodePartitionRangeValidation \<times> EncodePartitionEntryValidation"

definition rejectRange :: "EncodePartitionRangeValidation \<Rightarrow> RangeRejection" where
  "rejectRange v = (v, EvRetainedSourceIndexOutOfRange)"

definition resolveEncodePartition :: "DrawBindingSizes \<Rightarrow> EncodePartitionRangeSnapshot \<Rightarrow>
    EncodePartitionReplayStream \<Rightarrow> RangeRejection + ResolvedEncodePartition" where
  "resolveEncodePartition sz rg stream =
     (if \<not> es_valid stream then Inl (rejectRange RvReplayStreamInvalid)
      else if er_kind rg \<noteq> DrawRunEntries \<or> er_replayOrdinalCount rg \<noteq> 1 \<or> er_drawEntryCount rg = 0
      then Inl (rejectRange (if er_kind rg = DrawRunEntries
              then (if er_replayOrdinalCount rg = 1 then RvDrawRunEntriesEmpty else RvDrawRunReplayCountInvalid)
              else RvDrawRunCommandMismatch))
      else if commandIndexAt stream (unat (er_replayOrdinalBegin rg)) \<noteq> Some (pe_commandIndex (er_entry rg))
      then Inl (rejectRange RvDrawRunCommandMismatch)
      else case resolveEncodePartitionEntry sz (er_entry rg) [es_source stream] of
        Inl reason \<Rightarrow> Inl (RvEntryResolutionFailed, reason)
      | Inr entry \<Rightarrow>
        let rec = re_drawRunRecord entry; draws = mv_drawParams (re_command entry);
            drawEnd = unat (pe_drawParamIndex (er_entry rg)) + unat (er_drawEntryCount rg);
            runEnd = unat (drr_firstParam rec) + unat (drr_paramCount rec)
        in if drawEnd > UINT32_MAX \<or> runEnd > UINT32_MAX \<or> drawEnd > runEnd \<or>
              pe_drawParamIndex (er_entry rg) < drr_firstParam rec \<or>
              unat (pe_drawParamIndex (er_entry rg) - drr_firstParam rec) > length draws \<or>
              unat (er_drawEntryCount rg) >
                length draws - unat (pe_drawParamIndex (er_entry rg) - drr_firstParam rec)
           then Inl (RvDrawEntryOverflow, EvValid)
           else Inr \<lparr>rp_entry = entry,
                  rp_drawParams = slice (unat (pe_drawParamIndex (er_entry rg) - drr_firstParam rec))
                    (unat (er_drawEntryCount rg)) draws\<rparr>)"

text \<open>The loop's variables, and its body for one range.\<close>

record RangeCoverage =
  cv_expectedOrdinal :: u32
  cv_expectedDrawParam :: u32
  cv_drawRunIncomplete :: bool

definition coverSegment :: "EncodePartitionReplayStream \<Rightarrow> EncodePartitionRangeSnapshot \<Rightarrow> RangeCoverage \<Rightarrow>
    RangeRejection + RangeCoverage" where
  "coverSegment stream rg c =
     (if er_replayOrdinalCount rg = 0 then Inl (rejectRange RvCommandSegmentEmpty)
      else if er_drawEntryCount rg \<noteq> 0 then Inl (rejectRange RvCommandSegmentHasDrawEntries)
      else if cv_drawRunIncomplete c then Inl (rejectRange RvDrawCoveragePartialTail)
      else
        let segmentEnd = unat (er_replayOrdinalBegin rg) + unat (er_replayOrdinalCount rg) in
        if segmentEnd > UINT32_MAX then Inl (rejectRange RvReplayOrdinalOverflow)
        else if er_replayOrdinalBegin rg < cv_expectedOrdinal c then Inl (rejectRange RvReplayCoverageOverlap)
        else if er_replayOrdinalBegin rg > cv_expectedOrdinal c then Inl (rejectRange RvReplayCoverageGap)
        else if segmentEnd > replayOrdinalCount stream then Inl (rejectRange RvReplayOrdinalOverflow)
        else Inr (c\<lparr>cv_expectedOrdinal := of_nat segmentEnd\<rparr>))"

definition coverDraws :: "DrawBindingSizes \<Rightarrow> EncodePartitionReplayStream \<Rightarrow> EncodePartitionRangeSnapshot \<Rightarrow>
    RangeCoverage \<Rightarrow> RangeRejection + RangeCoverage" where
  "coverDraws sz stream rg c =
     (if er_replayOrdinalCount rg \<noteq> 1 then Inl (rejectRange RvDrawRunReplayCountInvalid)
      else if er_drawEntryCount rg = 0 then Inl (rejectRange RvDrawRunEntriesEmpty)
      else if er_replayOrdinalBegin rg < cv_expectedOrdinal c then Inl (rejectRange RvReplayCoverageOverlap)
      else if er_replayOrdinalBegin rg > cv_expectedOrdinal c then Inl (rejectRange RvReplayCoverageGap)
      else case resolveEncodePartition sz rg stream of
        Inl rejection \<Rightarrow> Inl rejection
      | Inr part \<Rightarrow>
        let rec = re_drawRunRecord (rp_entry part);
            drawBegin = pe_drawParamIndex (er_entry rg);
            drawEnd = unat drawBegin + unat (er_drawEntryCount rg);
            runEnd = unat (drr_firstParam rec) + unat (drr_paramCount rec);
            incomplete = (drawEnd \<noteq> runEnd)
        in
        if cv_drawRunIncomplete c \<and> drawBegin < cv_expectedDrawParam c
        then Inl (rejectRange RvDrawCoverageOverlap)
        else if cv_drawRunIncomplete c \<and> drawBegin > cv_expectedDrawParam c
        then Inl (rejectRange RvDrawCoverageGap)
        else if \<not> cv_drawRunIncomplete c \<and> drawBegin \<noteq> drr_firstParam rec
        then Inl (rejectRange (if drawBegin < drr_firstParam rec then RvDrawCoverageOverlap
                else RvDrawCoverageGap))
        else if drawEnd > UINT32_MAX \<or> runEnd > UINT32_MAX \<or> drawEnd > runEnd
        then Inl (rejectRange RvDrawEntryOverflow)
        else Inr (if incomplete
          then c\<lparr>cv_expectedDrawParam := of_nat drawEnd, cv_drawRunIncomplete := True\<rparr>
          else \<lparr>cv_expectedOrdinal = cv_expectedOrdinal c + 1, cv_expectedDrawParam = 0,
                 cv_drawRunIncomplete = False\<rparr>))"

definition coverRange :: "DrawBindingSizes \<Rightarrow> EncodePartitionReplayStream \<Rightarrow> EncodePartitionRangeSnapshot \<Rightarrow>
    RangeCoverage \<Rightarrow> RangeRejection + RangeCoverage" where
  "coverRange sz stream rg c =
     (if er_kind rg = CommandSegment then coverSegment stream rg c else coverDraws sz stream rg c)"

fun coverRanges :: "DrawBindingSizes \<Rightarrow> EncodePartitionReplayStream \<Rightarrow> nat \<Rightarrow> EncodePartitionRangeSnapshot list \<Rightarrow>
    RangeCoverage \<Rightarrow> (RangeRejection \<times> nat) + RangeCoverage" where
  "coverRanges sz stream i [] c = Inr c"
| "coverRanges sz stream i (rg # rgs) c = (case coverRange sz stream rg c of
     Inl rejection \<Rightarrow> Inl (rejection, i)
   | Inr c' \<Rightarrow> coverRanges sz stream (i + 1) rgs c')"

record EncodePartitionRangeValidationResult =
  vr_validation :: EncodePartitionRangeValidation
  vr_entryValidation :: EncodePartitionEntryValidation
  vr_rangeIndex :: nat

definition rangeResult :: "RangeRejection \<Rightarrow> nat \<Rightarrow> EncodePartitionRangeValidationResult" where
  "rangeResult rejection i =
     \<lparr>vr_validation = fst rejection, vr_entryValidation = snd rejection, vr_rangeIndex = i\<rparr>"

definition validateEncodePartitionRanges :: "DrawBindingSizes \<Rightarrow> EncodePartitionRangeSnapshot list \<Rightarrow>
    EncodePartitionReplayStream \<Rightarrow> EncodePartitionRangeValidationResult" where
  "validateEncodePartitionRanges sz rgs stream =
     (if \<not> es_valid stream then rangeResult (rejectRange RvReplayStreamInvalid) 0
      else if replayOrdinalCount stream > UINT32_MAX then rangeResult (rejectRange RvReplayStreamTooLarge) 0
      else case coverRanges sz stream 0 rgs
             \<lparr>cv_expectedOrdinal = 0, cv_expectedDrawParam = 0, cv_drawRunIncomplete = False\<rparr> of
        Inl (rejection, i) \<Rightarrow> rangeResult rejection i
      | Inr c \<Rightarrow>
        if cv_drawRunIncomplete c then rangeResult (rejectRange RvDrawCoveragePartialTail) (length rgs)
        else if unat (cv_expectedOrdinal c) \<noteq> replayOrdinalCount stream
        then rangeResult (rejectRange RvReplayCoverageGap) (length rgs)
        else rangeResult (RvValid, EvValid) (length rgs))"

end
