(* ===== verification/Ep_Cursor.thy ===== *)
theory Ep_Cursor
  imports Ep_Partition
begin

text \<open>
  The cursors over a replay stream. The identity cursor makes one range of every valid draw run and
  joins the commands between them into segments; the serial cursor follows an explicit plan, taking the
  ranges of one draw run together, or else the identity cursor.
\<close>

section \<open>The identity cursor\<close>

type_synonym IdentityStep = "EncodePartitionRangeSnapshot \<times> ResolvedEncodePartition option"

record EncodePartitionIdentityCursor =
  ic_replayOrdinal :: nat
  ic_pending :: "IdentityStep option"

definition newIdentityCursor :: EncodePartitionIdentityCursor where
  "newIdentityCursor = \<lparr>ic_replayOrdinal = 0, ic_pending = None\<rparr>"

text \<open>The range of a replay ordinal that is a valid draw run.\<close>

definition identityDraws :: "DrawBindingSizes \<Rightarrow> EncodePartitionReplayStream \<Rightarrow> nat \<Rightarrow> IdentityStep option" where
  "identityDraws sz stream replayOrdinal = (case commandIndexAt stream replayOrdinal of
     None \<Rightarrow> None
   | Some commandIndex \<Rightarrow>
     let sourceCommand = payloadCommandAt (ps_payload (es_source stream)) (unat commandIndex);
         command = sc_command sourceCommand
     in case mv_drawRunRecord command of
       None \<Rightarrow> None
     | Some rec \<Rightarrow>
       if mv_kind command \<noteq> CmdDrawRun \<or> drr_paramCount rec = 0 then None
       else case snapshotForResolvedDrawParam sz stream commandIndex sourceCommand (drr_firstParam rec) of
         None \<Rightarrow> None
       | Some (entry, resolved) \<Rightarrow>
         Some (\<lparr>er_kind = DrawRunEntries, er_replayOrdinalBegin = of_nat replayOrdinal,
                 er_replayOrdinalCount = 1, er_drawEntryCount = drr_paramCount rec, er_entry = entry\<rparr>,
               Some \<lparr>rp_entry = resolved, rp_drawParams = mv_drawParams command\<rparr>))"

text \<open>The inner loop: where the segment ends, and the draw run that ends it.\<close>

function scanSegment :: "DrawBindingSizes \<Rightarrow> EncodePartitionReplayStream \<Rightarrow> nat \<Rightarrow> nat \<times> IdentityStep option" where
  "scanSegment sz stream replayOrdinal =
     (if replayOrdinal < replayOrdinalCount stream then
        (case identityDraws sz stream replayOrdinal of
           Some step \<Rightarrow> (replayOrdinal, Some step)
         | None \<Rightarrow> scanSegment sz stream (replayOrdinal + 1))
      else (replayOrdinal, None))"
  by auto
termination
  by (relation "measure (\<lambda>(sz, stream, k). replayOrdinalCount stream - k)") auto

declare scanSegment.simps [simp del]

definition identityNext :: "DrawBindingSizes \<Rightarrow> EncodePartitionReplayStream \<Rightarrow> EncodePartitionIdentityCursor \<Rightarrow>
    (IdentityStep \<times> EncodePartitionIdentityCursor) option" where
  "identityNext sz stream cursor =
     (if \<not> es_valid stream \<or> ic_replayOrdinal cursor \<ge> replayOrdinalCount stream then None
      else case ic_pending cursor of
        Some step \<Rightarrow> Some (step, \<lparr>ic_replayOrdinal = ic_replayOrdinal cursor + 1, ic_pending = None\<rparr>)
      | None \<Rightarrow>
        (case identityDraws sz stream (ic_replayOrdinal cursor) of
          Some step \<Rightarrow> Some (step, cursor\<lparr>ic_replayOrdinal := ic_replayOrdinal cursor + 1\<rparr>)
        | None \<Rightarrow>
          let segmentBegin = ic_replayOrdinal cursor;
              (segmentEnd, pending) = scanSegment sz stream (segmentBegin + 1)
          in Some ((\<lparr>er_kind = CommandSegment, er_replayOrdinalBegin = of_nat segmentBegin,
                     er_replayOrdinalCount = of_nat (segmentEnd - segmentBegin), er_drawEntryCount = 0,
                     er_entry = no_entry\<rparr>, None),
                   \<lparr>ic_replayOrdinal = segmentEnd, ic_pending = pending\<rparr>)))"

section \<open>The serial cursor\<close>

record EncodePartitionSerialBatch =
  sb_kind :: EncodePartitionRangeKind
  sb_replayOrdinalBegin :: u32
  sb_replayOrdinalCount :: u32
  sb_ranges :: "EncodePartitionRangeSnapshot list"
  sb_identityResolved :: bool
  sb_identityPartition :: "ResolvedEncodePartition option"

record EncodePartitionSerialCursor =
  sl_explicitRanges :: "EncodePartitionRangeSnapshot list"
  sl_explicitIndex :: nat
  sl_useExplicitPlan :: bool
  sl_identityCursor :: EncodePartitionIdentityCursor

definition newSerialCursor :: "EncodePartitionRangeSnapshot list \<Rightarrow> bool \<Rightarrow> EncodePartitionSerialCursor" where
  "newSerialCursor explicitRanges useExplicitPlan = \<lparr>sl_explicitRanges = explicitRanges, sl_explicitIndex = 0,
     sl_useExplicitPlan = useExplicitPlan, sl_identityCursor = newIdentityCursor\<rparr>"

definition sameDrawRun :: "EncodePartitionRangeSnapshot \<Rightarrow> EncodePartitionRangeSnapshot \<Rightarrow> bool" where
  "sameDrawRun a b = (er_kind b = DrawRunEntries \<and> er_replayOrdinalBegin b = er_replayOrdinalBegin a)"

definition serialNext :: "DrawBindingSizes \<Rightarrow> EncodePartitionReplayStream \<Rightarrow> EncodePartitionSerialCursor \<Rightarrow>
    (EncodePartitionSerialBatch \<times> EncodePartitionSerialCursor) option" where
  "serialNext sz stream cursor =
     (if \<not> sl_useExplicitPlan cursor then
        (case identityNext sz stream (sl_identityCursor cursor) of
          None \<Rightarrow> None
        | Some ((rg, part), identity) \<Rightarrow>
          Some (\<lparr>sb_kind = er_kind rg, sb_replayOrdinalBegin = er_replayOrdinalBegin rg,
                 sb_replayOrdinalCount = er_replayOrdinalCount rg, sb_ranges = [rg],
                 sb_identityResolved = (er_kind rg = DrawRunEntries), sb_identityPartition = part\<rparr>,
               cursor\<lparr>sl_identityCursor := identity\<rparr>))
      else if sl_explicitIndex cursor \<ge> length (sl_explicitRanges cursor) then None
      else
        let first = sl_explicitRanges cursor ! sl_explicitIndex cursor;
            behind = drop (sl_explicitIndex cursor + 1) (sl_explicitRanges cursor);
            batch = first # (if er_kind first = DrawRunEntries then takeWhile (sameDrawRun first) behind else [])
        in Some (\<lparr>sb_kind = er_kind first, sb_replayOrdinalBegin = er_replayOrdinalBegin first,
                  sb_replayOrdinalCount = er_replayOrdinalCount first, sb_ranges = batch,
                  sb_identityResolved = False, sb_identityPartition = None\<rparr>,
                cursor\<lparr>sl_explicitIndex := sl_explicitIndex cursor + length batch\<rparr>))"

text \<open>The consumer's loop \<^verbatim>\<open>while (partitionCursor.next(partitionBatch))\<close>, with fuel.\<close>

fun serialBatches :: "nat \<Rightarrow> DrawBindingSizes \<Rightarrow> EncodePartitionReplayStream \<Rightarrow> EncodePartitionSerialCursor \<Rightarrow>
    EncodePartitionSerialBatch list option" where
  "serialBatches 0 sz stream cursor = None"
| "serialBatches (Suc fuel) sz stream cursor = (case serialNext sz stream cursor of
     None \<Rightarrow> Some []
   | Some (batch, cursor') \<Rightarrow> map_option (Cons batch) (serialBatches fuel sz stream cursor'))"

end
