(* ===== verification/Ep_Planner.thy ===== *)
theory Ep_Planner
  imports Ep_Partition
begin

text \<open>
  The production planner (\<^verbatim>\<open>planProductionEncodePartitions\<close>), which cuts long draw runs where no merge is
  lost, and the cursors that walk a stream by identity or by an explicit plan. The planner's fixed
  storage of 256 ranges is the list of the ranges appended since its last reset.
\<close>

section \<open>The production planner\<close>

abbreviation kProductionPartitionDrawThreshold :: nat where "kProductionPartitionDrawThreshold \<equiv> 64"
abbreviation kProductionPartitionTargetDraws :: nat where "kProductionPartitionTargetDraws \<equiv> 32"
abbreviation kProductionPartitionMinimumDraws :: nat where "kProductionPartitionMinimumDraws \<equiv> 16"
abbreviation kProductionPartitionRangeCapacity :: nat where "kProductionPartitionRangeCapacity \<equiv> 256"

datatype ProductionPartitionFallbackReason =
    PfNone | PfNoEligibleDrawRun | PfReplayStreamInvalid | PfReplayStreamTooLarge | PfRangeCapacity
  | PfSnapshotInvalid | PfMergePreservation | PfValidationFailed

record ProductionEncodePartitionPlanResult =
  pp_fallback :: ProductionPartitionFallbackReason
  pp_validation :: EncodePartitionRangeValidation
  pp_rangeCount :: u32
  pp_drawRangeCount :: u32
  pp_plannedDrawCount :: u64
  pp_subdividedDrawRunCount :: u32
  pp_mergePreservedIdentityCount :: u32
  pp_explicitPlan :: bool

definition default_plan_result :: ProductionEncodePartitionPlanResult where
  "default_plan_result = \<lparr>pp_fallback = PfNoEligibleDrawRun, pp_validation = RvValid, pp_rangeCount = 0,
     pp_drawRangeCount = 0, pp_plannedDrawCount = 0, pp_subdividedDrawRunCount = 0,
     pp_mergePreservedIdentityCount = 0, pp_explicitPlan = False\<rparr>"

type_synonym PlanStorage = "EncodePartitionRangeSnapshot list"

definition appendProductionRange :: "EncodePartitionRangeSnapshot \<Rightarrow> PlanStorage \<Rightarrow> PlanStorage option" where
  "appendProductionRange rg storage =
     (if length storage \<ge> kProductionPartitionRangeCapacity then None else Some (storage @ [rg]))"

definition segmentRange :: "u32 \<Rightarrow> u32 \<Rightarrow> EncodePartitionRangeSnapshot" where
  "segmentRange replayOrdinal n = \<lparr>er_kind = CommandSegment, er_replayOrdinalBegin = replayOrdinal,
     er_replayOrdinalCount = n, er_drawEntryCount = 0, er_entry = no_entry\<rparr>"

definition extendsTail :: "EncodePartitionRangeSnapshot \<Rightarrow> u32 \<Rightarrow> bool" where
  "extendsTail tail replayOrdinal = (er_kind tail = CommandSegment \<and>
     unat (er_replayOrdinalBegin tail) + unat (er_replayOrdinalCount tail) = unat replayOrdinal \<and>
     er_replayOrdinalCount tail \<noteq> - 1)"

definition appendProductionCommandOrdinal :: "u32 \<Rightarrow> PlanStorage \<Rightarrow> PlanStorage option" where
  "appendProductionCommandOrdinal replayOrdinal storage =
     (if storage \<noteq> [] \<and> extendsTail (List.last storage) replayOrdinal
      then Some (butlast storage @
        [(List.last storage)\<lparr>er_replayOrdinalCount := er_replayOrdinalCount (List.last storage) + 1\<rparr>])
      else appendProductionRange (segmentRange replayOrdinal 1) storage)"

text \<open>The search for the edge nearest to the desired one, below before above; \<open>fuel\<close> is what is left of the radius.\<close>

definition splittable :: "DrawParam list \<Rightarrow> u8 list \<Rightarrow> nat \<Rightarrow> bool" where
  "splittable draws payload candidate =
     (classifyCompatibleIndexedDrawMergePair (draws ! (candidate - 1)) (draws ! candidate) payload \<noteq> 0)"

fun searchEdge :: "DrawParam list \<Rightarrow> u8 list \<Rightarrow> nat \<Rightarrow> nat \<Rightarrow> nat \<Rightarrow> nat \<Rightarrow> nat \<Rightarrow> nat option" where
  "searchEdge draws payload lo desired hi distance 0 = None"
| "searchEdge draws payload lo desired hi distance (Suc fuel) =
     (if distance \<le> desired - lo \<and> splittable draws payload (desired - distance) then Some (desired - distance)
      else if distance \<noteq> 0 \<and> distance \<le> hi - desired \<and> splittable draws payload (desired + distance)
      then Some (desired + distance)
      else searchEdge draws payload lo desired hi (distance + 1) fuel)"

definition findMergePreservingPartitionEdge :: "DrawParam list \<Rightarrow> u8 list \<Rightarrow> nat \<Rightarrow> nat" where
  "findMergePreservingPartitionEdge draws payload rangeBegin =
     (let minimum = kProductionPartitionMinimumDraws in
      if rangeBegin > length draws \<or> length draws - rangeBegin < kProductionPartitionDrawThreshold \<or>
         minimum > length draws - rangeBegin then length draws
      else
        let lo = rangeBegin + minimum; hi = length draws - minimum in
        if lo > hi then length draws
        else
          let desired = min (rangeBegin + kProductionPartitionTargetDraws) hi;
              radius = max (desired - lo) (hi - desired)
          in case searchEdge draws payload lo desired hi 0 (radius + 1) of
               None \<Rightarrow> length draws | Some edge \<Rightarrow> edge)"

lemma searchEdge_bounds:
  "searchEdge draws payload lo desired hi distance fuel = Some e \<Longrightarrow> lo \<le> desired \<Longrightarrow> desired \<le> hi \<Longrightarrow>
     lo \<le> e \<and> e \<le> hi \<and> splittable draws payload e"
  by (induction fuel arbitrary: distance) (auto split: if_splits)

lemma findEdge_cases:
  obtains "findMergePreservingPartitionEdge draws payload b = length draws"
  | "b + 16 \<le> findMergePreservingPartitionEdge draws payload b"
    "findMergePreservingPartitionEdge draws payload b + 16 \<le> length draws"
    "splittable draws payload (findMergePreservingPartitionEdge draws payload b)"
proof (cases "b > length draws \<or> length draws - b < 64")
  case False
  define desired where "desired = min (b + 32) (length draws - 16)"
  define radius where "radius = max (desired - (b + 16)) (length draws - 16 - desired)"
  have d: "b + 16 \<le> desired" "desired \<le> length draws - 16" using False by (auto simp: desired_def)
  have e: "findMergePreservingPartitionEdge draws payload b =
      (case searchEdge draws payload (b + 16) desired (length draws - 16) 0 (radius + 1) of
         None \<Rightarrow> length draws | Some edge \<Rightarrow> edge)"
    using False unfolding findMergePreservingPartitionEdge_def Let_def desired_def [symmetric] radius_def [symmetric]
    by (subst if_not_P) auto
  show ?thesis
  proof (cases "searchEdge draws payload (b + 16) desired (length draws - 16) 0 (radius + 1)")
    case (Some k)
    note k = searchEdge_bounds [OF Some d]
    have "k + 16 \<le> length draws" using k False by linarith
    then show ?thesis using k e Some by (intro that(2)) (simp_all del: searchEdge.simps)
  qed (use e in \<open>simp add: that(1) del: searchEdge.simps\<close>)
next
  case True
  then have "findMergePreservingPartitionEdge draws payload b = length draws"
    by (auto simp: findMergePreservingPartitionEdge_def)
  then show ?thesis by (rule that(1))
qed

definition appendDrawRange :: "DrawBindingSizes \<Rightarrow> EncodePartitionReplayStream \<Rightarrow> nat \<Rightarrow> DrawParam list \<Rightarrow>
    DrawRunRecord \<Rightarrow> nat \<Rightarrow> nat \<Rightarrow> PlanStorage \<Rightarrow> PlanStorage option" where
  "appendDrawRange sz stream replayOrdinal drawParams rec rangeBegin rangeEnd storage =
     (if rangeBegin \<ge> rangeEnd \<or> rangeEnd > length drawParams \<or>
         length storage \<ge> kProductionPartitionRangeCapacity \<or>
         rangeBegin > UINT32_MAX - unat (drr_firstParam rec) then None
      else
        let firstParam = drr_firstParam rec + of_nat rangeBegin in
        case buildEncodePartitionEntrySnapshot sz stream replayOrdinal firstParam of
          None \<Rightarrow> None
        | Some entry \<Rightarrow> appendProductionRange
            \<lparr>er_kind = DrawRunEntries, er_replayOrdinalBegin = of_nat replayOrdinal, er_replayOrdinalCount = 1,
              er_drawEntryCount = of_nat (rangeEnd - rangeBegin), er_entry = entry\<rparr> storage)"

text \<open>
  Cutting one run: the ranges so far, where the rest begins, and whether anything was cut. The failure of
  an append says whether the storage was full.
\<close>

definition appendFailure :: "PlanStorage \<Rightarrow> ProductionPartitionFallbackReason" where
  "appendFailure storage =
     (if length storage \<ge> kProductionPartitionRangeCapacity then PfRangeCapacity else PfSnapshotInvalid)"

function subdivideRun :: "DrawBindingSizes \<Rightarrow> EncodePartitionReplayStream \<Rightarrow> nat \<Rightarrow> DrawParam list \<Rightarrow> u8 list \<Rightarrow>
    DrawRunRecord \<Rightarrow> nat \<Rightarrow> bool \<Rightarrow> PlanStorage \<Rightarrow>
    ProductionPartitionFallbackReason + (PlanStorage \<times> nat \<times> bool)" where
  "subdivideRun sz stream replayOrdinal drawParams payload rec rangeBegin subdivided storage =
     (if length drawParams - rangeBegin < kProductionPartitionDrawThreshold
      then Inr (storage, rangeBegin, subdivided)
      else
        let edge = findMergePreservingPartitionEdge drawParams payload rangeBegin in
        if edge = length drawParams then Inr (storage, rangeBegin, subdivided)
        else case appendDrawRange sz stream replayOrdinal drawParams rec rangeBegin edge storage of
          None \<Rightarrow> Inl (appendFailure storage)
        | Some storage' \<Rightarrow>
            subdivideRun sz stream replayOrdinal drawParams payload rec edge True storage')"
  by auto
termination
proof (relation "measure (\<lambda>(sz, stream, k, draws, payload, rec, b, sub, storage). length draws - b)")
  fix sz stream replayOrdinal b sub storage storage' edge
  fix draws :: "DrawParam list" and payload and rec :: DrawRunRecord
  assume a: "\<not> length draws - b < 64" "edge = findMergePreservingPartitionEdge draws payload b"
    "edge \<noteq> length draws"
  show "((sz, stream, replayOrdinal, draws, payload, rec, edge, True, storage'),
      sz, stream, replayOrdinal, draws, payload, rec, b, sub, storage)
      \<in> measure (\<lambda>(sz, stream, k, draws, payload, rec, b, sub, storage). length draws - b)"
    using a by (cases rule: findEdge_cases [of draws payload b]) auto
qed simp

declare subdivideRun.simps [simp del]

record PlanState =
  pst_storage :: PlanStorage
  pst_sawEligibleDrawRun :: bool
  pst_result :: ProductionEncodePartitionPlanResult

definition isDrawRun :: "MetalCommandView \<Rightarrow> DrawRunRecord option" where
  "isDrawRun command = (case mv_drawRunRecord command of
     None \<Rightarrow> None
   | Some rec \<Rightarrow> if mv_kind command \<noteq> CmdDrawRun \<or> drr_paramCount rec = 0 \<or>
         length (mv_drawParams command) \<noteq> unat (drr_paramCount rec) then None else Some rec)"

definition failPlan :: "ProductionPartitionFallbackReason \<Rightarrow> EncodePartitionRangeValidation \<Rightarrow>
    ProductionEncodePartitionPlanResult \<Rightarrow> ProductionEncodePartitionPlanResult" where
  "failPlan reason validation r = r\<lparr>pp_fallback := reason, pp_validation := validation\<rparr>"

text \<open>One step of the loop over the replay ordinals; a failure is the result that is returned.\<close>

definition planWhole :: "nat \<Rightarrow> PlanState \<Rightarrow> ProductionEncodePartitionPlanResult + PlanState" where
  "planWhole replayOrdinal st =
     (case appendProductionCommandOrdinal (of_nat replayOrdinal) (pst_storage st) of
        None \<Rightarrow> Inl ((pst_result st)\<lparr>pp_fallback := PfRangeCapacity\<rparr>)
      | Some storage \<Rightarrow> Inr (st\<lparr>pst_storage := storage\<rparr>))"

definition planRun :: "DrawBindingSizes \<Rightarrow> EncodePartitionReplayStream \<Rightarrow> nat \<Rightarrow> MetalCommandView \<Rightarrow> DrawRunRecord \<Rightarrow>
    PlanState \<Rightarrow> ProductionEncodePartitionPlanResult + PlanState" where
  "planRun sz stream replayOrdinal command rec st =
     (let eligible = (unat (drr_paramCount rec) \<ge> kProductionPartitionDrawThreshold);
          st' = st\<lparr>pst_sawEligibleDrawRun := pst_sawEligibleDrawRun st \<or> eligible\<rparr>
      in case (if eligible then subdivideRun sz stream replayOrdinal (mv_drawParams command)
                                  (mv_drawPayloadBytes command) rec 0 False (pst_storage st)
               else Inr (pst_storage st, 0, False)) of
        Inl reason \<Rightarrow> Inl ((pst_result st)\<lparr>pp_fallback := reason\<rparr>)
      | Inr (storage, rangeBegin, subdivided) \<Rightarrow>
        if \<not> subdivided then (case planWhole replayOrdinal st' of
            Inl r \<Rightarrow> Inl r
          | Inr st'' \<Rightarrow> Inr (if eligible then st''\<lparr>pst_result := (pst_result st'')
              \<lparr>pp_mergePreservedIdentityCount := pp_mergePreservedIdentityCount (pst_result st'') + 1\<rparr>\<rparr>
              else st''))
        else case appendDrawRange sz stream replayOrdinal (mv_drawParams command) rec rangeBegin
                    (length (mv_drawParams command)) storage of
          None \<Rightarrow> Inl ((pst_result st)\<lparr>pp_fallback := appendFailure storage\<rparr>)
        | Some storage' \<Rightarrow> Inr (st'\<lparr>pst_storage := storage', pst_result := (pst_result st')
            \<lparr>pp_subdividedDrawRunCount := pp_subdividedDrawRunCount (pst_result st') + 1\<rparr>\<rparr>))"

definition planOrdinal :: "DrawBindingSizes \<Rightarrow> EncodePartitionReplayStream \<Rightarrow> nat \<Rightarrow> PlanState \<Rightarrow>
    ProductionEncodePartitionPlanResult + PlanState" where
  "planOrdinal sz stream replayOrdinal st = (case commandIndexAt stream replayOrdinal of
     None \<Rightarrow> Inl (failPlan PfReplayStreamInvalid RvReplayStreamInvalid (pst_result st))
   | Some commandIndex \<Rightarrow>
       let command = sc_command (payloadCommandAt (ps_payload (es_source stream)) (unat commandIndex))
       in case isDrawRun command of
            None \<Rightarrow> planWhole replayOrdinal st
          | Some rec \<Rightarrow> planRun sz stream replayOrdinal command rec st)"

fun planOrdinals :: "DrawBindingSizes \<Rightarrow> EncodePartitionReplayStream \<Rightarrow> nat list \<Rightarrow> PlanState \<Rightarrow>
    ProductionEncodePartitionPlanResult + PlanState" where
  "planOrdinals sz stream [] st = Inr st"
| "planOrdinals sz stream (k # ks) st = (case planOrdinal sz stream k st of
     Inl r \<Rightarrow> Inl r | Inr st' \<Rightarrow> planOrdinals sz stream ks st')"

definition countRange :: "EncodePartitionRangeSnapshot \<Rightarrow> ProductionEncodePartitionPlanResult \<Rightarrow>
    ProductionEncodePartitionPlanResult" where
  "countRange rg r = (if er_kind rg = DrawRunEntries
     then r\<lparr>pp_drawRangeCount := pp_drawRangeCount r + 1,
            pp_plannedDrawCount := pp_plannedDrawCount r + ucast (er_drawEntryCount rg)\<rparr>
     else r)"

definition planProductionEncodePartitions :: "DrawBindingSizes \<Rightarrow> EncodePartitionReplayStream \<Rightarrow>
    ProductionEncodePartitionPlanResult \<times> PlanStorage" where
  "planProductionEncodePartitions sz stream =
     (if \<not> es_valid stream
      then (failPlan PfReplayStreamInvalid RvReplayStreamInvalid default_plan_result, [])
      else if replayOrdinalCount stream > UINT32_MAX
      then (failPlan PfReplayStreamTooLarge RvReplayStreamTooLarge default_plan_result, [])
      else case planOrdinals sz stream [0..<replayOrdinalCount stream]
             \<lparr>pst_storage = [], pst_sawEligibleDrawRun = False, pst_result = default_plan_result\<rparr> of
        Inl r \<Rightarrow> (r, [])
      | Inr st \<Rightarrow>
        if pp_subdividedDrawRunCount (pst_result st) = 0
        then ((pst_result st)\<lparr>pp_fallback := (if pst_sawEligibleDrawRun st then PfMergePreservation
                else PfNoEligibleDrawRun)\<rparr>, [])
        else
          let validation = validateEncodePartitionRanges sz (pst_storage st) stream in
          if vr_validation validation \<noteq> RvValid
          then (failPlan PfValidationFailed (vr_validation validation) (pst_result st), [])
          else ((fold countRange (pst_storage st) (pst_result st))
                  \<lparr>pp_fallback := PfNone, pp_rangeCount := of_nat (length (pst_storage st)),
                    pp_explicitPlan := True\<rparr>, pst_storage st))"

end
