(* ===== verification/Ep_Cover.thy ===== *)
theory Ep_Cover
  imports Ep_Cursor Ep_Planner
begin

text \<open>
  What a range, a plan and a stream stand for: the list of the draws (or whole commands) they encode. The
  validator accepts a plan exactly when its ranges are well-formed and stand, one after the other, for the
  whole stream.
\<close>

section \<open>Units of work\<close>

definition commandOf :: "EncodePartitionReplayStream \<Rightarrow> nat \<Rightarrow> MetalCommandView option" where
  "commandOf stream k = map_option
     (\<lambda>i. sc_command (payloadCommandAt (ps_payload (es_source stream)) (unat i))) (commandIndexAt stream k)"

definition runOf :: "EncodePartitionReplayStream \<Rightarrow> nat \<Rightarrow> DrawRunRecord option" where
  "runOf stream k = (case commandOf stream k of
     None \<Rightarrow> None
   | Some command \<Rightarrow> (case mv_drawRunRecord command of
       None \<Rightarrow> None
     | Some rec \<Rightarrow> if mv_kind command = CmdDrawRun \<and> drr_paramCount rec \<noteq> 0 then Some rec else None))"

abbreviation runBegin :: "DrawRunRecord \<Rightarrow> nat" where "runBegin rec \<equiv> unat (drr_firstParam rec)"
abbreviation runEnd :: "DrawRunRecord \<Rightarrow> nat" where
  "runEnd rec \<equiv> unat (drr_firstParam rec) + unat (drr_paramCount rec)"

text \<open>A unit is a draw of the run at an ordinal, or the whole command of an ordinal.\<close>

definition draws_at :: "nat \<Rightarrow> nat \<Rightarrow> nat \<Rightarrow> (nat \<times> nat option) list" where
  "draws_at k i j = map (\<lambda>d. (k, Some d)) [i..<j]"

definition ordinalWork :: "EncodePartitionReplayStream \<Rightarrow> nat \<Rightarrow> (nat \<times> nat option) list" where
  "ordinalWork stream k = (case runOf stream k of
     None \<Rightarrow> [(k, None)] | Some rec \<Rightarrow> draws_at k (runBegin rec) (runEnd rec))"

definition workFrom :: "EncodePartitionReplayStream \<Rightarrow> nat \<Rightarrow> nat \<Rightarrow> (nat \<times> nat option) list" where
  "workFrom stream i j = concat (map (ordinalWork stream) [i..<j])"

abbreviation rangeBegin :: "EncodePartitionRangeSnapshot \<Rightarrow> nat" where
  "rangeBegin rg \<equiv> unat (er_replayOrdinalBegin rg)"
abbreviation rangeEnd :: "EncodePartitionRangeSnapshot \<Rightarrow> nat" where
  "rangeEnd rg \<equiv> unat (er_replayOrdinalBegin rg) + unat (er_replayOrdinalCount rg)"
abbreviation drawBegin :: "EncodePartitionRangeSnapshot \<Rightarrow> nat" where
  "drawBegin rg \<equiv> unat (pe_drawParamIndex (er_entry rg))"
abbreviation drawEnd :: "EncodePartitionRangeSnapshot \<Rightarrow> nat" where
  "drawEnd rg \<equiv> unat (pe_drawParamIndex (er_entry rg)) + unat (er_drawEntryCount rg)"

definition rangeWork :: "EncodePartitionReplayStream \<Rightarrow> EncodePartitionRangeSnapshot \<Rightarrow> (nat \<times> nat option) list" where
  "rangeWork stream rg = (case er_kind rg of
     CommandSegment \<Rightarrow> workFrom stream (rangeBegin rg) (rangeEnd rg)
   | DrawRunEntries \<Rightarrow> draws_at (rangeBegin rg) (drawBegin rg) (drawEnd rg))"

definition wellFormed :: "DrawBindingSizes \<Rightarrow> EncodePartitionReplayStream \<Rightarrow> EncodePartitionRangeSnapshot \<Rightarrow> bool" where
  "wellFormed sz stream rg = (case er_kind rg of
     CommandSegment \<Rightarrow> er_replayOrdinalCount rg \<noteq> 0 \<and> er_drawEntryCount rg = 0 \<and>
       rangeEnd rg \<le> replayOrdinalCount stream
   | DrawRunEntries \<Rightarrow> \<not> isl (resolveEncodePartition sz rg stream))"

lemma ordinalWork_hd: "ordinalWork stream k \<noteq> [] \<and> fst (hd (ordinalWork stream k)) = k"
proof (cases "runOf stream k")
  case (Some rec)
  then have "0 < unat (drr_paramCount rec)"
    by (auto simp: runOf_def unat_gt_0 split: option.splits if_splits)
  then show ?thesis using Some by (simp add: ordinalWork_def draws_at_def upt_conv_Cons del: upt_Suc)
qed (simp add: ordinalWork_def)

lemma workFrom_Cons: "i < j \<Longrightarrow> workFrom stream i j = ordinalWork stream i @ workFrom stream (i + 1) j"
  by (simp add: workFrom_def upt_conv_Cons)

lemma workFrom_split: "i \<le> j \<Longrightarrow> j \<le> k \<Longrightarrow> workFrom stream i k = workFrom stream i j @ workFrom stream j k"
  using upt_add_eq_append [of i j "k - j"] by (simp add: workFrom_def)

lemma workFrom_snoc: "i \<le> j \<Longrightarrow> workFrom stream i (Suc j) = workFrom stream i j @ ordinalWork stream j"
  by (simp add: workFrom_def)

lemma workFrom_empty: "workFrom stream i j = [] \<longleftrightarrow> j \<le> i"
  using ordinalWork_hd [of stream i] by (cases "i < j") (auto simp: workFrom_Cons, auto simp: workFrom_def)

lemma workFrom_hd: "i < j \<Longrightarrow> hd (workFrom stream i j) = hd (ordinalWork stream i)"
  using ordinalWork_hd [of stream i] by (simp add: workFrom_Cons)

lemma draws_at_Nil [simp]: "draws_at k i j = [] \<longleftrightarrow> j \<le> i"
  by (auto simp: draws_at_def)

lemma draws_at_hd: "i < j \<Longrightarrow> hd (draws_at k i j) = (k, Some i)"
  by (simp add: draws_at_def upt_conv_Cons)

lemma draws_at_split: "i \<le> j \<Longrightarrow> j \<le> l \<Longrightarrow> draws_at k i l = draws_at k i j @ draws_at k j l"
  using upt_add_eq_append [of i j "l - j"] by (simp add: draws_at_def flip: map_append)

section \<open>What a resolution shows\<close>

lemma commandIndexAt_bound: "commandIndexAt stream k = Some i \<Longrightarrow> k < replayOrdinalCount stream"
  by (auto simp: commandIndexAt_def split: if_splits)

lemma resolve_entry_record:
  assumes "resolveEncodePartitionEntry sz snap [source] = Inr entry"
  shows "mv_drawRunRecord (re_command entry) = Some (re_drawRunRecord entry)"
    and "mv_kind (re_command entry) = CmdDrawRun"
    and "re_command entry = sc_command (payloadCommandAt (ps_payload source) (unat (pe_commandIndex snap)))"
    and "pe_drawParamIndex snap - drr_firstParam (re_drawRunRecord entry) < drr_paramCount (re_drawRunRecord entry)"
proof -
  have i: "unat (rl_retainedSourceIndex (pe_source snap)) = 0"
    using assms by (auto simp: resolveEncodePartitionEntry_def split: if_splits)
  show "mv_drawRunRecord (re_command entry) = Some (re_drawRunRecord entry)"
    "mv_kind (re_command entry) = CmdDrawRun"
    "re_command entry = sc_command (payloadCommandAt (ps_payload source) (unat (pe_commandIndex snap)))"
    "pe_drawParamIndex snap - drr_firstParam (re_drawRunRecord entry) < drr_paramCount (re_drawRunRecord entry)"
    using assms i by (auto simp: resolveEncodePartitionEntry_def not_le split: if_splits option.splits)
qed

lemma resolve_partition:
  assumes "resolveEncodePartition sz rg stream = Inr part" and "er_kind rg = DrawRunEntries"
  obtains rec command where "re_drawRunRecord (rp_entry part) = rec" "runOf stream (rangeBegin rg) = Some rec"
    "commandOf stream (rangeBegin rg) = Some command" "rangeBegin rg < replayOrdinalCount stream"
    "er_replayOrdinalCount rg = 1" "er_drawEntryCount rg \<noteq> 0" "runBegin rec \<le> drawBegin rg"
    "drawEnd rg \<le> runEnd rec" "runEnd rec \<le> UINT32_MAX"
    "rp_drawParams part = slice (drawBegin rg - runBegin rec) (unat (er_drawEntryCount rg)) (mv_drawParams command)"
proof -
  obtain entry where e: "resolveEncodePartitionEntry sz (er_entry rg) [es_source stream] = Inr entry"
    and c: "commandIndexAt stream (rangeBegin rg) = Some (pe_commandIndex (er_entry rg))"
    and p: "rp_entry part = entry" "er_replayOrdinalCount rg = 1" "er_drawEntryCount rg \<noteq> 0"
      "drr_firstParam (re_drawRunRecord entry) \<le> pe_drawParamIndex (er_entry rg)"
      "drawEnd rg \<le> runEnd (re_drawRunRecord entry)" "runEnd (re_drawRunRecord entry) \<le> UINT32_MAX"
      "rp_drawParams part = slice (unat (pe_drawParamIndex (er_entry rg) - drr_firstParam (re_drawRunRecord entry)))
         (unat (er_drawEntryCount rg)) (mv_drawParams (re_command entry))"
    using assms unfolding resolveEncodePartition_def
    by (auto simp del: not_None_eq split: if_splits sum.splits)
  note r = resolve_entry_record [OF e]
  have "commandOf stream (rangeBegin rg) = Some (re_command entry)" using c r(3) by (simp add: commandOf_def)
  moreover from this have "runOf stream (rangeBegin rg) = Some (re_drawRunRecord entry)"
    using r by (auto simp: runOf_def)
  moreover have "unat (pe_drawParamIndex (er_entry rg) - drr_firstParam (re_drawRunRecord entry)) =
      drawBegin rg - runBegin (re_drawRunRecord entry)"
    by (rule unat_sub [OF p(4)])
  ultimately show ?thesis
    using that [of "re_drawRunRecord entry" "re_command entry"] p commandIndexAt_bound [OF c]
    by (simp add: word_le_nat_alt)
qed

section \<open>The validator is exact\<close>

definition remaining :: "EncodePartitionReplayStream \<Rightarrow> RangeCoverage \<Rightarrow> (nat \<times> nat option) list" where
  "remaining stream c =
     (let k = unat (cv_expectedOrdinal c); n = replayOrdinalCount stream
      in if cv_drawRunIncomplete c
         then draws_at k (unat (cv_expectedDrawParam c)) (runEnd (the (runOf stream k))) @ workFrom stream (k + 1) n
         else workFrom stream k n)"

definition coverage_ok :: "EncodePartitionReplayStream \<Rightarrow> RangeCoverage \<Rightarrow> bool" where
  "coverage_ok stream c =
     (let k = unat (cv_expectedOrdinal c) in k \<le> replayOrdinalCount stream \<and>
      (cv_drawRunIncomplete c \<longrightarrow> k < replayOrdinalCount stream \<and> (\<exists>rec. runOf stream k = Some rec \<and>
         runBegin rec < unat (cv_expectedDrawParam c) \<and> unat (cv_expectedDrawParam c) < runEnd rec)))"

lemma wellFormed_draws:
  "er_kind rg = DrawRunEntries \<Longrightarrow> wellFormed sz stream rg \<longleftrightarrow> (\<exists>part. resolveEncodePartition sz rg stream = Inr part)"
  by (cases "resolveEncodePartition sz rg stream") (simp_all add: wellFormed_def)

lemma unat_pos32: "(w :: u32) \<noteq> 0 \<Longrightarrow> 0 < unat w"
  by (simp add: unat_gt_0)

lemma rangeWork_hd:
  assumes "wellFormed sz stream rg"
  shows "rangeWork stream rg \<noteq> [] \<and> hd (rangeWork stream rg) = (if er_kind rg = CommandSegment
    then hd (ordinalWork stream (rangeBegin rg)) else (rangeBegin rg, Some (drawBegin rg)))"
proof (cases "er_kind rg")
  case CommandSegment
  then have "er_replayOrdinalCount rg \<noteq> 0" using assms by (simp add: wellFormed_def)
  from unat_pos32 [OF this] show ?thesis using CommandSegment
    by (simp add: rangeWork_def workFrom_empty workFrom_hd)
next
  case DrawRunEntries
  then obtain part where p: "resolveEncodePartition sz rg stream = Inr part"
    using assms by (auto simp: wellFormed_draws)
  have "drawBegin rg < drawEnd rg" by (rule resolve_partition [OF p DrawRunEntries]) (simp add: unat_pos32)
  then show ?thesis using DrawRunEntries by (simp add: rangeWork_def draws_at_hd)
qed

lemma coverSegment_Inr:
  "coverSegment stream rg c = Inr c' \<longleftrightarrow> er_replayOrdinalCount rg \<noteq> 0 \<and> er_drawEntryCount rg = 0 \<and>
     \<not> cv_drawRunIncomplete c \<and> rangeEnd rg \<le> UINT32_MAX \<and> er_replayOrdinalBegin rg = cv_expectedOrdinal c \<and>
     rangeEnd rg \<le> replayOrdinalCount stream \<and> c' = c\<lparr>cv_expectedOrdinal := of_nat (rangeEnd rg)\<rparr>"
  by (auto simp: coverSegment_def)

lemma coverDraws_Inr:
  assumes "resolveEncodePartition sz rg stream = Inr part" and "er_kind rg = DrawRunEntries"
  shows "coverDraws sz stream rg c = Inr c' \<longleftrightarrow> er_replayOrdinalBegin rg = cv_expectedOrdinal c \<and>
     pe_drawParamIndex (er_entry rg) = (if cv_drawRunIncomplete c then cv_expectedDrawParam c
       else drr_firstParam (re_drawRunRecord (rp_entry part))) \<and>
     c' = (if drawEnd rg \<noteq> runEnd (re_drawRunRecord (rp_entry part))
          then c\<lparr>cv_expectedDrawParam := of_nat (drawEnd rg), cv_drawRunIncomplete := True\<rparr>
          else \<lparr>cv_expectedOrdinal = cv_expectedOrdinal c + 1, cv_expectedDrawParam = 0,
                 cv_drawRunIncomplete = False\<rparr>)"
proof (rule resolve_partition [OF assms])
  fix rec command
  assume r: "re_drawRunRecord (rp_entry part) = rec" "er_replayOrdinalCount rg = 1" "er_drawEntryCount rg \<noteq> 0"
    "drawEnd rg \<le> runEnd rec" "runEnd rec \<le> UINT32_MAX"
  then have ends: "\<not> (drawEnd rg > UINT32_MAX \<or> runEnd rec > UINT32_MAX \<or> drawEnd rg > runEnd rec)"
    by linarith
  let ?o = "er_replayOrdinalBegin rg" and ?e = "cv_expectedOrdinal c" and ?d = "pe_drawParamIndex (er_entry rg)"
  let ?want = "if cv_drawRunIncomplete c then cv_expectedDrawParam c else drr_firstParam rec"
  have body: "coverDraws sz stream rg c = (if ?o < ?e then Inl (rejectRange RvReplayCoverageOverlap)
      else if ?o > ?e then Inl (rejectRange RvReplayCoverageGap)
      else if cv_drawRunIncomplete c \<and> ?d < cv_expectedDrawParam c then Inl (rejectRange RvDrawCoverageOverlap)
      else if cv_drawRunIncomplete c \<and> ?d > cv_expectedDrawParam c then Inl (rejectRange RvDrawCoverageGap)
      else if \<not> cv_drawRunIncomplete c \<and> ?d \<noteq> drr_firstParam rec
      then Inl (rejectRange (if ?d < drr_firstParam rec then RvDrawCoverageOverlap else RvDrawCoverageGap))
      else Inr (if drawEnd rg \<noteq> runEnd rec
          then c\<lparr>cv_expectedDrawParam := of_nat (drawEnd rg), cv_drawRunIncomplete := True\<rparr>
          else \<lparr>cv_expectedOrdinal = cv_expectedOrdinal c + 1, cv_expectedDrawParam = 0,
                 cv_drawRunIncomplete = False\<rparr>))"
    unfolding coverDraws_def assms(1) sum.case Let_def r(1) using r(2,3) ends by (simp only: if_False simp_thms)
  show ?thesis
  proof (cases "?o = ?e \<and> ?d = ?want")
    case True
    then show ?thesis unfolding body r(1) by (auto split: if_splits)
  next
    case False
    then have "\<exists>x. coverDraws sz stream rg c = Inl x"
      unfolding body by (cases ?o ?e rule: linorder_cases; cases ?d "cv_expectedDrawParam c" rule: linorder_cases) (auto split: if_splits)
    then show ?thesis using False r(1) by auto
  qed
qed

lemma coverDraws_resolved:
  "coverDraws sz stream rg c = Inr c' \<Longrightarrow> \<exists>part. resolveEncodePartition sz rg stream = Inr part"
  by (auto simp: coverDraws_def split: if_splits sum.splits)

lemma unat_of_nat32: "n \<le> UINT32_MAX \<Longrightarrow> unat (of_nat n :: u32) = n"
  by (simp add: unat_of_nat take_bit_nat_eq_self)

lemma unat_next32: "unat (w :: u32) < UINT32_MAX \<Longrightarrow> unat (w + 1) = unat w + 1"
  using unat_of_nat32 [of "unat w + 1"] by (simp add: add.commute)

lemma coverSegment_step:
  assumes "er_kind rg = CommandSegment" and "coverage_ok stream c" and "coverSegment stream rg c = Inr c'"
  shows "wellFormed sz stream rg \<and> coverage_ok stream c' \<and> remaining stream c = rangeWork stream rg @ remaining stream c'"
proof -
  note s = assms(3) [unfolded coverSegment_Inr]
  have e: "unat (of_nat (rangeEnd rg) :: u32) = rangeEnd rg" using s by (intro unat_of_nat32) blast
  have n: "\<not> cv_drawRunIncomplete c'" "unat (cv_expectedOrdinal c') = rangeEnd rg"
    using s e by (simp_all del: of_nat_add)
  have "workFrom stream (rangeBegin rg) (replayOrdinalCount stream) =
      workFrom stream (rangeBegin rg) (rangeEnd rg) @ workFrom stream (rangeEnd rg) (replayOrdinalCount stream)"
    by (rule workFrom_split) (simp, use s in blast)
  moreover have "er_replayOrdinalCount rg \<noteq> 0" "er_drawEntryCount rg = 0" "\<not> cv_drawRunIncomplete c"
    "rangeEnd rg \<le> replayOrdinalCount stream" using s by blast+
  moreover have "unat (cv_expectedOrdinal c) = rangeBegin rg" using s by simp
  ultimately show ?thesis
    using n assms(1) by (simp add: wellFormed_def coverage_ok_def remaining_def rangeWork_def)
qed

lemma coverDraws_step:
  assumes k: "er_kind rg = DrawRunEntries" and n: "replayOrdinalCount stream \<le> UINT32_MAX"
    and c: "coverage_ok stream c" and r: "coverDraws sz stream rg c = Inr c'"
  shows "wellFormed sz stream rg \<and> coverage_ok stream c' \<and> remaining stream c = rangeWork stream rg @ remaining stream c'"
proof -
  obtain part where p: "resolveEncodePartition sz rg stream = Inr part" using coverDraws_resolved [OF r] by blast
  show ?thesis
  proof (rule resolve_partition [OF p k])
    fix rec command
    assume q: "re_drawRunRecord (rp_entry part) = rec" "runOf stream (rangeBegin rg) = Some rec"
      "rangeBegin rg < replayOrdinalCount stream" "er_drawEntryCount rg \<noteq> 0" "runBegin rec \<le> drawBegin rg"
      "drawEnd rg \<le> runEnd rec" "runEnd rec \<le> UINT32_MAX"
    note s = r [unfolded coverDraws_Inr [OF p k] q(1)]
    have o: "unat (cv_expectedOrdinal c) = rangeBegin rg" using s by simp
    have d: "unat (of_nat (drawEnd rg) :: u32) = drawEnd rg" using q by (intro unat_of_nat32) linarith
    have pos: "0 < unat (er_drawEntryCount rg)" using q(4) by (rule unat_pos32)
    have nxt: "unat (cv_expectedOrdinal c + 1) = rangeBegin rg + 1"
      using unat_next32 [of "cv_expectedOrdinal c"] o q(3) n by simp
    have whole: "remaining stream c = draws_at (rangeBegin rg) (drawBegin rg) (runEnd rec) @
        workFrom stream (rangeBegin rg + 1) (replayOrdinalCount stream)"
    proof (cases "cv_drawRunIncomplete c")
      case True
      then show ?thesis using s o q(2) by (simp add: remaining_def)
    next
      case False
      then show ?thesis using s o q(2,3) by (simp add: remaining_def workFrom_Cons ordinalWork_def)
    qed
    have tail: "remaining stream c' = draws_at (rangeBegin rg) (drawEnd rg) (runEnd rec) @
        workFrom stream (rangeBegin rg + 1) (replayOrdinalCount stream) \<and> coverage_ok stream c'"
    proof (cases "drawEnd rg = runEnd rec")
      case True
      then have "c' = \<lparr>cv_expectedOrdinal = cv_expectedOrdinal c + 1, cv_expectedDrawParam = 0,
          cv_drawRunIncomplete = False\<rparr>" using s by simp
      then show ?thesis using True nxt q(3) by (simp add: remaining_def coverage_ok_def draws_at_def)
    next
      case False
      then have "c' = c\<lparr>cv_expectedDrawParam := of_nat (drawEnd rg), cv_drawRunIncomplete := True\<rparr>"
        using s by simp
      then show ?thesis using False o q(2,3,5,6) d pos
        by (simp add: remaining_def coverage_ok_def del: of_nat_add)
    qed
    have "draws_at (rangeBegin rg) (drawBegin rg) (runEnd rec) = rangeWork stream rg @
        draws_at (rangeBegin rg) (drawEnd rg) (runEnd rec)"
      using draws_at_split [OF _ q(6), of "drawBegin rg" "rangeBegin rg"] k by (simp add: rangeWork_def)
    then show ?thesis using whole tail p k by (simp add: wellFormed_draws)
  qed
qed

lemma coverRange_step:
  assumes "replayOrdinalCount stream \<le> UINT32_MAX" and "coverage_ok stream c" and "coverRange sz stream rg c = Inr c'"
  shows "wellFormed sz stream rg \<and> coverage_ok stream c' \<and> remaining stream c = rangeWork stream rg @ remaining stream c'"
  using assms coverSegment_step coverDraws_step by (cases "er_kind rg") (auto simp: coverRange_def)

text \<open>Conversely, a well-formed range that stands for the next units is accepted.\<close>

lemma remaining_hd:
  assumes "coverage_ok stream c" and "remaining stream c \<noteq> []"
  shows "hd (remaining stream c) = (if cv_drawRunIncomplete c
    then (unat (cv_expectedOrdinal c), Some (unat (cv_expectedDrawParam c)))
    else hd (ordinalWork stream (unat (cv_expectedOrdinal c))))"
  using assms by (auto simp: remaining_def coverage_ok_def draws_at_hd workFrom_empty workFrom_hd hd_append)

lemma coverRange_accepts:
  assumes n: "replayOrdinalCount stream \<le> UINT32_MAX" and c: "coverage_ok stream c"
    and w: "wellFormed sz stream rg" and r: "remaining stream c = rangeWork stream rg @ ys"
  shows "\<exists>c'. coverRange sz stream rg c = Inr c'"
proof -
  have hd: "hd (remaining stream c) = hd (rangeWork stream rg)" using r rangeWork_hd [OF w] by simp
  have "remaining stream c \<noteq> []" using r rangeWork_hd [OF w] by simp
  note rhd = remaining_hd [OF c this]
  note ohd = ordinalWork_hd [of stream "rangeBegin rg"] ordinalWork_hd [of stream "unat (cv_expectedOrdinal c)"]
  have first: "hd (ordinalWork stream k) = (k, Some (runBegin rec))" if "runOf stream k = Some rec" for k rec
    using ordinalWork_hd [of stream k] that by (simp add: ordinalWork_def draws_at_hd)
  have o: "er_replayOrdinalBegin rg = cv_expectedOrdinal c"
    using hd rhd rangeWork_hd [OF w] ohd by (auto simp: word_unat_eq_iff split: if_splits) (metis fst_conv)+
  show ?thesis
  proof (cases "er_kind rg")
    case CommandSegment
    have "\<not> cv_drawRunIncomplete c"
    proof
      assume i: "cv_drawRunIncomplete c"
      then obtain rec where "runOf stream (rangeBegin rg) = Some rec" "runBegin rec < unat (cv_expectedDrawParam c)"
        using c o by (auto simp: coverage_ok_def)
      with first [OF this(1)] hd rhd rangeWork_hd [OF w] i CommandSegment o show False by simp
    qed
    then show ?thesis
      using CommandSegment w n o by (simp add: coverRange_def coverSegment_Inr wellFormed_def)
  next
    case DrawRunEntries
    then obtain part where p: "resolveEncodePartition sz rg stream = Inr part" using w by (auto simp: wellFormed_draws)
    have d: "pe_drawParamIndex (er_entry rg) = (if cv_drawRunIncomplete c then cv_expectedDrawParam c
        else drr_firstParam (re_drawRunRecord (rp_entry part)))"
    proof (rule resolve_partition [OF p DrawRunEntries])
      fix rec command
      assume q: "re_drawRunRecord (rp_entry part) = rec" "runOf stream (rangeBegin rg) = Some rec"
      from first [OF q(2)] hd rhd rangeWork_hd [OF w] DrawRunEntries o q(1) show ?thesis
        by (auto simp: word_unat_eq_iff split: if_splits)
    qed
    show ?thesis using DrawRunEntries o d by (simp add: coverRange_def coverDraws_Inr [OF p DrawRunEntries])
  qed
qed

lemma coverRanges_Inr:
  assumes "replayOrdinalCount stream \<le> UINT32_MAX"
  shows "coverage_ok stream c \<Longrightarrow> (\<exists>c'. coverRanges sz stream i rgs c = Inr c' \<and> remaining stream c' = []) \<longleftrightarrow>
    (\<forall>rg \<in> set rgs. wellFormed sz stream rg) \<and> concat (map (rangeWork stream) rgs) = remaining stream c"
proof (induction rgs arbitrary: c i)
  case (Cons rg rgs)
  show ?case
  proof (cases "coverRange sz stream rg c")
    case (Inl x)
    then have "\<not> (wellFormed sz stream rg \<and> rangeWork stream rg @ concat (map (rangeWork stream) rgs) = remaining stream c)"
      using coverRange_accepts [OF assms Cons.prems, of sz rg "concat (map (rangeWork stream) rgs)"] by auto
    then show ?thesis using Inl by auto
  next
    case (Inr c')
    from coverRange_step [OF assms Cons.prems Inr] Cons.IH [of c' "i + 1"] Inr show ?thesis by auto
  qed
qed auto

lemma remaining_empty:
  assumes "coverage_ok stream c"
  shows "remaining stream c = [] \<longleftrightarrow> \<not> cv_drawRunIncomplete c \<and> unat (cv_expectedOrdinal c) = replayOrdinalCount stream"
  using assms by (auto simp: remaining_def coverage_ok_def workFrom_empty)

definition start_coverage :: RangeCoverage where
  "start_coverage = \<lparr>cv_expectedOrdinal = 0, cv_expectedDrawParam = 0, cv_drawRunIncomplete = False\<rparr>"

lemma start_coverage_ok: "coverage_ok stream start_coverage"
    "remaining stream start_coverage = workFrom stream 0 (replayOrdinalCount stream)"
  by (simp_all add: coverage_ok_def remaining_def start_coverage_def)

lemma coverRanges_ok:
  "replayOrdinalCount stream \<le> UINT32_MAX \<Longrightarrow> coverage_ok stream c \<Longrightarrow> coverRanges sz stream i rgs c = Inr c' \<Longrightarrow>
     coverage_ok stream c'"
proof (induction rgs arbitrary: c i)
  case (Cons rg rgs)
  then obtain c1 where "coverRange sz stream rg c = Inr c1" "coverRanges sz stream (i + 1) rgs c1 = Inr c'"
    by (auto split: sum.splits)
  with Cons.IH coverRange_step [OF Cons.prems(1,2)] Cons.prems(1) show ?case by blast
qed simp

lemma validate_valid:
  "vr_validation (validateEncodePartitionRanges sz rgs stream) = RvValid \<longleftrightarrow> es_valid stream \<and>
     replayOrdinalCount stream \<le> UINT32_MAX \<and>
     (\<exists>c. coverRanges sz stream 0 rgs start_coverage = Inr c \<and> remaining stream c = [])"
    (is "?v \<longleftrightarrow> ?w")
proof (cases "es_valid stream \<and> replayOrdinalCount stream \<le> UINT32_MAX")
  case True
  have rejected: "v \<noteq> RvValid" if "coverRanges sz stream i qs d = Inl ((v, e), j)" for v e j i qs d
    using that
  proof (induction qs arbitrary: i d)
    case (Cons q qs)
    show ?case
    proof (cases "coverRange sz stream q d")
      case (Inl x)
      then have "fst x \<noteq> RvValid"
        by (auto simp: coverRange_def coverSegment_def coverDraws_def resolveEncodePartition_def rejectRange_def
            split: if_splits sum.splits)
      with Inl Cons.prems show ?thesis by auto
    qed (use Cons in auto)
  qed simp
  show ?thesis
  proof (cases "coverRanges sz stream 0 rgs start_coverage")
    case (Inl x)
    then show ?thesis using True rejected [of 0 rgs start_coverage "fst (fst x)" "snd (fst x)" "snd x"]
      by (cases x) (auto simp: validateEncodePartitionRanges_def rangeResult_def simp flip: start_coverage_def)
  next
    case (Inr c)
    have "coverage_ok stream c" using coverRanges_ok [OF _ start_coverage_ok(1) Inr] True by simp
    then show ?thesis using True Inr
      by (auto simp: validateEncodePartitionRanges_def rangeResult_def rejectRange_def remaining_empty
          simp flip: start_coverage_def)
  qed
qed (auto simp: validateEncodePartitionRanges_def rangeResult_def rejectRange_def)

lemma validate_iff:
  "vr_validation (validateEncodePartitionRanges sz rgs stream) = RvValid \<longleftrightarrow> es_valid stream \<and>
     replayOrdinalCount stream \<le> UINT32_MAX \<and> (\<forall>rg \<in> set rgs. wellFormed sz stream rg) \<and>
     concat (map (rangeWork stream) rgs) = workFrom stream 0 (replayOrdinalCount stream)"
  unfolding validate_valid using coverRanges_Inr [OF _ start_coverage_ok(1)] start_coverage_ok(2) by metis

end
