(* ===== verification/Ep_Stream.thy ===== *)
theory Ep_Stream
  imports Ep_Cover
begin

text \<open>
  When a replay stream is valid, and what a valid one selects; a locator that was built for a draw resolves
  to that draw.
\<close>

section \<open>Valid streams\<close>

definition selects :: "nat \<Rightarrow> nat \<Rightarrow> u32 list \<Rightarrow> bool" where
  "selects b e cs = (distinct cs \<and> (\<forall>c \<in> set cs. b \<le> unat c \<and> unat c < e))"

lemma markOrder_result:
  assumes "ordinal + length cs \<le> missingOrdinal" and "e - b \<le> length scratch"
  shows "(snd (markOrder b e ordinal cs scratch) \<longleftrightarrow> selects b e cs \<and> (\<forall>c \<in> set cs. scratch ! (unat c - b) = missingOrdinal)) \<and>
    (snd (markOrder b e ordinal cs scratch) \<longrightarrow>
      (\<forall>i < length cs. fst (markOrder b e ordinal cs scratch) ! (unat (cs ! i) - b) = ordinal + i) \<and>
      (\<forall>j. j \<notin> (\<lambda>c. unat c - b) ` set cs \<longrightarrow> fst (markOrder b e ordinal cs scratch) ! j = scratch ! j))"
  using assms
proof (induction cs arbitrary: ordinal scratch)
  case (Cons c cs)
  show ?case
  proof (cases "b \<le> unat c \<and> unat c < e \<and> scratch ! (unat c - b) = missingOrdinal")
    case True
    let ?s = "scratch[unat c - b := ordinal]"
    have len: "unat c - b < length scratch" using True Cons.prems by linarith
    have m: "markOrder b e ordinal (c # cs) scratch = markOrder b e (ordinal + 1) cs ?s" using True by simp
    have o: "ordinal \<noteq> missingOrdinal" using Cons.prems by simp
    have idx: "unat d - b = unat c - b \<longleftrightarrow> d = c" if "b \<le> unat d" for d
      using that True by (auto simp: word_unat_eq_iff)
    have marked: "selects b e cs \<and> (\<forall>d \<in> set cs. ?s ! (unat d - b) = missingOrdinal) \<longleftrightarrow>
        selects b e (c # cs) \<and> (\<forall>d \<in> set (c # cs). scratch ! (unat d - b) = missingOrdinal)"
    proof (cases "selects b e cs")
      case sel: True
      have "?s ! (unat d - b) = (if d = c then ordinal else scratch ! (unat d - b))" if "d \<in> set cs" for d
        using sel that idx [of d] len by (auto simp: selects_def nth_list_update)
      then show ?thesis using sel True o by (auto simp: selects_def)
    qed (auto simp: selects_def)
    note ih = Cons.IH [of "ordinal + 1" ?s]
    have pre: "ordinal + 1 + length cs \<le> missingOrdinal" "e - b \<le> length ?s" using Cons.prems by simp_all
    note ih = ih [OF pre, unfolded marked]
    have new: "c \<notin> set cs \<and> (\<forall>d \<in> set cs. b \<le> unat d)" if "snd (markOrder b e (ordinal + 1) cs ?s)"
      using ih that by (auto simp: selects_def)
    have "fst (markOrder b e (ordinal + 1) cs ?s) ! (unat c - b) = ordinal"
      if v: "snd (markOrder b e (ordinal + 1) cs ?s)"
    proof -
      have "unat d - b \<noteq> unat c - b" if "d \<in> set cs" for d using new [OF v] idx [of d] that by blast
      then have "unat c - b \<notin> (\<lambda>d. unat d - b) ` set cs" by fastforce
      then have "fst (markOrder b e (ordinal + 1) cs ?s) ! (unat c - b) = ?s ! (unat c - b)" using ih v by blast
      then show ?thesis using len by simp
    qed
    note here = this
    show ?thesis unfolding m
    proof (intro conjI impI allI)
      fix k assume v: "snd (markOrder b e (ordinal + 1) cs ?s)" and k: "k < length (c # cs)"
      show "fst (markOrder b e (ordinal + 1) cs ?s) ! (unat ((c # cs) ! k) - b) = ordinal + k"
      proof (cases k)
        case (Suc l)
        have "fst (markOrder b e (ordinal + 1) cs ?s) ! (unat (cs ! l) - b) = ordinal + 1 + l"
          using ih v k Suc by (simp del: markOrder.simps)
        then show ?thesis using Suc by simp
      qed (use here [OF v] in simp)
    next
      fix j assume v: "snd (markOrder b e (ordinal + 1) cs ?s)" and j: "j \<notin> (\<lambda>c. unat c - b) ` set (c # cs)"
      have "fst (markOrder b e (ordinal + 1) cs ?s) ! j = ?s ! j" using ih v j by simp
      then show "fst (markOrder b e (ordinal + 1) cs ?s) ! j = scratch ! j" using j by simp
    qed (use ih in blast)
  qed (auto simp: selects_def)
qed (simp add: selects_def)

definition orderFits :: "nat \<Rightarrow> nat \<Rightarrow> u32 list \<Rightarrow> nat list \<Rightarrow> bool" where
  "orderFits b n order scratch = (length order \<le> n \<and> (order \<noteq> [] \<longrightarrow> n \<le> length scratch) \<and> selects b (b + n) order)"

lemma make_valid_iff:
  fixes slot payload seqId b n active order scratch src
  defines "made \<equiv> makeEncodePartitionReplayStream slot payload seqId b n active order scratch src"
  shows "es_valid (fst made) \<longleftrightarrow> validSourceRef src \<and> b + n \<le> payloadCommandCount payload \<and>
      (if active then length order \<le> UINT32_MAX \<and> orderFits b n order scratch
       else order = [] \<and> n \<le> UINT32_MAX \<and> (n \<noteq> 0 \<longrightarrow> b + (n - 1) \<le> UINT32_MAX))"
    and "es_valid (fst made) \<Longrightarrow> active \<Longrightarrow> i < length order \<Longrightarrow> snd made ! (unat (order ! i) - b) = i"
proof -
  have range: "b \<le> payloadCommandCount payload \<and> n \<le> payloadCommandCount payload - b \<longleftrightarrow>
      b + n \<le> payloadCommandCount payload" by linarith
  have last: "b \<le> UINT32_MAX \<and> n - 1 \<le> UINT32_MAX - b \<longleftrightarrow> b + (n - 1) \<le> UINT32_MAX" by linarith
  have mark: "(snd (markOrder b (b + n) 0 order (clearScratch n scratch)) \<longleftrightarrow> selects b (b + n) order) \<and>
      (snd (markOrder b (b + n) 0 order (clearScratch n scratch)) \<longrightarrow>
        (\<forall>i < length order. fst (markOrder b (b + n) 0 order (clearScratch n scratch)) ! (unat (order ! i) - b) = i))"
    if "length order \<le> UINT32_MAX" "n \<le> length scratch"
  proof -
    have "0 + length order \<le> missingOrdinal" "b + n - b \<le> length (clearScratch n scratch)"
      using that by (simp_all add: clearScratch_def)
    note m = markOrder_result [OF this]
    have "\<forall>c \<in> set order. clearScratch n scratch ! (unat c - b) = missingOrdinal" if "selects b (b + n) order"
      using that by (auto simp: selects_def clearScratch_def nth_append)
    then show ?thesis using m by auto
  qed
  have empty: "selects b (b + n) order" if "order = []" using that by (simp add: selects_def)
  show "es_valid (fst made) \<longleftrightarrow> validSourceRef src \<and> b + n \<le> payloadCommandCount payload \<and>
      (if active then length order \<le> UINT32_MAX \<and> orderFits b n order scratch
       else order = [] \<and> n \<le> UINT32_MAX \<and> (n \<noteq> 0 \<longrightarrow> b + (n - 1) \<le> UINT32_MAX))"
    unfolding made_def makeEncodePartitionReplayStream_def range last orderFits_def using mark empty
    by (simp add: case_prod_beta) auto
  show "snd made ! (unat (order ! i) - b) = i" if "es_valid (fst made)" "active" "i < length order"
    using that mark unfolding made_def makeEncodePartitionReplayStream_def
    by (auto simp: case_prod_beta split: if_splits)
qed

text \<open>A stream from the factory; what the rest of the development needs to know of a valid one.\<close>

definition stream_made :: "EncodePartitionReplayStream \<Rightarrow> bool" where
  "stream_made s = (\<exists>slot payload seqId b n active order scratch src.
     s = fst (makeEncodePartitionReplayStream slot payload seqId b n active order scratch src))"

lemma make_fields:
  "s = fst (makeEncodePartitionReplayStream slot payload seqId b n active order scratch src) \<Longrightarrow>
     ps_payload (es_source s) = payload \<and> ps_slot (es_source s) = vw_legacy payload \<and>
     ps_commandBegin (es_source s) = b \<and> ps_commandCount (es_source s) = n \<and>
     es_commandOrderActive s = active \<and> es_commandOrder s = order \<and> streamSource (es_source s) = src"
  by (simp add: makeEncodePartitionReplayStream_def case_prod_beta streamSource_def)

lemma made_valid:
  assumes "stream_made s" and "es_valid s"
  shows "replayOrdinalCount s \<le> UINT32_MAX"
    and "ps_slot (es_source s) = vw_legacy (ps_payload (es_source s))"
    and "ps_commandBegin (es_source s) + ps_commandCount (es_source s) \<le> payloadCommandCount (ps_payload (es_source s))"
    and "k < replayOrdinalCount s \<Longrightarrow> \<exists>i. commandIndexAt s k = Some i \<and> ps_commandBegin (es_source s) \<le> unat i \<and>
      unat i < ps_commandBegin (es_source s) + ps_commandCount (es_source s)"
proof -
  obtain slot payload seqId b n active order scratch src where
    m: "s = fst (makeEncodePartitionReplayStream slot payload seqId b n active order scratch src)"
    using assms(1) by (auto simp: stream_made_def)
  note f = make_fields [OF m]
  note v = assms(2) [unfolded m make_valid_iff(1)]
  show "replayOrdinalCount s \<le> UINT32_MAX" using v f by (auto simp: replayOrdinalCount_def split: if_splits)
  show "ps_slot (es_source s) = vw_legacy (ps_payload (es_source s))"
    "ps_commandBegin (es_source s) + ps_commandCount (es_source s) \<le> payloadCommandCount (ps_payload (es_source s))"
    using v f by simp_all
  show "\<exists>i. commandIndexAt s k = Some i \<and> ps_commandBegin (es_source s) \<le> unat i \<and>
      unat i < ps_commandBegin (es_source s) + ps_commandCount (es_source s)" if k: "k < replayOrdinalCount s"
  proof (cases active)
    case True
    then have "order ! k \<in> set order" using k f by (simp add: replayOrdinalCount_def)
    moreover have "unat (order ! k) < 2 ^ 32" using unsigned_less [of "order ! k"] by simp
    then have "unat (order ! k) \<le> UINT32_MAX" by simp
    ultimately show ?thesis using True k f v assms(2)
      by (simp add: commandIndexAt_def replayOrdinalCount_def orderFits_def selects_def)
  next
    case False
    then have k: "k < n" using k f by (simp add: replayOrdinalCount_def)
    then have "b + k \<le> UINT32_MAX" using v False by (cases n) auto
    then show ?thesis using False k f assms(2) unat_of_nat32 [of "b + k"]
      by (simp add: commandIndexAt_def replayOrdinalCount_def del: of_nat_add)
  qed
qed

section \<open>A built locator resolves\<close>

lemma snapshot_resolves:
  assumes made: "stream_made s" "es_valid s"
    and "snapshotForResolvedDrawParam sz s i (payloadCommandAt (ps_payload (es_source s)) (unat i)) d = Some (snap, res)"
  shows "resolveEncodePartitionEntry sz snap [es_source s] = Inr res \<and> pe_commandIndex snap = i \<and>
    pe_drawParamIndex snap = d \<and> re_command res = sc_command (payloadCommandAt (ps_payload (es_source s)) (unat i)) \<and>
    drr_firstParam (re_drawRunRecord res) \<le> d \<and>
    length (mv_drawParams (re_command res)) = unat (drr_paramCount (re_drawRunRecord res))"
proof -
  note m = made_valid(2,3) [OF made]
  define source where "source = es_source s"
  define cmd where "cmd = payloadCommandAt (ps_payload source) (unat i)"
  have range: "\<not> ps_commandBegin source > payloadCommandCount (ps_payload source)"
    "\<not> ps_commandCount source > payloadCommandCount (ps_payload source) - ps_commandBegin source"
    using m unfolding source_def by linarith+
  have a: "snapshotForResolvedDrawParam sz s i cmd d = Some (snap, res)" using assms(3) by (simp add: cmd_def source_def)
  obtain rec uniform ob ov nb nv where
    g1: "validPayload (ps_payload source)" "validSourceRef (streamSource source)" "ps_slotIndex source \<le> UINT32_MAX"
      "ps_seqId source \<noteq> 0" "(case ps_slot source of None \<Rightarrow> False | Some slot \<Rightarrow> cs_seqId slot \<noteq> ps_seqId source) = False"
      "\<not> unat i < ps_commandBegin source" "\<not> unat i \<ge> ps_commandBegin source + ps_commandCount source"
    and g2: "mv_drawRunRecord (sc_command cmd) = Some rec" "mv_kind (sc_command cmd) = CmdDrawRun"
      "stateComplete (mv_drawState (sc_command cmd))" "length (mv_drawParams (sc_command cmd)) = unat (drr_paramCount rec)"
      "\<not> d < drr_firstParam rec" "\<not> d - drr_firstParam rec \<ge> drr_paramCount rec"
      "\<not> unat (d - drr_firstParam rec) \<ge> length (mv_drawParams (sc_command cmd))"
    and g3: "uniformRecord (effectiveUniform (mv_drawParams (sc_command cmd) ! unat (d - drr_firstParam rec)) rec)
        (mv_drawUniformPayloadRecords (sc_command cmd)) = Some uniform"
      "resolvePayloadRange rec (dp_bindingOverrideRange (mv_drawParams (sc_command cmd) ! unat (d - drr_firstParam rec)))
        (mv_drawPayloadBytes (sc_command cmd)) (bsz_override sz) = Some (ob, ov)"
      "resolvePayloadRange rec (dp_bindingSnapshotRange (mv_drawParams (sc_command cmd) ! unat (d - drr_firstParam rec)))
        (mv_drawPayloadBytes (sc_command cmd)) (bsz_snapshot sz) = Some (nb, nv)"
    and g4: "snap = \<lparr>pe_source = \<lparr>rl_tapeSource = streamSource source, rl_retainedSourceIndex = 0,
          rl_slotIndex = of_nat (ps_slotIndex source), rl_seqId = ps_seqId source\<rparr>,
        pe_commandIndex = i, pe_drawRunRecordIndex = sc_payloadIndex cmd, pe_stateIndex = drr_stateIndex rec,
        pe_drawParamIndex = d, pe_uniformHandle = effectiveUniform (mv_drawParams (sc_command cmd) ! unat (d - drr_firstParam rec)) rec,
        pe_bindingOverrideBytes = ob, pe_bindingSnapshotBytes = nb\<rparr>"
      "res = \<lparr>re_slot = ps_slot source, re_command = sc_command cmd, re_drawRunRecord = rec,
        re_drawState = mv_drawState (sc_command cmd),
        re_drawParam = mv_drawParams (sc_command cmd) ! unat (d - drr_firstParam rec), re_uniform = uniform,
        re_bindingOverrideBytes = ov, re_bindingSnapshotBytes = nv\<rparr>"
    using a unfolding snapshotForResolvedDrawParam_def source_def [symmetric] Let_def
    by (simp only: split: if_splits option.splits prod.splits option.split_asm) (simp_all, blast?)
  have slot: "(case ps_slot source of None \<Rightarrow> False | Some slot \<Rightarrow> cs_seqId slot \<noteq> rl_seqId (pe_source snap) \<or>
      map_option cs_address (vw_legacy (ps_payload source)) \<noteq> Some (cs_address slot)) = False"
    using g1(5) m(1) by (simp add: g4(1) flip: source_def split: option.splits)
  have index: "unat (of_nat (ps_slotIndex source) :: u32) = ps_slotIndex source"
    using g1(3) by (rule unat_of_nat32)
  have fields: "rl_tapeSource (pe_source snap) = streamSource source" "rl_retainedSourceIndex (pe_source snap) = 0"
    "rl_slotIndex (pe_source snap) = of_nat (ps_slotIndex source)" "rl_seqId (pe_source snap) = ps_seqId source"
    "pe_commandIndex snap = i" "pe_drawRunRecordIndex snap = sc_payloadIndex cmd"
    "pe_stateIndex snap = drr_stateIndex rec" "pe_drawParamIndex snap = d"
    "pe_uniformHandle snap = effectiveUniform (mv_drawParams (sc_command cmd) ! unat (d - drr_firstParam rec)) rec"
    "pe_bindingOverrideBytes snap = ob" "pe_bindingSnapshotBytes snap = nb"
    by (simp_all add: g4(1))
  have "resolveEncodePartitionEntry sz snap [source] = Inr res"
    unfolding resolveEncodePartitionEntry_def
    using g1(1-4,6,7) g2 g3 range slot index
    by (simp add: fields g4(2) flip: cmd_def) (simp add: streamSource_def)
  then show ?thesis using g2 fields by (simp add: g4(2) not_less flip: source_def cmd_def)
qed

end
