(* ===== verification/Ep_Plan_Correct.thy ===== *)
theory Ep_Plan_Correct
  imports Ep_Stream
begin

text \<open>
  What the production planner keeps true of its ranges: they stand for the ordinals planned so far, and
  encoding them piece by piece gives the draws that encoding the whole commands gives.
\<close>

section \<open>What is encoded\<close>

definition emitted :: "nat \<Rightarrow> MetalCommandView \<Rightarrow> DrawParam list \<Rightarrow> (nat \<times> DrawParam option) list" where
  "emitted k command draws = map (\<lambda>d. (k, Some d)) (encodedDraws (mv_drawPayloadBytes command) draws)"

definition ordinalEmission :: "EncodePartitionReplayStream \<Rightarrow> nat \<Rightarrow> (nat \<times> DrawParam option) list" where
  "ordinalEmission stream k = (if runOf stream k = None then [(k, None)]
     else emitted k (the (commandOf stream k)) (mv_drawParams (the (commandOf stream k))))"

definition emissionFrom :: "EncodePartitionReplayStream \<Rightarrow> nat \<Rightarrow> nat \<Rightarrow> (nat \<times> DrawParam option) list" where
  "emissionFrom stream i j = concat (map (ordinalEmission stream) [i..<j])"

definition rangeDraws :: "EncodePartitionReplayStream \<Rightarrow> EncodePartitionRangeSnapshot \<Rightarrow> DrawParam list" where
  "rangeDraws stream rg = slice (drawBegin rg - runBegin (the (runOf stream (rangeBegin rg))))
     (unat (er_drawEntryCount rg)) (mv_drawParams (the (commandOf stream (rangeBegin rg))))"

definition rangeEmission :: "EncodePartitionReplayStream \<Rightarrow> EncodePartitionRangeSnapshot \<Rightarrow>
    (nat \<times> DrawParam option) list" where
  "rangeEmission stream rg = (case er_kind rg of
     CommandSegment \<Rightarrow> emissionFrom stream (rangeBegin rg) (rangeEnd rg)
   | DrawRunEntries \<Rightarrow> emitted (rangeBegin rg) (the (commandOf stream (rangeBegin rg))) (rangeDraws stream rg))"

lemma emissionFrom_snoc:
  "i \<le> j \<Longrightarrow> emissionFrom stream i (Suc j) = emissionFrom stream i j @ ordinalEmission stream j"
  by (simp add: emissionFrom_def)

text \<open>Every run ends within 32 bits, as the payload builders see to.\<close>

definition small_runs :: "EncodePartitionReplayStream \<Rightarrow> bool" where
  "small_runs stream = (\<forall>k rec. runOf stream k = Some rec \<longrightarrow> runEnd rec \<le> UINT32_MAX)"

definition planned where
  "planned sz stream work emission storage \<longleftrightarrow>
     concat (map (rangeWork stream) storage) = work \<and> concat (map (rangeEmission stream) storage) = emission \<and>
     (small_runs stream \<longrightarrow> (\<forall>rg \<in> set storage. wellFormed sz stream rg)) \<and>
     length storage \<le> kProductionPartitionRangeCapacity \<and>
     (\<forall>rg \<in> set storage. er_kind rg = DrawRunEntries \<longrightarrow> kProductionPartitionMinimumDraws \<le> unat (er_drawEntryCount rg))"

section \<open>Whole commands\<close>

lemma plan_whole_ordinal:
  assumes n: "replayOrdinalCount stream \<le> UINT32_MAX" and k: "k < replayOrdinalCount stream"
    and p: "planned sz stream (workFrom stream 0 k) (emissionFrom stream 0 k) storage"
    and a: "appendProductionCommandOrdinal (of_nat k) storage = Some storage'"
  shows "planned sz stream (workFrom stream 0 (Suc k)) (emissionFrom stream 0 (Suc k)) storage'"
proof -
  have u: "unat (of_nat k :: u32) = k" using n k by (intro unat_of_nat32) simp
  show ?thesis
  proof (cases "storage \<noteq> [] \<and> extendsTail (List.last storage) (of_nat k)")
    case True
    define t where "t = List.last storage"
    define t' where "t' = t\<lparr>er_replayOrdinalCount := er_replayOrdinalCount t + 1\<rparr>"
    have t: "er_kind t = CommandSegment" "rangeEnd t = k" "er_replayOrdinalCount t \<noteq> - 1"
      using True u by (simp_all add: extendsTail_def t_def)
    have c: "unat (er_replayOrdinalCount t + 1) = unat (er_replayOrdinalCount t) + 1"
      using t(2) k n by (intro unat_next32) linarith
    then have e: "rangeEnd t' = Suc k" using t(2) by (simp add: t'_def)
    have s: "storage = butlast storage @ [t]" "storage' = butlast storage @ [t']"
      using True a by (simp_all add: appendProductionCommandOrdinal_def t_def t'_def)
    have w: "rangeWork stream t' = rangeWork stream t @ ordinalWork stream k"
      "rangeEmission stream t' = rangeEmission stream t @ ordinalEmission stream k"
      using t(1,2) e
      by (simp_all add: rangeWork_def rangeEmission_def t'_def workFrom_snoc emissionFrom_snoc)
    have f: "wellFormed sz stream t'" if "wellFormed sz stream t"
    proof -
      have "er_replayOrdinalCount t + 1 \<noteq> 0" using c by auto
      then show ?thesis using that t(1) e k by (simp add: wellFormed_def t'_def)
    qed
    have all: "planned sz stream (workFrom stream 0 k) (emissionFrom stream 0 k) (butlast storage @ [t])"
      using p s(1) by simp
    then show ?thesis
      unfolding s(2) using w f t(1)
      by (auto simp: planned_def workFrom_snoc emissionFrom_snoc t'_def simp flip: append_assoc)
  next
    case False
    then have "length storage < kProductionPartitionRangeCapacity" "storage' = storage @ [segmentRange (of_nat k) 1]"
      using a by (auto simp: appendProductionCommandOrdinal_def appendProductionRange_def split: if_splits)
    moreover have "rangeWork stream (segmentRange (of_nat k) 1) = ordinalWork stream k"
      "rangeEmission stream (segmentRange (of_nat k) 1) = ordinalEmission stream k"
      "wellFormed sz stream (segmentRange (of_nat k) 1)" "er_kind (segmentRange (of_nat k) 1) = CommandSegment"
      using u k by (simp_all add: rangeWork_def rangeEmission_def wellFormed_def segmentRange_def workFrom_def
          emissionFrom_def)
    ultimately show ?thesis using p by (auto simp: planned_def workFrom_snoc emissionFrom_snoc)
  qed
qed

section \<open>Cutting a run\<close>

lemma encoded_take:
  assumes "b < e" and "e \<le> length draws" and "b = 0 \<or> splittable draws bytes b"
  shows "encodedDraws bytes (take e draws) = encodedDraws bytes (take b draws) @ encodedDraws bytes (slice b (e - b) draws)"
proof (cases "b = 0")
  case False
  have t: "take e draws = take b draws @ slice b (e - b) draws"
    using assms(1) take_add [of b "e - b" draws] by (simp add: slice_def)
  have s: "slice b (e - b) draws = draws ! b # drop 1 (slice b (e - b) draws)"
    using assms(1,2) Cons_nth_drop_Suc [of b draws] by (cases "e - b") (simp_all add: slice_def flip: Cons_nth_drop_Suc)
  have "List.last (take b draws) = draws ! (b - 1)" using False assms by (subst last_conv_nth) auto
  then have "encodedDraws bytes (take b draws @ draws ! b # drop 1 (slice b (e - b) draws)) =
      encodedDraws bytes (take b draws) @ encodedDraws bytes (draws ! b # drop 1 (slice b (e - b) draws))"
    using False assms by (intro encoded_cut) (auto simp: splittable_def)
  then show ?thesis using t s by simp
qed (simp add: slice_def)

lemma append_draw_range:
  assumes made: "stream_made stream" "es_valid stream" and k: "k < replayOrdinalCount stream"
    and c: "commandOf stream k = Some command" and r: "runOf stream k = Some rec"
    and be: "16 \<le> e - b"
    and p: "planned sz stream work emission storage"
    and a: "appendDrawRange sz stream k (mv_drawParams command) rec b e storage = Some storage'"
  shows "planned sz stream (work @ draws_at k (runBegin rec + b) (runBegin rec + e))
    (emission @ emitted k command (slice b (e - b) (mv_drawParams command))) storage'"
proof -
  have n: "replayOrdinalCount stream \<le> UINT32_MAX" using made_valid(1) [OF made] .
  have u: "unat (of_nat k :: u32) = k" using n k by (intro unat_of_nat32) simp
  let ?d = "drr_firstParam rec + of_nat b :: u32"
  obtain entry where g: "b < e" "e \<le> length (mv_drawParams command)" "length storage < 256"
      "b \<le> UINT32_MAX - runBegin rec" "buildEncodePartitionEntrySnapshot sz stream k ?d = Some entry"
    and st: "storage' = storage @ [\<lparr>er_kind = DrawRunEntries, er_replayOrdinalBegin = of_nat k,
      er_replayOrdinalCount = 1, er_drawEntryCount = of_nat (e - b), er_entry = entry\<rparr>]"
    using a by (auto simp: appendDrawRange_def appendProductionRange_def split: if_splits option.splits)
  define rg where "rg = \<lparr>er_kind = DrawRunEntries, er_replayOrdinalBegin = of_nat k,
      er_replayOrdinalCount = 1, er_drawEntryCount = of_nat (e - b), er_entry = entry\<rparr>"
  obtain i res where i: "commandIndexAt stream k = Some i"
    and s: "snapshotForResolvedDrawParam sz stream i (payloadCommandAt (ps_payload (es_source stream)) (unat i)) ?d =
      Some (entry, res)"
    using g(5) by (auto simp: buildEncodePartitionEntrySnapshot_def snapshotForDrawParam_def
        split: if_splits option.splits)
  note sr = snapshot_resolves [OF made s]
  have cmd: "re_command res = command" using sr c i by (simp add: commandOf_def)
  have rec: "re_drawRunRecord res = rec"
  proof -
    have "mv_drawRunRecord command = Some (re_drawRunRecord res)"
      using resolve_entry_record(1) [of sz entry "es_source stream" res] sr cmd by simp
    then show ?thesis using r c by (auto simp: runOf_def split: if_splits)
  qed
  have len: "length (mv_drawParams command) = unat (drr_paramCount rec)" using sr unfolding cmd rec by blast
  have lim: "unat (drr_paramCount rec) < 2 ^ 32" using unsigned_less [of "drr_paramCount rec"] by simp
  have cnt: "unat (of_nat (e - b) :: u32) = e - b" using g(2) len lim by (intro unat_of_nat32) simp
  have first: "unat (drr_firstParam rec) < 2 ^ 32" using unsigned_less [of "drr_firstParam rec"] by simp
  have d: "unat ?d = runBegin rec + b"
  proof -
    have "runBegin rec + b \<le> UINT32_MAX" using g(4) first by simp
    then have "unat (of_nat (runBegin rec + b) :: u32) = runBegin rec + b" by (rule unat_of_nat32)
    then show ?thesis by simp
  qed
  have db: "drawBegin rg = runBegin rec + b" "drawEnd rg = runBegin rec + e" "rangeBegin rg = k"
    using d sr cnt g(1) u by (simp_all add: rg_def)
  have kind: "er_kind rg = DrawRunEntries" and count: "unat (er_drawEntryCount rg) = e - b"
    using cnt by (simp_all add: rg_def)
  have work: "rangeWork stream rg = draws_at k (runBegin rec + b) (runBegin rec + e)"
    unfolding rangeWork_def kind db(2,3) by (simp add: db(1))
  have emit: "rangeEmission stream rg = emitted k command (slice b (e - b) (mv_drawParams command))"
    using db c r count kind by (simp add: rangeEmission_def rangeDraws_def)
  have wf: "wellFormed sz stream rg" if "small_runs stream"
  proof -
    have "runEnd rec \<le> UINT32_MAX" using that r by (auto simp: small_runs_def)
    moreover have "drawEnd rg \<le> runEnd rec" using db(2) g(2) len by simp
    moreover have "?d - drr_firstParam rec = of_nat b" by simp
    moreover have "unat (of_nat b :: u32) = b" using g(1,2) len lim by (intro unat_of_nat32) simp
    moreover have "(of_nat (e - b) :: u32) \<noteq> 0" using cnt g(1) by (metis unat_0 zero_less_diff less_not_refl)
    ultimately have "\<not> isl (resolveEncodePartition sz rg stream)"
      using made(2) i sr u rec cmd g(1,2) db(2) cnt
      by (simp add: resolveEncodePartition_def rg_def not_less)
    then show ?thesis using kind by (simp add: wellFormed_def)
  qed
  show ?thesis
    using p g(3) work emit wf be count unfolding st rg_def [symmetric]
    by (auto simp: planned_def)
qed

section \<open>The loop\<close>

lemma subdivide_result:
  assumes made: "stream_made stream" "es_valid stream" and k: "k < replayOrdinalCount stream"
    and c: "commandOf stream k = Some command" and r: "runOf stream k = Some rec"
  shows "subdivideRun sz stream k (mv_drawParams command) (mv_drawPayloadBytes command) rec b sub storage =
      Inr (storage', b', sub') \<Longrightarrow>
    planned sz stream (work @ draws_at k (runBegin rec) (runBegin rec + b))
      (emission @ emitted k command (take b (mv_drawParams command))) storage \<Longrightarrow>
    b \<le> length (mv_drawParams command) \<Longrightarrow> (b = 0 \<or> splittable (mv_drawParams command) (mv_drawPayloadBytes command) b) \<Longrightarrow>
    (if sub then b + 16 \<le> length (mv_drawParams command) else b = 0 \<and> storage = start) \<Longrightarrow>
    planned sz stream (work @ draws_at k (runBegin rec) (runBegin rec + b'))
      (emission @ emitted k command (take b' (mv_drawParams command))) storage' \<and>
    (b' = 0 \<or> splittable (mv_drawParams command) (mv_drawPayloadBytes command) b') \<and>
    (if sub' then b' + 16 \<le> length (mv_drawParams command) else b' = 0 \<and> storage' = start)"
proof (induction "length (mv_drawParams command) - b" arbitrary: b sub storage rule: less_induct)
  case less
  let ?draws = "mv_drawParams command" and ?bytes = "mv_drawPayloadBytes command"
  let ?e = "findMergePreservingPartitionEdge ?draws ?bytes b"
  note unfolded = less.prems(1) [unfolded subdivideRun.simps [of sz stream k _ _ rec b]]
  show ?case
  proof (cases "length ?draws - b < 64 \<or> ?e = length ?draws")
    case True
    then have "storage' = storage \<and> b' = b \<and> sub' = sub" using unfolded by (auto split: if_splits)
    then show ?thesis using less.prems(2-) by simp
  next
    case False
    obtain st1 where a: "appendDrawRange sz stream k ?draws rec b ?e storage = Some st1"
      and rest: "subdivideRun sz stream k ?draws ?bytes rec ?e True st1 = Inr (storage', b', sub')"
      using unfolded False by (auto split: option.splits)
    have e: "b + 16 \<le> ?e" "?e + 16 \<le> length ?draws" "splittable ?draws ?bytes ?e"
      using False by (rule_tac findEdge_cases [of ?draws ?bytes b]; blast)+
    have "planned sz stream ((work @ draws_at k (runBegin rec) (runBegin rec + b)) @ draws_at k (runBegin rec + b) (runBegin rec + ?e))
        ((emission @ emitted k command (take b ?draws)) @ emitted k command (slice b (?e - b) ?draws)) st1"
      by (rule append_draw_range [OF made k c r _ less.prems(2) a]) (use e in linarith)
    moreover have "draws_at k (runBegin rec) (runBegin rec + b) @ draws_at k (runBegin rec + b) (runBegin rec + ?e) =
        draws_at k (runBegin rec) (runBegin rec + ?e)"
      using e by (intro draws_at_split [symmetric]) simp_all
    moreover have "emitted k command (take b ?draws) @ emitted k command (slice b (?e - b) ?draws) =
        emitted k command (take ?e ?draws)"
      using encoded_take [of b ?e ?draws ?bytes] e less.prems(4) by (simp add: emitted_def)
    ultimately have p: "planned sz stream (work @ draws_at k (runBegin rec) (runBegin rec + ?e))
        (emission @ emitted k command (take ?e ?draws)) st1" by simp
    show ?thesis by (rule less.hyps [OF _ rest p]) (use e in simp_all)
  qed
qed

lemma plan_run_ordinal:
  assumes made: "stream_made stream" "es_valid stream" and k: "k < replayOrdinalCount stream"
    and c: "commandOf stream k = Some command" and d: "isDrawRun command = Some rec"
    and p: "planned sz stream (workFrom stream 0 k) (emissionFrom stream 0 k) (pst_storage st)"
    and a: "planRun sz stream k command rec st = Inr st'"
  shows "planned sz stream (workFrom stream 0 (Suc k)) (emissionFrom stream 0 (Suc k)) (pst_storage st')"
proof -
  let ?draws = "mv_drawParams command" and ?bytes = "mv_drawPayloadBytes command"
  note n = made_valid(1) [OF made]
  have r: "runOf stream k = Some rec" and len: "length ?draws = unat (drr_paramCount rec)"
    using d c by (auto simp: isDrawRun_def runOf_def split: option.splits if_splits)
  define eligible where "eligible = (64 \<le> unat (drr_paramCount rec))"
  define st1 where "st1 = st\<lparr>pst_sawEligibleDrawRun := pst_sawEligibleDrawRun st \<or> eligible\<rparr>"
  obtain storage b sub where x: "(if eligible then subdivideRun sz stream k ?draws ?bytes rec 0 False (pst_storage st)
      else Inr (pst_storage st, 0, False)) = Inr (storage, b, sub)"
    using a by (auto simp: planRun_def eligible_def [symmetric] split: sum.splits)
  have base: "planned sz stream (workFrom stream 0 k @ draws_at k (runBegin rec) (runBegin rec + 0))
      (emissionFrom stream 0 k @ emitted k command (take 0 ?draws)) (pst_storage st)"
    using p by (simp add: draws_at_def emitted_def)
  have s: "planned sz stream (workFrom stream 0 k @ draws_at k (runBegin rec) (runBegin rec + b))
      (emissionFrom stream 0 k @ emitted k command (take b ?draws)) storage \<and>
      (b = 0 \<or> splittable ?draws ?bytes b) \<and>
      (if sub then b + 16 \<le> length ?draws else b = 0 \<and> storage = pst_storage st)"
  proof (cases eligible)
    case True
    then show ?thesis
      using subdivide_result [OF made k c r _ base, of False storage b sub "pst_storage st"] x by simp
  qed (use base x in simp)
  show ?thesis
  proof (cases sub)
    case False
    then obtain st2 where w: "planWhole k st1 = Inr st2" and st': "pst_storage st' = pst_storage st2"
      using a x s unfolding planRun_def Let_def eligible_def [symmetric] st1_def [symmetric]
      by (auto split: sum.splits if_splits)
    then obtain storage2 where "appendProductionCommandOrdinal (of_nat k) (pst_storage st) = Some storage2"
      "pst_storage st2 = storage2"
      by (auto simp: planWhole_def st1_def split: option.splits)
    then show ?thesis using plan_whole_ordinal [OF n k p] st' by simp
  next
    case True
    then obtain storage2 where t: "appendDrawRange sz stream k ?draws rec b (length ?draws) storage = Some storage2"
      "pst_storage st' = storage2"
      using a x unfolding planRun_def Let_def eligible_def [symmetric] st1_def [symmetric]
      by (auto split: option.splits)
    have "planned sz stream ((workFrom stream 0 k @ draws_at k (runBegin rec) (runBegin rec + b)) @
          draws_at k (runBegin rec + b) (runBegin rec + length ?draws))
        ((emissionFrom stream 0 k @ emitted k command (take b ?draws)) @
          emitted k command (slice b (length ?draws - b) ?draws)) storage2"
    proof (rule append_draw_range [OF made k c r _ _ t(1)])
      have "b + 16 \<le> length ?draws" using s True by simp
      then show "16 \<le> length ?draws - b" by linarith
    qed (use s in blast)
    moreover have "draws_at k (runBegin rec) (runBegin rec + b) @ draws_at k (runBegin rec + b) (runBegin rec + length ?draws) =
        ordinalWork stream k"
      using s True draws_at_split [of "runBegin rec" "runBegin rec + b" "runBegin rec + length ?draws" k] r len
      by (simp add: ordinalWork_def)
    moreover have "emitted k command (take b ?draws) @ emitted k command (slice b (length ?draws - b) ?draws) =
        ordinalEmission stream k"
      using encoded_take [of b "length ?draws" ?draws ?bytes] s True c r by (simp add: emitted_def ordinalEmission_def)
    ultimately show ?thesis using t(2) by (simp add: workFrom_snoc emissionFrom_snoc)
  qed
qed

lemma plan_ordinal:
  assumes made: "stream_made stream" "es_valid stream" and k: "k < replayOrdinalCount stream"
    and p: "planned sz stream (workFrom stream 0 k) (emissionFrom stream 0 k) (pst_storage st)"
    and a: "planOrdinal sz stream k st = Inr st'"
  shows "planned sz stream (workFrom stream 0 (Suc k)) (emissionFrom stream 0 (Suc k)) (pst_storage st')"
proof -
  obtain i where i: "commandIndexAt stream k = Some i" using made_valid(4) [OF made k] by blast
  define command where "command = sc_command (payloadCommandAt (ps_payload (es_source stream)) (unat i))"
  have c: "commandOf stream k = Some command" using i by (simp add: commandOf_def command_def)
  have o: "planOrdinal sz stream k st = (case isDrawRun command of None \<Rightarrow> planWhole k st
      | Some rec \<Rightarrow> planRun sz stream k command rec st)"
    unfolding planOrdinal_def command_def by (simp add: i)
  show ?thesis
  proof (cases "isDrawRun command")
    case None
    then obtain storage where "appendProductionCommandOrdinal (of_nat k) (pst_storage st) = Some storage"
      "pst_storage st' = storage"
      using a o by (auto simp: planWhole_def split: option.splits)
    then show ?thesis using plan_whole_ordinal [OF made_valid(1) [OF made] k p] by simp
  next
    case (Some rec)
    then show ?thesis using plan_run_ordinal [OF made k c Some p] a o by simp
  qed
qed

lemma plan_ordinals:
  assumes made: "stream_made stream" "es_valid stream"
  shows "i + length ks = replayOrdinalCount stream \<Longrightarrow> ks = [i..<replayOrdinalCount stream] \<Longrightarrow>
    planned sz stream (workFrom stream 0 i) (emissionFrom stream 0 i) (pst_storage st) \<Longrightarrow>
    planOrdinals sz stream ks st = Inr st' \<Longrightarrow>
    planned sz stream (workFrom stream 0 (replayOrdinalCount stream)) (emissionFrom stream 0 (replayOrdinalCount stream))
      (pst_storage st')"
proof (induction ks arbitrary: i st)
  case (Cons k ks)
  have k: "k = i" "ks = [Suc i..<replayOrdinalCount stream]" "i < replayOrdinalCount stream"
    using Cons.prems(2) [symmetric, unfolded upt_eq_Cons_conv] by auto
  obtain st1 where s: "planOrdinal sz stream i st = Inr st1" "planOrdinals sz stream ks st1 = Inr st'"
    using Cons.prems(4) k(1) by (auto split: sum.splits)
  show ?case by (rule Cons.IH [OF _ k(2) plan_ordinal [OF made k(3) Cons.prems(3) s(1)] s(2)]) (use k in simp)
qed simp

end
