(* ===== verification/Ep_Walk.thy ===== *)
theory Ep_Walk
  imports Ep_Plan_Correct
begin

text \<open>The cursors reach the end of the stream and hand out every replay ordinal once, in order.\<close>

section \<open>Ranges of the identity cursor\<close>

lemma identityDraws_range:
  assumes made: "stream_made stream" "es_valid stream" and k: "k < replayOrdinalCount stream"
    and d: "identityDraws sz stream k = Some (rg, part)"
  shows "er_kind rg = DrawRunEntries \<and> rangeBegin rg = k \<and> er_replayOrdinalCount rg = 1 \<and>
    rangeWork stream rg = ordinalWork stream k \<and>
    (small_runs stream \<longrightarrow> (\<exists>p. part = Some p \<and> resolveEncodePartition sz rg stream = Inr p))"
proof -
  have u: "unat (of_nat k :: u32) = k" using made_valid(1) [OF made] k by (intro unat_of_nat32) simp
  obtain i rec entry res where i: "commandIndexAt stream k = Some i"
    and c: "mv_drawRunRecord (sc_command (payloadCommandAt (ps_payload (es_source stream)) (unat i))) = Some rec"
      "mv_kind (sc_command (payloadCommandAt (ps_payload (es_source stream)) (unat i))) = CmdDrawRun"
      "drr_paramCount rec \<noteq> 0"
    and s: "snapshotForResolvedDrawParam sz stream i (payloadCommandAt (ps_payload (es_source stream)) (unat i))
      (drr_firstParam rec) = Some (entry, res)"
    and rg: "rg = \<lparr>er_kind = DrawRunEntries, er_replayOrdinalBegin = of_nat k, er_replayOrdinalCount = 1,
      er_drawEntryCount = drr_paramCount rec, er_entry = entry\<rparr>"
    and part: "part = Some \<lparr>rp_entry = res,
      rp_drawParams = mv_drawParams (sc_command (payloadCommandAt (ps_payload (es_source stream)) (unat i)))\<rparr>"
    using d by (auto simp: identityDraws_def split: option.splits if_splits)
  define command where "command = sc_command (payloadCommandAt (ps_payload (es_source stream)) (unat i))"
  note sr = snapshot_resolves [OF made s, folded command_def]
  have rec: "re_drawRunRecord res = rec"
    using resolve_entry_record(1) [of sz entry "es_source stream" res] sr c(1) by (simp add: command_def)
  have len: "length (mv_drawParams command) = unat (drr_paramCount rec)" using sr unfolding rec by metis
  have r: "runOf stream k = Some rec" using i c by (simp add: runOf_def commandOf_def)
  have work: "rangeWork stream rg = ordinalWork stream k"
    using r u sr by (simp add: rangeWork_def ordinalWork_def rg)
  have "resolveEncodePartition sz rg stream = Inr \<lparr>rp_entry = res, rp_drawParams = mv_drawParams command\<rparr>"
    if "small_runs stream"
  proof -
    have "runEnd rec \<le> UINT32_MAX" using that r by (auto simp: small_runs_def)
    then show ?thesis
      using made(2) i u c(3) sr rec len
      by (simp add: resolveEncodePartition_def rg not_less slice_all)
  qed
  then show ?thesis using work u part by (simp add: rg command_def)
qed

definition identity_ok :: "DrawBindingSizes \<Rightarrow> EncodePartitionReplayStream \<Rightarrow> EncodePartitionIdentityCursor \<Rightarrow> bool" where
  "identity_ok sz stream c = (ic_replayOrdinal c \<le> replayOrdinalCount stream \<and>
     (ic_pending c \<noteq> None \<longrightarrow> ic_replayOrdinal c < replayOrdinalCount stream \<and>
        ic_pending c = identityDraws sz stream (ic_replayOrdinal c)))"

lemma scanSegment_result:
  "k \<le> replayOrdinalCount stream \<Longrightarrow> scanSegment sz stream k = (e, pending) \<Longrightarrow>
     k \<le> e \<and> identity_ok sz stream \<lparr>ic_replayOrdinal = e, ic_pending = pending\<rparr>"
proof (induction "replayOrdinalCount stream - k" arbitrary: k)
  case 0
  then show ?case by (simp add: scanSegment.simps [of sz stream k] identity_ok_def)
next
  case (Suc n)
  then have k: "k < replayOrdinalCount stream" by simp
  show ?case
  proof (cases "identityDraws sz stream k")
    case None
    then have "scanSegment sz stream (k + 1) = (e, pending)" using Suc.prems(2) k by (simp add: scanSegment.simps [of sz stream k])
    moreover have "n = replayOrdinalCount stream - (k + 1)" "k + 1 \<le> replayOrdinalCount stream"
      using Suc.hyps(2) k by simp_all
    ultimately have "k + 1 \<le> e \<and> identity_ok sz stream \<lparr>ic_replayOrdinal = e, ic_pending = pending\<rparr>"
      using Suc.hyps(1) by blast
    then show ?thesis by simp
  next
    case (Some step)
    then show ?thesis using Suc.prems(2) k by (auto simp: scanSegment.simps [of sz stream k] identity_ok_def)
  qed
qed

lemma identity_step:
  assumes made: "stream_made stream" "es_valid stream" and c: "identity_ok sz stream cursor"
  shows "identityNext sz stream cursor = None \<and> ic_replayOrdinal cursor = replayOrdinalCount stream \<or>
    (\<exists>rg part cursor'. identityNext sz stream cursor = Some ((rg, part), cursor') \<and> identity_ok sz stream cursor' \<and>
      rangeBegin rg = ic_replayOrdinal cursor \<and> rangeEnd rg = ic_replayOrdinal cursor' \<and> rangeBegin rg < rangeEnd rg \<and>
      rangeWork stream rg = workFrom stream (rangeBegin rg) (rangeEnd rg) \<and>
      (small_runs stream \<longrightarrow> wellFormed sz stream rg \<and>
         (er_kind rg = DrawRunEntries \<longrightarrow> (\<exists>p. part = Some p \<and> resolveEncodePartition sz rg stream = Inr p))))"
proof (cases "ic_replayOrdinal cursor < replayOrdinalCount stream")
  case True
  let ?k = "ic_replayOrdinal cursor"
  have n: "replayOrdinalCount stream \<le> UINT32_MAX" by (rule made_valid(1) [OF made])
  have draws: "identity_ok sz stream \<lparr>ic_replayOrdinal = ?k + 1, ic_pending = None\<rparr> \<and> rangeBegin rg = ?k \<and>
      rangeEnd rg = ?k + 1 \<and> rangeWork stream rg = workFrom stream (rangeBegin rg) (rangeEnd rg) \<and>
      (small_runs stream \<longrightarrow> wellFormed sz stream rg \<and>
         (er_kind rg = DrawRunEntries \<longrightarrow> (\<exists>p. part = Some p \<and> resolveEncodePartition sz rg stream = Inr p)))"
    if "identityDraws sz stream ?k = Some (rg, part)" for rg part
    using identityDraws_range [OF made True that] True
    by (auto simp: identity_ok_def workFrom_def wellFormed_draws)
  show ?thesis
  proof (cases "identityDraws sz stream ?k")
    case (Some step)
    obtain rg part where s: "step = (rg, part)" by (cases step)
    have "identityNext sz stream cursor = Some (step, \<lparr>ic_replayOrdinal = ?k + 1, ic_pending = None\<rparr>)"
    proof (cases "ic_pending cursor")
      case None
      then show ?thesis using Some True made(2) by (cases cursor) (simp add: identityNext_def)
    qed (use Some True made(2) c in \<open>auto simp: identityNext_def identity_ok_def\<close>)
    then show ?thesis using draws [OF Some [unfolded s]] s by auto
  next
    case None
    then have p: "ic_pending cursor = None" using c by (cases "ic_pending cursor") (simp_all add: identity_ok_def)
    obtain e pending where e: "scanSegment sz stream (?k + 1) = (e, pending)" by (cases "scanSegment sz stream (?k + 1)")
    then have b: "?k + 1 \<le> e" "identity_ok sz stream \<lparr>ic_replayOrdinal = e, ic_pending = pending\<rparr>"
      using scanSegment_result [of "?k + 1" stream sz] True by auto
    then have en: "e \<le> replayOrdinalCount stream" by (simp add: identity_ok_def)
    define rg where "rg = \<lparr>er_kind = CommandSegment, er_replayOrdinalBegin = of_nat ?k,
      er_replayOrdinalCount = of_nat (e - ?k), er_drawEntryCount = 0, er_entry = no_entry\<rparr>"
    have u: "rangeBegin rg = ?k" "unat (er_replayOrdinalCount rg) = e - ?k" "er_kind rg = CommandSegment"
      "er_drawEntryCount rg = 0"
      unfolding rg_def using n True en b(1) by (simp_all add: unat_of_nat32 del: of_nat_diff)
    have nx: "identityNext sz stream cursor = Some ((rg, None), \<lparr>ic_replayOrdinal = e, ic_pending = pending\<rparr>)"
      using True made(2) None p e by (simp add: identityNext_def rg_def)
    have cnt: "er_replayOrdinalCount rg \<noteq> 0" using u(2) b(1) by auto
    have "rangeWork stream rg = workFrom stream (rangeBegin rg) (rangeEnd rg)" using u(3) by (simp add: rangeWork_def)
    moreover have "wellFormed sz stream rg" using u cnt en b(1) by (simp add: wellFormed_def)
    moreover have "rangeEnd rg = e" using u b(1) by simp
    ultimately show ?thesis using nx b u by auto
  qed
qed (use assms in \<open>auto simp: identityNext_def identity_ok_def\<close>)

section \<open>Batches\<close>

definition batchOrdinals :: "EncodePartitionSerialBatch \<Rightarrow> nat list" where
  "batchOrdinals b = [unat (sb_replayOrdinalBegin b)..<unat (sb_replayOrdinalBegin b) + unat (sb_replayOrdinalCount b)]"

definition batchWork :: "EncodePartitionReplayStream \<Rightarrow> EncodePartitionSerialBatch list \<Rightarrow> (nat \<times> nat option) list" where
  "batchWork stream bs = concat (map (rangeWork stream) (concat (map sb_ranges bs)))"

lemma upt_glue: "a \<le> b \<Longrightarrow> b \<le> c \<Longrightarrow> [a..<b] @ [b..<c] = [a..<c]"
  using upt_add_eq_append [of a b "c - b"] by simp

lemma identity_batches:
  assumes made: "stream_made stream" "es_valid stream"
  shows "identity_ok sz stream identity \<Longrightarrow> replayOrdinalCount stream - ic_replayOrdinal identity < fuel \<Longrightarrow>
    \<exists>bs. serialBatches fuel sz stream \<lparr>sl_explicitRanges = rgs, sl_explicitIndex = i, sl_useExplicitPlan = False,
        sl_identityCursor = identity\<rparr> = Some bs \<and>
      concat (map batchOrdinals bs) = [ic_replayOrdinal identity..<replayOrdinalCount stream] \<and>
      batchWork stream bs = workFrom stream (ic_replayOrdinal identity) (replayOrdinalCount stream) \<and>
      (small_runs stream \<longrightarrow> (\<forall>b \<in> set bs. \<forall>rg \<in> set (sb_ranges b). wellFormed sz stream rg))"
proof (induction fuel arbitrary: identity)
  case (Suc fuel)
  from identity_step [OF made Suc.prems(1)] show ?case
  proof (elim disjE exE conjE)
    assume "identityNext sz stream identity = None" "ic_replayOrdinal identity = replayOrdinalCount stream"
    then show ?thesis by (simp add: serialNext_def batchWork_def workFrom_def)
  next
    fix rg part identity'
    assume s: "identityNext sz stream identity = Some ((rg, part), identity')" "identity_ok sz stream identity'"
      "rangeBegin rg = ic_replayOrdinal identity" "rangeEnd rg = ic_replayOrdinal identity'" "rangeBegin rg < rangeEnd rg"
      "rangeWork stream rg = workFrom stream (rangeBegin rg) (rangeEnd rg)"
      "small_runs stream \<longrightarrow> wellFormed sz stream rg \<and>
         (er_kind rg = DrawRunEntries \<longrightarrow> (\<exists>p. part = Some p \<and> resolveEncodePartition sz rg stream = Inr p))"
    have le: "rangeEnd rg \<le> replayOrdinalCount stream" using s(2,4) by (simp add: identity_ok_def)
    have "replayOrdinalCount stream - ic_replayOrdinal identity' < fuel" using Suc.prems(2) s(3,4,5) le by linarith
    from Suc.IH [OF s(2) this] obtain bs where bs:
      "serialBatches fuel sz stream \<lparr>sl_explicitRanges = rgs, sl_explicitIndex = i, sl_useExplicitPlan = False,
        sl_identityCursor = identity'\<rparr> = Some bs"
      "concat (map batchOrdinals bs) = [rangeEnd rg..<replayOrdinalCount stream]"
      "batchWork stream bs = workFrom stream (rangeEnd rg) (replayOrdinalCount stream)"
      "small_runs stream \<longrightarrow> (\<forall>b \<in> set bs. \<forall>rg \<in> set (sb_ranges b). wellFormed sz stream rg)"
      unfolding s(4) by blast
    define b where "b = \<lparr>sb_kind = er_kind rg, sb_replayOrdinalBegin = er_replayOrdinalBegin rg,
      sb_replayOrdinalCount = er_replayOrdinalCount rg, sb_ranges = [rg],
      sb_identityResolved = (er_kind rg = DrawRunEntries), sb_identityPartition = part\<rparr>"
    have "serialBatches (Suc fuel) sz stream \<lparr>sl_explicitRanges = rgs, sl_explicitIndex = i,
        sl_useExplicitPlan = False, sl_identityCursor = identity\<rparr> = Some (b # bs)"
      using s(1) bs(1) by (simp add: serialNext_def b_def)
    moreover have "batchOrdinals b @ [rangeEnd rg..<replayOrdinalCount stream] = [rangeBegin rg..<replayOrdinalCount stream]"
      using upt_glue [OF _ le, of "rangeBegin rg"] by (simp add: batchOrdinals_def b_def)
    moreover have "batchWork stream (b # bs) = workFrom stream (rangeBegin rg) (replayOrdinalCount stream)"
      using workFrom_split [OF _ le, of "rangeBegin rg" stream] s(6) bs(3) by (simp add: batchWork_def b_def)
    moreover have "set (sb_ranges b) = {rg}" by (simp add: b_def)
    ultimately show ?thesis using bs(2,4) s(3,7) by (intro exI [of _ "b # bs"]) simp
  qed
qed simp

section \<open>Following an explicit plan\<close>

lemma coverRange_begin:
  "coverRange sz stream rg c = Inr c' \<Longrightarrow> er_replayOrdinalBegin rg = cv_expectedOrdinal c"
  by (cases "er_kind rg") (simp_all add: coverRange_def coverSegment_Inr, simp add: coverDraws_def split: if_splits)

lemma coverRange_incomplete:
  "coverRange sz stream rg c = Inr c' \<Longrightarrow> cv_drawRunIncomplete c \<Longrightarrow> er_kind rg = DrawRunEntries"
  by (cases "er_kind rg") (auto simp: coverRange_def coverSegment_Inr)

lemma coverDraws_after:
  assumes "er_kind rg = DrawRunEntries" and "coverRange sz stream rg c = Inr c'"
  shows "if cv_drawRunIncomplete c' then cv_expectedOrdinal c' = cv_expectedOrdinal c
    else cv_expectedOrdinal c' = cv_expectedOrdinal c + 1"
proof -
  have r: "coverDraws sz stream rg c = Inr c'" using assms by (simp add: coverRange_def)
  obtain part where p: "resolveEncodePartition sz rg stream = Inr part" using coverDraws_resolved [OF r] by blast
  show ?thesis using r [unfolded coverDraws_Inr [OF p assms(1)]] by simp
qed

text \<open>The ranges of one draw run are exactly those the cursor takes together.\<close>

lemma run_ranges:
  assumes n: "replayOrdinalCount stream \<le> UINT32_MAX" and f: "er_replayOrdinalBegin first = w"
  shows "coverRanges sz stream j rgs c = Inr ce \<Longrightarrow> remaining stream ce = [] \<Longrightarrow> coverage_ok stream c \<Longrightarrow>
    (if cv_drawRunIncomplete c then cv_expectedOrdinal c = w else cv_expectedOrdinal c = w + 1) \<Longrightarrow> w + 1 \<noteq> w \<Longrightarrow>
    \<exists>c' j'. coverRanges sz stream j' (dropWhile (sameDrawRun first) rgs) c' = Inr ce \<and> coverage_ok stream c' \<and>
      \<not> cv_drawRunIncomplete c' \<and> cv_expectedOrdinal c' = w + 1"
proof (induction rgs arbitrary: c j)
  case Nil
  then have "\<not> cv_drawRunIncomplete c" using remaining_empty [of stream c] by simp
  then show ?case using Nil by auto
next
  case (Cons rg rgs)
  obtain c1 where c1: "coverRange sz stream rg c = Inr c1" "coverRanges sz stream (j + 1) rgs c1 = Inr ce"
    using Cons.prems(1) by (auto split: sum.splits)
  note b = coverRange_begin [OF c1(1)]
  show ?case
  proof (cases "cv_drawRunIncomplete c")
    case True
    then have s: "sameDrawRun first rg" using coverRange_incomplete [OF c1(1)] b Cons.prems(4) f
      by (simp add: sameDrawRun_def)
    have k: "er_kind rg = DrawRunEntries" using s by (simp add: sameDrawRun_def)
    have "coverage_ok stream c1" using coverRange_step [OF n Cons.prems(3) c1(1)] by blast
    moreover have "if cv_drawRunIncomplete c1 then cv_expectedOrdinal c1 = w else cv_expectedOrdinal c1 = w + 1"
      using coverDraws_after [OF k c1(1)] True Cons.prems(4) by simp
    ultimately show ?thesis using Cons.IH [OF c1(2) Cons.prems(2) _ _ Cons.prems(5)] s by simp
  next
    case False
    then have "\<not> sameDrawRun first rg" using b Cons.prems(4,5) f by (auto simp: sameDrawRun_def)
    then show ?thesis using Cons.prems False by (intro exI [of _ c] exI [of _ j]) simp
  qed
qed

lemma explicit_batches:
  assumes n: "replayOrdinalCount stream \<le> UINT32_MAX"
  shows "coverRanges sz stream j (drop i rgs) c = Inr ce \<Longrightarrow> remaining stream ce = [] \<Longrightarrow> coverage_ok stream c \<Longrightarrow>
    \<not> cv_drawRunIncomplete c \<Longrightarrow> i \<le> length rgs \<Longrightarrow>
    replayOrdinalCount stream - unat (cv_expectedOrdinal c) < fuel \<Longrightarrow>
    \<exists>bs. serialBatches fuel sz stream \<lparr>sl_explicitRanges = rgs, sl_explicitIndex = i, sl_useExplicitPlan = True,
        sl_identityCursor = identity\<rparr> = Some bs \<and>
      concat (map batchOrdinals bs) = [unat (cv_expectedOrdinal c)..<replayOrdinalCount stream] \<and>
      concat (map sb_ranges bs) = drop i rgs"
proof (induction fuel arbitrary: i j c)
  case (Suc fuel)
  let ?o = "unat (cv_expectedOrdinal c)"
  show ?case
  proof (cases "drop i rgs")
    case Nil
    then have "remaining stream c = []" using Suc.prems(1,2) by simp
    then show ?thesis using remaining_empty [OF Suc.prems(3)] Nil Suc.prems(5) by (simp add: serialNext_def)
  next
    case (Cons first behind)
    then have i: "i < length rgs" "rgs ! i = first" "drop (Suc i) rgs = behind"
      by (metis drop_eq_Nil list.distinct(1) not_less) (metis Cons nth_via_drop, metis Cons drop_Suc tl_drop list.sel(3))
    obtain c1 where c1: "coverRange sz stream first c = Inr c1" "coverRanges sz stream (j + 1) behind c1 = Inr ce"
      using Suc.prems(1) Cons by (auto split: sum.splits)
    note step = coverRange_step [OF n Suc.prems(3) c1(1)] and start = coverRange_begin [OF c1(1)]
    define batch where "batch = first # (if er_kind first = DrawRunEntries then takeWhile (sameDrawRun first) behind else [])"
    have "\<exists>c' j'. coverRanges sz stream j' (drop (length batch) (drop i rgs)) c' = Inr ce \<and> coverage_ok stream c' \<and>
        \<not> cv_drawRunIncomplete c' \<and> ?o < unat (cv_expectedOrdinal c') \<and>
        unat (cv_expectedOrdinal c') = rangeEnd first"
    proof (cases "er_kind first")
      case CommandSegment
      then have s: "coverSegment stream first c = Inr c1" using c1(1) by (simp add: coverRange_def)
      note t = s [unfolded coverSegment_Inr]
      have "unat (of_nat (rangeEnd first) :: u32) = rangeEnd first" using t by (intro unat_of_nat32) blast
      then have e: "unat (cv_expectedOrdinal c1) = rangeEnd first" using t by (simp del: of_nat_add)
      have "0 < unat (er_replayOrdinalCount first)" using t by (intro unat_pos32) blast
      then have "?o < unat (cv_expectedOrdinal c1)" using e start by simp
      moreover have "\<not> cv_drawRunIncomplete c1" using t by auto
      ultimately show ?thesis using c1(2) step e CommandSegment Cons
        by (intro exI [of _ c1] exI [of _ "j + 1"]) (simp add: batch_def)
    next
      case DrawRunEntries
      have w: "wellFormed sz stream first" using step by blast
      then obtain part where p: "resolveEncodePartition sz first stream = Inr part"
        using DrawRunEntries by (auto simp: wellFormed_draws)
      have r: "rangeBegin first < replayOrdinalCount stream" "er_replayOrdinalCount first = 1"
        by (rule resolve_partition [OF p DrawRunEntries]; simp)+
      have nxt: "unat (cv_expectedOrdinal c + 1) = ?o + 1" using r(1) start n by (intro unat_next32) simp
      then have ne: "cv_expectedOrdinal c + 1 \<noteq> cv_expectedOrdinal c" by auto
      obtain c' j' where c': "coverRanges sz stream j' (dropWhile (sameDrawRun first) behind) c' = Inr ce"
        "coverage_ok stream c'" "\<not> cv_drawRunIncomplete c'" "cv_expectedOrdinal c' = cv_expectedOrdinal c + 1"
        using run_ranges [OF n start c1(2) Suc.prems(2) _ coverDraws_after [OF DrawRunEntries c1(1)] ne] step by blast
      have "drop (length batch) (drop i rgs) = dropWhile (sameDrawRun first) behind"
        using Cons DrawRunEntries by (simp add: batch_def dropWhile_eq_drop)
      then show ?thesis using c' nxt start r(2) by (intro exI [of _ c'] exI [of _ j']) simp
    qed
    then obtain c' j' where c': "coverRanges sz stream j' (drop (length batch) (drop i rgs)) c' = Inr ce"
      "coverage_ok stream c'" "\<not> cv_drawRunIncomplete c'" "?o < unat (cv_expectedOrdinal c')"
      "unat (cv_expectedOrdinal c') = rangeEnd first" by blast
    have take: "take (length batch) (drop i rgs) = batch"
      using Cons by (simp add: batch_def) (metis takeWhile_eq_take)
    have ilen: "i + length batch \<le> length rgs"
    proof -
      have "length batch \<le> length (drop i rgs)" using take by (metis length_take min.cobounded1 min.commute)
      then show ?thesis using i(1) by simp
    qed
    have le: "unat (cv_expectedOrdinal c') \<le> replayOrdinalCount stream" using c'(2) by (simp add: coverage_ok_def)
    have "replayOrdinalCount stream - unat (cv_expectedOrdinal c') < fuel" using Suc.prems(6) c'(4) le by linarith
    from Suc.IH [OF _ Suc.prems(2) c'(2,3) ilen this, of j'] c'(1) obtain bs where bs:
      "serialBatches fuel sz stream \<lparr>sl_explicitRanges = rgs, sl_explicitIndex = i + length batch,
         sl_useExplicitPlan = True, sl_identityCursor = identity\<rparr> = Some bs"
      "concat (map batchOrdinals bs) = [unat (cv_expectedOrdinal c')..<replayOrdinalCount stream]"
      "concat (map sb_ranges bs) = drop (i + length batch) rgs"
      by (auto simp: add.commute)
    define b where "b = \<lparr>sb_kind = er_kind first, sb_replayOrdinalBegin = er_replayOrdinalBegin first,
      sb_replayOrdinalCount = er_replayOrdinalCount first, sb_ranges = batch, sb_identityResolved = False,
      sb_identityPartition = None\<rparr>"
    have "serialNext sz stream \<lparr>sl_explicitRanges = rgs, sl_explicitIndex = i, sl_useExplicitPlan = True,
        sl_identityCursor = identity\<rparr> = Some (b, \<lparr>sl_explicitRanges = rgs, sl_explicitIndex = i + length batch,
          sl_useExplicitPlan = True, sl_identityCursor = identity\<rparr>)"
      using i by (simp add: serialNext_def b_def batch_def)
    then have "serialBatches (Suc fuel) sz stream \<lparr>sl_explicitRanges = rgs, sl_explicitIndex = i,
        sl_useExplicitPlan = True, sl_identityCursor = identity\<rparr> = Some (b # bs)"
      using bs(1) by simp
    moreover have "batchOrdinals b @ [unat (cv_expectedOrdinal c')..<replayOrdinalCount stream] =
        [?o..<replayOrdinalCount stream]"
      using upt_glue [of ?o "unat (cv_expectedOrdinal c')"] c'(4,5) le start by (simp add: batchOrdinals_def b_def)
    moreover have "batch @ drop (i + length batch) rgs = drop i rgs"
      using take append_take_drop_id [of "length batch" "drop i rgs"] by (simp add: add.commute)
    ultimately show ?thesis using bs(2,3) by (intro exI [of _ "b # bs"]) (simp add: b_def)
  qed
qed simp

end
