(* ===== verification/Ep_Theorems.thy ===== *)
theory Ep_Theorems
  imports Ep_Walk "HOL-Library.Code_Target_Nat"
begin

text \<open>The properties of draw merging, of partition plans and of the cursors, with an example source.\<close>

section \<open>An example\<close>

text \<open>A clear and a run of 64 draws, in which each even draw continues the one before it.\<close>

definition demo_draw :: "nat \<Rightarrow> DrawParam" where
  "demo_draw i = \<lparr>dp_primitiveType = TriangleList, dp_primitiveCount = 1, dp_startVertex = 0, dp_baseVertexIndex = 0,
     dp_startIndex = of_nat (12 * ((i + 1) div 2) + (if even i then 3 else 0)), dp_indexType = UInt16,
     dp_indexed = True, dp_instanceCount = 1, dp_userVertexRange = empty_payload_range,
     dp_userIndexRange = empty_payload_range, dp_bindingOverrideRange = empty_payload_range,
     dp_bindingSnapshotRange = empty_payload_range,
     dp_uniformHandle = \<lparr>uh_index = 0, uh_generation = 0, uh_hash = 0\<rparr>\<rparr>"

definition demo_uniform :: DrawUniformHandle where
  "demo_uniform = \<lparr>uh_index = 0, uh_generation = 1, uh_hash = 7\<rparr>"

definition demo_run :: DrawRunRecord where
  "demo_run = \<lparr>drr_stateIndex = 0, drr_firstParam = 10, drr_paramCount = 64, drr_payloadOffset = 0,
     drr_payloadSize = 0, drr_uniformHandle = demo_uniform\<rparr>"

definition demo_draw_command :: SourceCommand where
  "demo_draw_command = \<lparr>sc_command = \<lparr>mv_kind = CmdDrawRun, mv_drawRunRecord = Some demo_run,
     mv_drawState = \<lparr>fv_hot = Some 1, fv_shaderLayout = Some 2, fv_debug = Some 3\<rparr>,
     mv_drawParams = map demo_draw [0..<64], mv_drawUniformPayloadRecords = [\<lparr>upr_handle = demo_uniform\<rparr>],
     mv_drawPayloadBytes = []\<rparr>, sc_payloadIndex = 0\<rparr>"

definition demo_clear_command :: SourceCommand where
  "demo_clear_command = no_command\<lparr>sc_command := (sc_command no_command)\<lparr>mv_kind := CmdClear\<rparr>\<rparr>"

definition demo_payload :: PayloadView where
  "demo_payload = \<lparr>vw_legacy = None, vw_arena = True, vw_commands = [demo_clear_command, demo_draw_command]\<rparr>"

definition demo_source_ref :: SourceRef where
  "demo_source_ref = \<lparr>ref_id = \<lparr>sid_index = 0, sid_generation = 1\<rparr>,
     ref_storage = \<lparr>sto_firstPage = 0, sto_pageCount = 1, sto_generation = 1\<rparr>\<rparr>"

definition demo_made :: "EncodePartitionReplayStream \<times> nat list" where
  "demo_made = makeEncodePartitionReplayStream 3 demo_payload 9 0 2 True [1, 0] [0, 0] demo_source_ref"

definition demo_stream :: EncodePartitionReplayStream where
  "demo_stream = fst demo_made"

definition demo_sizes :: DrawBindingSizes where
  "demo_sizes = \<lparr>bsz_override = 576, bsz_snapshot = 960\<rparr>"

definition demo_plan :: "ProductionEncodePartitionPlanResult \<times> PlanStorage" where
  "demo_plan = planProductionEncodePartitions demo_sizes demo_stream"

lemma demo_valid: "es_valid demo_stream" "replayOrdinalCount demo_stream = 2"
  by code_simp+

lemma demo_planned: "pp_explicitPlan (fst demo_plan) \<and> map er_drawEntryCount (snd demo_plan) = [31, 33, 0]"
  by code_simp

lemma demo_stream_made: "stream_made demo_stream"
  unfolding stream_made_def demo_stream_def demo_made_def by blast

section \<open>Merging\<close>

lemma mergeLoop_grows:
  "\<exists>c. fst (mergeLoop arena p n ds) = p\<lparr>dp_primitiveCount := c\<rparr>"
proof (induction ds arbitrary: p n)
  case (Cons d ds)
  show ?case using Cons.IH [of "grown p d" "n + 1"] 
    by (auto simp: mergeLoop_step grown_def) (metis DrawParam.surjective DrawParam.update_convs(2))
qed (simp, metis DrawParam.surjective DrawParam.update_convs(2))

lemma encoded_shape:
  "length (encodedDraws arena ds) \<le> length ds \<and>
   set (encodedDraws arena ds) \<subseteq> {d\<lparr>dp_primitiveCount := c\<rparr> | d c. d \<in> set ds}"
proof (induction ds rule: length_induct)
  case (1 ds)
  show ?case
  proof (cases ds)
    case (Cons d rest)
    obtain q n where m: "makeCompatibleIndexedDrawMerge (d # rest) arena = Some (q, n)" "1 \<le> n"
      "encodedDraws arena (d # rest) = q # encodedDraws arena (drop (n - 1) rest)"
      by (rule encoded_Cons)
    obtain c where c: "q = d\<lparr>dp_primitiveCount := c\<rparr>"
    proof (cases "compatibleIndexedDrawMergeShape d")
      case True
      then have "q = fst (mergeLoop arena d 1 rest)" using m(1) by (simp add: make_some)
      with mergeLoop_grows [of arena d 1 rest] that show ?thesis by auto
    next
      case False
      then have "q = d\<lparr>dp_primitiveCount := dp_primitiveCount d\<rparr>" using m(1) by (simp add: make_some)
      then show ?thesis by (rule that)
    qed
    have "length (drop (n - 1) rest) < length ds" using Cons by simp
    then have ih: "length (encodedDraws arena (drop (n - 1) rest)) \<le> length (drop (n - 1) rest)"
      "set (encodedDraws arena (drop (n - 1) rest)) \<subseteq> {d\<lparr>dp_primitiveCount := c\<rparr> | d c. d \<in> set (drop (n - 1) rest)}"
      using 1 by blast+
    have "set (drop (n - 1) rest) \<subseteq> set ds" using set_drop_subset [of "n - 1" rest] Cons by auto
    then have "set (encodedDraws arena (drop (n - 1) rest)) \<subseteq> {d\<lparr>dp_primitiveCount := c\<rparr> | d c. d \<in> set ds}"
      using ih(2) by blast
    moreover have "q \<in> {d\<lparr>dp_primitiveCount := c\<rparr> | d c. d \<in> set ds}" using c Cons by auto
    ultimately show ?thesis using ih(1) m(3) Cons by simp
  qed simp
qed

text \<open>
  C8: Merging indexed draws submits the same work. The draws that the merging loop encodes submit exactly the
  index positions that the draws of the run submit, in the same order and each under the same state (index
  type, base vertex, start vertex, uniforms and binding payloads); draws that are not mergeable are
  encoded as they are. The loop never encodes more draws than it is given, and every encoded draw
  is the first one of those it stands for with a larger primitive count.
\<close>

theorem merging_keeps_submission:
  "concat (map (submitted arena) (encodedDraws arena draws)) = concat (map (submitted arena) draws) \<and>
   length (encodedDraws arena draws) \<le> length draws \<and>
   set (encodedDraws arena draws) \<subseteq> {d\<lparr>dp_primitiveCount := c\<rparr> | d c. d \<in> set draws}"
  using encoded_submits encoded_shape by blast

section \<open>Streams and locators\<close>

text \<open>
  C10: A replay stream is valid exactly when its source is identified, its command range lies inside the
  payload and fits 32 bits, and an active command order is a duplicate-free selection of
  that range (with scratch for it). A valid stream gives every replay ordinal a command of the range, the one
  the order names, and the scratch then holds the inverse of the order.
\<close>

theorem replay_stream_valid_exactly:
  fixes slot payload seqId b n active order scratch src
  defines "made \<equiv> makeEncodePartitionReplayStream slot payload seqId b n active order scratch src"
  shows "(es_valid (fst made) \<longleftrightarrow> validSourceRef src \<and> b + n \<le> payloadCommandCount payload \<and>
      (if active then length order \<le> UINT32_MAX \<and> orderFits b n order scratch
       else order = [] \<and> n \<le> UINT32_MAX \<and> (n \<noteq> 0 \<longrightarrow> b + (n - 1) \<le> UINT32_MAX))) \<and>
    (es_valid (fst made) \<and> k < replayOrdinalCount (fst made) \<longrightarrow>
      (\<exists>i. commandIndexAt (fst made) k = Some i \<and> b \<le> unat i \<and> unat i < b + n \<and>
        (active \<longrightarrow> i = order ! k \<and> snd made ! (unat i - b) = k)))"
proof -
  have f: "ps_commandBegin (es_source (fst made)) = b" "ps_commandCount (es_source (fst made)) = n"
    "es_commandOrderActive (fst made) = active" "es_commandOrder (fst made) = order"
    using make_fields [of "fst made"] unfolding made_def by blast+
  have m: "stream_made (fst made)" unfolding stream_made_def made_def by blast
  have "\<exists>i. commandIndexAt (fst made) k = Some i \<and> b \<le> unat i \<and> unat i < b + n \<and>
        (active \<longrightarrow> i = order ! k \<and> snd made ! (unat i - b) = k)"
    if v: "es_valid (fst made)" "k < replayOrdinalCount (fst made)"
  proof -
    obtain i where i: "commandIndexAt (fst made) k = Some i" "b \<le> unat i" "unat i < b + n"
      using made_valid(4) [OF m v] f by auto
    have "i = order ! k \<and> snd made ! (unat i - b) = k" if active
    proof -
      have k: "k < length order" using v(2) that f by (simp add: replayOrdinalCount_def)
      then have "i = order ! k" using i(1) that f v by (auto simp: commandIndexAt_def split: if_splits)
      then show ?thesis using make_valid_iff(2) [of slot payload seqId b n active order scratch src k] v(1) that k
        unfolding made_def by blast
    qed
    then show ?thesis using i by blast
  qed
  then show ?thesis using make_valid_iff(1) [of slot payload seqId b n active order scratch src]
    unfolding made_def by blast
qed

theorem replay_stream_valid_exactly_witness:
  "\<exists>i. commandIndexAt demo_stream 1 = Some i \<and> snd demo_made ! (unat i - 0) = 1"
  using replay_stream_valid_exactly [of 3 demo_payload 9 0 2 True "[1, 0]" "[0, 0]" demo_source_ref 1]
    demo_valid unfolding demo_made_def [symmetric] demo_stream_def by auto

text \<open>
  C9: A locator built for a draw resolves to that draw. Against the source of its own valid stream, a
  locator that the planner or the identity cursor built is accepted by every check of the resolver and gives back
  the very view it was built from: the command at its ordinal, the run's record and the parameter of its draw.
\<close>

theorem locator_resolves_to_its_draw:
  assumes "stream_made stream" and "es_valid stream"
    and "snapshotForDrawParam sz stream k d = Some (snap, entry)"
  shows "resolveEncodePartitionEntry sz snap [es_source stream] = Inr entry \<and>
    commandIndexAt stream k = Some (pe_commandIndex snap) \<and> pe_drawParamIndex snap = d \<and>
    commandOf stream k = Some (re_command entry) \<and>
    mv_drawRunRecord (re_command entry) = Some (re_drawRunRecord entry) \<and>
    drr_firstParam (re_drawRunRecord entry) \<le> d \<and>
    d - drr_firstParam (re_drawRunRecord entry) < drr_paramCount (re_drawRunRecord entry)"
proof -
  obtain i where i: "commandIndexAt stream k = Some i"
    and s: "snapshotForResolvedDrawParam sz stream i (payloadCommandAt (ps_payload (es_source stream)) (unat i)) d =
      Some (snap, entry)"
    using assms(3) by (auto simp: snapshotForDrawParam_def split: if_splits option.splits)
  note r = snapshot_resolves [OF assms(1,2) s]
  then have e: "resolveEncodePartitionEntry sz snap [es_source stream] = Inr entry" by blast
  show ?thesis using r i resolve_entry_record(1,4) [OF e] by (simp add: commandOf_def)
qed

theorem locator_resolves_to_its_draw_witness:
  "\<exists>snap entry. resolveEncodePartitionEntry demo_sizes snap [es_source demo_stream] = Inr entry \<and>
     pe_drawParamIndex snap = 41"
proof -
  have "snapshotForDrawParam demo_sizes demo_stream 0 41 \<noteq> None" by code_simp
  then obtain snap entry where "snapshotForDrawParam demo_sizes demo_stream 0 41 = Some (snap, entry)" by auto
  from locator_resolves_to_its_draw [OF demo_stream_made demo_valid(1) this] show ?thesis by blast
qed

section \<open>Plans\<close>

text \<open>
  C5: The validator of partition plans is exact. It accepts a list of ranges exactly when the stream is
  valid and within 32 bits, every range is well-formed (a segment is not empty, carries no draws and ends
  inside the stream; a draw range resolves), and the ranges stand, one after the other, for every
  draw and every other command of the stream once and in order.
\<close>

theorem partition_validator_exact:
  "vr_validation (validateEncodePartitionRanges sz rgs stream) = RvValid \<longleftrightarrow> es_valid stream \<and>
     replayOrdinalCount stream \<le> UINT32_MAX \<and> (\<forall>rg \<in> set rgs. wellFormed sz stream rg) \<and>
     concat (map (rangeWork stream) rgs) = workFrom stream 0 (replayOrdinalCount stream)"
  by (rule validate_iff)

lemma subdivide_failure:
  "subdivideRun sz stream k draws bytes rec b sub storage = Inl reason \<Longrightarrow> reason \<noteq> PfValidationFailed"
proof (induction sz stream k draws bytes rec b sub storage rule: subdivideRun.induct)
  case (1 sz stream k draws bytes rec b sub storage)
  let ?e = "findMergePreservingPartitionEdge draws bytes b"
  note u = 1(2) [unfolded subdivideRun.simps [of sz stream k draws bytes rec b]]
  have c: "\<not> length draws - b < 64" "?e \<noteq> length draws" using u by (auto split: if_splits)
  show ?case
  proof (cases "appendDrawRange sz stream k draws rec b ?e storage")
    case (Some storage')
    then show ?thesis using 1(1) [OF c(1) refl c(2) Some] u c by simp
  qed (use u c in \<open>auto simp: appendFailure_def split: if_splits\<close>)
qed

lemma plan_step_outcome:
  assumes "\<not> pp_explicitPlan (pst_result st)"
  shows "planOrdinal sz stream k st = Inl r \<Longrightarrow> \<not> pp_explicitPlan r \<and> pp_fallback r \<noteq> PfValidationFailed"
    and "planOrdinal sz stream k st = Inr st' \<Longrightarrow> \<not> pp_explicitPlan (pst_result st')"
  using assms subdivide_failure
  by (auto simp: planOrdinal_def planWhole_def planRun_def failPlan_def appendFailure_def
      split: option.splits sum.splits if_splits prod.splits)

lemma plan_outcome:
  assumes "\<not> pp_explicitPlan (pst_result st)"
  shows "case planOrdinals sz stream ks st of
      Inl r \<Rightarrow> \<not> pp_explicitPlan r \<and> pp_fallback r \<noteq> PfValidationFailed
    | Inr st' \<Rightarrow> \<not> pp_explicitPlan (pst_result st')"
  using assms
proof (induction ks arbitrary: st)
  case (Cons k ks)
  then show ?case using plan_step_outcome [OF Cons.prems, of sz stream k]
    by (cases "planOrdinal sz stream k st") auto
qed simp

lemma countRange_explicit:
  "pp_explicitPlan (fold countRange rgs r) = pp_explicitPlan r \<and> pp_fallback (fold countRange rgs r) = pp_fallback r"
  by (induction rgs arbitrary: r) (auto simp: countRange_def)

lemma planned_plan:
  assumes made: "stream_made stream" "es_valid stream"
    and s: "planOrdinals sz stream [0..<replayOrdinalCount stream]
      \<lparr>pst_storage = [], pst_sawEligibleDrawRun = False, pst_result = default_plan_result\<rparr> = Inr st"
  shows "planned sz stream (workFrom stream 0 (replayOrdinalCount stream)) (emissionFrom stream 0 (replayOrdinalCount stream))
    (pst_storage st)"
  by (rule plan_ordinals [OF made _ refl _ s]) (simp_all add: planned_def workFrom_def emissionFrom_def)

text \<open>The outcomes of the planner.\<close>

lemma ep_planner_cases:
  assumes made: "stream_made stream" "es_valid stream"
  obtains r where "planProductionEncodePartitions sz stream = (r, [])" "\<not> pp_explicitPlan r"
    "pp_fallback r \<noteq> PfValidationFailed"
  | r storage where "planProductionEncodePartitions sz stream = (r, [])" "\<not> pp_explicitPlan r"
    "planned sz stream (workFrom stream 0 (replayOrdinalCount stream)) (emissionFrom stream 0 (replayOrdinalCount stream)) storage"
    "vr_validation (validateEncodePartitionRanges sz storage stream) \<noteq> RvValid"
  | r storage where "planProductionEncodePartitions sz stream = (r, storage)" "pp_explicitPlan r" "pp_fallback r = PfNone"
    "planned sz stream (workFrom stream 0 (replayOrdinalCount stream)) (emissionFrom stream 0 (replayOrdinalCount stream)) storage"
    "vr_validation (validateEncodePartitionRanges sz storage stream) = RvValid"
    "pp_rangeCount r = of_nat (length storage)"
proof -
  let ?st = "\<lparr>pst_storage = [], pst_sawEligibleDrawRun = False, pst_result = default_plan_result\<rparr> :: PlanState"
  have u: "planProductionEncodePartitions sz stream =
      (case planOrdinals sz stream [0..<replayOrdinalCount stream] ?st of
        Inl r \<Rightarrow> (r, [])
      | Inr st \<Rightarrow>
        if pp_subdividedDrawRunCount (pst_result st) = 0
        then ((pst_result st)\<lparr>pp_fallback := (if pst_sawEligibleDrawRun st then PfMergePreservation
                else PfNoEligibleDrawRun)\<rparr>, [])
        else
          let validation = validateEncodePartitionRanges sz (pst_storage st) stream in
          if vr_validation validation \<noteq> RvValid
          then (failPlan PfValidationFailed (vr_validation validation) (pst_result st), [])
          else ((fold countRange (pst_storage st) (pst_result st))
                  \<lparr>pp_fallback := PfNone, pp_rangeCount := of_nat (length (pst_storage st)),
                    pp_explicitPlan := True\<rparr>, pst_storage st))"
    using made(2) made_valid(1) [OF made] by (simp add: planProductionEncodePartitions_def)
  have d: "\<not> pp_explicitPlan (pst_result ?st)" by (simp add: default_plan_result_def)
  note o = plan_outcome [OF d, of sz stream "[0..<replayOrdinalCount stream]"]
  show ?thesis
  proof (cases "planOrdinals sz stream [0..<replayOrdinalCount stream] ?st")
    case (Inl r)
    then show ?thesis using that(1) u o by simp
  next
    case (Inr st)
    note p = planned_plan [OF made Inr]
    have e: "\<not> pp_explicitPlan (pst_result st)" using o Inr by simp
    show ?thesis
    proof (cases "pp_subdividedDrawRunCount (pst_result st) = 0")
      case True
      show ?thesis
        by (rule that(1) [of "(pst_result st)\<lparr>pp_fallback := (if pst_sawEligibleDrawRun st then PfMergePreservation
            else PfNoEligibleDrawRun)\<rparr>"]) (use u Inr True e in \<open>simp_all split: if_splits\<close>)
    next
      case False
      show ?thesis
      proof (cases "vr_validation (validateEncodePartitionRanges sz (pst_storage st) stream) = RvValid")
        case True
        show ?thesis by (rule that(3) [OF _ _ _ p True]) (use u Inr True False in auto)
      next
        case bad: False
        show ?thesis
          by (rule that(2) [OF _ _ p bad, of "failPlan PfValidationFailed
              (vr_validation (validateEncodePartitionRanges sz (pst_storage st) stream)) (pst_result st)"])
            (use u Inr bad False e in \<open>simp_all add: failPlan_def\<close>)
      qed
    qed
  qed
qed

text \<open>
  C4: Encoding a production plan gives the draws of the whole commands. When the planner makes an explicit plan
  for a valid stream, merging and encoding its ranges one by one gives, command by command and in replay
  order, exactly the list of draws that merging and encoding the uncut commands gives: no merge is lost and
  none is added. The plan passes the validator, has at most 256 ranges, and no piece is shorter
  than 16 draws. Without an explicit plan the storage is empty.
\<close>

theorem production_plan_preserves_draws:
  assumes "stream_made stream" and "es_valid stream" and "planProductionEncodePartitions sz stream = (r, plan)"
  shows "(pp_explicitPlan r \<longrightarrow>
      concat (map (rangeEmission stream) plan) = emissionFrom stream 0 (replayOrdinalCount stream) \<and>
      vr_validation (validateEncodePartitionRanges sz plan stream) = RvValid \<and>
      length plan \<le> kProductionPartitionRangeCapacity \<and> pp_rangeCount r = of_nat (length plan) \<and>
      (\<forall>rg \<in> set plan. er_kind rg = DrawRunEntries \<longrightarrow> kProductionPartitionMinimumDraws \<le> unat (er_drawEntryCount rg))) \<and>
    (\<not> pp_explicitPlan r \<longrightarrow> plan = [])"
  by (rule ep_planner_cases [OF assms(1,2), of sz]) (use assms(3) in \<open>auto simp: planned_def\<close>)

lemma demo_plan_valid: "vr_validation (validateEncodePartitionRanges demo_sizes (snd demo_plan) demo_stream) = RvValid"
  by (rule ep_planner_cases [OF demo_stream_made demo_valid(1), of demo_sizes])
    (use demo_planned in \<open>auto simp: demo_plan_def\<close>)

theorem partition_validator_exact_witness:
  "concat (map (rangeWork demo_stream) (snd demo_plan)) = workFrom demo_stream 0 2"
  using partition_validator_exact [of demo_sizes "snd demo_plan" demo_stream] demo_plan_valid demo_valid(2) by simp

theorem production_plan_preserves_draws_witness:
  "concat (map (rangeEmission demo_stream) (snd demo_plan)) = emissionFrom demo_stream 0 2 \<and> length (snd demo_plan) \<le> 256"
  using production_plan_preserves_draws [OF demo_stream_made demo_valid(1), of demo_sizes "fst demo_plan" "snd demo_plan"]
    demo_planned demo_valid(2) by (simp add: demo_plan_def)

text \<open>
  C7: Ranges are well-formed. For a valid stream whose runs end within 32 bits, the planner's final
  validation never fails, every range of its plan is well-formed, and so is every range the identity
  cursor hands out: its draw ranges resolve.
\<close>

theorem ranges_are_well_formed:
  assumes "stream_made stream" and "es_valid stream" and "small_runs stream"
  shows "pp_fallback (fst (planProductionEncodePartitions sz stream)) \<noteq> PfValidationFailed \<and>
    (\<forall>rg \<in> set (snd (planProductionEncodePartitions sz stream)). wellFormed sz stream rg) \<and>
    (\<forall>bs. serialBatches (replayOrdinalCount stream + 1) sz stream (newSerialCursor rgs False) = Some bs \<longrightarrow>
      (\<forall>b \<in> set bs. \<forall>rg \<in> set (sb_ranges b). wellFormed sz stream rg))"
proof -
  have valid: "vr_validation (validateEncodePartitionRanges sz storage stream) = RvValid"
    if "planned sz stream (workFrom stream 0 (replayOrdinalCount stream)) em storage" for em storage
    using that assms made_valid(1) [OF assms(1,2)] by (simp add: validate_iff planned_def)
  have "identity_ok sz stream newIdentityCursor" by (simp add: identity_ok_def newIdentityCursor_def)
  from identity_batches [OF assms(1,2) this, of "replayOrdinalCount stream + 1" rgs 0]
  have b: "\<forall>bs. serialBatches (replayOrdinalCount stream + 1) sz stream (newSerialCursor rgs False) = Some bs \<longrightarrow>
      (\<forall>b \<in> set bs. \<forall>rg \<in> set (sb_ranges b). wellFormed sz stream rg)"
    using assms(3) by (auto simp: newSerialCursor_def newIdentityCursor_def)
  show ?thesis
  proof (rule ep_planner_cases [OF assms(1,2), of sz], goal_cases)
    case (1 r) then show ?case using b by simp
  next
    case (2 r storage) then show ?case using valid by blast
  next
    case (3 r storage) then show ?case using b assms(3) by (simp add: planned_def)
  qed
qed

lemma runOf_bound: "runOf stream k = Some rec \<Longrightarrow> k < replayOrdinalCount stream"
  using commandIndexAt_bound [of stream k] by (cases "commandIndexAt stream k") (simp_all add: runOf_def commandOf_def)

lemma demo_runs: "runOf demo_stream 0 = Some demo_run" "runOf demo_stream 1 = None"
  by code_simp+

lemma demo_run_end: "runEnd demo_run \<le> UINT32_MAX"
  by code_simp

lemma demo_small_runs: "small_runs demo_stream"
proof -
  note r = demo_runs demo_run_end
  have "k = 0 \<or> k = 1" if "runOf demo_stream k = Some rec" for k rec
    using runOf_bound [OF that] unfolding demo_valid(2) by linarith
  then have "rec = demo_run" if "runOf demo_stream k = Some rec" for k rec using r(1,2) that by fastforce
  then show ?thesis unfolding small_runs_def using r(3) by blast
qed

theorem ranges_are_well_formed_witness:
  "length (snd demo_plan) = 3 \<and> wellFormed demo_sizes demo_stream (snd demo_plan ! 0) \<and>
   wellFormed demo_sizes demo_stream (snd demo_plan ! 1) \<and> wellFormed demo_sizes demo_stream (snd demo_plan ! 2)"
proof -
  have n: "length (snd demo_plan) = 3"
    using arg_cong [where f = length, OF demo_planned [THEN conjunct2]] by simp
  then have m: "snd demo_plan ! i \<in> set (snd demo_plan)" if "i < 3" for i using that by simp
  have "wellFormed demo_sizes demo_stream (snd demo_plan ! i)" if "i < 3" for i
    using ranges_are_well_formed [OF demo_stream_made demo_valid(1) demo_small_runs, of demo_sizes] m [OF that]
    by (simp add: demo_plan_def)
  then show ?thesis using n by simp
qed

section \<open>Cursors\<close>

text \<open>
  C6: The serial cursor visits every replay ordinal once. With or without an explicit plan that passed the
  validator, a loop that asks for the next batch ends after at most one call per replay ordinal and a last one;
  the batches cover the ordinals in order, each in one batch, and their ranges stand for all the work of the
  stream. An explicit plan is handed out unchanged, the ranges of one draw run in one batch.
\<close>

theorem serial_cursor_visits_once:
  assumes "stream_made stream" and "es_valid stream"
    and "explicit \<Longrightarrow> vr_validation (validateEncodePartitionRanges sz rgs stream) = RvValid"
  shows "\<exists>bs. serialBatches (replayOrdinalCount stream + 1) sz stream (newSerialCursor rgs explicit) = Some bs \<and>
    concat (map batchOrdinals bs) = [0..<replayOrdinalCount stream] \<and>
    batchWork stream bs = workFrom stream 0 (replayOrdinalCount stream) \<and>
    (explicit \<longrightarrow> concat (map sb_ranges bs) = rgs)"
proof (cases explicit)
  case True
  note v = assms(3) [OF True]
  then obtain c where c: "coverRanges sz stream 0 rgs start_coverage = Inr c" "remaining stream c = []"
    by (auto simp: validate_valid)
  have s: "\<not> cv_drawRunIncomplete start_coverage" "unat (cv_expectedOrdinal start_coverage) = 0"
    by (simp_all add: start_coverage_def)
  have w: "concat (map (rangeWork stream) rgs) = workFrom stream 0 (replayOrdinalCount stream)"
    using v by (simp add: validate_iff)
  have "\<exists>bs. serialBatches (replayOrdinalCount stream + 1) sz stream \<lparr>sl_explicitRanges = rgs, sl_explicitIndex = 0,
        sl_useExplicitPlan = True, sl_identityCursor = newIdentityCursor\<rparr> = Some bs \<and>
      concat (map batchOrdinals bs) = [unat (cv_expectedOrdinal start_coverage)..<replayOrdinalCount stream] \<and>
      concat (map sb_ranges bs) = drop 0 rgs"
    by (rule explicit_batches [OF made_valid(1) [OF assms(1,2)] _ c(2) start_coverage_ok(1) s(1)]) (use c(1) s in simp_all)
  then obtain bs where b: "serialBatches (replayOrdinalCount stream + 1) sz stream (newSerialCursor rgs True) = Some bs"
    "concat (map batchOrdinals bs) = [0..<replayOrdinalCount stream]" "concat (map sb_ranges bs) = rgs"
    unfolding s(2) by (auto simp: newSerialCursor_def)
  moreover have "batchWork stream bs = workFrom stream 0 (replayOrdinalCount stream)"
    using b(3) w by (simp add: batchWork_def)
  ultimately show ?thesis by (intro exI [of _ bs]) (simp add: True)
next
  case False
  have "identity_ok sz stream newIdentityCursor" by (simp add: identity_ok_def newIdentityCursor_def)
  from identity_batches [OF assms(1,2) this, of "replayOrdinalCount stream + 1" rgs 0] False
  show ?thesis by (auto simp: newSerialCursor_def newIdentityCursor_def)
qed

theorem serial_cursor_visits_once_witness:
  "\<exists>bs. serialBatches 3 demo_sizes demo_stream (newSerialCursor (snd demo_plan) True) = Some bs \<and>
     concat (map batchOrdinals bs) = [0, 1] \<and> concat (map sb_ranges bs) = snd demo_plan"
proof -
  have "[0..<2] = [0, 1::nat]" by code_simp
  then show ?thesis
    using serial_cursor_visits_once [OF demo_stream_made demo_valid(1), of True demo_sizes "snd demo_plan"]
      demo_plan_valid demo_valid(2)
    by (simp add: del: upt_Suc upt_rec_numeral) blast
qed

end
