(* ===== verification/Spec2Isabelle.thy ===== *)
theory Spec2Isabelle
  imports Fg_Optimizer Fg_Dce_Limits Fg_Seed Fg_Multi_Plan Fg_Multi_Runs Fg_Deferred_Correct
    Fg_Coalesce_Example Q_Ring_Arena Q_Closed_Prefix Q_Direct_Theorems Q_Completion_Theorems Ep_Theorems
begin

text \<open>
  A model of the frame-graph planner of dxmt9, a Direct3D 9 implementation over Metal, and of the
  protocols by which its command queue hands memory and resources from one thread to the next.

  The program. The Direct3D 9 front end (\<^verbatim>\<open>src/src/d3d9\<close>) turns API calls into source payloads:
  immutable lists of draw runs, clears, copies, resolves and presents. A command queue
  (\<^verbatim>\<open>src/src/dxmt9\<close>) retains the payloads and hands them to an encoder thread. Between the two
  sits the frame graph (\<^verbatim>\<open>src/src/dxmt9/framegraph\<close>), which is modelled here: it groups commands into
  render, blit and present passes, infers from the resources they touch which passes depend on one
  another, merges and reorders passes to save render-target loads and stores, drops passes
  nobody observes, and gives the encoder a new replay order. It is the part of the program that
  decides in which order the commands of an application take effect, so what has to be right is
  that the new order computes what the submission order computes.

  Parts and theories.

  \<^item> \<open>Dx_Prelude\<close>: machine integers, slices of vectors, the order of elements in a list, and the
    interface \<open>commuting_steps\<close>: if independent steps commute, then two orders of the same steps that
    agree on all dependent pairs have the same result.
  \<^item> \<open>Fg_Dag\<close> (\<^verbatim>\<open>fg_dag.hpp\<close>, the payload views): one record per struct, one datatype per enum. A
    \<^verbatim>\<open>std::vector\<close> is a list, a pointer that may be null an option, a handle a 64-bit word.
  \<^item> \<open>Fg_Builder\<close> (\<^verbatim>\<open>fg_builder.cpp\<close>): \<open>Builder\<close> is the state of the class of that name; every
    member function is a state transformer with its name; \<open>buildFrameGraph\<close> folds \<open>handleCommand\<close> over
    the payload. \<open>Fg_Hazards\<close> proves the edge inference right for one resource log,
    \<open>Fg_Builder_Inv\<close> and \<open>Fg_Builder_Correct\<close> the invariant \<open>built\<close> of the whole walk (tilings of the
    command and draw vectors, one hazard-complete log per resource), \<open>Fg_Builder_Theorems\<close> the properties.
  \<^item> \<open>Fg_Reach\<close>, \<open>Fg_Order\<close>: edge paths between passes and the predicate \<open>hazard_ok\<close> (edges point
    forward, and dependent commands lie in passes joined by a path, in order), with the lemma
    \<open>ordered_remap\<close> that every transformation of the pass list is an instance of.
  \<^item> \<open>Fg_Graph_Queries\<close>, \<open>Fg_Coalesce\<close>, \<open>Fg_Merge\<close>, \<open>Fg_Coalesce_Correct\<close>
    (\<^verbatim>\<open>fg_optimizer/passcoalesce.cpp\<close>): the reachability table and its fallback, the search for a pair
    of passes with equal targets, the merge, the fixpoint loop and all diagnostics;
    \<open>Fg_Coalesce_Example\<close> runs it on a graph whose edges it has to respect.
  \<^item> \<open>Fg_Reorder\<close> (\<^verbatim>\<open>reorder.cpp\<close>), \<open>Fg_Residency\<close> (\<^verbatim>\<open>lifetime.cpp\<close>, \<^verbatim>\<open>memoryless.cpp\<close>, \<^verbatim>\<open>dce.cpp\<close>,
    \<^verbatim>\<open>loadstore.cpp\<close>), \<open>Fg_Optimizer_State\<close> (\<^verbatim>\<open>fg_optimizer.hpp\<close>): the other optimizer passes.
  \<^item> \<open>Fg_Linearizer\<close> (\<^verbatim>\<open>fg_linearizer.cpp\<close>): the operation plan and the replay plan of a graph.
  \<^item> \<open>Fg_Optimizer\<close> (\<^verbatim>\<open>fg_optimizer.cpp\<close>): the pipeline, and the end-to-end theorem; \<open>Fg_Dce_Limits\<close> shows
    by an example where it stops: dead-pass elimination.
  \<^item> \<open>Fg_Seed\<close> (\<^verbatim>\<open>fg_builder.cpp\<close>): the virtual pass for the render pass the encoder has open.
  \<^item> \<open>Fg_Multi_Source\<close>, \<open>Fg_Multi_Planner\<close> (\<^verbatim>\<open>fg_multi_source_planner.cpp\<close>): planning over a window of up
    to eight payloads. \<open>Fg_Multi_Validate\<close> proves the permutation validator exact, \<open>Fg_Multi_Combine\<close>
    and \<open>Fg_Multi_Join\<close> that the joined graph is the graph of the joined payload, \<open>Fg_Multi_Plan\<close>
    that every plan computes what the natural order computes, \<open>Fg_Multi_Runs\<close> that the runs of a plan
    expand to it.
  \<^item> \<open>Fg_Deferred_Suffix\<close>, \<open>Fg_Deferred_Correct\<close> (same file): the four-command deferred suffix.
  \<^item> \<open>Dx_Words\<close>: the facts on 64-bit words that the queue's theories share.
  \<^item> \<open>Q_Ring_Arena\<close> (\<^verbatim>\<open>dxmt9_ring_arena.hpp\<close>): the transient ring buffer of the encoder: allocation with
    wrap-around, oversize fallback, and reclamation by completed sequence number. Its invariant
    survives requests of every size and alignment, those whose aligned size wraps included.
  \<^item> \<open>Q_Session_Release\<close> (\<^verbatim>\<open>dxmt9_session_release.hpp\<close>, \<^verbatim>\<open>.cpp\<close>): the transport by which the encoder
    asks the session's owner to release it, a ring of receipts and a terminal latch. \<open>Q_Fifo\<close> is the
    interface of a queue whose front stays until it is served; \<open>Q_Release_Correct\<close> interprets it on the
    code's ring, and has the invariant of every run and its theorems.
  \<^item> \<open>Q_Closed_Prefix\<close> (\<^verbatim>\<open>dxmt9_closed_prefix.hpp\<close>): the coordinator that lets the release receipts of
    several consumers of one source through once, on top of that transport.

  \<^item> \<open>Q_Direct_Ledger\<close> (\<^verbatim>\<open>dxmt9_direct_source_lifecycle.hpp\<close>): the reducer that accounts for every source on
    its way from admission to reclamation: 256 rows, the frontiers of imported, published and
    reclaimed work, and the credits each row holds. \<open>Q_Direct_Correct\<close> has the invariant \<open>ledger_ok\<close> and shows
    that every event keeps it, \<open>Q_Direct_Runs\<close> the runs and the protocol one source follows,
    \<open>Q_Direct_Theorems\<close> the properties.
  \<^item> \<open>Q_Completion\<close> (\<^verbatim>\<open>dxmt9_post_encode_retirement.hpp\<close>, \<^verbatim>\<open>dxmt9_arena_group_identity.hpp\<close>): the ledger of
    receipts by which the completion handler of the GPU retires a source, and the accumulator of completion
    spans. \<open>Q_Completion_Correct\<close> maps the ledger to a map from live receipts to their state and has the
    abstract operations, \<open>Q_Completion_Runs\<close> the runs with the history of what was issued, taken and
    finished, \<open>Q_Completion_Theorems\<close> the properties.

  \<^item> \<open>Ep_Draw_Merge\<close> (\<^verbatim>\<open>dxmt9_draw_encoder_internal.hpp\<close>, \<^verbatim>\<open>core_snapshots.hpp\<close>): the merge of neighbouring
    indexed draws, with the proof that a run cut where the classifier refuses a pair merges piecewise.
    \<open>Ep_Partition\<close>, \<open>Ep_Planner\<close>, \<open>Ep_Cursor\<close> (\<^verbatim>\<open>dxmt9_encode_partition.hpp\<close>, \<^verbatim>\<open>.cpp\<close>): the effective replay
    stream of a source, the locators of its draws, the validator of a plan of ranges, the production planner
    and the cursors the encoder walks. \<open>Ep_Cover\<close> says what a range stands for and proves the validator exact,
    \<open>Ep_Stream\<close> has the valid streams and the round trip of a locator, \<open>Ep_Plan_Correct\<close> what the
    planner keeps true, \<open>Ep_Walk\<close> the cursors, \<open>Ep_Theorems\<close> the properties. This is where the order that the
    frame graph chose becomes the draws that are encoded.

  Meaning of "the same result". A command's footprint (\<open>footprint\<close>) is what the builder logs for it. A
  memory maps resource handles to contents; \<open>run_command\<close> replaces what the footprint writes by an
  arbitrary function of what it touches. The refinement theorems hold for every such function.

  Bounds and fuel. Indices are natural numbers, and every \<^verbatim>\<open>static_cast<u32>\<close> is written as \<open>as_u32\<close>. The
  theorems assume fewer than \<open>2 ^ 32\<close> commands (minus one or two for the pass of the seed), the range in
  which the code's own 32-bit indices are exact. The graph walk of \<open>reaches\<close> takes fuel, the number of passes
  plus one, and \<open>Fg_Graph_Queries\<close> proves it equal to reachability; the coalescing loop runs at most as
  often as the code's guard allows, and \<open>coalesce_reaches_fixpoint\<close> proves that this suffices. In the queue's
  theories sequence numbers, offsets and counters are 64-bit words, and their wrap-around is in the model;
  the ring arena's theorems assume a capacity of at most \<open>2 ^ 62\<close> bytes, and that the requests they speak of do
  not wrap in \<open>alignUp\<close> (\<open>ring_oversize_wraps\<close> shows what a wrapping one gets), and the
  release transport holds 33 requests, the 32 entries of its ring and the latch. The lifecycle ledger has 256
  rows and the receipt ledger 1024 slots; a receipt slot's generation comes around after \<open>2 ^ 64 - 1\<close>
  releases, and the theorems on receipts assume fewer. A partition plan has at most 256 ranges; the fuel of
  \<open>serialBatches\<close> is one more than the number of replay ordinals, and \<open>serial_cursor_visits_once\<close> proves it enough; the
  edge search runs at most as often as the code's radius. The planner's final validation cannot fail when the
  runs of a source end within 32 bits (\<open>small_runs\<close>).

  Not modelled. The D3D9 objects, the queue's threads and locks, Metal itself, the shader translators,
  counters and debug dumps, the parallel render passes and the slot tables of the queue;
  \<^verbatim>\<open>executeLinearization\<close> and the draw encoder beyond its merge, which drive Metal; the capture observer at the
  end of the multi-source planner; and the sinks that forward a lifecycle event. The alias resolver, the
  allocation outcome of the reachability table and the sizes of the two binding records are arguments of the
  definitions that use them.
\<close>

end
